(* ===== verification/Prelude.thy ===== *)
theory Prelude
  imports Main "HOL-Library.Word" "HOL-Library.Signed_Division"
begin

text \<open>
  Shared vocabulary of the development.

  \<^item> The machine integers of the C code as words, and the C conversions between them:
    a conversion to a narrower or equally wide unsigned type is \<^const>\<open>ucast\<close>, a conversion
    from a signed type is \<^const>\<open>scast\<close>.
  \<^item> The linear memory of a wasm32 process: 32-bit addresses, bytes, little-endian accesses.
  \<^item> Bit-level lemmas on words and the collections \<open>bitfield\<close> and \<open>memory\<close> that the component
    theories pass to the simplifier.
\<close>

unbundle bit_operations_syntax

named_theorems bitfield \<open>bit-level characterisations of the bit-field operations\<close>
named_theorems memory \<open>reads over writes in the linear memory\<close>

section \<open>Machine integers\<close>

type_synonym u8 = "8 word"
type_synonym u16 = "16 word"
type_synonym u32 = "32 word"
type_synonym u64 = "64 word"

lemma unat_less_2p: "unat (w :: 'a::len word) < 2 ^ LENGTH('a)"
  by (rule unsigned_less)

text \<open>C's \<open>bool\<close> and comparison results converted to an integer type.\<close>

definition of_bool_word :: "bool \<Rightarrow> 'a::len word" where
  "of_bool_word b = (if b then 1 else 0)"

lemma of_bool_word_simps [simp]:
  "of_bool_word True = 1" "of_bool_word False = 0"
  by (simp_all add: of_bool_word_def)

lemma of_bool_word_eq_0 [simp]: "(of_bool_word b :: 'a::len word) = 0 \<longleftrightarrow> \<not> b"
  by (simp add: of_bool_word_def)

text \<open>Two's complement reading of a 32-bit word: the C \<open>int32_t\<close> of the same bits.\<close>

abbreviation s32 :: "u32 \<Rightarrow> int" where
  "s32 w \<equiv> sint w"

abbreviation s64 :: "u64 \<Rightarrow> int" where
  "s64 w \<equiv> sint w"

lemma sint_uint_cases:
  "sint (w :: 'a::len word) =
     (if uint w < 2 ^ (LENGTH('a) - 1) then uint w else uint w - 2 ^ LENGTH('a))"
proof -
  obtain n where n: "LENGTH('a) = Suc n" using gr0_implies_Suc [OF len_gt_0] by blast
  have b: "0 \<le> uint w" "uint w < 2 * 2 ^ n" using uint_lt2p [of w] by (simp_all add: n)
  have "uint w div 2 ^ n = (if uint w < 2 ^ n then 0 else 1)"
  proof (cases "uint w < 2 ^ n")
    case False
    then have "uint w = 2 ^ n + (uint w - 2 ^ n)" "0 \<le> uint w - 2 ^ n" "uint w - 2 ^ n < 2 ^ n"
      using b by auto
    then show ?thesis using False
      by (metis div_add_self1 div_pos_pos_trivial add_0 power_eq_0_iff zero_neq_numeral)
  qed (use b in simp)
  then have "bit (uint w) n \<longleftrightarrow> \<not> uint w < 2 ^ n"
    by (simp add: bit_iff_odd)
  with b show ?thesis
    by (simp add: sint_uint n signed_take_bit_eq_take_bit_minus take_bit_int_eq_self)
qed

lemma sint_eq_sint_iff: "sint (a :: 'a::len word) = sint b \<longleftrightarrow> a = b"
  by (auto intro: signed_word_eqI)

section \<open>Linear memory\<close>

type_synonym memory = "u32 \<Rightarrow> u8"

text \<open>Little-endian accesses of \<open>n\<close> bytes, as numbers.\<close>

primrec load_nat :: "memory \<Rightarrow> u32 \<Rightarrow> nat \<Rightarrow> nat" where
  "load_nat m a 0 = 0"
| "load_nat m a (Suc n) = unat (m a) + 256 * load_nat m (a + 1) n"

primrec store_nat :: "memory \<Rightarrow> u32 \<Rightarrow> nat \<Rightarrow> nat \<Rightarrow> memory" where
  "store_nat m a 0 v = m"
| "store_nat m a (Suc n) v = store_nat (m(a := of_nat v)) (a + 1) n (v div 256)"

definition load8 :: "memory \<Rightarrow> u32 \<Rightarrow> u8" where
  "load8 m a = m a"

definition load16 :: "memory \<Rightarrow> u32 \<Rightarrow> u16" where
  "load16 m a = of_nat (load_nat m a 2)"

definition load32 :: "memory \<Rightarrow> u32 \<Rightarrow> u32" where
  "load32 m a = of_nat (load_nat m a 4)"

definition load64 :: "memory \<Rightarrow> u32 \<Rightarrow> u64" where
  "load64 m a = of_nat (load_nat m a 8)"

definition store8 :: "memory \<Rightarrow> u32 \<Rightarrow> u8 \<Rightarrow> memory" where
  "store8 m a v = m(a := v)"

definition store16 :: "memory \<Rightarrow> u32 \<Rightarrow> u16 \<Rightarrow> memory" where
  "store16 m a v = store_nat m a 2 (unat v)"

definition store32 :: "memory \<Rightarrow> u32 \<Rightarrow> u32 \<Rightarrow> memory" where
  "store32 m a v = store_nat m a 4 (unat v)"

definition store64 :: "memory \<Rightarrow> u32 \<Rightarrow> u64 \<Rightarrow> memory" where
  "store64 m a v = store_nat m a 8 (unat v)"

subsection \<open>Reads over writes\<close>

lemma load_nat_bound: "load_nat m a n < 256 ^ n"
proof (induction n arbitrary: a)
  case (Suc n)
  have "unat (m a) < 256"
    using unat_less_2p [of "m a"] by simp
  moreover have "256 * Suc (load_nat m (a + 1) n) \<le> 256 * 256 ^ n"
    using Suc.IH [of "a + 1"] by (intro mult_le_mono2) simp
  ultimately show ?case by simp
qed simp

lemma load_nat_cong:
  assumes "\<And>i. i < n \<Longrightarrow> m (a + of_nat i) = m' (a + of_nat i)"
  shows "load_nat m a n = load_nat m' a n"
  using assms
proof (induction n arbitrary: a)
  case (Suc n)
  have "m a = m' a"
    using Suc.prems [of 0] by simp
  moreover have "load_nat m (a + 1) n = load_nat m' (a + 1) n"
  proof (rule Suc.IH)
    fix i assume "i < n"
    then show "m (a + 1 + of_nat i) = m' (a + 1 + of_nat i)"
      using Suc.prems [of "Suc i"] by (simp add: algebra_simps)
  qed
  ultimately show ?case by simp
qed simp

lemma store_nat_other:
  assumes "\<And>i. i < n \<Longrightarrow> b \<noteq> a + of_nat i"
  shows "store_nat m a n v b = m b"
  using assms
proof (induction n arbitrary: m a v)
  case (Suc n)
  have "b \<noteq> a"
    using Suc.prems [of 0] by simp
  moreover have "store_nat (m(a := of_nat v)) (a + 1) n (v div 256) b = (m(a := of_nat v)) b"
  proof (rule Suc.IH)
    fix i assume "i < n"
    then show "b \<noteq> a + 1 + of_nat i"
      using Suc.prems [of "Suc i"] by (simp add: algebra_simps)
  qed
  ultimately show ?case by simp
qed simp

lemma of_nat_offset_neq:
  fixes a :: "'a::len word"
  assumes "0 < i" "i < 2 ^ LENGTH('a)"
  shows "a \<noteq> a + of_nat i"
proof
  assume "a = a + of_nat i"
  then have "(of_nat i :: 'a word) = 0"
    by simp
  then have "i mod 2 ^ LENGTH('a) = 0"
    by (simp add: word_of_nat_eq_0_iff dvd_eq_mod_eq_0)
  with assms show False by simp
qed

lemma load_nat_store_nat:
  assumes "n \<le> 2 ^ 32"
  shows "load_nat (store_nat m a n v) a n = v mod 256 ^ n"
  using assms
proof (induction n arbitrary: m a v)
  case (Suc n)
  have "store_nat (m(a := of_nat v)) (a + 1) n (v div 256) a = (m(a := of_nat v)) a"
  proof (rule store_nat_other)
    fix i assume "i < n"
    then show "a \<noteq> a + 1 + of_nat i"
      using of_nat_offset_neq [of "Suc i" a] Suc.prems by (simp add: add.assoc)
  qed
  then have "store_nat m a (Suc n) v a = of_nat v" by simp
  moreover have "load_nat (store_nat m a (Suc n) v) (a + 1) n = v div 256 mod 256 ^ n"
    using Suc by simp
  ultimately have "load_nat (store_nat m a (Suc n) v) a (Suc n)
      = v mod 256 + 256 * (v div 256 mod 256 ^ n)"
    by (simp add: unat_of_nat)
  also have "\<dots> = v mod (256 * 256 ^ n)"
    by (simp add: mod_mult2_eq)
  finally show ?case by simp
qed simp

text \<open>Address intervals that do not meet; the arithmetic is modulo \<open>2\<^sup>3\<^sup>2\<close>.\<close>

definition disjoint_span :: "u32 \<Rightarrow> nat \<Rightarrow> u32 \<Rightarrow> nat \<Rightarrow> bool" where
  "disjoint_span a n b k \<longleftrightarrow> (\<forall>i<n. \<forall>j<k. a + of_nat i \<noteq> b + of_nat j)"

lemma load_nat_store_nat_disjoint:
  assumes "disjoint_span b k a n"
  shows "load_nat (store_nat m a n v) b k = load_nat m b k"
  by (rule load_nat_cong, rule store_nat_other) (use assms in \<open>auto simp: disjoint_span_def\<close>)

lemma load32_store32 [memory]: "load32 (store32 m a v) a = v"
proof -
  have "load_nat (store_nat m a 4 (unat v)) a 4 = unat v mod 256 ^ 4"
    by (rule load_nat_store_nat) simp
  also have "\<dots> = unat v"
    using unat_less_2p [of v] by simp
  finally show ?thesis
    by (simp add: load32_def store32_def)
qed

lemma load64_store64 [memory]: "load64 (store64 m a v) a = v"
proof -
  have "load_nat (store_nat m a 8 (unat v)) a 8 = unat v mod 256 ^ 8"
    by (rule load_nat_store_nat) simp
  also have "\<dots> = unat v"
    using unat_less_2p [of v] by simp
  finally show ?thesis
    by (simp add: load64_def store64_def)
qed

lemma load32_store32_disjoint [memory]:
  "disjoint_span b 4 a 4 \<Longrightarrow> load32 (store32 m a v) b = load32 m b"
  by (simp add: load32_def store32_def load_nat_store_nat_disjoint)

section \<open>Halves of words, pages\<close>

lemma ucast_of_nat_64_32: "(ucast (of_nat n :: u64) :: u32) = of_nat n"
  by (simp add: unsigned_of_nat word_of_nat_eq_iff)

lemma ucast_add_64_32: "(ucast (a + b :: u64) :: u32) = ucast a + ucast b"
proof -
  have "ucast (of_nat (unat a + unat b) :: u64) = (of_nat (unat a + unat b) :: u32)"
    by (rule ucast_of_nat_64_32)
  then show ?thesis by (simp add: of_nat_unat)
qed

lemma load_nat_add:
  "load_nat m a (n + k) = load_nat m a n + 256 ^ n * load_nat m (a + of_nat n) k"
proof (induction n arbitrary: a)
  case (Suc n)
  then show ?case by (simp add: algebra_simps)
qed simp

lemma load_nat_2: "load_nat m a 2 = unat (m a) + 256 * unat (m (a + 1))"
  unfolding numeral_2_eq_2 by simp

lemma load_nat_4: "load_nat m a 4 = load_nat m a 2 + 65536 * load_nat m (a + 2) 2"
  using load_nat_add [of m a 2 2] by simp

lemma load_nat_8: "load_nat m a 8 = load_nat m a 4 + 4294967296 * load_nat m (a + 4) 4"
  using load_nat_add [of m a 4 4] by simp

lemmas load_nat_bytes = load_nat_8 load_nat_4 load_nat_2

lemma ucast_load64: "ucast (load64 m a) = load32 m a"
proof -
  have "ucast (load64 m a) = (of_nat (load_nat m a 8) :: u32)"
    unfolding load64_def by (rule ucast_of_nat_64_32)
  also have "load_nat m a 8 = load_nat m a 4 + 4294967296 * load_nat m (a + 4) 4"
    by (rule load_nat_8)
  moreover have "(4294967296 :: u32) = 0" by simp
  ultimately show ?thesis by (simp add: load32_def)
qed

lemma bit_word_of_nat: "bit (of_nat n :: 'a::len word) i \<longleftrightarrow> i < LENGTH('a) \<and> bit n i"
  by (simp add: bit_simps)

lemma page_parity:
  fixes a :: u64
  assumes "d < 2 ^ p" "p < 64" "bit (a + of_nat d) p = bit a p"
  shows "drop_bit p (a + of_nat d) = drop_bit p a"
proof -
  let ?n = "unat a + d"
  have n: "a + of_nat d = of_nat ?n" by simp
  have a: "a = of_nat (unat a)" by simp
  have "bit (of_nat ?n :: u64) p = bit (of_nat (unat a) :: u64) p" using assms(3) by simp
  then have "bit ?n p = bit (unat a) p" using assms(2) unfolding bit_word_of_nat by simp
  then have "odd (?n div 2 ^ p) = odd (unat a div 2 ^ p)" by (simp add: bit_iff_odd)
  moreover have "?n div 2 ^ p = unat a div 2 ^ p \<or> ?n div 2 ^ p = Suc (unat a div 2 ^ p)"
  proof -
    have "(unat a mod 2 ^ p + d) div 2 ^ p < 2"
      using assms(1) mod_less_divisor [of "2 ^ p" "unat a"] by (simp add: less_mult_imp_div_less del: mod_less_divisor)
    then show ?thesis using assms(1) by (simp add: div_add1_eq [of "unat a" d] less_2_cases_iff)
  qed
  ultimately have "?n div 2 ^ p = unat a div 2 ^ p" by auto
  then have "bit (drop_bit p ?n) i = bit (drop_bit p (unat a)) i" for i
    by (simp add: drop_bit_eq_div)
  then have "drop_bit p (of_nat ?n :: u64) = drop_bit p (of_nat (unat a))"
    by (intro bit_eqI) (simp only: bit_drop_bit_eq comp_apply bit_word_of_nat)
  then show ?thesis unfolding n by simp
qed

lemma page_or:
  fixes c :: u64
  assumes "take_bit k c = 0" "e < 2 ^ k" "k \<le> p" 
  shows "drop_bit p (c + of_nat e) = drop_bit p c"
proof -
  have e: "\<not> bit e i" if "k \<le> i" for i
    using assms(2) that by (metis bit_take_bit_iff not_le take_bit_nat_eq_self)
  have c: "\<not> bit c i" if "i < k" for i
    using assms(1) that by (metis bit_0_eq bit_take_bit_iff bot_apply bot_bool_def)
  have "c + of_nat e = c OR of_nat e"
    by (rule disjunctive_add) (metis bit_word_of_nat c e not_le)
  then show ?thesis
    using e assms(3) by (intro bit_eqI) (auto simp: bit_simps bit_word_of_nat)
qed

lemma take_bit_add_multiple:
  fixes a :: u64
  assumes "2 ^ k dvd d" "k \<le> 64"
  shows "take_bit k (a + of_nat d) = take_bit k a"
proof -
  have "take_bit k (a + of_nat d) = of_nat (take_bit k (unat a + d))"
    using take_bit_of_nat [of k "unat a + d", where 'a = u64] by simp
  also have "take_bit k (unat a + d) = take_bit k (unat a)"
    using assms(1) by (auto simp: take_bit_eq_mod elim!: dvdE)
  also have "(of_nat (take_bit k (unat a)) :: u64) = take_bit k a"
    using take_bit_of_nat [of k "unat a", where 'a = u64] by simp
  finally show ?thesis .
qed

end
