(* ===== verification/Bitops.thy ===== *)
theory Bitops
  imports Prelude
begin

text \<open>
  The bit-field, rotate, count and byte-swap operations that the engine's interpreter and
  code generator use: \<open>include/qemu/bitops.h\<close>, \<open>include/qemu/host-utils.h\<close> and
  \<open>include/qemu/bswap.h\<close>. The C functions assert their field bounds; the assertion is the
  predicate \<open>bitfield_ok\<close>, and callers that take the bounds from data test it.
\<close>

section \<open>Bit fields\<close>

text \<open>\<open>assert(start >= 0 && length > 0 && length <= W - start)\<close>\<close>

definition bitfield_ok :: "nat \<Rightarrow> nat \<Rightarrow> nat \<Rightarrow> bool" where
  "bitfield_ok w start len \<longleftrightarrow> 0 < len \<and> start \<le> w \<and> len \<le> w - start"

definition extract32 :: "u32 \<Rightarrow> nat \<Rightarrow> nat \<Rightarrow> u32" where
  "extract32 v start len = drop_bit start v AND drop_bit (32 - len) (- 1)"

definition extract64 :: "u64 \<Rightarrow> nat \<Rightarrow> nat \<Rightarrow> u64" where
  "extract64 v start len = drop_bit start v AND drop_bit (64 - len) (- 1)"

definition sextract32 :: "u32 \<Rightarrow> nat \<Rightarrow> nat \<Rightarrow> u32" where
  "sextract32 v start len = signed_drop_bit (32 - len) (push_bit (32 - len - start) v)"

definition sextract64 :: "u64 \<Rightarrow> nat \<Rightarrow> nat \<Rightarrow> u64" where
  "sextract64 v start len = signed_drop_bit (64 - len) (push_bit (64 - len - start) v)"

definition deposit32 :: "u32 \<Rightarrow> nat \<Rightarrow> nat \<Rightarrow> u32 \<Rightarrow> u32" where
  "deposit32 v start len fieldval =
     (let msk = push_bit start (drop_bit (32 - len) (- 1))
      in (v AND NOT msk) OR (push_bit start fieldval AND msk))"

definition deposit64 :: "u64 \<Rightarrow> nat \<Rightarrow> nat \<Rightarrow> u64 \<Rightarrow> u64" where
  "deposit64 v start len fieldval =
     (let msk = push_bit start (drop_bit (64 - len) (- 1))
      in (v AND NOT msk) OR (push_bit start fieldval AND msk))"

section \<open>Rotations\<close>

text \<open>The shift counts are \<open>unsigned int\<close>: \<open>-shift & 31\<close> is taken on 32-bit words.\<close>

definition rol32 :: "u32 \<Rightarrow> u32 \<Rightarrow> u32" where
  "rol32 w shift = push_bit (unat (shift AND 31)) w OR drop_bit (unat (- shift AND 31)) w"

definition ror32 :: "u32 \<Rightarrow> u32 \<Rightarrow> u32" where
  "ror32 w shift = drop_bit (unat (shift AND 31)) w OR push_bit (unat (- shift AND 31)) w"

definition rol64 :: "u64 \<Rightarrow> u32 \<Rightarrow> u64" where
  "rol64 w shift = push_bit (unat (shift AND 63)) w OR drop_bit (unat (- shift AND 63)) w"

definition ror64 :: "u64 \<Rightarrow> u32 \<Rightarrow> u64" where
  "ror64 w shift = drop_bit (unat (shift AND 63)) w OR push_bit (unat (- shift AND 63)) w"

section \<open>Counting bits and swapping bytes\<close>

text \<open>The compiler builtins behind \<open>clz32\<close>, \<open>ctz32\<close>, \<open>ctpop32\<close> and their 64-bit versions.\<close>

fun clz_bits :: "bool list \<Rightarrow> nat" where
  "clz_bits [] = 0"
| "clz_bits (b # bs) = (if b then 0 else Suc (clz_bits bs))"

definition word_bits :: "'a::len word \<Rightarrow> bool list" where
  "word_bits w = map (bit w) [0..<LENGTH('a)]"

definition ctz_word :: "'a::len word \<Rightarrow> nat" where
  "ctz_word w = clz_bits (word_bits w)"

definition clz_word :: "'a::len word \<Rightarrow> nat" where
  "clz_word w = clz_bits (rev (word_bits w))"

definition ctpop_word :: "'a::len word \<Rightarrow> nat" where
  "ctpop_word w = length (filter id (word_bits w))"

definition bswap16 :: "u16 \<Rightarrow> u16" where
  "bswap16 v = push_bit 8 v OR drop_bit 8 v"

definition bswap32 :: "u32 \<Rightarrow> u32" where
  "bswap32 v = push_bit 24 v OR (push_bit 8 v AND 0xFF0000) OR (drop_bit 8 v AND 0xFF00)
     OR drop_bit 24 v"

definition bswap64 :: "u64 \<Rightarrow> u64" where
  "bswap64 v = push_bit 32 (ucast (bswap32 (ucast v))) OR ucast (bswap32 (ucast (drop_bit 32 v)))"

section \<open>Bit-level characterisations\<close>

lemma bit_extract32 [bitfield]:
  "len \<le> 32 \<Longrightarrow> bit (extract32 v start len) i \<longleftrightarrow> i < len \<and> bit v (start + i)"
  by (auto simp: extract32_def bit_simps dest: bit_imp_le_length)

lemma bit_extract64 [bitfield]:
  "len \<le> 64 \<Longrightarrow> bit (extract64 v start len) i \<longleftrightarrow> i < len \<and> bit v (start + i)"
  by (auto simp: extract64_def bit_simps dest: bit_imp_le_length)

lemma bit_deposit32 [bitfield]:
  assumes "bitfield_ok 32 start len"
  shows "bit (deposit32 v start len f) i \<longleftrightarrow>
    (if start \<le> i \<and> i < start + len then bit f (i - start) else bit v i)"
  using assms
  by (auto simp: deposit32_def bitfield_ok_def Let_def bit_simps dest: bit_imp_le_length)

lemma bit_deposit64 [bitfield]:
  assumes "bitfield_ok 64 start len"
  shows "bit (deposit64 v start len f) i \<longleftrightarrow>
    (if start \<le> i \<and> i < start + len then bit f (i - start) else bit v i)"
  using assms
  by (auto simp: deposit64_def bitfield_ok_def Let_def bit_simps dest: bit_imp_le_length)

lemma bit_sextract32 [bitfield]:
  assumes "bitfield_ok 32 start len"
  shows "bit (sextract32 v start len) i \<longleftrightarrow> i < 32 \<and> bit v (start + min i (len - 1))"
  using assms
  by (auto simp: sextract32_def bitfield_ok_def bit_simps min_def ac_simps dest: bit_imp_le_length)

lemma bit_sextract64 [bitfield]:
  assumes "bitfield_ok 64 start len"
  shows "bit (sextract64 v start len) i \<longleftrightarrow> i < 64 \<and> bit v (start + min i (len - 1))"
  using assms
  by (auto simp: sextract64_def bitfield_ok_def bit_simps min_def ac_simps dest: bit_imp_le_length)

section \<open>Fields read back\<close>

lemma extract32_take_bit: "len \<le> 32 \<Longrightarrow> extract32 v start len = take_bit len (drop_bit start v)"
  by (rule bit_eqI) (auto simp: bit_extract32 bit_simps)

lemma extract32_deposit32_same [bitfield]:
  assumes "bitfield_ok 32 s l"
  shows "extract32 (deposit32 v s l f) s l = take_bit l f"
  using assms
  by (intro bit_eqI) (auto simp: bit_extract32 bit_deposit32 bit_simps bitfield_ok_def)

lemma extract32_deposit32_other [bitfield]:
  assumes "bitfield_ok 32 s l" "bitfield_ok 32 s' l'" "s + l \<le> s' \<or> s' + l' \<le> s"
  shows "extract32 (deposit32 v s l f) s' l' = extract32 v s' l'"
  using assms
  by (intro bit_eqI) (auto simp: bit_extract32 bit_deposit32 bitfield_ok_def)

lemma sextract32_deposit32_same [bitfield]:
  assumes "bitfield_ok 32 s l"
  shows "sextract32 (deposit32 v s l f) s l = sextract32 f 0 l"
proof (rule bit_eqI)
  fix i
  have "bitfield_ok 32 0 l" using assms by (auto simp: bitfield_ok_def)
  with assms show "bit (sextract32 (deposit32 v s l f) s l) i = bit (sextract32 f 0 l) i"
    by (auto simp: bit_sextract32 bit_deposit32) (auto simp: bitfield_ok_def)
qed

lemma sextract32_deposit32_other [bitfield]:
  assumes "bitfield_ok 32 s l" "bitfield_ok 32 s' l'" "s + l \<le> s' \<or> s' + l' \<le> s"
  shows "sextract32 (deposit32 v s l f) s' l' = sextract32 v s' l'"
  using assms
  by (intro bit_eqI) (auto simp: bit_sextract32 bit_deposit32 bitfield_ok_def)

lemma extract64_deposit64_same [bitfield]:
  assumes "bitfield_ok 64 s l"
  shows "extract64 (deposit64 v s l f) s l = take_bit l f"
  using assms
  by (intro bit_eqI) (auto simp: bit_extract64 bit_deposit64 bit_simps bitfield_ok_def)

lemma deposit64_extract64 [bitfield]:
  assumes "bitfield_ok 64 s l"
  shows "deposit64 v s l (extract64 v s l) = v"
  using assms
  by (intro bit_eqI) (auto simp: bit_extract64 bit_deposit64 bitfield_ok_def)

section \<open>Rotations and byte swaps\<close>

lemma nat_and_31: "n AND 31 = n mod (32::nat)"
  using take_bit_eq_mask [of 5 n] by (simp add: take_bit_eq_mod mask_eq_exp_minus_1)

lemma unat_and_31: "unat (s AND 31 :: u32) = unat s mod 32"
  by (simp add: unsigned_and_eq nat_and_31)

lemma neg_mod_32_nat: "int b mod 32 = (- int a) mod 32 \<Longrightarrow> b mod 32 = (32 - a mod 32) mod 32"
proof -
  assume h: "int b mod 32 = (- int a) mod 32"
  have "(- int a) mod 32 = int ((32 - a mod 32) mod 32)"
    by (simp add: zmod_int of_nat_diff mod_minus_eq mod_diff_right_eq)
  with h have "int (b mod 32) = int ((32 - a mod 32) mod 32)"
    by (simp only: zmod_int of_nat_numeral)
  then show ?thesis by (simp only: of_nat_eq_iff)
qed

lemma unat_minus_mod_32: "unat (- s :: u32) mod 32 = (32 - unat s mod 32) mod 32"
proof -
  have "int (unat (- s)) mod 32 = (- int (unat s)) mod 2 ^ 32 mod 32"
    by (simp add: uint_word_ariths)
  also have "\<dots> = (- int (unat s)) mod 32"
    by (simp add: mod_mod_cancel)
  finally show ?thesis by (rule neg_mod_32_nat)
qed

lemma unat_neg_and_31: "unat (- s AND 31 :: u32) = (32 - unat s mod 32) mod 32"
  by (simp only: unat_and_31 unat_minus_mod_32)

lemma bit_rol32 [bitfield]:
  "bit (rol32 w s) i \<longleftrightarrow> i < 32 \<and> bit w ((i + (32 - unat s mod 32)) mod 32)"
proof -
  define k where "k = unat s mod 32"
  have k: "k < 32" by (simp add: k_def)
  have eq: "rol32 w s = push_bit k w OR drop_bit ((32 - k) mod 32) w"
    by (simp only: rol32_def unat_neg_and_31) (simp only: unat_and_31 k_def)
  consider "i < k" | "k \<le> i" "i < 32" | "32 \<le> i"
    by linarith
  then show ?thesis
  proof cases
    case 1
    then have "(i + (32 - k)) mod 32 = i + (32 - k)" "(32 - k) mod 32 = 32 - k"
      using k by auto
    then show ?thesis using 1 k
      unfolding eq k_def [symmetric] by (simp add: bit_simps ac_simps)
  next
    case 2
    then have m: "(i + (32 - k)) mod 32 = i - k"
      using k by (simp add: mod_if)
    show ?thesis
    proof (cases "k = 0")
      case True
      then show ?thesis using 2 m
        unfolding eq k_def [symmetric] by (simp add: bit_simps)
    next
      case False
      then have "\<not> bit w (i + (32 - k))"
        using 2 k by (auto dest: bit_imp_le_length)
      with False show ?thesis using 2 m k
        unfolding eq k_def [symmetric] by (simp add: bit_simps ac_simps)
    qed
  next
    case 3
    then show ?thesis
      unfolding eq by (auto simp: bit_simps dest: bit_imp_le_length)
  qed
qed

lemma bit_bswap16: "bit (bswap16 v) i \<longleftrightarrow> i < 16 \<and> bit v (if i < 8 then i + 8 else i - 8)"
  by (auto simp: bswap16_def bit_or_iff bit_push_bit_iff bit_drop_bit_eq ac_simps
      dest: bit_imp_le_length)

lemma bswap16_bswap16: "bswap16 (bswap16 v) = v"
  by (rule bit_eqI) (auto simp: bit_bswap16 dest: bit_imp_le_length)

end
