(* ===== verification/TCI_Code.thy ===== *)
theory TCI_Code
  imports Bitops
begin

text \<open>
  The opcodes of the engine's interpreter: the TCG opcode numbering of
  \<open>include/tcg/tcg-opc.h\<close> for this target, the operation each number stands for, and the
  grouping of the operations by operand shape. The operand words are in \<open>TCI_Args\<close>.
\<close>

section \<open>Opcodes\<close>

text \<open>
  The opcodes the interpreter of a 64-bit-register build has a case for, grouped by operand
  shape: three registers, two registers, two registers of a 64-bit-only operation, and host
  loads and stores. The C names are \<open>INDEX_op_<name>_i32\<close> and \<open>INDEX_op_<name>_i64\<close>.
\<close>

datatype tcg_width = I32 | I64

datatype tcg_rrr =
    R_add | R_sub | R_mul | R_and | R_or | R_xor | R_andc | R_orc | R_eqv | R_nand | R_nor |
    R_div | R_divu | R_rem | R_remu | R_clz | R_ctz | R_shl | R_shr | R_sar | R_rotl | R_rotr

datatype tcg_rr =
    U_mov | U_ext8s | U_ext16s | U_ext8u | U_ext16u | U_bswap16 | U_bswap32 | U_not | U_neg |
    U_ctpop

datatype tcg_rr64 =
    W_ext32s_i64 | W_ext_i32_i64 | W_ext32u_i64 | W_extu_i32_i64 | W_bswap64_i64

datatype tcg_host =
    H_ld8u tcg_width | H_ld8s tcg_width | H_ld16u tcg_width | H_ld16s tcg_width |
    H_ld tcg_width | H_st8 tcg_width | H_st16 tcg_width | H_st tcg_width | H_ld32u_i64 |
    H_ld32s_i64 | H_st32_i64

datatype tcg_op =
    Op_rrr tcg_rrr tcg_width | Op_rr tcg_rr tcg_width | Op_rr64 tcg_rr64 | Op_host tcg_host |
    Op_setcond tcg_width | Op_movcond tcg_width | Op_deposit tcg_width | Op_extract tcg_width |
    Op_sextract tcg_width | Op_brcond tcg_width | Op_add2 tcg_width | Op_sub2 tcg_width |
    Op_qemu_ld_a32 tcg_width | Op_qemu_ld_a64 tcg_width | Op_qemu_st_a32 tcg_width |
    Op_qemu_st_a64 tcg_width | Op_call | Op_br | Op_mulu2_i32 | Op_muls2_i32 | Op_exit_tb |
    Op_goto_tb | Op_goto_ptr | Op_mb | Op_tci_movi | Op_tci_movl

text \<open>
  The enumeration \<open>TCGOpcode\<close> in the order of \<open>tcg-opc.h\<close>; \<open>None\<close> marks an opcode without
  a case in the interpreter, which runs into \<open>g_assert_not_reached\<close>.
\<close>

definition tcg_opcodes :: "tcg_op option list" where
  "tcg_opcodes = [
    None, None, Some Op_call, Some Op_br, Some Op_mb, Some (Op_rr U_mov I32),
    Some (Op_setcond I32), None, Some (Op_movcond I32), Some (Op_host (H_ld8u I32)),
    Some (Op_host (H_ld8s I32)), Some (Op_host (H_ld16u I32)), Some (Op_host (H_ld16s I32)),
    Some (Op_host (H_ld I32)), Some (Op_host (H_st8 I32)), Some (Op_host (H_st16 I32)),
    Some (Op_host (H_st I32)), Some (Op_rrr R_add I32), Some (Op_rrr R_sub I32),
    Some (Op_rrr R_mul I32), Some (Op_rrr R_div I32), Some (Op_rrr R_divu I32),
    Some (Op_rrr R_rem I32), Some (Op_rrr R_remu I32), None, None, Some (Op_rrr R_and I32),
    Some (Op_rrr R_or I32), Some (Op_rrr R_xor I32), Some (Op_rrr R_shl I32),
    Some (Op_rrr R_shr I32), Some (Op_rrr R_sar I32), Some (Op_rrr R_rotl I32),
    Some (Op_rrr R_rotr I32), Some (Op_deposit I32), Some (Op_extract I32),
    Some (Op_sextract I32), None, Some (Op_brcond I32), Some (Op_add2 I32), Some (Op_sub2 I32),
    Some Op_mulu2_i32, Some Op_muls2_i32, None, None, None, None, Some (Op_rr U_ext8s I32),
    Some (Op_rr U_ext16s I32), Some (Op_rr U_ext8u I32), Some (Op_rr U_ext16u I32),
    Some (Op_rr U_bswap16 I32), Some (Op_rr U_bswap32 I32), Some (Op_rr U_not I32),
    Some (Op_rr U_neg I32), Some (Op_rrr R_andc I32), Some (Op_rrr R_orc I32),
    Some (Op_rrr R_eqv I32), Some (Op_rrr R_nand I32), Some (Op_rrr R_nor I32),
    Some (Op_rrr R_clz I32), Some (Op_rrr R_ctz I32), Some (Op_rr U_ctpop I32),
    Some (Op_rr U_mov I64), Some (Op_setcond I64), None, Some (Op_movcond I64),
    Some (Op_host (H_ld8u I64)), Some (Op_host (H_ld8s I64)), Some (Op_host (H_ld16u I64)),
    Some (Op_host (H_ld16s I64)), Some (Op_host H_ld32u_i64), Some (Op_host H_ld32s_i64),
    Some (Op_host (H_ld I64)), Some (Op_host (H_st8 I64)), Some (Op_host (H_st16 I64)),
    Some (Op_host H_st32_i64), Some (Op_host (H_st I64)), Some (Op_rrr R_add I64),
    Some (Op_rrr R_sub I64), Some (Op_rrr R_mul I64), Some (Op_rrr R_div I64),
    Some (Op_rrr R_divu I64), Some (Op_rrr R_rem I64), Some (Op_rrr R_remu I64), None, None,
    Some (Op_rrr R_and I64), Some (Op_rrr R_or I64), Some (Op_rrr R_xor I64),
    Some (Op_rrr R_shl I64), Some (Op_rrr R_shr I64), Some (Op_rrr R_sar I64),
    Some (Op_rrr R_rotl I64), Some (Op_rrr R_rotr I64), Some (Op_deposit I64),
    Some (Op_extract I64), Some (Op_sextract I64), None, Some (Op_rr64 W_ext_i32_i64),
    Some (Op_rr64 W_extu_i32_i64), None, None, Some (Op_brcond I64), Some (Op_rr U_ext8s I64),
    Some (Op_rr U_ext16s I64), Some (Op_rr64 W_ext32s_i64), Some (Op_rr U_ext8u I64),
    Some (Op_rr U_ext16u I64), Some (Op_rr64 W_ext32u_i64), Some (Op_rr U_bswap16 I64),
    Some (Op_rr U_bswap32 I64), Some (Op_rr64 W_bswap64_i64), Some (Op_rr U_not I64),
    Some (Op_rr U_neg I64), Some (Op_rrr R_andc I64), Some (Op_rrr R_orc I64),
    Some (Op_rrr R_eqv I64), Some (Op_rrr R_nand I64), Some (Op_rrr R_nor I64),
    Some (Op_rrr R_clz I64), Some (Op_rrr R_ctz I64), Some (Op_rr U_ctpop I64),
    Some (Op_add2 I64), Some (Op_sub2 I64), None, None, None, None, None, Some Op_exit_tb,
    Some Op_goto_tb, Some Op_goto_ptr, None, None, Some (Op_qemu_ld_a32 I32),
    Some (Op_qemu_st_a32 I32), Some (Op_qemu_ld_a32 I64), Some (Op_qemu_st_a32 I64),
    Some (Op_qemu_ld_a64 I32), Some (Op_qemu_st_a64 I32), Some (Op_qemu_ld_a64 I64),
    Some (Op_qemu_st_a64 I64), None, None, None, None, None, None, None, None, None, None,
    None, None, None, None, None, None, None, None, None, None, None, None, None, None, None,
    None, None, None, None, None, None, None, None, None, None, None, None, None, None, None,
    None, None, None, None, None, None, None, None, None, None, None, Some Op_tci_movi,
    Some Op_tci_movl]"

definition tcg_op_of :: "u32 \<Rightarrow> tcg_op option" where
  "tcg_op_of n = (if unat n < length tcg_opcodes then tcg_opcodes ! unat n else None)"

text \<open>\<open>INDEX_op_*\<close>: the number of an opcode.\<close>

fun position :: "'a \<Rightarrow> 'a list \<Rightarrow> nat" where
  "position x [] = 0"
| "position x (y # ys) = (if x = y then 0 else Suc (position x ys))"

definition index_op :: "tcg_op \<Rightarrow> u32" where
  "index_op op = of_nat (position (Some op) tcg_opcodes)"

lemma position_nth: "x \<in> set xs \<Longrightarrow> position x xs < length xs \<and> xs ! position x xs = x"
  by (induction xs) auto

lemma length_tcg_opcodes: "length tcg_opcodes = 196"
  by (simp add: tcg_opcodes_def)

lemma tcg_width_all: "(\<forall>w. P w) \<longleftrightarrow> P I32 \<and> P I64"
  by (metis tcg_width.exhaust)

lemma Some_op_in_tcg_opcodes: "Some op \<in> set tcg_opcodes"
proof -
  have "\<forall>w. Some (Op_rrr r w) \<in> set tcg_opcodes" for r
    unfolding tcg_opcodes_def tcg_width_all by (cases r) simp_all
  moreover have "\<forall>w. Some (Op_rr r w) \<in> set tcg_opcodes" for r
    unfolding tcg_opcodes_def tcg_width_all by (cases r) simp_all
  moreover have "Some (Op_rr64 r) \<in> set tcg_opcodes" for r
    unfolding tcg_opcodes_def by (cases r) simp_all
  moreover have "Some (Op_host h) \<in> set tcg_opcodes" for h
  proof -
    have "w = I32 \<or> w = I64" for w
      by (cases w) auto
    then show ?thesis
      unfolding tcg_opcodes_def by (cases h) auto
  qed
  ultimately show ?thesis
    by (cases op) (auto simp: tcg_opcodes_def split: tcg_width.splits intro: tcg_width.exhaust)
qed

lemma unat_index_op: "unat (index_op op) = position (Some op) tcg_opcodes"
  using position_nth [OF Some_op_in_tcg_opcodes, of op]
  by (simp add: index_op_def length_tcg_opcodes unat_of_nat)

lemma index_op_less: "unat (index_op op) < 256"
  using position_nth [OF Some_op_in_tcg_opcodes, of op]
  by (simp add: unat_index_op length_tcg_opcodes)

lemma tcg_op_of_index_op [simp]: "tcg_op_of (index_op op) = Some op"
  using position_nth [OF Some_op_in_tcg_opcodes, of op]
  by (simp add: tcg_op_of_def unat_index_op)

end
