(* ===== verification/TCI_Args.thy ===== *)
theory TCI_Args
  imports TCI_Code
begin

text \<open>
  Instruction words of the interpreter. The emitters \<open>tcg_tci_out_op_*\<close> build a word with
  \<open>deposit32\<close>, field by field; the decoders \<open>tci_args_*\<close> read it with \<open>extract32\<close> and
  \<open>sextract32\<close>. A label operand is patched in by \<open>patch_reloc\<close>.
\<close>

section \<open>Emitters\<close>

definition tcg_tci_out_op_l :: "tcg_op \<Rightarrow> u32" where
  "tcg_tci_out_op_l op = deposit32 0 0 8 (index_op op)"

text \<open>
  \<open>p0\<close> is an absolute address and \<open>next_insn\<close> the address behind the instruction; \<open>None\<close> is
  the overflow of the 20-bit displacement (\<open>tcg_raise_tb_overflow\<close>).
\<close>

definition tcg_tci_out_op_p :: "tcg_op \<Rightarrow> u32 \<Rightarrow> u32 \<Rightarrow> u32 option" where
  "tcg_tci_out_op_p op next_insn p0 =
     (let diff = (if p0 = 0 then 0 else p0 - next_insn)
      in if p0 \<noteq> 0 \<and> diff \<noteq> sextract32 diff 0 20 then None
         else Some (deposit32 (deposit32 0 0 8 (index_op op)) 12 20 diff))"

definition tcg_tci_out_op_r :: "tcg_op \<Rightarrow> nat \<Rightarrow> u32" where
  "tcg_tci_out_op_r op r0 = deposit32 (deposit32 0 0 8 (index_op op)) 8 4 (of_nat r0)"

definition tcg_tci_out_op_v :: "tcg_op \<Rightarrow> u32" where
  "tcg_tci_out_op_v op = ucast (ucast (index_op op) :: u8)"

definition tcg_tci_out_op_ri :: "tcg_op \<Rightarrow> nat \<Rightarrow> u32 \<Rightarrow> u32" where
  "tcg_tci_out_op_ri op r0 i1 = deposit32 (tcg_tci_out_op_r op r0) 12 20 i1"

definition tcg_tci_out_op_rl :: "tcg_op \<Rightarrow> nat \<Rightarrow> u32" where
  "tcg_tci_out_op_rl op r0 = deposit32 (deposit32 0 0 8 (index_op op)) 8 4 (of_nat r0)"

definition tcg_tci_out_op_rr :: "tcg_op \<Rightarrow> nat \<Rightarrow> nat \<Rightarrow> u32" where
  "tcg_tci_out_op_rr op r0 r1 = deposit32 (tcg_tci_out_op_r op r0) 12 4 (of_nat r1)"

definition tcg_tci_out_op_rrr :: "tcg_op \<Rightarrow> nat \<Rightarrow> nat \<Rightarrow> nat \<Rightarrow> u32" where
  "tcg_tci_out_op_rrr op r0 r1 r2 = deposit32 (tcg_tci_out_op_rr op r0 r1) 16 4 (of_nat r2)"

definition tcg_tci_out_op_rrs :: "tcg_op \<Rightarrow> nat \<Rightarrow> nat \<Rightarrow> u32 \<Rightarrow> u32" where
  "tcg_tci_out_op_rrs op r0 r1 i2 = deposit32 (tcg_tci_out_op_rr op r0 r1) 16 16 i2"

definition tcg_tci_out_op_rrbb :: "tcg_op \<Rightarrow> nat \<Rightarrow> nat \<Rightarrow> nat \<Rightarrow> nat \<Rightarrow> u32" where
  "tcg_tci_out_op_rrbb op r0 r1 b2 b3 =
     deposit32 (deposit32 (tcg_tci_out_op_rr op r0 r1) 16 6 (of_nat b2)) 22 6 (of_nat b3)"

definition tcg_tci_out_op_rrrc :: "tcg_op \<Rightarrow> nat \<Rightarrow> nat \<Rightarrow> nat \<Rightarrow> u32 \<Rightarrow> u32" where
  "tcg_tci_out_op_rrrc op r0 r1 r2 c3 = deposit32 (tcg_tci_out_op_rrr op r0 r1 r2) 20 4 c3"

definition tcg_tci_out_op_rrrbb :: "tcg_op \<Rightarrow> nat \<Rightarrow> nat \<Rightarrow> nat \<Rightarrow> nat \<Rightarrow> nat \<Rightarrow> u32" where
  "tcg_tci_out_op_rrrbb op r0 r1 r2 b3 b4 =
     deposit32 (deposit32 (tcg_tci_out_op_rrr op r0 r1 r2) 20 6 (of_nat b3)) 26 6 (of_nat b4)"

definition tcg_tci_out_op_rrrr :: "tcg_op \<Rightarrow> nat \<Rightarrow> nat \<Rightarrow> nat \<Rightarrow> nat \<Rightarrow> u32" where
  "tcg_tci_out_op_rrrr op r0 r1 r2 r3 = deposit32 (tcg_tci_out_op_rrr op r0 r1 r2) 20 4 (of_nat r3)"

definition tcg_tci_out_op_rrrrr :: "tcg_op \<Rightarrow> nat \<Rightarrow> nat \<Rightarrow> nat \<Rightarrow> nat \<Rightarrow> nat \<Rightarrow> u32" where
  "tcg_tci_out_op_rrrrr op r0 r1 r2 r3 r4 =
     deposit32 (tcg_tci_out_op_rrrr op r0 r1 r2 r3) 24 4 (of_nat r4)"

definition tcg_tci_out_op_rrrrrc ::
    "tcg_op \<Rightarrow> nat \<Rightarrow> nat \<Rightarrow> nat \<Rightarrow> nat \<Rightarrow> nat \<Rightarrow> u32 \<Rightarrow> u32" where
  "tcg_tci_out_op_rrrrrc op r0 r1 r2 r3 r4 c5 =
     deposit32 (tcg_tci_out_op_rrrrr op r0 r1 r2 r3 r4) 28 4 c5"

definition tcg_tci_out_op_rrrrrr ::
    "tcg_op \<Rightarrow> nat \<Rightarrow> nat \<Rightarrow> nat \<Rightarrow> nat \<Rightarrow> nat \<Rightarrow> nat \<Rightarrow> u32" where
  "tcg_tci_out_op_rrrrrr op r0 r1 r2 r3 r4 r5 =
     deposit32 (tcg_tci_out_op_rrrrr op r0 r1 r2 r3 r4) 28 4 (of_nat r5)"

text \<open>
  \<open>patch_reloc\<close>: writes the distance from the following instruction to the label into the
  20-bit field; \<open>None\<close> when it does not fit.
\<close>

definition patch_reloc :: "u32 \<Rightarrow> u32 \<Rightarrow> u32 \<Rightarrow> u32 option" where
  "patch_reloc insn code_ptr label_addr =
     (let diff = label_addr - (code_ptr + 4)
      in if diff = sextract32 diff 0 20 then Some (deposit32 insn (32 - 20) 20 diff) else None)"

section \<open>Decoders\<close>

text \<open>A register number is a four-bit field; \<open>tb_ptr\<close> is the address behind the instruction.\<close>

definition insn_opc :: "u32 \<Rightarrow> tcg_op option" where
  "insn_opc insn = tcg_op_of (extract32 insn 0 8)"

definition insn_reg :: "u32 \<Rightarrow> nat \<Rightarrow> nat" where
  "insn_reg insn start = unat (extract32 insn start 4)"

definition tci_args_l :: "u32 \<Rightarrow> u32 \<Rightarrow> u32" where
  "tci_args_l insn tb_ptr =
     (let diff = sextract32 insn 12 20 in if diff \<noteq> 0 then tb_ptr + diff else 0)"

definition tci_args_br :: "u32 \<Rightarrow> u32 \<Rightarrow> u32" where
  "tci_args_br insn tb_ptr = tb_ptr + sextract32 insn 12 20"

definition tci_args_r :: "u32 \<Rightarrow> nat" where
  "tci_args_r insn = insn_reg insn 8"

definition tci_args_nl :: "u32 \<Rightarrow> u32 \<Rightarrow> nat \<times> u32" where
  "tci_args_nl insn tb_ptr = (unat (extract32 insn 8 4), sextract32 insn 12 20 + tb_ptr)"

definition tci_args_rl :: "u32 \<Rightarrow> u32 \<Rightarrow> nat \<times> u32" where
  "tci_args_rl insn tb_ptr = (insn_reg insn 8, sextract32 insn 12 20 + tb_ptr)"

definition tci_args_rr :: "u32 \<Rightarrow> nat \<times> nat" where
  "tci_args_rr insn = (insn_reg insn 8, insn_reg insn 12)"

text \<open>The immediate is a \<open>tcg_target_ulong\<close>: sign-extended to 64 bits.\<close>

definition tci_args_ri :: "u32 \<Rightarrow> nat \<times> u64" where
  "tci_args_ri insn = (insn_reg insn 8, scast (sextract32 insn 12 20))"

definition tci_args_rrr :: "u32 \<Rightarrow> nat \<times> nat \<times> nat" where
  "tci_args_rrr insn = (insn_reg insn 8, insn_reg insn 12, insn_reg insn 16)"

definition tci_args_rrs :: "u32 \<Rightarrow> nat \<times> nat \<times> u32" where
  "tci_args_rrs insn = (insn_reg insn 8, insn_reg insn 12, sextract32 insn 16 16)"

definition tci_args_rrbb :: "u32 \<Rightarrow> nat \<times> nat \<times> nat \<times> nat" where
  "tci_args_rrbb insn =
     (insn_reg insn 8, insn_reg insn 12, unat (extract32 insn 16 6), unat (extract32 insn 22 6))"

definition tci_args_rrrc :: "u32 \<Rightarrow> nat \<times> nat \<times> nat \<times> u32" where
  "tci_args_rrrc insn =
     (insn_reg insn 8, insn_reg insn 12, insn_reg insn 16, extract32 insn 20 4)"

definition tci_args_rrrbb :: "u32 \<Rightarrow> nat \<times> nat \<times> nat \<times> nat \<times> nat" where
  "tci_args_rrrbb insn =
     (insn_reg insn 8, insn_reg insn 12, insn_reg insn 16,
      unat (extract32 insn 20 6), unat (extract32 insn 26 6))"

definition tci_args_rrrr :: "u32 \<Rightarrow> nat \<times> nat \<times> nat \<times> nat" where
  "tci_args_rrrr insn =
     (insn_reg insn 8, insn_reg insn 12, insn_reg insn 16, insn_reg insn 20)"

definition tci_args_rrrrr :: "u32 \<Rightarrow> nat \<times> nat \<times> nat \<times> nat \<times> nat" where
  "tci_args_rrrrr insn =
     (insn_reg insn 8, insn_reg insn 12, insn_reg insn 16, insn_reg insn 20, insn_reg insn 24)"

definition tci_args_rrrrrc :: "u32 \<Rightarrow> nat \<times> nat \<times> nat \<times> nat \<times> nat \<times> u32" where
  "tci_args_rrrrrc insn =
     (insn_reg insn 8, insn_reg insn 12, insn_reg insn 16, insn_reg insn 20, insn_reg insn 24,
      extract32 insn 28 4)"

definition tci_args_rrrrrr :: "u32 \<Rightarrow> nat \<times> nat \<times> nat \<times> nat \<times> nat \<times> nat" where
  "tci_args_rrrrrr insn =
     (insn_reg insn 8, insn_reg insn 12, insn_reg insn 16, insn_reg insn 20, insn_reg insn 24,
      insn_reg insn 28)"

lemmas tci_args_defs = tci_args_r_def tci_args_rr_def tci_args_rrr_def tci_args_rrs_def
  tci_args_rrbb_def tci_args_rrrc_def tci_args_rrrbb_def tci_args_rrrr_def tci_args_rrrrr_def
  tci_args_rrrrrc_def tci_args_rrrrrr_def tci_args_ri_def insn_reg_def insn_opc_def

lemmas tcg_tci_out_defs = tcg_tci_out_op_r_def tcg_tci_out_op_rr_def tcg_tci_out_op_rrr_def
  tcg_tci_out_op_rrs_def tcg_tci_out_op_rrbb_def tcg_tci_out_op_rrrc_def tcg_tci_out_op_rrrbb_def
  tcg_tci_out_op_rrrr_def tcg_tci_out_op_rrrrr_def tcg_tci_out_op_rrrrrc_def
  tcg_tci_out_op_rrrrrr_def tcg_tci_out_op_ri_def tcg_tci_out_op_rl_def tcg_tci_out_op_l_def

section \<open>Round trips\<close>

lemma take_bit_small: "unat (w::u32) < 2 ^ n \<Longrightarrow> take_bit n w = w"
  by (simp add: word_unat_eq_iff unsigned_take_bit_eq take_bit_nat_eq_self)

lemma unat_take_bit_of_nat:
  assumes "n \<le> 32" "r < 2 ^ n"
  shows "unat (take_bit n (of_nat r :: u32)) = r"
proof -
  have "(2::nat) ^ n \<le> 2 ^ 32"
    using assms(1) by (intro power_increasing) auto
  then have "unat (of_nat r :: u32) = r"
    using assms(2) by (simp add: unat_of_nat)
  then show ?thesis
    using assms(2) by (simp add: unsigned_take_bit_eq take_bit_nat_eq_self)
qed

lemma take_bit_8_index_op [simp]: "take_bit 8 (index_op op) = index_op op"
  by (rule take_bit_small) (use index_op_less [of op] in simp)


text \<open>The opcode of an instruction word survives every emitter.\<close>

lemma bitfield_ok_numeral [simp]:
  "bitfield_ok 32 0 8" "bitfield_ok 32 8 4" "bitfield_ok 32 12 4" "bitfield_ok 32 16 4"
  "bitfield_ok 32 20 4" "bitfield_ok 32 24 4" "bitfield_ok 32 28 4" "bitfield_ok 32 12 20"
  "bitfield_ok 32 16 16" "bitfield_ok 32 16 6" "bitfield_ok 32 22 6" "bitfield_ok 32 20 6"
  "bitfield_ok 32 26 6"
  by (simp_all add: bitfield_ok_def)

lemma sextract32_0: "sextract32 0 s l = 0"
  by (simp add: sextract32_def)

lemmas insn_word_simps = extract32_deposit32_same extract32_deposit32_other
  sextract32_deposit32_same sextract32_deposit32_other unat_take_bit_of_nat

lemma register_shapes_round_trip:
  assumes "r0 < 16" "r1 < 16" "r2 < 16" "r3 < 16" "r4 < 16" "r5 < 16"
  shows "insn_opc (tcg_tci_out_op_r op r0) = Some op \<and> tci_args_r (tcg_tci_out_op_r op r0) = r0"
    and "insn_opc (tcg_tci_out_op_rr op r0 r1) = Some op
      \<and> tci_args_rr (tcg_tci_out_op_rr op r0 r1) = (r0, r1)"
    and "insn_opc (tcg_tci_out_op_rrr op r0 r1 r2) = Some op
      \<and> tci_args_rrr (tcg_tci_out_op_rrr op r0 r1 r2) = (r0, r1, r2)"
    and "insn_opc (tcg_tci_out_op_rrrr op r0 r1 r2 r3) = Some op
      \<and> tci_args_rrrr (tcg_tci_out_op_rrrr op r0 r1 r2 r3) = (r0, r1, r2, r3)"
    and "insn_opc (tcg_tci_out_op_rrrrr op r0 r1 r2 r3 r4) = Some op
      \<and> tci_args_rrrrr (tcg_tci_out_op_rrrrr op r0 r1 r2 r3 r4) = (r0, r1, r2, r3, r4)"
    and "insn_opc (tcg_tci_out_op_rrrrrr op r0 r1 r2 r3 r4 r5) = Some op
      \<and> tci_args_rrrrrr (tcg_tci_out_op_rrrrrr op r0 r1 r2 r3 r4 r5) = (r0, r1, r2, r3, r4, r5)"
  using assms by (simp_all add: tci_args_defs tcg_tci_out_defs insn_word_simps)

lemma immediate_shapes_round_trip:
  assumes "r0 < 16" "r1 < 16" "r2 < 16" "b0 < 64" "b1 < 64"
    and "sextract32 i20 0 20 = i20" "sextract32 i16 0 16 = i16"
  shows "insn_opc (tcg_tci_out_op_ri op r0 i20) = Some op
      \<and> tci_args_ri (tcg_tci_out_op_ri op r0 i20) = (r0, scast i20)"
    and "insn_opc (tcg_tci_out_op_rrs op r0 r1 i16) = Some op
      \<and> tci_args_rrs (tcg_tci_out_op_rrs op r0 r1 i16) = (r0, r1, i16)"
    and "insn_opc (tcg_tci_out_op_rrbb op r0 r1 b0 b1) = Some op
      \<and> tci_args_rrbb (tcg_tci_out_op_rrbb op r0 r1 b0 b1) = (r0, r1, b0, b1)"
    and "insn_opc (tcg_tci_out_op_rrrbb op r0 r1 r2 b0 b1) = Some op
      \<and> tci_args_rrrbb (tcg_tci_out_op_rrrbb op r0 r1 r2 b0 b1) = (r0, r1, r2, b0, b1)"
  using assms by (simp_all add: tci_args_defs tcg_tci_out_defs insn_word_simps)

lemma condition_shapes_round_trip:
  assumes "r0 < 16" "r1 < 16" "r2 < 16" "r3 < 16" "r4 < 16" "unat c < 16"
  shows "insn_opc (tcg_tci_out_op_rrrc op r0 r1 r2 c) = Some op
      \<and> tci_args_rrrc (tcg_tci_out_op_rrrc op r0 r1 r2 c) = (r0, r1, r2, c)"
    and "insn_opc (tcg_tci_out_op_rrrrrc op r0 r1 r2 r3 r4 c) = Some op
      \<and> tci_args_rrrrrc (tcg_tci_out_op_rrrrrc op r0 r1 r2 r3 r4 c) = (r0, r1, r2, r3, r4, c)"
  using assms take_bit_small [of c 4]
  by (simp_all add: tci_args_defs tcg_tci_out_defs insn_word_simps)



text \<open>
  C19. Branch targets and pointers. When the displacement fits its 20 bits, the patched \<open>br\<close> and
  \<open>brcond\<close> words decode to exactly the label's address - also for a branch to the very next
  instruction, whose displacement is zero - and the pointer operand of \<open>exit_tb\<close> and \<open>goto_tb\<close>
  decodes to the pointer that was emitted, null included.
\<close>

theorem branch_target_round_trip:
  assumes "patch_reloc (tcg_tci_out_op_l Op_br) code_ptr label_addr = Some br_insn"
    and "patch_reloc (tcg_tci_out_op_rl op r0) code_ptr label_addr = Some brcond_insn" "r0 < 16"
    and "tcg_tci_out_op_p op' next_insn p0 = Some p_insn" "p0 \<noteq> next_insn"
  shows "tci_args_br br_insn (code_ptr + 4) = label_addr \<and> insn_opc br_insn = Some Op_br
    \<and> tci_args_rl brcond_insn (code_ptr + 4) = (r0, label_addr) \<and> insn_opc brcond_insn = Some op
    \<and> tci_args_l p_insn next_insn = p0 \<and> insn_opc p_insn = Some op'"
proof -
  have "tci_args_br br_insn (code_ptr + 4) = label_addr \<and> insn_opc br_insn = Some Op_br"
    using assms(1) by (auto simp: patch_reloc_def Let_def tci_args_br_def tci_args_defs
        tcg_tci_out_defs insn_word_simps split: if_splits)
  moreover have "tci_args_rl brcond_insn (code_ptr + 4) = (r0, label_addr)
      \<and> insn_opc brcond_insn = Some op"
    using assms(2,3) by (auto simp: patch_reloc_def Let_def tci_args_rl_def tci_args_defs
        tcg_tci_out_defs insn_word_simps split: if_splits)
  moreover have "tci_args_l p_insn next_insn = p0 \<and> insn_opc p_insn = Some op'"
    using assms(4,5) by (auto simp: tcg_tci_out_op_p_def Let_def tci_args_l_def tci_args_defs
        insn_word_simps sextract32_0 split: if_splits)
  ultimately show ?thesis by blast
qed

theorem branch_target_round_trip_witness:
  "\<exists>br_insn. patch_reloc (tcg_tci_out_op_l Op_br) 0x1000 0x1004 = Some br_insn
     \<and> tci_args_br br_insn 0x1004 = 0x1004 \<and> tci_args_l br_insn 0x1004 = 0"
proof -
  obtain b where b: "patch_reloc (tcg_tci_out_op_l Op_br) 0x1000 0x1004 = Some b"
    by (simp add: patch_reloc_def sextract32_0)
  obtain c where c: "patch_reloc (tcg_tci_out_op_rl (Op_brcond I32) 3) 0x1000 0x1004 = Some c"
    by (simp add: patch_reloc_def sextract32_0)
  obtain p where p: "tcg_tci_out_op_p Op_exit_tb 0x1004 0 = Some p"
    by (simp add: tcg_tci_out_op_p_def)
  have "tci_args_br b (0x1000 + 4) = 0x1004"
    using branch_target_round_trip [OF b c _ p] by simp
  moreover have "tci_args_l b 0x1004 = 0"
    using b by (auto simp: patch_reloc_def tci_args_l_def tcg_tci_out_defs insn_word_simps
        sextract32_0)
  ultimately show ?thesis using b by simp
qed

end
