(* ===== verification/TCG_Cond.thy ===== *)
theory TCG_Cond
  imports Prelude
begin

text \<open>
  Comparison conditions (\<open>include/tcg/tcg-cond.h\<close>) and the interpreter's comparison functions
  (\<open>tci_compare32\<close>, \<open>tci_compare64\<close> of \<open>tcg/wasm32.c\<close>).  A condition is the number the instruction
  word carries; \<^const>\<open>None\<close> is \<open>g_assert_not_reached\<close>.
\<close>

section \<open>Condition codes\<close>

definition TCG_COND_NEVER :: u32 where "TCG_COND_NEVER = 0 OR 0 OR 0 OR 0"
definition TCG_COND_ALWAYS :: u32 where "TCG_COND_ALWAYS = 0 OR 0 OR 0 OR 1"
definition TCG_COND_EQ :: u32 where "TCG_COND_EQ = 8 OR 0 OR 0 OR 0"
definition TCG_COND_NE :: u32 where "TCG_COND_NE = 8 OR 0 OR 0 OR 1"
definition TCG_COND_LT :: u32 where "TCG_COND_LT = 0 OR 0 OR 2 OR 0"
definition TCG_COND_GE :: u32 where "TCG_COND_GE = 0 OR 0 OR 2 OR 1"
definition TCG_COND_LE :: u32 where "TCG_COND_LE = 8 OR 0 OR 2 OR 0"
definition TCG_COND_GT :: u32 where "TCG_COND_GT = 8 OR 0 OR 2 OR 1"
definition TCG_COND_LTU :: u32 where "TCG_COND_LTU = 0 OR 4 OR 0 OR 0"
definition TCG_COND_GEU :: u32 where "TCG_COND_GEU = 0 OR 4 OR 0 OR 1"
definition TCG_COND_LEU :: u32 where "TCG_COND_LEU = 8 OR 4 OR 0 OR 0"
definition TCG_COND_GTU :: u32 where "TCG_COND_GTU = 8 OR 4 OR 0 OR 1"

lemmas TCG_COND_defs = TCG_COND_NEVER_def TCG_COND_ALWAYS_def TCG_COND_EQ_def TCG_COND_NE_def
  TCG_COND_LT_def TCG_COND_GE_def TCG_COND_LE_def TCG_COND_GT_def TCG_COND_LTU_def
  TCG_COND_GEU_def TCG_COND_LEU_def TCG_COND_GTU_def

definition tcg_invert_cond :: "u32 \<Rightarrow> u32" where
  "tcg_invert_cond c = c XOR 1"

definition tcg_swap_cond :: "u32 \<Rightarrow> u32" where
  "tcg_swap_cond c = (if c AND 6 \<noteq> 0 then c XOR 9 else c)"

definition tcg_unsigned_cond :: "u32 \<Rightarrow> u32" where
  "tcg_unsigned_cond c = (if c AND 2 \<noteq> 0 then c XOR 6 else c)"

definition tcg_signed_cond :: "u32 \<Rightarrow> u32" where
  "tcg_signed_cond c = (if c AND 4 \<noteq> 0 then c XOR 6 else c)"

definition is_unsigned_cond :: "u32 \<Rightarrow> bool" where
  "is_unsigned_cond c \<longleftrightarrow> c AND 4 \<noteq> 0"

definition tcg_high_cond :: "u32 \<Rightarrow> u32" where
  "tcg_high_cond c =
     (if c = TCG_COND_GE \<or> c = TCG_COND_LE \<or> c = TCG_COND_GEU \<or> c = TCG_COND_LEU
      then c XOR 8 else c)"

section \<open>Comparisons of the interpreter\<close>

definition tci_compare32 :: "u32 \<Rightarrow> u32 \<Rightarrow> u32 \<Rightarrow> bool option" where
  "tci_compare32 u0 u1 condition =
     (let i0 = s32 u0; i1 = s32 u1 in
      if condition = TCG_COND_EQ then Some (u0 = u1)
      else if condition = TCG_COND_NE then Some (u0 \<noteq> u1)
      else if condition = TCG_COND_LT then Some (i0 < i1)
      else if condition = TCG_COND_GE then Some (i0 \<ge> i1)
      else if condition = TCG_COND_LE then Some (i0 \<le> i1)
      else if condition = TCG_COND_GT then Some (i0 > i1)
      else if condition = TCG_COND_LTU then Some (u0 < u1)
      else if condition = TCG_COND_GEU then Some (u0 \<ge> u1)
      else if condition = TCG_COND_LEU then Some (u0 \<le> u1)
      else if condition = TCG_COND_GTU then Some (u0 > u1)
      else None)"

definition tci_compare64 :: "u64 \<Rightarrow> u64 \<Rightarrow> u32 \<Rightarrow> bool option" where
  "tci_compare64 u0 u1 condition =
     (let i0 = s64 u0; i1 = s64 u1 in
      if condition = TCG_COND_EQ then Some (u0 = u1)
      else if condition = TCG_COND_NE then Some (u0 \<noteq> u1)
      else if condition = TCG_COND_LT then Some (i0 < i1)
      else if condition = TCG_COND_GE then Some (i0 \<ge> i1)
      else if condition = TCG_COND_LE then Some (i0 \<le> i1)
      else if condition = TCG_COND_GT then Some (i0 > i1)
      else if condition = TCG_COND_LTU then Some (u0 < u1)
      else if condition = TCG_COND_GEU then Some (u0 \<ge> u1)
      else if condition = TCG_COND_LEU then Some (u0 \<le> u1)
      else if condition = TCG_COND_GTU then Some (u0 > u1)
      else None)"

definition tci_uint64 :: "u32 \<Rightarrow> u32 \<Rightarrow> u64" where
  "tci_uint64 high low = push_bit 32 (ucast high) + ucast low"

section \<open>Lemmas\<close>

text \<open>The ten conditions the interpreter evaluates, and the six bit patterns it does not.\<close>

definition tci_conds :: "u32 list" where
  "tci_conds = [TCG_COND_EQ, TCG_COND_NE, TCG_COND_LT, TCG_COND_GE, TCG_COND_LE, TCG_COND_GT,
     TCG_COND_LTU, TCG_COND_GEU, TCG_COND_LEU, TCG_COND_GTU]"

lemma tci_compare32_None: "tci_compare32 a b c = None \<longleftrightarrow> c \<notin> set tci_conds"
  by (simp add: tci_compare32_def tci_conds_def Let_def)

lemma tci_compare64_None: "tci_compare64 a b c = None \<longleftrightarrow> c \<notin> set tci_conds"
  by (simp add: tci_compare64_def tci_conds_def Let_def)

lemma tci_conds_cases:
  assumes "c \<in> set tci_conds"
  obtains "c = 8" | "c = 9" | "c = 2" | "c = 3" | "c = 10" | "c = 11" | "c = 4" | "c = 5"
    | "c = 12" | "c = 13"
  using assms by (auto simp: tci_conds_def TCG_COND_defs)

lemma invert_cond_closed: "tcg_invert_cond c \<in> set tci_conds \<longleftrightarrow> c \<in> set tci_conds"
proof -
  have fwd: "tcg_invert_cond d \<in> set tci_conds" if "d \<in> set tci_conds" for d
    using that by (rule tci_conds_cases) (simp_all add: tcg_invert_cond_def tci_conds_def TCG_COND_defs)
  have "tcg_invert_cond (tcg_invert_cond c) = c"
    by (simp add: tcg_invert_cond_def xor.assoc)
  then show ?thesis using fwd by metis
qed

lemma swap_cond_closed: "tcg_swap_cond c \<in> set tci_conds \<longleftrightarrow> c \<in> set tci_conds"
proof -
  have fwd: "tcg_swap_cond d \<in> set tci_conds" if "d \<in> set tci_conds" for d
    using that by (rule tci_conds_cases) (simp_all add: tcg_swap_cond_def tci_conds_def TCG_COND_defs)
  have "(c XOR 9) AND 6 = c AND 6"
    by (simp add: and.commute bit.conj_xor_distrib)
  then have "tcg_swap_cond (tcg_swap_cond c) = c"
    by (simp add: tcg_swap_cond_def xor.assoc)
  then show ?thesis using fwd by metis
qed

lemma compare_invert32: "tci_compare32 a b (tcg_invert_cond c) = map_option Not (tci_compare32 a b c)"
proof (cases "c \<in> set tci_conds")
  case True
  then show ?thesis
    by (rule tci_conds_cases)
      (auto simp: tcg_invert_cond_def tci_compare32_def TCG_COND_defs Let_def)
next
  case False
  then show ?thesis by (metis invert_cond_closed option.map(1) tci_compare32_None)
qed

lemma compare_invert64: "tci_compare64 a b (tcg_invert_cond c) = map_option Not (tci_compare64 a b c)"
proof (cases "c \<in> set tci_conds")
  case True
  then show ?thesis
    by (rule tci_conds_cases)
      (auto simp: tcg_invert_cond_def tci_compare64_def TCG_COND_defs Let_def)
next
  case False
  then show ?thesis by (metis invert_cond_closed option.map(1) tci_compare64_None)
qed

lemma compare_swap32: "tci_compare32 b a (tcg_swap_cond c) = tci_compare32 a b c"
proof (cases "c \<in> set tci_conds")
  case True
  then show ?thesis
    by (rule tci_conds_cases)
      (auto simp: tcg_swap_cond_def tci_compare32_def TCG_COND_defs Let_def)
next
  case False
  then show ?thesis by (metis swap_cond_closed tci_compare32_None)
qed

lemma compare_swap64: "tci_compare64 b a (tcg_swap_cond c) = tci_compare64 a b c"
proof (cases "c \<in> set tci_conds")
  case True
  then show ?thesis
    by (rule tci_conds_cases)
      (auto simp: tcg_swap_cond_def tci_compare64_def TCG_COND_defs Let_def)
next
  case False
  then show ?thesis by (metis swap_cond_closed tci_compare64_None)
qed

text \<open>
  C20.  The bit tricks of \<open>tcg-cond.h\<close> are right for the interpreter's comparisons, at both widths
  and for every condition number: \<open>tcg_invert_cond\<close> negates the result of a comparison and
  \<open>tcg_swap_cond\<close> exchanges its operands (a number that is no condition stays one).
\<close>

theorem cond_tricks_sound:
  "tci_compare32 a b (tcg_invert_cond c) = map_option Not (tci_compare32 a b c)
   \<and> tci_compare64 p q (tcg_invert_cond c) = map_option Not (tci_compare64 p q c)
   \<and> tci_compare32 b a (tcg_swap_cond c) = tci_compare32 a b c
   \<and> tci_compare64 q p (tcg_swap_cond c) = tci_compare64 p q c"
  by (simp add: compare_invert32 compare_invert64 compare_swap32 compare_swap64)

text \<open>Double-word comparisons.\<close>

lemma uint_tci_uint64: "uint (tci_uint64 high low) = uint high * 2 ^ 32 + uint low"
proof -
  have h: "uint high < 2 ^ 32" "uint low < 2 ^ 32" "0 \<le> uint high" "0 \<le> uint low"
    using uint_lt2p [of high] uint_lt2p [of low] by simp_all
  then show ?thesis
    by (simp add: tci_uint64_def push_bit_eq_mult uint_word_ariths unsigned_ucast_eq take_bit_int_eq_self)
qed

lemma sint_tci_uint64: "sint (tci_uint64 high low) = sint high * 2 ^ 32 + uint low"
proof -
  have h: "uint high < 2 ^ 32" "uint low < 2 ^ 32" "0 \<le> uint high" "0 \<le> uint low"
    using uint_lt2p [of high] uint_lt2p [of low] by simp_all
  show ?thesis
  proof (cases "uint high < 2 ^ 31")
    case True
    with h have "uint high * 2 ^ 32 + uint low < 2 ^ 63" by simp
    with True show ?thesis by (simp add: sint_uint_cases uint_tci_uint64)
  next
    case False
    then have "2147483648 \<le> uint high" by simp
    with h(4) have "9223372036854775808 \<le> uint high * 4294967296 + uint low" by linarith
    then have "\<not> uint high * 2 ^ 32 + uint low < 2 ^ 63" by simp
    with False show ?thesis by (simp add: sint_uint_cases uint_tci_uint64)
  qed
qed

lemmas compare_int_simps = word_less_def word_le_def uint_tci_uint64 sint_tci_uint64

lemma double_word_order:
  fixes h1 h2 :: int and l1 l2 :: u32
  shows "h1 * 4294967296 + uint l1 < h2 * 4294967296 + uint l2
      \<longleftrightarrow> (if h1 = h2 then uint l1 < uint l2 else h1 < h2)"
    and "h1 * 4294967296 + uint l1 \<le> h2 * 4294967296 + uint l2
      \<longleftrightarrow> (if h1 = h2 then uint l1 \<le> uint l2 else h1 < h2)"
proof -
  have "uint l1 < 4294967296" "uint l2 < 4294967296"
    using uint_lt2p [of l1] uint_lt2p [of l2] by simp_all
  moreover note uint_ge_0 [of l1] uint_ge_0 [of l2]
  ultimately show "h1 * 4294967296 + uint l1 < h2 * 4294967296 + uint l2
      \<longleftrightarrow> (if h1 = h2 then uint l1 < uint l2 else h1 < h2)"
    and "h1 * 4294967296 + uint l1 \<le> h2 * 4294967296 + uint l2
      \<longleftrightarrow> (if h1 = h2 then uint l1 \<le> uint l2 else h1 < h2)"
    by (cases h1 h2 rule: linorder_cases; simp; linarith)+
qed

text \<open>
  C21.  A 64-bit ordering comparison splits into 32-bit ones the way the code generators use
  \<open>tcg_high_cond\<close> and \<open>tcg_unsigned_cond\<close>: when the high halves are equal the low halves decide,
  compared unsigned; otherwise the high halves decide, compared without equality.
\<close>

theorem double_word_compare:
  assumes "c \<in> set tci_conds" "c \<noteq> TCG_COND_EQ" "c \<noteq> TCG_COND_NE"
  shows "tci_compare64 (tci_uint64 h1 l1) (tci_uint64 h2 l2) c =
    (if h1 = h2 then tci_compare32 l1 l2 (tcg_unsigned_cond c)
     else tci_compare32 h1 h2 (tcg_high_cond c))"
  using assms(1)
  by (rule tci_conds_cases)
    (use assms(2,3) in \<open>simp_all add: tci_compare64_def tci_compare32_def tcg_unsigned_cond_def
       tcg_high_cond_def TCG_COND_defs compare_int_simps double_word_order sint_eq_sint_iff word_uint_eq_iff [symmetric]\<close>)

theorem double_word_compare_witness:
  "tci_compare64 (tci_uint64 0xFFFFFFFF 1) (tci_uint64 0 0) TCG_COND_LE = Some True
   \<and> tci_compare32 0xFFFFFFFF 0 (tcg_high_cond TCG_COND_LE) = Some True"
  using double_word_compare [where c = TCG_COND_LE and ?h1.0 = "0xFFFFFFFF" and ?l1.0 = 1
      and ?h2.0 = 0 and ?l2.0 = 0]
  by (simp add: tci_conds_def tci_compare32_def tcg_high_cond_def TCG_COND_defs Let_def)

end
