(* ===== verification/Tune.thy ===== *)
theory Tune
  imports Prelude
begin

text \<open>
  The engine's tunables: \<open>bootbox_tune_init\<close> of \<open>tcg/wasm32.c\<close> with the globals it sets.

  \<^item> \<open>bootbox_tune\<close> holds the globals (C's 0/1 flags as booleans), \<open>tune_default\<close> their initial
    values.
  \<^item> \<open>tune_scan\<close> is one \<open>fscanf (" %15[a-z]=%d")\<close>, \<open>tune_apply\<close> the chain of \<open>strcmp\<close> tests,
    \<open>tune_loop\<close> the reading loop and \<open>tune_read\<close> the whole reading branch.
  \<^item> \<open>tune_step\<close> is the once-only protocol between the vCPU threads: one step of one thread.
\<close>

section \<open>The tunables\<close>

record bootbox_tune =
  wasm_instantiate_num :: int
  wasm_hot_num :: int
  wasm_max_instance_alive :: int
  wasm_fp_inline_enabled :: bool
  wasm_tail_chain :: bool
  wasm_chain_nested :: bool
  wasm_chain_budget :: int
  wasm_reg_locals :: bool
  wasm_hot_share :: bool
  bootbox_tsc_lockfree :: bool
  wasm_fast_tci :: bool
  bb_lazy_wasm :: bool
  wasm_sum_count :: bool
  bb_split_enabled :: bool
  bb_share_on :: bool
  bb_hammock :: bool
  bb_hm_max :: int
  bb_hm_mod :: int
  bb_hm_sel :: int
  bb_hm_cpl :: int
  bb_repbulk :: bool
  wasm_simd_inline_enabled :: bool
  wasm_gvec_ool_enabled :: bool

definition INSTANTIATE_NUM :: int where "INSTANTIATE_NUM = 1500"
definition MAX_INSTANCE_ALIVE :: int where "MAX_INSTANCE_ALIVE = 15000"
definition INSTANCE_RUNNING_LEN :: int where "INSTANCE_RUNNING_LEN = 65536"
definition WASM_CHAIN_BUDGET :: int where "WASM_CHAIN_BUDGET = 256"

lemmas tune_consts = INSTANTIATE_NUM_def MAX_INSTANCE_ALIVE_def INSTANCE_RUNNING_LEN_def
  WASM_CHAIN_BUDGET_def

definition tune_default :: bootbox_tune where
  "tune_default = \<lparr>
     wasm_instantiate_num = INSTANTIATE_NUM, wasm_hot_num = INSTANTIATE_NUM div 16,
     wasm_max_instance_alive = MAX_INSTANCE_ALIVE, wasm_fp_inline_enabled = True,
     wasm_tail_chain = False, wasm_chain_nested = False, wasm_chain_budget = WASM_CHAIN_BUDGET,
     wasm_reg_locals = True, wasm_hot_share = False, bootbox_tsc_lockfree = False,
     wasm_fast_tci = False, bb_lazy_wasm = False, wasm_sum_count = False, bb_split_enabled = True,
     bb_share_on = False, bb_hammock = False, bb_hm_max = 16, bb_hm_mod = 1, bb_hm_sel = 0,
     bb_hm_cpl = 0, bb_repbulk = True, wasm_simd_inline_enabled = True,
     wasm_gvec_ool_enabled = False \<rparr>"

section \<open>Reading the file\<close>

text \<open>
  The pieces of \<open>fscanf\<close> the format uses.  White space is the C locale's \<open>isspace\<close>; \<open>%15[a-z]\<close>
  takes between 1 and 15 lower-case letters; \<open>%d\<close> skips white space and takes an optional sign and
  at least one digit.  What \<open>%d\<close> stores for a number outside the range of \<open>int\<close> is left open by the C
  standard: it is the parameter \<open>ovf\<close>.
\<close>

definition is_space :: "char \<Rightarrow> bool" where
  "is_space c \<longleftrightarrow> c \<in> {CHR '' '', CHR 0x09, CHR 0x0A, CHR 0x0B, CHR 0x0C, CHR 0x0D}"

definition is_lower :: "char \<Rightarrow> bool" where
  "is_lower c \<longleftrightarrow> of_char c \<ge> (97::nat) \<and> of_char c \<le> (122::nat)"

definition is_digit :: "char \<Rightarrow> bool" where
  "is_digit c \<longleftrightarrow> of_char c \<ge> (48::nat) \<and> of_char c \<le> (57::nat)"

definition digits_value :: "string \<Rightarrow> int" where
  "digits_value ds = foldl (\<lambda>n c. n * 10 + (of_char c - 48)) 0 ds"

definition scan_word :: "nat \<Rightarrow> string \<Rightarrow> (string \<times> string) option" where
  "scan_word w s =
     (let k = takeWhile is_lower (take w s)
      in if k = [] then None else Some (k, drop (length k) s))"

definition scan_int :: "(int \<Rightarrow> int) \<Rightarrow> string \<Rightarrow> (int \<times> string) option" where
  "scan_int ovf s =
     (let s1 = dropWhile is_space s;
          neg = (s1 \<noteq> [] \<and> hd s1 = CHR ''-'');
          s2 = (if s1 \<noteq> [] \<and> (hd s1 = CHR ''-'' \<or> hd s1 = CHR ''+'') then tl s1 else s1);
          ds = takeWhile is_digit s2;
          n = (if neg then - digits_value ds else digits_value ds)
      in if ds = [] then None
         else Some (if - 2147483648 \<le> n \<and> n \<le> 2147483647 then n else ovf n,
                    drop (length ds) s2))"

definition tune_scan :: "(int \<Rightarrow> int) \<Rightarrow> string \<Rightarrow> ((string \<times> int) \<times> string) option" where
  "tune_scan ovf s =
     (case scan_word 15 (dropWhile is_space s) of
        None \<Rightarrow> None
      | Some (key, s1) \<Rightarrow>
          (case s1 of
             [] \<Rightarrow> None
           | c # s2 \<Rightarrow> if c \<noteq> CHR ''='' then None
                      else (case scan_int ovf s2 of
                              None \<Rightarrow> None
                            | Some (v, s3) \<Rightarrow> Some ((key, v), s3))))"

definition tune_apply :: "string \<Rightarrow> int \<Rightarrow> bootbox_tune \<Rightarrow> bootbox_tune" where
  "tune_apply key v t =
     (if key = ''jit'' \<and> v \<ge> 1 \<and> v \<le> 1000000 then t\<lparr>wasm_instantiate_num := v\<rparr>
      else if key = ''max'' \<and> v \<ge> 1000 \<and> v < INSTANCE_RUNNING_LEN
        then t\<lparr>wasm_max_instance_alive := v\<rparr>
      else if key = ''fpinline'' then t\<lparr>wasm_fp_inline_enabled := v \<noteq> 0\<rparr>
      else if key = ''chain'' then
        (let t1 = t\<lparr>wasm_tail_chain := v \<noteq> 0, wasm_chain_nested := v = 2\<rparr>
         in if wasm_chain_nested t1 then t1\<lparr>wasm_chain_budget := 32\<rparr> else t1)
      else if key = ''chainmax'' \<and> v \<ge> 2 \<and> v \<le> WASM_CHAIN_BUDGET
        then t\<lparr>wasm_chain_budget := v\<rparr>
      else if key = ''regloc'' then t\<lparr>wasm_reg_locals := v \<noteq> 0\<rparr>
      else if key = ''hotshare'' then t\<lparr>wasm_hot_share := v \<noteq> 0\<rparr>
      else if key = ''tsc'' then t\<lparr>bootbox_tsc_lockfree := v \<noteq> 0\<rparr>
      else if key = ''fasttci'' then t\<lparr>wasm_fast_tci := v \<noteq> 0\<rparr>
      else if key = ''lazywasm'' then t\<lparr>bb_lazy_wasm := v \<noteq> 0\<rparr>
      else if key = ''sumcnt'' then t\<lparr>wasm_sum_count := v \<noteq> 0\<rparr>
      else if key = ''split'' then t\<lparr>bb_split_enabled := v \<noteq> 0\<rparr>
      else if key = ''share'' then t\<lparr>bb_share_on := v \<noteq> 0\<rparr>
      else if key = ''hammock'' then t\<lparr>bb_hammock := v \<noteq> 0\<rparr>
      else if key = ''hmmax'' \<and> v \<ge> 1 \<and> v \<le> 127 then t\<lparr>bb_hm_max := v\<rparr>
      else if key = ''hmmod'' \<and> v \<ge> 1 then t\<lparr>bb_hm_mod := v\<rparr>
      else if key = ''hmsel'' \<and> v \<ge> 0 then t\<lparr>bb_hm_sel := v\<rparr>
      else if key = ''hmcpl'' then t\<lparr>bb_hm_cpl := v\<rparr>
      else if key = ''repbulk'' then t\<lparr>bb_repbulk := v \<noteq> 0\<rparr>
      else if key = ''simdinline'' then t\<lparr>wasm_simd_inline_enabled := v \<noteq> 0\<rparr>
      else if key = ''gvecool'' then t\<lparr>wasm_gvec_ool_enabled := v \<noteq> 0\<rparr>
      else t)"

text \<open>Every successful conversion consumes input, so the reading loop terminates.\<close>

lemma scan_int_length: "scan_int ovf s = Some (v, s') \<Longrightarrow> length s' \<le> length s"
  by (auto simp: scan_int_def Let_def length_dropWhile_le le_trans [OF diff_le_self]
      split: if_splits)

lemma scan_word_length: "scan_word w s = Some (k, s') \<Longrightarrow> length s' \<le> length s"
  by (auto simp: scan_word_def Let_def split: if_splits)

lemma tune_scan_length: "tune_scan ovf s = Some (kv, s') \<Longrightarrow> length s' < length s"
  using length_dropWhile_le [of is_space s]
  by (fastforce simp: tune_scan_def split: option.splits list.splits if_splits
      dest!: scan_word_length scan_int_length)

function tune_loop :: "(int \<Rightarrow> int) \<Rightarrow> string \<Rightarrow> bootbox_tune \<Rightarrow> bootbox_tune" where
  "tune_loop ovf s t =
     (case tune_scan ovf s of
        None \<Rightarrow> t
      | Some ((key, v), s') \<Rightarrow> tune_loop ovf s' (tune_apply key v t))"
  by pat_completeness auto
termination
  by (relation "measure (\<lambda>(ovf, s, t). length s)") (auto dest: tune_scan_length)

declare tune_loop.simps [simp del]

text \<open>\<^const>\<open>None\<close> is a file that cannot be opened: the defaults stay.\<close>

definition tune_read :: "(int \<Rightarrow> int) \<Rightarrow> string option \<Rightarrow> bootbox_tune \<Rightarrow> bootbox_tune" where
  "tune_read ovf contents t =
     (case contents of
        None \<Rightarrow> t
      | Some s \<Rightarrow>
          (let t1 = tune_loop ovf s t
           in t1\<lparr>wasm_hot_num := (if wasm_hot_share t1 \<or> wasm_sum_count t1
                                  then wasm_instantiate_num t1 div 16
                                  else wasm_instantiate_num t1)\<rparr>))"

section \<open>The values stay in range\<close>

definition tune_range :: "bootbox_tune \<Rightarrow> bool" where
  "tune_range t \<longleftrightarrow>
     1 \<le> wasm_instantiate_num t \<and> wasm_instantiate_num t \<le> 1000000
     \<and> 1000 \<le> wasm_max_instance_alive t \<and> wasm_max_instance_alive t < INSTANCE_RUNNING_LEN
     \<and> 2 \<le> wasm_chain_budget t \<and> wasm_chain_budget t \<le> WASM_CHAIN_BUDGET
     \<and> 1 \<le> bb_hm_max t \<and> bb_hm_max t \<le> 127 \<and> 1 \<le> bb_hm_mod t \<and> 0 \<le> bb_hm_sel t
     \<and> (wasm_chain_nested t \<longrightarrow> wasm_tail_chain t)"

definition tune_ok :: "bootbox_tune \<Rightarrow> bool" where
  "tune_ok t \<longleftrightarrow> tune_range t \<and> 0 \<le> wasm_hot_num t \<and> wasm_hot_num t \<le> wasm_instantiate_num t"

lemma tune_apply_range: "tune_range t \<Longrightarrow> tune_range (tune_apply key v t)"
  by (simp add: tune_range_def tune_apply_def Let_def tune_consts)

lemma tune_loop_range: "tune_range t \<Longrightarrow> tune_range (tune_loop ovf s t)"
proof (induction ovf s t rule: tune_loop.induct)
  case (1 ovf s t)
  then show ?case
    by (subst tune_loop.simps) (auto simp: tune_apply_range split: option.split)
qed

lemma tune_default_ok: "tune_ok tune_default"
  by (simp add: tune_ok_def tune_range_def tune_default_def tune_consts)

lemma tune_range_hot_num [simp]: "tune_range (t\<lparr>wasm_hot_num := n\<rparr>) = tune_range t"
  by (simp add: tune_range_def)

lemma tune_range_instantiate_num:
  "tune_range t \<Longrightarrow> 0 \<le> wasm_instantiate_num t div 16
     \<and> wasm_instantiate_num t div 16 \<le> wasm_instantiate_num t \<and> 0 \<le> wasm_instantiate_num t"
  by (auto simp: tune_range_def)

lemma tune_read_ok:
  assumes "tune_ok t"
  shows "tune_ok (tune_read ovf contents t)"
proof (cases contents)
  case (Some s)
  have "tune_range (tune_loop ovf s t)" using assms by (simp add: tune_ok_def tune_loop_range)
  with tune_range_instantiate_num [OF this] Some show ?thesis
    by (simp add: tune_ok_def tune_read_def Let_def)
qed (use assms in \<open>simp add: tune_read_def\<close>)

text \<open>
  C22.  Whatever bytes the \<open>/bootbox-tune\<close> file holds, and whatever the C library stores for a number
  that does not fit an \<open>int\<close>, reading it terminates with every tunable in the range the engine relies
  on: the compile threshold between 1 and 1000000, the live-instance cap between 1000 and one below
  the slot table's size, the chain budget between 2 and 256, the hot threshold between 0 and the
  compile threshold, nested chaining only with chaining on.
\<close>

theorem tune_read_in_range: "tune_ok (tune_read ovf contents tune_default)"
  by (rule tune_read_ok [OF tune_default_ok])


section \<open>Read once, before any thread goes on\<close>

text \<open>
  The protocol around the file: \<open>state\<close> is 0 (not read), 1 (reading), 2 (done).  A thread that calls
  \<open>bootbox_tune_init\<close> tests for 2, then tries to move 0 to 1; the winner reads the file and stores 2,
  a loser waits for 2.  \<open>threads\<close> gives the position of every thread.
\<close>

datatype tune_pc = T_enter | T_cmpxchg | T_spin | T_reading | T_publish | T_return

record tune_world =
  init_state :: nat
  tunables :: bootbox_tune
  threads :: "nat \<Rightarrow> tune_pc"

definition tune_step :: "(int \<Rightarrow> int) \<Rightarrow> string option \<Rightarrow> nat \<Rightarrow> tune_world \<Rightarrow> tune_world" where
  "tune_step ovf contents i w =
     (case threads w i of
        T_enter \<Rightarrow> w\<lparr>threads := (threads w)(i := if init_state w = 2 then T_return else T_cmpxchg)\<rparr>
      | T_cmpxchg \<Rightarrow>
          if init_state w = 0
          then w\<lparr>init_state := 1, threads := (threads w)(i := T_reading)\<rparr>
          else w\<lparr>threads := (threads w)(i := T_spin)\<rparr>
      | T_spin \<Rightarrow> if init_state w = 2 then w\<lparr>threads := (threads w)(i := T_return)\<rparr> else w
      | T_reading \<Rightarrow> w\<lparr>tunables := tune_read ovf contents (tunables w),
                       threads := (threads w)(i := T_publish)\<rparr>
      | T_publish \<Rightarrow> w\<lparr>init_state := 2, threads := (threads w)(i := T_return)\<rparr>
      | T_return \<Rightarrow> w)"

inductive tune_reach :: "(int \<Rightarrow> int) \<Rightarrow> string option \<Rightarrow> tune_world \<Rightarrow> bool"
  for ovf contents where
  start: "tune_reach ovf contents
            \<lparr>init_state = 0, tunables = tune_default, threads = (\<lambda>_. T_enter)\<rparr>"
| step: "tune_reach ovf contents w \<Longrightarrow> tune_reach ovf contents (tune_step ovf contents i w)"

definition tune_inv :: "(int \<Rightarrow> int) \<Rightarrow> string option \<Rightarrow> tune_world \<Rightarrow> bool" where
  "tune_inv ovf contents w \<longleftrightarrow>
     init_state w \<le> 2
     \<and> (\<forall>i. threads w i \<in> {T_reading, T_publish} \<longrightarrow> init_state w = 1)
     \<and> (\<forall>i j. threads w i \<in> {T_reading, T_publish} \<and> threads w j \<in> {T_reading, T_publish} \<longrightarrow> i = j)
     \<and> (\<forall>i. threads w i = T_return \<longrightarrow> init_state w = 2)
     \<and> (\<forall>i. threads w i = T_reading \<longrightarrow> tunables w = tune_default)
     \<and> (\<forall>i. threads w i = T_publish \<longrightarrow> tunables w = tune_read ovf contents tune_default)
     \<and> (init_state w = 0 \<longrightarrow> tunables w = tune_default)
     \<and> (init_state w = 2 \<longrightarrow> tunables w = tune_read ovf contents tune_default)"

lemma tune_inv_move:
  assumes "tune_inv ovf contents w" "pc = T_cmpxchg \<or> pc = T_spin \<or> pc = T_return \<and> init_state w = 2"
  shows "tune_inv ovf contents (w\<lparr>threads := (threads w)(i := pc)\<rparr>)"
  using assms by (auto simp: tune_inv_def)

lemma tune_inv_step:
  assumes inv: "tune_inv ovf contents w"
  shows "tune_inv ovf contents (tune_step ovf contents i w)"
proof (cases "threads w i")
  case T_cmpxchg
  show ?thesis
  proof (cases "init_state w = 0")
    case True
    with inv have "tunables w = tune_default"
      and "\<forall>j. threads w j \<noteq> T_reading \<and> threads w j \<noteq> T_publish \<and> threads w j \<noteq> T_return"
      unfolding tune_inv_def by (blast, metis insertCI zero_neq_numeral zero_neq_one)
    with T_cmpxchg True show ?thesis by (simp add: tune_inv_def tune_step_def)
  qed (use T_cmpxchg inv in \<open>simp add: tune_step_def tune_inv_move\<close>)
next
  case T_reading
  with inv have "init_state w = 1" "tunables w = tune_default"
    and "\<forall>j. j \<noteq> i \<longrightarrow> threads w j \<noteq> T_reading \<and> threads w j \<noteq> T_publish \<and> threads w j \<noteq> T_return"
    unfolding tune_inv_def by (blast, blast, metis insertCI numeral_eq_one_iff semiring_norm(85))
  with T_reading show ?thesis by (simp add: tune_inv_def tune_step_def)
next
  case T_publish
  with inv have "init_state w = 1" "tunables w = tune_read ovf contents tune_default"
    and "\<forall>j. j \<noteq> i \<longrightarrow> threads w j \<noteq> T_reading \<and> threads w j \<noteq> T_publish \<and> threads w j \<noteq> T_return"
    unfolding tune_inv_def by (blast, blast, metis insertCI numeral_eq_one_iff semiring_norm(85))
  with T_publish show ?thesis by (simp add: tune_inv_def tune_step_def)
qed (use inv in \<open>simp_all add: tune_step_def tune_inv_move\<close>)

lemma tune_inv_reach: "tune_reach ovf contents w \<Longrightarrow> tune_inv ovf contents w"
proof (induction rule: tune_reach.induct)
  case start
  show ?case by (simp add: tune_inv_def)
next
  case (step w i)
  from step.IH show ?case by (rule tune_inv_step)
qed

text \<open>
  C23.  In every interleaving of any number of threads, at most one thread is ever reading the file,
  and a thread that has returned from \<open>bootbox_tune_init\<close> sees the values of the whole file.
\<close>

theorem tune_init_once:
  assumes "tune_reach ovf contents w"
  shows "(threads w i = T_return \<longrightarrow> tunables w = tune_read ovf contents tune_default)
    \<and> (threads w i \<in> {T_reading, T_publish} \<and> threads w j \<in> {T_reading, T_publish} \<longrightarrow> i = j)"
  using tune_inv_reach [OF assms] unfolding tune_inv_def by blast

definition tune_run :: "(int \<Rightarrow> int) \<Rightarrow> string option \<Rightarrow> nat list \<Rightarrow> tune_world" where
  "tune_run ovf contents is = foldl (\<lambda>w i. tune_step ovf contents i w)
     \<lparr>init_state = 0, tunables = tune_default, threads = (\<lambda>_. T_enter)\<rparr> is"

lemma tune_reach_run: "tune_reach ovf contents (tune_run ovf contents is)"
  by (induction "is" rule: rev_induct) (auto simp: tune_run_def intro: tune_reach.intros)

theorem tune_init_once_witness:
  "threads (tune_run id None [0, 1, 0, 1, 1, 0, 0, 1]) 1 = T_return
   \<and> tunables (tune_run id None [0, 1, 0, 1, 1, 0, 0, 1]) = tune_read id None tune_default"
  using tune_init_once [OF tune_reach_run, of id None "[0, 1, 0, 1, 1, 0, 0, 1]" 1]
  by (simp add: tune_run_def tune_step_def)

end
