(* ===== verification/Jit_Policy.thy ===== *)
theory Jit_Policy
  imports Tune
begin

text \<open>
  Which translation blocks are compiled: the per-core words in a block's header and the tests on them
  (\<open>get_core_nums\<close>, \<open>init_wasm32\<close>, \<open>tb_hot_elsewhere\<close>, \<open>tb_hot_in_sum\<close>, \<open>tb_run_elsewhere\<close>,
  \<open>tb_wants_tci\<close> of \<open>tcg/wasm32.c\<close>).

  A block's header starts at its address: the offset of its byte code (4 bytes), the size of the export
  vector (4 bytes), the export vector with one word per core, the size of the counter vector (4 bytes)
  and the counter vector with one word per core.  \<open>thread_info\<close> holds a vCPU thread's thread-local
  variables, \<open>jit_globals\<close> the process-wide ones.
\<close>

section \<open>Cores and their slots\<close>

record thread_info =
  initdone :: bool
  cur_core_num :: int
  export_vec_off :: int
  counter_vec_off :: int
  all_cores_num :: int

record jit_globals =
  cur_core_num_max :: int
  core_nums :: int
  bb_share_id :: u32

definition thread_fresh :: thread_info where
  "thread_fresh = \<lparr>initdone = False, cur_core_num = - 1, export_vec_off = - 1,
     counter_vec_off = - 1, all_cores_num = - 1\<rparr>"

definition jit_globals_init :: jit_globals where
  "jit_globals_init = \<lparr>cur_core_num_max = 0, core_nums = 0, bb_share_id = 0\<rparr>"

definition WASM_MIN_CORE_SLOTS :: int where "WASM_MIN_CORE_SLOTS = 8"

text \<open>
  \<open>tcg_max_ctxs\<close> is set by the accelerator before anything runs; \<open>logical\<close> is what
  \<open>emscripten_num_logical_cores\<close> answers.
\<close>

definition get_core_nums :: "int \<Rightarrow> int \<Rightarrow> jit_globals \<Rightarrow> int \<times> jit_globals" where
  "get_core_nums tcg_max_ctxs logical g =
     (let v = core_nums g
      in if v = 0
         then let v' = (if tcg_max_ctxs > 0 then tcg_max_ctxs else max logical WASM_MIN_CORE_SLOTS)
              in (v', g\<lparr>core_nums := v'\<rparr>)
         else (v, g))"

text \<open>
  \<^const>\<open>None\<close> is \<open>abort\<close>.  \<open>now\<close> is the clock word the page identifier is made from.  The buffers
  the function allocates and the JavaScript side it sets up are not part of this state;
  \<open>bootbox_tune_init\<close>, which it calls, is modelled in theory \<open>Tune\<close>.
\<close>

definition init_wasm32 ::
    "int \<Rightarrow> int \<Rightarrow> u32 \<Rightarrow> jit_globals \<Rightarrow> thread_info \<Rightarrow> (jit_globals \<times> thread_info) option" where
  "init_wasm32 tcg_max_ctxs logical now g t =
     (if initdone t then Some (g, t)
      else
        let cur = cur_core_num_max g;
            g1 = g\<lparr>cur_core_num_max := cur + 1\<rparr>;
            (n, g2) = get_core_nums tcg_max_ctxs logical g1
        in if cur \<ge> n then None
           else
             let eo = 4 + 4 + cur * 4;
                 co = 4 + 4 + n * 4 + 4 + cur * 4;
                 g3 = (if bb_share_id g2 = 0
                       then g2\<lparr>bb_share_id := (now * 2654435761) OR 1\<rparr> else g2)
             in Some (g3, t\<lparr>initdone := True, cur_core_num := cur, export_vec_off := eo,
                           counter_vec_off := co, all_cores_num := n\<rparr>))"

text \<open>Threads start one after the other: the fetch-and-increment gives each its own number.\<close>

primrec init_threads ::
    "int \<Rightarrow> int \<Rightarrow> u32 \<Rightarrow> nat \<Rightarrow> (jit_globals \<times> thread_info list) option" where
  "init_threads tcg_max_ctxs logical now 0 = Some (jit_globals_init, [])"
| "init_threads tcg_max_ctxs logical now (Suc k) =
     (case init_threads tcg_max_ctxs logical now k of
        None \<Rightarrow> None
      | Some (g, ts) \<Rightarrow>
          (case init_wasm32 tcg_max_ctxs logical now g thread_fresh of
             None \<Rightarrow> None
           | Some (g', t) \<Rightarrow> Some (g', ts @ [t])))"

section \<open>Policy\<close>

definition tb_hot_elsewhere :: "thread_info \<Rightarrow> memory \<Rightarrow> u32 \<Rightarrow> bool" where
  "tb_hot_elsewhere t m tb_ptr =
     (let ev = tb_ptr + 8
      in list_ex (\<lambda>i. int i \<noteq> cur_core_num t \<and> load32 m (ev + of_nat (4 * i)) \<noteq> 0)
           [0..<nat (all_cores_num t)])"

definition tb_counters :: "thread_info \<Rightarrow> u32 \<Rightarrow> u32" where
  "tb_counters t tb_ptr = tb_ptr + of_int (4 + 4 + all_cores_num t * 4 + 4)"

definition tb_hot_in_sum :: "bootbox_tune \<Rightarrow> thread_info \<Rightarrow> memory \<Rightarrow> u32 \<Rightarrow> bool" where
  "tb_hot_in_sum tune t m tb_ptr =
     (let cv = tb_counters t tb_ptr;
          sum = foldl (\<lambda>sum i. let v = load32 m (cv + of_nat (4 * i))
                              in if s32 v > 0 then sum + v else sum)
                  0 [0..<nat (all_cores_num t)]
      in s32 sum \<ge> wasm_instantiate_num tune)"

definition tb_run_elsewhere :: "thread_info \<Rightarrow> memory \<Rightarrow> u32 \<Rightarrow> bool" where
  "tb_run_elsewhere t m tb_ptr =
     (let cv = tb_counters t tb_ptr
      in list_ex (\<lambda>i. int i \<noteq> cur_core_num t \<and> load32 m (cv + of_nat (4 * i)) \<noteq> 0)
           [0..<nat (all_cores_num t)])"

definition tb_wants_tci :: "bootbox_tune \<Rightarrow> thread_info \<Rightarrow> memory \<Rightarrow> u32 \<Rightarrow> u32 \<Rightarrow> bool" where
  "tb_wants_tci tune t m cnt tb_ptr =
     (if s32 cnt < wasm_hot_num tune then True
      else if s32 cnt \<ge> wasm_instantiate_num tune then False
      else if wasm_hot_share tune \<and> tb_hot_elsewhere t m tb_ptr then False
      else if wasm_sum_count tune \<and> cnt AND 63 = 0 \<and> tb_hot_in_sum tune t m tb_ptr then False
      else True)"

section \<open>Slots of different cores\<close>

definition core_slots :: "int \<Rightarrow> int \<Rightarrow> thread_info \<Rightarrow> bool" where
  "core_slots n i t \<longleftrightarrow>
     initdone t \<and> cur_core_num t = i \<and> all_cores_num t = n
     \<and> export_vec_off t = 8 + 4 * i \<and> counter_vec_off t = 12 + 4 * n + 4 * i"

lemma init_threads_inv:
  assumes "0 < tcg_max_ctxs" "init_threads tcg_max_ctxs logical now k = Some (g, ts)"
  shows "length ts = k \<and> cur_core_num_max g = int k \<and> int k \<le> tcg_max_ctxs
    \<and> core_nums g = (if k = 0 then 0 else tcg_max_ctxs)
    \<and> (\<forall>i<k. core_slots tcg_max_ctxs (int i) (ts ! i))"
  using assms(2)
proof (induction k arbitrary: g ts)
  case 0
  then show ?case using assms(1) by (auto simp: jit_globals_init_def)
next
  case (Suc k)
  from Suc.prems obtain g1 ts1 t where
    *: "init_threads tcg_max_ctxs logical now k = Some (g1, ts1)"
      "init_wasm32 tcg_max_ctxs logical now g1 thread_fresh = Some (g, t)" "ts = ts1 @ [t]"
    by (auto split: option.splits)
  note IH = Suc.IH [OF *(1)]
  have "cur_core_num_max g = int k + 1 \<and> core_nums g = tcg_max_ctxs \<and> int k < tcg_max_ctxs
      \<and> core_slots tcg_max_ctxs (int k) t"
    using *(2) IH assms(1)
    by (auto simp: init_wasm32_def get_core_nums_def thread_fresh_def Let_def core_slots_def
        split: if_splits)
  then show ?case using IH *(3) by (auto simp: nth_append less_Suc_eq)
qed

lemma init_threads_enough:
  assumes "0 < tcg_max_ctxs" "int k \<le> tcg_max_ctxs"
  shows "\<exists>g ts. init_threads tcg_max_ctxs logical now k = Some (g, ts)"
  using assms(2)
proof (induction k)
  case (Suc k)
  then obtain g ts where *: "init_threads tcg_max_ctxs logical now k = Some (g, ts)" by auto
  from init_threads_inv [OF assms(1) *] Suc.prems assms(1)
  have "\<exists>r. init_wasm32 tcg_max_ctxs logical now g thread_fresh = Some r"
    by (auto simp: init_wasm32_def get_core_nums_def thread_fresh_def Let_def)
  then show ?case using * by auto
qed (simp add: jit_globals_init_def)





end
