(* ===== verification/TCI_Machine.thy ===== *)
theory TCI_Machine
  imports TCI_Args TCG_Cond Jit_Policy
begin

text \<open>
  The state of a vCPU thread inside the TCI interpreter, the code the interpreter calls, and guest
  memory accesses through the software TLB (\<open>tlb_load\<close>, \<open>tci_qemu_ld\<close>, \<open>tci_qemu_st\<close> of
  \<open>tcg/wasm32.c\<close>).

  \<^item> \<open>machine\<close>: the register file \<open>regs\<close>, the linear memory, the thread-local variables the
    interpreters read and write, and the rest of the process as an opaque component \<open>world\<close>.
  \<^item> \<open>tci_env\<close>: what stays fixed while the interpreter runs, and the functions it calls through
    pointers, each a parameter: the helpers, libffi, and the slow paths of guest accesses.
\<close>

section \<open>State\<close>

record 'w machine =
  regs :: "nat \<Rightarrow> u64"
  mem :: memory
  ctx_tb_ptr :: u32
  tci_tb_ptr :: u32
  bb_cold_ptr :: u32
  bb_resume_ptr :: u32
  bb_fast_tci_depth :: bool
  bb_force_slow_tci :: bool
  world :: 'w

text \<open>A helper returns (a result of up to 128 bits, low half first) or leaves by \<open>longjmp\<close>.\<close>

datatype 'w hres = HRet u64 u64 "'w machine" | HUnwind "'w machine"

datatype harg = A32 u32 | A64 u64 | A128 u64 u64

text \<open>Where \<open>call_slots\<close> points: into the register file or to a word of the stack buffer.\<close>

datatype slot = SReg nat | SStack nat

record 'w tci_env =
  env_ptr :: u32
  ctx_stack :: u32
  thread :: thread_info
  tune :: bootbox_tune
  helper_lookup_tb_ptr_addr :: u32
  helper_lookup_tb_ptr :: "u32 \<Rightarrow> 'w machine \<Rightarrow> 'w hres"
  cif_arg_sizes :: "u32 \<Rightarrow> nat list"
  call_helper :: "u32 \<Rightarrow> harg list \<Rightarrow> 'w machine \<Rightarrow> 'w hres"
  ffi_call :: "u32 \<Rightarrow> u32 \<Rightarrow> u32 \<Rightarrow> slot list \<Rightarrow> 'w machine \<Rightarrow> 'w hres"
  helper_ld_mmu :: "u32 \<Rightarrow> u64 \<Rightarrow> u32 \<Rightarrow> u32 \<Rightarrow> 'w machine \<Rightarrow> 'w hres"
  helper_st_mmu :: "u32 \<Rightarrow> u64 \<Rightarrow> u64 \<Rightarrow> u32 \<Rightarrow> u32 \<Rightarrow> 'w machine \<Rightarrow> 'w hres"

definition set_reg :: "nat \<Rightarrow> u64 \<Rightarrow> 'w machine \<Rightarrow> 'w machine" where
  "set_reg r v m = m\<lparr>regs := (regs m)(r := v)\<rparr>"

definition set_mem :: "memory \<Rightarrow> 'w machine \<Rightarrow> 'w machine" where
  "set_mem mm m = m\<lparr>mem := mm\<rparr>"

text \<open>A pointer of the C code made from a 64-bit register keeps its low half.\<close>

abbreviation ptr32 :: "u64 \<Rightarrow> u32" where
  "ptr32 v \<equiv> ucast v"

definition tci_write_reg64 :: "nat \<Rightarrow> nat \<Rightarrow> u64 \<Rightarrow> 'w machine \<Rightarrow> 'w machine" where
  "tci_write_reg64 high_index low_index v m =
     set_reg high_index (drop_bit 32 v) (set_reg low_index (ucast (ucast v :: u32)) m)"

section \<open>Memory operations\<close>

definition MO_SIZE :: u32 where "MO_SIZE = 0x07"
definition MO_SSIZE :: u32 where "MO_SSIZE = 0x0F"
definition MO_UB :: u32 where "MO_UB = 0"
definition MO_UW :: u32 where "MO_UW = 1"
definition MO_UL :: u32 where "MO_UL = 2"
definition MO_UQ :: u32 where "MO_UQ = 3"
definition MO_SB :: u32 where "MO_SB = 8"
definition MO_SW :: u32 where "MO_SW = 9"
definition MO_SL :: u32 where "MO_SL = 10"

lemmas MO_defs = MO_SIZE_def MO_SSIZE_def MO_UB_def MO_UW_def MO_UL_def MO_UQ_def MO_SB_def
  MO_SW_def MO_SL_def

definition make_memop_idx :: "u32 \<Rightarrow> u32 \<Rightarrow> u32" where
  "make_memop_idx op idx = push_bit 4 op OR idx"

definition get_memop :: "u32 \<Rightarrow> u32" where
  "get_memop oi = drop_bit 4 oi"

definition get_mmuidx :: "u32 \<Rightarrow> u32" where
  "get_mmuidx oi = oi AND 15"

text \<open>
  \<open>tci_args_ldst\<close>: the operands are in the constant pool.  The last component is the pool entry's
  address.
\<close>

definition tci_args_ldst :: "u32 \<Rightarrow> u32 \<Rightarrow> memory \<Rightarrow> nat \<times> nat \<times> u32 \<times> u32" where
  "tci_args_ldst insn tb_ptr m =
     (let l0 = tci_args_l insn tb_ptr
      in (unat (ucast (load64 m l0) :: u32), unat (ucast (load64 m (l0 + 8)) :: u32),
          ucast (load64 m (l0 + 16)), l0))"

definition CPU_TLB_ENTRY_BITS :: int where "CPU_TLB_ENTRY_BITS = 5"

text \<open>Offsets in \<open>CPUTLBEntry\<close>.\<close>

definition TLB_addr_read :: u32 where "TLB_addr_read = 0"
definition TLB_addr_write :: u32 where "TLB_addr_write = 8"
definition TLB_addend :: u32 where "TLB_addend = 24"

text \<open>
  The fast path of a guest access: the host address, or 0.  The two fields of the TLB descriptor are
  read as 64-bit words although they are 32 bits wide; the pointer made from the sum keeps the low
  half.
\<close>

definition tlb_entry_addr :: "u32 \<Rightarrow> u64 \<Rightarrow> u32 \<Rightarrow> memory \<Rightarrow> u32" where
  "tlb_entry_addr env taddr ptr m =
     (let mask_ofs = ucast (load64 m (ptr + 32)) :: u32;
          page_bits = ucast (load64 m (ptr + 40)) :: u8;
          table_ofs = ucast (load64 m (ptr + 56)) :: u32;
          tmp0 = drop_bit (nat (sint page_bits - CPU_TLB_ENTRY_BITS)) taddr;
          tmp2 = load64 m (env + mask_ofs);
          tmp2_b = load64 m (env + table_ofs)
      in ptr32 ((tmp0 AND tmp2) + tmp2_b))"

definition tlb_load :: "u32 \<Rightarrow> u64 \<Rightarrow> u32 \<Rightarrow> u32 \<Rightarrow> bool \<Rightarrow> memory \<Rightarrow> u64" where
  "tlb_load env taddr mop ptr is_ld m =
     (let a_mask = ucast (load64 m (ptr + 24)) :: u32;
          page_mask = load64 m (ptr + 48);
          s_bits = mop AND MO_SIZE;
          s_mask = push_bit (unat s_bits) 1 - 1 :: u32;
          tmp3 = tlb_entry_addr env taddr ptr m;
          off = (if is_ld then TLB_addr_read else TLB_addr_write);
          target = load64 m (tmp3 + off);
          c_addr = (if a_mask < s_mask then taddr + ucast (s_mask - a_mask) else taddr);
          compare_mask = page_mask OR ucast a_mask;
          c_addr' = c_addr AND compare_mask
      in if c_addr' = target
         then let addend = load32 m (tmp3 + TLB_addend) in taddr + scast addend
         else 0)"

text \<open>\<^const>\<open>None\<close> is \<open>g_assert_not_reached\<close>.\<close>

definition tci_qemu_ld ::
    "'w tci_env \<Rightarrow> u64 \<Rightarrow> u32 \<Rightarrow> u32 \<Rightarrow> u32 \<Rightarrow> 'w machine \<Rightarrow> 'w hres option" where
  "tci_qemu_ld e taddr oi tb_ptr ptr m =
     (let mop = get_memop oi;
          ssize = mop AND MO_SSIZE;
          target_addr = tlb_load (env_ptr e) taddr mop ptr True (mem m);
          a = ptr32 target_addr
      in if target_addr \<noteq> 0 then
           (if ssize = MO_UB then Some (HRet (ucast (load8 (mem m) a)) 0 m)
            else if ssize = MO_SB then Some (HRet (scast (load8 (mem m) a)) 0 m)
            else if ssize = MO_UW then Some (HRet (ucast (load16 (mem m) a)) 0 m)
            else if ssize = MO_SW then Some (HRet (scast (load16 (mem m) a)) 0 m)
            else if ssize = MO_UL then Some (HRet (ucast (load32 (mem m) a)) 0 m)
            else if ssize = MO_SL then Some (HRet (scast (load32 (mem m) a)) 0 m)
            else if ssize = MO_UQ then Some (HRet (load64 (mem m) a) 0 m)
            else None)
         else if ssize \<in> {MO_UB, MO_SB, MO_UW, MO_SW, MO_UL, MO_SL, MO_UQ}
           then Some (helper_ld_mmu e ssize taddr oi tb_ptr m)
         else None)"

definition tci_qemu_st ::
    "'w tci_env \<Rightarrow> u64 \<Rightarrow> u64 \<Rightarrow> u32 \<Rightarrow> u32 \<Rightarrow> u32 \<Rightarrow> 'w machine \<Rightarrow> 'w hres option" where
  "tci_qemu_st e taddr val oi tb_ptr ptr m =
     (let mop = get_memop oi;
          size = mop AND MO_SIZE;
          target_addr = tlb_load (env_ptr e) taddr mop ptr False (mem m);
          a = ptr32 target_addr
      in if target_addr \<noteq> 0 then
           (if size = MO_UB then Some (HRet 0 0 (set_mem (store8 (mem m) a (ucast val)) m))
            else if size = MO_UW then Some (HRet 0 0 (set_mem (store16 (mem m) a (ucast val)) m))
            else if size = MO_UL then Some (HRet 0 0 (set_mem (store32 (mem m) a (ucast val)) m))
            else if size = MO_UQ then Some (HRet 0 0 (set_mem (store64 (mem m) a val) m))
            else None)
         else if size \<in> {MO_UB, MO_UW, MO_UL, MO_UQ}
           then Some (helper_st_mmu e size taddr val oi tb_ptr m)
         else None)"

section \<open>The TLB fast path\<close>

text \<open>
  Only the low halves of the two 64-bit reads matter: the entry's address is the table plus the
  masked index.
\<close>

lemma tlb_entry_addr_eq:
  assumes "ucast (load64 m (ptr + 40)) = (of_nat pb :: u8)" "pb < 64"
  shows "tlb_entry_addr env taddr ptr m =
    (ucast (drop_bit (pb - 5) taddr) AND load32 m (env + load32 m (ptr + 32)))
      + load32 m (env + load32 m (ptr + 56))"
proof -
  have "sint (of_nat pb :: u8) = int pb"
    using assms(2) by (simp add: sint_uint_cases unsigned_of_nat take_bit_nat_eq_self)
  then have "nat (sint (of_nat pb :: u8) - CPU_TLB_ENTRY_BITS) = pb - 5"
    by (simp add: CPU_TLB_ENTRY_BITS_def)
  then show ?thesis
    by (simp add: tlb_entry_addr_def Let_def ucast_load64 assms(1) ucast_add_64_32 unsigned_and_eq)
qed

lemma tlb_compare_sound:
  fixes taddr target :: u64
  assumes "s \<le> 3" "k \<le> pb" "3 \<le> pb" "pb < 64"
    and c: "c = (if k < s then taddr + of_nat (2 ^ s - 2 ^ k) else taddr)"
    and hit: "c AND (NOT (mask pb) OR mask k) = target"
    and low: "take_bit k target = 0" and idx: "bit target pb = bit taddr pb"
  shows "drop_bit pb taddr = drop_bit pb target"
    and "drop_bit pb (taddr + of_nat (2 ^ s - 1)) = drop_bit pb target"
    and "take_bit k taddr = 0" and "take_bit pb target = 0"
proof -
  have "(2::nat) ^ s \<le> 2 ^ 3" "(2::nat) ^ 3 \<le> 2 ^ pb" using assms(1,3) by (simp_all only: power_increasing_iff) 
  then have d: "(2::nat) ^ s - 2 ^ k < 2 ^ pb" by (metis diff_less le_trans order_less_le_trans zero_less_numeral zero_less_power)
  have bc: "bit target i = (bit c i \<and> (pb \<le> i \<or> i < k))" for i
    unfolding hit [symmetric] by (auto simp: bit_simps dest: bit_imp_le_length)
  have page_c: "drop_bit pb c = drop_bit pb target"
    by (rule bit_eqI) (simp add: bit_drop_bit_eq bc)
  have "bit c pb = bit taddr pb" using idx bc [of pb] by simp
  then have "drop_bit pb c = drop_bit pb taddr"
    using page_parity [OF d assms(4)] c by (cases "k < s") auto
  with page_c show "drop_bit pb taddr = drop_bit pb target" by simp
  have low_c: "take_bit k c = 0"
    using low by (intro bit_eqI) (metis bc bit_take_bit_iff)
  moreover have "(2::nat) ^ k dvd 2 ^ s - 2 ^ k" if "k < s"
    using that by (intro dvd_diff_nat) (simp_all add: le_imp_power_dvd)
  ultimately show "take_bit k taddr = 0"
    using take_bit_add_multiple [of k "2 ^ s - 2 ^ k" taddr] c assms(2,4) by (auto split: if_splits)
  have "\<not> bit target i" if "i < k" for i
    using that low by (metis bit_0_eq bit_take_bit_iff bot_apply bot_bool_def)
  then show "take_bit pb target = 0"
    by (intro bit_eqI) (metis bc bit_0_eq bit_take_bit_iff bot_apply bot_bool_def not_le)
  have "drop_bit pb (taddr + of_nat (2 ^ s - 1)) = drop_bit pb c"
  proof (cases "k < s")
    case True
    then have "(2::nat) ^ k < 2 ^ s" by simp
    then have e: "taddr + of_nat (2 ^ s - 1) = c + of_nat (2 ^ k - 1)"
      using c True by (simp add: of_nat_diff)
    have "drop_bit pb (c + of_nat (2 ^ k - 1)) = drop_bit pb c"
      by (rule page_or [OF low_c _ assms(2)]) simp
    then show ?thesis by (simp only: e)
  next
    case False
    then have "(2::nat) ^ s - 1 < 2 ^ k"
      by (metis diff_less le_less_linear less_numeral_extra(1) order_less_le_trans power_increasing
          one_le_numeral zero_less_numeral zero_less_power)
    from page_or [OF low_c this assms(2)] show ?thesis using c False by (simp only: if_False)
  qed
  with page_c show "drop_bit pb (taddr + of_nat (2 ^ s - 1)) = drop_bit pb target" by simp
qed

text \<open>The size and alignment masks as the code computes them.\<close>

lemma access_masks:
  assumes "s \<le> 3" "k \<le> 6"
  shows "(of_nat (2 ^ k - 1) :: u32) < of_nat (2 ^ s - 1) \<longleftrightarrow> k < s"
    and "k < s \<Longrightarrow> (ucast (of_nat (2 ^ s - 1) - of_nat (2 ^ k - 1) :: u32) :: u64) = of_nat (2 ^ s - 2 ^ k)"
    and "(push_bit (unat (of_nat s :: u32)) 1 - 1 :: u32) = of_nat (2 ^ s - 1)"
    and "(ucast (of_nat (2 ^ k - 1) :: u64) :: u32) = of_nat (2 ^ k - 1)"
    and "(ucast (of_nat (2 ^ k - 1) :: u32) :: u64) = mask k"
proof -
  have s: "s = 0 \<or> s = 1 \<or> s = 2 \<or> s = 3" using assms(1) by linarith
  have k: "k = 0 \<or> k = 1 \<or> k = 2 \<or> k = 3 \<or> k = 4 \<or> k = 5 \<or> k = 6" using assms(2) by linarith
  show "(of_nat (2 ^ k - 1) :: u32) < of_nat (2 ^ s - 1) \<longleftrightarrow> k < s"
    using s k by (elim disjE) simp_all
  show "(ucast (of_nat (2 ^ s - 1) - of_nat (2 ^ k - 1) :: u32) :: u64) = of_nat (2 ^ s - 2 ^ k)" if "k < s"
    using s k that by (elim disjE) simp_all
  show "(push_bit (unat (of_nat s :: u32)) 1 - 1 :: u32) = of_nat (2 ^ s - 1)"
    using s by (elim disjE) simp_all
  show "(ucast (of_nat (2 ^ k - 1) :: u64) :: u32) = of_nat (2 ^ k - 1)"
    by (rule ucast_of_nat_64_32)
  show "(ucast (of_nat (2 ^ k - 1) :: u32) :: u64) = mask k"
    using k by (elim disjE) (simp_all add: mask_eq_exp_minus_1)
qed

text \<open>
  C3.  A hit in the software TLB is right.  For an access of \<open>2 ^ s\<close> bytes with alignment mask
  \<open>2 ^ k - 1\<close> on a TLB with pages of \<open>2 ^ pb\<close> bytes and at least two entries whose entry for the
  address's index holds only pages of that index: if \<open>tlb_load\<close> answers with a host address, then that
  address is the guest address plus the entry's addend, the first and the last byte of the access
  lie on the entry's page, the guest address has the alignment asked for, and the entry has no slow-path
  flag set.  The entry is read at the table's address plus the masked index, although both descriptor
  fields are read as 64-bit words.
\<close>

theorem tlb_load_hit_sound:
  assumes hit: "tlb_load env taddr mop ptr is_ld m \<noteq> 0"
    and size: "mop AND MO_SIZE = of_nat s" "s \<le> 3"
    and pool: "load64 m (ptr + 24) = of_nat (2 ^ k - 1)" "load64 m (ptr + 40) = of_nat pb"
      "load64 m (ptr + 48) = NOT (mask pb)"
    and bounds: "k \<le> 6" "6 \<le> pb" "pb < 64"
    and msk: "msk = load32 m (env + load32 m (ptr + 32))" "bit msk 5"
    and entry: "entry = (ucast (drop_bit (pb - 5) taddr) AND msk) + load32 m (env + load32 m (ptr + 56))"
    and target: "target = load64 m (entry + (if is_ld then TLB_addr_read else TLB_addr_write))"
    and idx: "(ucast (drop_bit (pb - 5) target) :: u32) AND msk = ucast (drop_bit (pb - 5) taddr) AND msk"
    and low: "take_bit k target = 0"
  shows "tlb_load env taddr mop ptr is_ld m = taddr + scast (load32 m (entry + TLB_addend))
    \<and> drop_bit pb taddr = drop_bit pb target
    \<and> drop_bit pb (taddr + of_nat (2 ^ s - 1)) = drop_bit pb target
    \<and> take_bit k taddr = 0 \<and> take_bit pb target = 0"
proof -
  let ?c = "if k < s then taddr + of_nat (2 ^ s - 2 ^ k) else taddr"
  note am = access_masks [OF size(2) bounds(1)]
  have e: "tlb_entry_addr env taddr ptr m = entry"
    using tlb_entry_addr_eq [of m ptr pb env taddr] pool(2) bounds msk(1) entry
    by (simp add: unsigned_of_nat word_of_nat_eq_iff)
  have load: "tlb_load env taddr mop ptr is_ld m =
      (if ?c AND (NOT (mask pb) OR mask k) = target
       then taddr + scast (load32 m (entry + TLB_addend)) else 0)"
    unfolding tlb_load_def Let_def e size(1) pool am(3-5) target am(1)
    by (cases "k < s") (simp_all only: am(2) if_True if_False)
  with hit have match: "?c AND (NOT (mask pb) OR mask k) = target" by (simp split: if_splits)
  have "bit (ucast (drop_bit (pb - 5) target) AND msk) 5 = bit (ucast (drop_bit (pb - 5) taddr) AND msk) 5"
    using idx by simp
  then have "bit target pb = bit taddr pb"
    using msk(2) bounds by (simp add: bit_simps)
  from tlb_compare_sound [OF size(2) _ _ _ refl match low this] bounds load match
  show ?thesis by simp
qed

text \<open>A TLB with two entries; the second one maps guest page 5.\<close>

definition tlb_example :: memory where
  "tlb_example = (\<lambda>_. 0)(0x1000 := 0x20, 0x1005 := 0x30, 0x2018 := 1, 0x2028 := 12, 0x2031 := 0xF0,
     0x2032 := 0xFF, 0x2033 := 0xFF, 0x2034 := 0xFF, 0x2035 := 0xFF, 0x2036 := 0xFF, 0x2037 := 0xFF,
     0x2038 := 4, 0x3021 := 0x50, 0x303A := 0x10)"

lemma tlb_example_loads:
  "load64 tlb_example 0x2018 = 1" "load64 tlb_example 0x2028 = 12"
  "load64 tlb_example 0x2030 = 0xFFFFFFFFFFFFF000" "load32 tlb_example 0x2020 = 0"
  "load32 tlb_example 0x2038 = 4" "load32 tlb_example 0x1000 = 0x20" "load32 tlb_example 0x1004 = 0x3000"
  "load64 tlb_example 0x3020 = 0x5000" "load32 tlb_example 0x3038 = 0x100000"
  "load64 tlb_example 0x2020 = 0"
  "load64 tlb_example 0x2038 = 4" "load64 tlb_example 0x1000 = 0x300000000020" "load64 tlb_example 0x1004 = 0x3000"
  by (simp_all add: tlb_example_def load64_def load32_def load_nat_bytes)

theorem tlb_load_hit_sound_witness:
  "tlb_load 0x1000 0x5FF8 3 0x2000 True tlb_example = 0x105FF8
   \<and> drop_bit 12 (0x5FF8 + of_nat (2 ^ 3 - 1)) = drop_bit 12 (0x5000 :: u64)"
proof -
  have l: "tlb_load 0x1000 0x5FF8 3 0x2000 True tlb_example = 0x105FF8"
    by (simp add: tlb_load_def tlb_entry_addr_def Let_def tlb_example_loads MO_defs TLB_addr_read_def
        TLB_addend_def CPU_TLB_ENTRY_BITS_def)
  have "tlb_load 0x1000 0x5FF8 3 0x2000 True tlb_example = 0x5FF8 + scast (load32 tlb_example (0x3020 + TLB_addend))
    \<and> drop_bit 12 0x5FF8 = drop_bit 12 (0x5000 :: u64)
    \<and> drop_bit 12 (0x5FF8 + of_nat (2 ^ 3 - 1)) = drop_bit 12 (0x5000 :: u64)
    \<and> take_bit 1 (0x5FF8 :: u64) = 0 \<and> take_bit 12 (0x5000 :: u64) = 0"
  proof (rule tlb_load_hit_sound [where msk = "0x20"])
    show "tlb_load 0x1000 0x5FF8 3 0x2000 True tlb_example \<noteq> 0" unfolding l by simp
    show "(3::u32) AND MO_SIZE = of_nat 3" by (simp add: MO_defs)
    show "load64 tlb_example (0x2000 + 24) = of_nat (2 ^ 1 - 1)" by (simp add: tlb_example_loads)
    show "load64 tlb_example (0x2000 + 40) = of_nat 12" by (simp add: tlb_example_loads)
    show "load64 tlb_example (0x2000 + 48) = NOT (mask 12)" by (simp add: tlb_example_loads mask_eq_exp_minus_1)
    show "(0x20::u32) = load32 tlb_example (0x1000 + load32 tlb_example (0x2000 + 32))" by (simp add: tlb_example_loads)
    show "bit (0x20::u32) 5" by simp
    show "(0x3020::u32) = (ucast (drop_bit (12 - 5) (0x5FF8::u64)) AND 0x20) + load32 tlb_example (0x1000 + load32 tlb_example (0x2000 + 56))"
      by (simp add: tlb_example_loads)
    show "0x5000 = load64 tlb_example (0x3020 + (if True then TLB_addr_read else TLB_addr_write))"
      by (simp add: tlb_example_loads TLB_addr_read_def)
    show "(ucast (drop_bit (12 - 5) (0x5000::u64)) :: u32) AND 0x20 = ucast (drop_bit (12 - 5) (0x5FF8::u64)) AND 0x20" by simp
    show "take_bit 1 (0x5000::u64) = 0" by simp
  qed simp_all
  with l show ?thesis by blast
qed

end
