(* ===== verification/TCI_Full.thy ===== *)
theory TCI_Full
  imports TCI_Machine
begin

text \<open>
  The full TCI interpreter, \<open>tcg_qemu_tb_exec_tci_full\<close> of \<open>tcg/wasm32.c\<close>.

  \<^item> \<open>alu_rrr\<close>, \<open>alu_rr\<close>, \<open>alu_rr64\<close>: the values of the register operations, \<^const>\<open>None\<close> where C leaves the
    result undefined or WebAssembly traps (a division by zero, the quotient or remainder of the least
    number by -1) and where an assertion of the bit-field functions fails.
  \<^item> \<open>full_host\<close>, \<open>full_call\<close>, \<open>full_ldst\<close>, \<open>enter_tb\<close>: host memory accesses, helper calls, guest
    accesses and the transfer to another block.
  \<^item> \<open>full_exec\<close>: the \<open>switch\<close> on the opcode; \<open>full_step\<close> one turn of the loop; \<open>full_loop\<close> the loop,
    bounded by fuel; \<open>tcg_qemu_tb_exec_tci_full\<close> the function.
\<close>

section \<open>Outcomes of one turn of the loop\<close>

text \<open>
  \<open>Next\<close>: go on at this address.  \<open>Chain\<close>: the next block's byte code, after its counter was
  incremented.  \<open>Leave\<close>: the function returns.  \<open>Cold\<close>: the hot loop met an instruction it does not
  run.  \<open>Unwound\<close>: a helper left by \<open>longjmp\<close>.  \<open>Stuck\<close>: an assertion failed or the result is
  undefined.
\<close>

datatype 'w outcome =
    Next u32 "'w machine"
  | Chain u32 "'w machine"
  | Leave u32 "'w machine"
  | Cold "'w machine"
  | Unwound "'w machine"
  | Stuck

section \<open>Register operations\<close>

text \<open>C's conversions of a register.\<close>

abbreviation lo32 :: "u64 \<Rightarrow> u32" where "lo32 v \<equiv> ucast v"
abbreviation zext32 :: "u32 \<Rightarrow> u64" where "zext32 v \<equiv> ucast v"
abbreviation sext32 :: "u32 \<Rightarrow> u64" where "sext32 v \<equiv> scast v"

definition div_ok :: "'a::len word \<Rightarrow> 'a word \<Rightarrow> bool" where
  "div_ok a b \<longleftrightarrow> b \<noteq> 0 \<and> \<not> (sint a = - (2 ^ (LENGTH('a) - 1)) \<and> sint b = - 1)"

definition sdiv_word :: "'a::len word \<Rightarrow> 'a word \<Rightarrow> 'a word option" where
  "sdiv_word a b = (if div_ok a b then Some (of_int (sint a sdiv sint b)) else None)"

definition smod_word :: "'a::len word \<Rightarrow> 'a word \<Rightarrow> 'a word option" where
  "smod_word a b = (if div_ok a b then Some (of_int (sint a smod sint b)) else None)"

definition udiv_word :: "'a::len word \<Rightarrow> 'a word \<Rightarrow> 'a word option" where
  "udiv_word a b = (if b \<noteq> 0 then Some (a div b) else None)"

definition umod_word :: "'a::len word \<Rightarrow> 'a word \<Rightarrow> 'a word option" where
  "umod_word a b = (if b \<noteq> 0 then Some (a mod b) else None)"

text \<open>The operations with a case of their own at each width, then the ones the two widths share.\<close>

fun alu_rrr_i32 :: "tcg_rrr \<Rightarrow> u64 \<Rightarrow> u64 \<Rightarrow> u64 option" where
  "alu_rrr_i32 R_div a b = map_option sext32 (sdiv_word (lo32 a) (lo32 b))"
| "alu_rrr_i32 R_divu a b = map_option zext32 (udiv_word (lo32 a) (lo32 b))"
| "alu_rrr_i32 R_rem a b = map_option sext32 (smod_word (lo32 a) (lo32 b))"
| "alu_rrr_i32 R_remu a b = map_option zext32 (umod_word (lo32 a) (lo32 b))"
| "alu_rrr_i32 R_clz a b = Some (if lo32 a \<noteq> 0 then of_nat (clz_word (lo32 a)) else b)"
| "alu_rrr_i32 R_ctz a b = Some (if lo32 a \<noteq> 0 then of_nat (ctz_word (lo32 a)) else b)"
| "alu_rrr_i32 R_shl a b = Some (zext32 (push_bit (unat (b AND 31)) (lo32 a)))"
| "alu_rrr_i32 R_shr a b = Some (zext32 (drop_bit (unat (b AND 31)) (lo32 a)))"
| "alu_rrr_i32 R_sar a b = Some (sext32 (signed_drop_bit (unat (b AND 31)) (lo32 a)))"
| "alu_rrr_i32 R_rotl a b = Some (zext32 (rol32 (lo32 a) (lo32 (b AND 31))))"
| "alu_rrr_i32 R_rotr a b = Some (zext32 (ror32 (lo32 a) (lo32 (b AND 31))))"
| "alu_rrr_i32 _ a b = None"

fun alu_shift_i64 :: "tcg_rrr \<Rightarrow> u64 \<Rightarrow> u64 \<Rightarrow> u64 option" where
  "alu_shift_i64 R_shl a b = Some (push_bit (unat (b AND 63)) a)"
| "alu_shift_i64 R_shr a b = Some (drop_bit (unat (b AND 63)) a)"
| "alu_shift_i64 R_sar a b = Some (signed_drop_bit (unat (b AND 63)) a)"
| "alu_shift_i64 R_rotl a b = Some (rol64 a (lo32 (b AND 63)))"
| "alu_shift_i64 R_rotr a b = Some (ror64 a (lo32 (b AND 63)))"
| "alu_shift_i64 _ a b = None"

fun alu_rrr_i64 :: "tcg_rrr \<Rightarrow> u64 \<Rightarrow> u64 \<Rightarrow> u64 option" where
  "alu_rrr_i64 R_div a b = sdiv_word a b"
| "alu_rrr_i64 R_divu a b = udiv_word a b"
| "alu_rrr_i64 R_rem a b = smod_word a b"
| "alu_rrr_i64 R_remu a b = umod_word a b"
| "alu_rrr_i64 R_clz a b = Some (if a \<noteq> 0 then of_nat (clz_word a) else b)"
| "alu_rrr_i64 R_ctz a b = Some (if a \<noteq> 0 then of_nat (ctz_word a) else b)"
| "alu_rrr_i64 r a b = alu_shift_i64 r a b"

fun alu_rrr :: "tcg_rrr \<Rightarrow> tcg_width \<Rightarrow> u64 \<Rightarrow> u64 \<Rightarrow> u64 option" where
  "alu_rrr R_add w a b = Some (a + b)"
| "alu_rrr R_sub w a b = Some (a - b)"
| "alu_rrr R_mul w a b = Some (a * b)"
| "alu_rrr R_and w a b = Some (a AND b)"
| "alu_rrr R_or w a b = Some (a OR b)"
| "alu_rrr R_xor w a b = Some (a XOR b)"
| "alu_rrr R_andc w a b = Some (a AND NOT b)"
| "alu_rrr R_orc w a b = Some (a OR NOT b)"
| "alu_rrr R_eqv w a b = Some (NOT (a XOR b))"
| "alu_rrr R_nand w a b = Some (NOT (a AND b))"
| "alu_rrr R_nor w a b = Some (NOT (a OR b))"
| "alu_rrr r I32 a b = alu_rrr_i32 r a b"
| "alu_rrr r I64 a b = alu_rrr_i64 r a b"

fun alu_rr :: "tcg_rr \<Rightarrow> tcg_width \<Rightarrow> u64 \<Rightarrow> u64" where
  "alu_rr U_mov w a = a"
| "alu_rr U_ext8s w a = scast (ucast a :: u8)"
| "alu_rr U_ext16s w a = scast (ucast a :: u16)"
| "alu_rr U_ext8u w a = ucast (ucast a :: u8)"
| "alu_rr U_ext16u w a = ucast (ucast a :: u16)"
| "alu_rr U_bswap16 w a = ucast (bswap16 (ucast a))"
| "alu_rr U_bswap32 w a = zext32 (bswap32 (lo32 a))"
| "alu_rr U_not w a = NOT a"
| "alu_rr U_neg w a = - a"
| "alu_rr U_ctpop I32 a = of_nat (ctpop_word (lo32 a))"
| "alu_rr U_ctpop I64 a = of_nat (ctpop_word a)"

fun alu_rr64 :: "tcg_rr64 \<Rightarrow> u64 \<Rightarrow> u64" where
  "alu_rr64 W_ext32s_i64 a = sext32 (lo32 a)"
| "alu_rr64 W_ext_i32_i64 a = sext32 (lo32 a)"
| "alu_rr64 W_ext32u_i64 a = zext32 (lo32 a)"
| "alu_rr64 W_extu_i32_i64 a = zext32 (lo32 a)"
| "alu_rr64 W_bswap64_i64 a = bswap64 a"

definition deposit_value :: "tcg_width \<Rightarrow> u64 \<Rightarrow> nat \<Rightarrow> nat \<Rightarrow> u64 \<Rightarrow> u64 option" where
  "deposit_value w a pos len b =
     (case w of
        I32 \<Rightarrow> if bitfield_ok 32 pos len then Some (zext32 (deposit32 (lo32 a) pos len (lo32 b))) else None
      | I64 \<Rightarrow> if bitfield_ok 64 pos len then Some (deposit64 a pos len b) else None)"

definition extract_value :: "tcg_width \<Rightarrow> u64 \<Rightarrow> nat \<Rightarrow> nat \<Rightarrow> u64 option" where
  "extract_value w a pos len =
     (case w of
        I32 \<Rightarrow> if bitfield_ok 32 pos len then Some (zext32 (extract32 (lo32 a) pos len)) else None
      | I64 \<Rightarrow> if bitfield_ok 64 pos len then Some (extract64 a pos len) else None)"

definition sextract_value :: "tcg_width \<Rightarrow> u64 \<Rightarrow> nat \<Rightarrow> nat \<Rightarrow> u64 option" where
  "sextract_value w a pos len =
     (case w of
        I32 \<Rightarrow> if bitfield_ok 32 pos len then Some (sext32 (sextract32 (lo32 a) pos len)) else None
      | I64 \<Rightarrow> if bitfield_ok 64 pos len then Some (sextract64 a pos len) else None)"

definition compare_value :: "tcg_width \<Rightarrow> u64 \<Rightarrow> u64 \<Rightarrow> u32 \<Rightarrow> bool option" where
  "compare_value w a b c =
     (case w of I32 \<Rightarrow> tci_compare32 (lo32 a) (lo32 b) c | I64 \<Rightarrow> tci_compare64 a b c)"

definition branch_taken :: "tcg_width \<Rightarrow> u64 \<Rightarrow> bool" where
  "branch_taken w a = (case w of I32 \<Rightarrow> lo32 a \<noteq> 0 | I64 \<Rightarrow> a \<noteq> 0)"

text \<open>Store a result and go on; \<^const>\<open>None\<close> stops the interpreter.\<close>

definition write_next :: "nat \<Rightarrow> u64 option \<Rightarrow> u32 \<Rightarrow> 'w machine \<Rightarrow> 'w outcome" where
  "write_next r v tb_ptr m = (case v of None \<Rightarrow> Stuck | Some x \<Rightarrow> Next tb_ptr (set_reg r x m))"

section \<open>Memory, calls and jumps\<close>

text \<open>Accesses to the host's memory at a register plus a signed offset.\<close>

definition host_addr :: "nat \<Rightarrow> u32 \<Rightarrow> 'w machine \<Rightarrow> u32" where
  "host_addr r ofs m = ptr32 (regs m r + scast ofs)"

fun full_host :: "tcg_host \<Rightarrow> nat \<Rightarrow> u32 \<Rightarrow> 'w machine \<Rightarrow> 'w machine" where
  "full_host (H_ld8u w) r0 a m = set_reg r0 (ucast (load8 (mem m) a)) m"
| "full_host (H_ld8s w) r0 a m = set_reg r0 (scast (load8 (mem m) a)) m"
| "full_host (H_ld16u w) r0 a m = set_reg r0 (ucast (load16 (mem m) a)) m"
| "full_host (H_ld16s w) r0 a m = set_reg r0 (scast (load16 (mem m) a)) m"
| "full_host (H_ld I32) r0 a m = set_reg r0 (ucast (load32 (mem m) a)) m"
| "full_host (H_ld I64) r0 a m = set_reg r0 (load64 (mem m) a) m"
| "full_host H_ld32u_i64 r0 a m = set_reg r0 (ucast (load32 (mem m) a)) m"
| "full_host H_ld32s_i64 r0 a m = set_reg r0 (scast (load32 (mem m) a)) m"
| "full_host (H_st8 w) r0 a m = set_mem (store8 (mem m) a (ucast (regs m r0))) m"
| "full_host (H_st16 w) r0 a m = set_mem (store16 (mem m) a (ucast (regs m r0))) m"
| "full_host (H_st I32) r0 a m = set_mem (store32 (mem m) a (lo32 (regs m r0))) m"
| "full_host (H_st I64) r0 a m = set_mem (store64 (mem m) a (regs m r0)) m"
| "full_host H_st32_i64 r0 a m = set_mem (store32 (mem m) a (lo32 (regs m r0))) m"

text \<open>
  The argument slots of a helper call: five registers from R8 on, then the stack buffer, in units of
  8 bytes.
\<close>

fun call_slots :: "nat list \<Rightarrow> nat \<Rightarrow> nat \<Rightarrow> slot list" where
  "call_slots [] reg_idx stack_idx = []"
| "call_slots (sz # szs) reg_idx stack_idx =
     (if reg_idx < 5
      then SReg (8 + reg_idx) # call_slots szs (reg_idx + (sz + 7) div 8) stack_idx
      else SStack stack_idx # call_slots szs reg_idx (stack_idx + (sz + 7) div 8))"

fun slot64 :: "'w tci_env \<Rightarrow> 'w machine \<Rightarrow> slot \<Rightarrow> u64" where
  "slot64 e m (SReg i) = regs m i"
| "slot64 e m (SStack i) = load64 (mem m) (ctx_stack e + of_nat (8 * i))"

fun slot32 :: "'w tci_env \<Rightarrow> 'w machine \<Rightarrow> slot \<Rightarrow> u32" where
  "slot32 e m (SReg i) = lo32 (regs m i)"
| "slot32 e m (SStack i) = load32 (mem m) (ctx_stack e + of_nat (8 * i))"

fun slot_next :: "slot \<Rightarrow> slot" where
  "slot_next (SReg i) = SReg (Suc i)"
| "slot_next (SStack i) = SStack (Suc i)"

text \<open>The arguments of a direct call and the mask of those that are 64 bits wide.\<close>

fun simple_args ::
    "'w tci_env \<Rightarrow> 'w machine \<Rightarrow> (nat \<times> slot) list \<Rightarrow> nat \<Rightarrow> u32 \<Rightarrow> u64 list \<Rightarrow> (u32 \<times> u64 list) option" where
  "simple_args e m [] i msk av = Some (msk, av)"
| "simple_args e m ((sz, s) # args) i msk av =
     (if sz = 8 then simple_args e m args (Suc i) (msk OR push_bit i 1) (av @ [slot64 e m s])
      else if sz \<le> 4 then simple_args e m args (Suc i) msk (av @ [zext32 (slot32 e m s)])
      else None)"

text \<open>
  \<open>tci_direct_call\<close> of \<open>tcg/wasm32-tci-calls.c.inc\<close>: one typed call per result kind, number of
  arguments and mask.  \<^const>\<open>None\<close> is its \<open>false\<close>.
\<close>

definition tci_direct_call ::
    "'w tci_env \<Rightarrow> u32 \<Rightarrow> nat \<Rightarrow> u32 \<Rightarrow> nat \<Rightarrow> u64 list \<Rightarrow> 'w machine \<Rightarrow> 'w hres option" where
  "tci_direct_call e func n msk rk av m =
     (let key = push_bit 3 rk OR n; rk' = key div 8; n' = key mod 8
      in if rk' \<le> 2 \<and> n' \<le> 6 \<and> unat msk < 2 ^ n'
         then Some
           (case call_helper e func
                   (map (\<lambda>i. if bit msk i then A64 (av ! i) else A32 (lo32 (av ! i))) [0..<n']) m of
              HRet lo hi m' \<Rightarrow>
                HRet (if rk' = 0 then 0 else if rk' = 1 then zext32 (lo32 lo) else lo) 0 m'
            | HUnwind m' \<Rightarrow> HUnwind m')
         else None)"

definition after_helper :: "(u64 \<Rightarrow> u64 \<Rightarrow> 'w machine \<Rightarrow> 'w outcome) \<Rightarrow> 'w hres \<Rightarrow> 'w outcome" where
  "after_helper f r = (case r of HRet lo hi m \<Rightarrow> f lo hi m | HUnwind m \<Rightarrow> Unwound m)"

text \<open>The result of a direct call goes to R0.\<close>

definition direct_result :: "nat \<Rightarrow> u32 \<Rightarrow> u64 \<Rightarrow> u64 \<Rightarrow> 'w machine \<Rightarrow> 'w outcome" where
  "direct_result len tb_ptr rv hi m =
     Next tb_ptr (if len = 1 then set_reg 0 (zext32 (lo32 rv)) m
                  else if len = 2 then set_reg 0 rv m else m)"

text \<open>The result of a libffi call is read back from the stack buffer.\<close>

definition ffi_result :: "'w tci_env \<Rightarrow> nat \<Rightarrow> u32 \<Rightarrow> 'w machine \<Rightarrow> 'w outcome" where
  "ffi_result e len tb_ptr m =
     (let st = ctx_stack e
      in if len = 0 then Next tb_ptr m
         else if len = 1 then Next tb_ptr (set_reg 0 (zext32 (load32 (mem m) st)) m)
         else if len = 2 then Next tb_ptr (set_reg 0 (load64 (mem m) st) m)
         else if len = 3 then
           Next tb_ptr (set_reg 1 (load64 (mem m) (st + 8)) (set_reg 0 (load64 (mem m) st) m))
         else Stuck)"

definition ld_i128_shape :: "nat \<Rightarrow> nat list \<Rightarrow> bool" where
  "ld_i128_shape len sizes \<longleftrightarrow>
     len = 3 \<and> length sizes = 3 \<and> sizes ! 0 \<le> 4 \<and> sizes ! 1 = 8 \<and> sizes ! 2 \<le> 4"

definition st_i128_shape :: "nat \<Rightarrow> nat list \<Rightarrow> bool" where
  "st_i128_shape len sizes \<longleftrightarrow>
     len = 0 \<and> length sizes = 4 \<and> sizes ! 0 \<le> 4 \<and> sizes ! 1 = 8 \<and> sizes ! 2 = 16 \<and> sizes ! 3 \<le> 4"

definition full_call :: "'w tci_env \<Rightarrow> u32 \<Rightarrow> u32 \<Rightarrow> 'w machine \<Rightarrow> 'w outcome" where
  "full_call e insn tb_ptr m =
     (let (len, ptr) = tci_args_nl insn tb_ptr;
          func = ptr32 (load64 (mem m) ptr);
          cif = ptr32 (load64 (mem m) (ptr + 8))
      in if func = helper_lookup_tb_ptr_addr e then
           after_helper (\<lambda>lo hi m'. Next tb_ptr (set_reg 0 (zext32 (lo32 lo)) m'))
             (helper_lookup_tb_ptr e (ptr32 (regs m 8)) m)
         else
           let sizes = cif_arg_sizes e cif;
               n = length sizes;
               slots = call_slots sizes 0 0;
               m1 = m\<lparr>tci_tb_ptr := tb_ptr\<rparr>;
               direct = (if n \<le> 6 \<and> len \<le> 2
                         then case simple_args e m1 (zip sizes slots) 0 0 [] of
                                None \<Rightarrow> None
                              | Some (msk, av) \<Rightarrow> tci_direct_call e func n msk len av m1
                         else None)
           in case direct of
                Some r \<Rightarrow> after_helper (direct_result len tb_ptr) r
              | None \<Rightarrow>
                  if ld_i128_shape len sizes then
                    after_helper (\<lambda>lo hi m'. Next tb_ptr (set_reg 1 hi (set_reg 0 lo m')))
                      (call_helper e func [A32 (slot32 e m1 (slots ! 0)), A64 (slot64 e m1 (slots ! 1)),
                         A32 (slot32 e m1 (slots ! 2))] m1)
                  else if st_i128_shape len sizes then
                    after_helper (\<lambda>lo hi m'. Next tb_ptr m')
                      (call_helper e func [A32 (slot32 e m1 (slots ! 0)), A64 (slot64 e m1 (slots ! 1)),
                         A128 (slot64 e m1 (slots ! 2)) (slot64 e m1 (slot_next (slots ! 2))),
                         A32 (slot32 e m1 (slots ! 3))] m1)
                  else
                    after_helper (\<lambda>lo hi m'. ffi_result e len tb_ptr m')
                      (ffi_call e cif func (ctx_stack e) slots m1))"

text \<open>
  \<open>goto_tb\<close> and \<open>goto_ptr\<close>: go on in the next block if it is to be interpreted, else return to the
  dispatcher with \<open>ctx.tb_ptr\<close> set.
\<close>

definition enter_tb :: "'w tci_env \<Rightarrow> u32 \<Rightarrow> 'w machine \<Rightarrow> 'w outcome" where
  "enter_tb e tb_ptr m =
     (let m1 = m\<lparr>ctx_tb_ptr := tb_ptr\<rparr>;
          tb_counter_ptr = tb_ptr + of_int (counter_vec_off (thread e));
          cnt = load32 (mem m1) tb_counter_ptr
      in if s32 cnt \<ge> 0 \<and> tb_wants_tci (tune e) (thread e) (mem m1) cnt tb_ptr
         then let m2 = set_mem (store32 (mem m1) tb_counter_ptr (cnt + 1)) m1
              in Chain (tb_ptr + load32 (mem m2) tb_ptr) m2
         else Leave 0 m1)"

definition full_goto_tb :: "'w tci_env \<Rightarrow> u32 \<Rightarrow> u32 \<Rightarrow> 'w machine \<Rightarrow> 'w outcome" where
  "full_goto_tb e insn tb_ptr m =
     (let ptr = tci_args_l insn tb_ptr;
          next_tb = load32 (mem m) ptr
      in if next_tb \<noteq> 0 then enter_tb e next_tb m else Next tb_ptr m)"

definition full_goto_ptr :: "'w tci_env \<Rightarrow> u32 \<Rightarrow> u32 \<Rightarrow> 'w machine \<Rightarrow> 'w outcome" where
  "full_goto_ptr e insn tb_ptr m =
     (let ptr = ptr32 (regs m (tci_args_r insn))
      in if ptr = 0 then Leave 0 (m\<lparr>ctx_tb_ptr := 0\<rparr>) else enter_tb e ptr m)"

text \<open>
  Guest accesses.  The register numbers come from the constant pool; a number outside the register
  file is undefined behaviour.
\<close>

definition full_qemu_ld :: "'w tci_env \<Rightarrow> bool \<Rightarrow> u32 \<Rightarrow> u32 \<Rightarrow> 'w machine \<Rightarrow> 'w outcome" where
  "full_qemu_ld e a64 insn tb_ptr m =
     (let (r0, r1, oi, ptr) = tci_args_ldst insn tb_ptr (mem m)
      in if r0 < 16 \<and> r1 < 16 then
           let taddr = (if a64 then regs m r1 else zext32 (lo32 (regs m r1)))
           in case tci_qemu_ld e taddr oi tb_ptr ptr m of
                None \<Rightarrow> Stuck
              | Some r \<Rightarrow> after_helper (\<lambda>lo hi m'. Next tb_ptr (set_reg r0 lo m')) r
         else Stuck)"

definition full_qemu_st :: "'w tci_env \<Rightarrow> bool \<Rightarrow> u32 \<Rightarrow> u32 \<Rightarrow> 'w machine \<Rightarrow> 'w outcome" where
  "full_qemu_st e a64 insn tb_ptr m =
     (let (r0, r1, oi, ptr) = tci_args_ldst insn tb_ptr (mem m)
      in if r0 < 16 \<and> r1 < 16 then
           let tmp64 = regs m r0;
               taddr = (if a64 then regs m r1 else zext32 (lo32 (regs m r1)))
           in case tci_qemu_st e taddr tmp64 oi tb_ptr ptr m of
                None \<Rightarrow> Stuck
              | Some r \<Rightarrow> after_helper (\<lambda>lo hi m'. Next tb_ptr m') r
         else Stuck)"

section \<open>The interpreter\<close>

text \<open>Two-word arithmetic.\<close>

definition full_add2_i64 :: "u32 \<Rightarrow> 'w machine \<Rightarrow> 'w machine" where
  "full_add2_i64 insn m =
     (let (r0, r1, r2, r3, r4, r5) = tci_args_rrrrrr insn;
          T1 = regs m r2 + regs m r4;
          T2 = regs m r3 + regs m r5 + of_bool_word (T1 < regs m r2)
      in set_reg r1 T2 (set_reg r0 T1 m))"

definition full_sub2_i64 :: "u32 \<Rightarrow> 'w machine \<Rightarrow> 'w machine" where
  "full_sub2_i64 insn m =
     (let (r0, r1, r2, r3, r4, r5) = tci_args_rrrrrr insn;
          T1 = regs m r2 - regs m r4;
          T2 = regs m r3 - regs m r5 - of_bool_word (regs m r2 < regs m r4)
      in set_reg r1 T2 (set_reg r0 T1 m))"

definition full_add2_i32 :: "u32 \<Rightarrow> 'w machine \<Rightarrow> 'w machine" where
  "full_add2_i32 insn m =
     (let (r0, r1, r2, r3, r4, r5) = tci_args_rrrrrr insn;
          T1 = tci_uint64 (lo32 (regs m r3)) (lo32 (regs m r2));
          T2 = tci_uint64 (lo32 (regs m r5)) (lo32 (regs m r4))
      in tci_write_reg64 r1 r0 (T1 + T2) m)"

definition full_sub2_i32 :: "u32 \<Rightarrow> 'w machine \<Rightarrow> 'w machine" where
  "full_sub2_i32 insn m =
     (let (r0, r1, r2, r3, r4, r5) = tci_args_rrrrrr insn;
          T1 = tci_uint64 (lo32 (regs m r3)) (lo32 (regs m r2));
          T2 = tci_uint64 (lo32 (regs m r5)) (lo32 (regs m r4))
      in tci_write_reg64 r1 r0 (T1 - T2) m)"

definition full_mul2_i32 :: "bool \<Rightarrow> u32 \<Rightarrow> 'w machine \<Rightarrow> 'w machine" where
  "full_mul2_i32 is_signed insn m =
     (let (r0, r1, r2, r3) = tci_args_rrrr insn;
          tmp64 = (if is_signed then sext32 (lo32 (regs m r2)) * sext32 (lo32 (regs m r3))
                   else zext32 (lo32 (regs m r2)) * zext32 (lo32 (regs m r3)))
      in tci_write_reg64 r1 r0 tmp64 m)"

fun full_exec :: "'w tci_env \<Rightarrow> tcg_op \<Rightarrow> u32 \<Rightarrow> u32 \<Rightarrow> 'w machine \<Rightarrow> 'w outcome" where
  "full_exec e Op_call insn tb_ptr m = full_call e insn tb_ptr m"
| "full_exec e Op_br insn tb_ptr m = Next (tci_args_br insn tb_ptr) m"
| "full_exec e (Op_setcond w) insn tb_ptr m =
     (let (r0, r1, r2, c) = tci_args_rrrc insn
      in write_next r0 (map_option of_bool_word (compare_value w (regs m r1) (regs m r2) c)) tb_ptr m)"
| "full_exec e (Op_movcond w) insn tb_ptr m =
     (let (r0, r1, r2, r3, r4, c) = tci_args_rrrrrc insn
      in write_next r0 (map_option (\<lambda>b. regs m (if b then r3 else r4))
           (compare_value w (regs m r1) (regs m r2) c)) tb_ptr m)"
| "full_exec e (Op_rr u w) insn tb_ptr m =
     (let (r0, r1) = tci_args_rr insn in Next tb_ptr (set_reg r0 (alu_rr u w (regs m r1)) m))"
| "full_exec e (Op_rr64 u) insn tb_ptr m =
     (let (r0, r1) = tci_args_rr insn in Next tb_ptr (set_reg r0 (alu_rr64 u (regs m r1)) m))"
| "full_exec e Op_tci_movi insn tb_ptr m =
     (let (r0, t1) = tci_args_ri insn in Next tb_ptr (set_reg r0 t1 m))"
| "full_exec e Op_tci_movl insn tb_ptr m =
     (let (r0, ptr) = tci_args_rl insn tb_ptr in Next tb_ptr (set_reg r0 (load64 (mem m) ptr) m))"
| "full_exec e (Op_host h) insn tb_ptr m =
     (let (r0, r1, ofs) = tci_args_rrs insn in Next tb_ptr (full_host h r0 (host_addr r1 ofs m) m))"
| "full_exec e (Op_rrr a w) insn tb_ptr m =
     (let (r0, r1, r2) = tci_args_rrr insn
      in write_next r0 (alu_rrr a w (regs m r1) (regs m r2)) tb_ptr m)"
| "full_exec e (Op_deposit w) insn tb_ptr m =
     (let (r0, r1, r2, pos, len) = tci_args_rrrbb insn
      in write_next r0 (deposit_value w (regs m r1) pos len (regs m r2)) tb_ptr m)"
| "full_exec e (Op_extract w) insn tb_ptr m =
     (let (r0, r1, pos, len) = tci_args_rrbb insn
      in write_next r0 (extract_value w (regs m r1) pos len) tb_ptr m)"
| "full_exec e (Op_sextract w) insn tb_ptr m =
     (let (r0, r1, pos, len) = tci_args_rrbb insn
      in write_next r0 (sextract_value w (regs m r1) pos len) tb_ptr m)"
| "full_exec e (Op_brcond w) insn tb_ptr m =
     (let (r0, ptr) = tci_args_rl insn tb_ptr
      in Next (if branch_taken w (regs m r0) then ptr else tb_ptr) m)"
| "full_exec e (Op_add2 I32) insn tb_ptr m = Next tb_ptr (full_add2_i32 insn m)"
| "full_exec e (Op_add2 I64) insn tb_ptr m = Next tb_ptr (full_add2_i64 insn m)"
| "full_exec e (Op_sub2 I32) insn tb_ptr m = Next tb_ptr (full_sub2_i32 insn m)"
| "full_exec e (Op_sub2 I64) insn tb_ptr m = Next tb_ptr (full_sub2_i64 insn m)"
| "full_exec e Op_mulu2_i32 insn tb_ptr m = Next tb_ptr (full_mul2_i32 False insn m)"
| "full_exec e Op_muls2_i32 insn tb_ptr m = Next tb_ptr (full_mul2_i32 True insn m)"
| "full_exec e Op_exit_tb insn tb_ptr m = Leave (tci_args_l insn tb_ptr) (m\<lparr>ctx_tb_ptr := 0\<rparr>)"
| "full_exec e Op_goto_tb insn tb_ptr m = full_goto_tb e insn tb_ptr m"
| "full_exec e Op_goto_ptr insn tb_ptr m = full_goto_ptr e insn tb_ptr m"
| "full_exec e (Op_qemu_ld_a32 w) insn tb_ptr m = full_qemu_ld e False insn tb_ptr m"
| "full_exec e (Op_qemu_ld_a64 w) insn tb_ptr m = full_qemu_ld e True insn tb_ptr m"
| "full_exec e (Op_qemu_st_a32 w) insn tb_ptr m = full_qemu_st e False insn tb_ptr m"
| "full_exec e (Op_qemu_st_a64 w) insn tb_ptr m = full_qemu_st e True insn tb_ptr m"
| "full_exec e Op_mb insn tb_ptr m = Next tb_ptr m"

definition full_step :: "'w tci_env \<Rightarrow> u32 \<Rightarrow> 'w machine \<Rightarrow> 'w outcome" where
  "full_step e tb_ptr m =
     (let insn = load32 (mem m) tb_ptr
      in case insn_opc insn of
           None \<Rightarrow> Stuck
         | Some op \<Rightarrow> full_exec e op insn (tb_ptr + 4) m)"

text \<open>
  The loop.  With \<open>single\<close> the interpreter stops where it would enter the next block and leaves the
  address in \<open>bb_resume_ptr\<close>.  \<^const>\<open>None\<close> means that the fuel did not suffice.
\<close>

primrec full_loop :: "'w tci_env \<Rightarrow> bool \<Rightarrow> nat \<Rightarrow> u32 \<Rightarrow> 'w machine \<Rightarrow> 'w outcome option" where
  "full_loop e single 0 tb_ptr m = None"
| "full_loop e single (Suc n) tb_ptr m =
     (case full_step e tb_ptr m of
        Next tb_ptr' m' \<Rightarrow> full_loop e single n tb_ptr' m'
      | Chain tb_ptr' m' \<Rightarrow>
          if single then Some (Leave 0 (m'\<lparr>bb_resume_ptr := tb_ptr'\<rparr>))
          else full_loop e single n tb_ptr' m'
      | r \<Rightarrow> Some r)"

definition tci_start :: "u32 \<Rightarrow> 'w machine \<Rightarrow> u32" where
  "tci_start start m =
     (if start \<noteq> 0 then start else ctx_tb_ptr m + load32 (mem m) (ctx_tb_ptr m))"

definition TCG_AREG0 :: nat where "TCG_AREG0 = 14"
definition TCG_REG_CALL_STACK :: nat where "TCG_REG_CALL_STACK = 15"

definition tci_enter :: "'w tci_env \<Rightarrow> 'w machine \<Rightarrow> 'w machine" where
  "tci_enter e m =
     set_reg TCG_REG_CALL_STACK (zext32 (ctx_stack e)) (set_reg TCG_AREG0 (zext32 (env_ptr e)) m)"

definition tcg_qemu_tb_exec_tci_full ::
    "'w tci_env \<Rightarrow> nat \<Rightarrow> u32 \<Rightarrow> bool \<Rightarrow> 'w machine \<Rightarrow> 'w outcome option" where
  "tcg_qemu_tb_exec_tci_full e fuel start single m =
     full_loop e single fuel (tci_start start m) (tci_enter e m)"

end
