(* ===== verification/TCI_Hot.thy ===== *)
theory TCI_Hot
  imports TCI_Full
begin

text \<open>
  The fast interpreter: \<open>tci_hot_call\<close>, \<open>tci_hot_loop\<close> and \<open>tci_exec\<close> of \<open>tcg/wasm32.c\<close>, and the
  proof that it computes what the full interpreter computes.

  The hot loop runs the frequent instructions and returns with \<open>bb_cold_ptr\<close> set at any other; the
  full interpreter then finishes the block and returns with \<open>bb_resume_ptr\<close> set where it would enter
  the next one.  While the hot loop runs, \<open>bb_fast_tci_depth\<close> is set: a helper that must not run there
  sets \<open>bb_force_slow_tci\<close> and leaves by \<open>longjmp\<close> (the guards of theory \<open>IO_Guard\<close>).
\<close>

section \<open>The hot loop\<close>

fun hot_args ::
    "'w tci_env \<Rightarrow> 'w machine \<Rightarrow> nat list \<Rightarrow> nat \<Rightarrow> nat \<Rightarrow> nat \<Rightarrow> u32 \<Rightarrow> u64 list \<Rightarrow> (u32 \<times> u64 list) option"
  where
  "hot_args e m [] i reg_idx stack_idx msk av = Some (msk, av)"
| "hot_args e m (sz # szs) i reg_idx stack_idx msk av =
     (let s = (if reg_idx < 5 then SReg (8 + reg_idx) else SStack stack_idx);
          reg_idx' = (if reg_idx < 5 then reg_idx + (sz + 7) div 8 else reg_idx);
          stack_idx' = (if reg_idx < 5 then stack_idx else stack_idx + (sz + 7) div 8)
      in if sz = 8
           then hot_args e m szs (Suc i) reg_idx' stack_idx' (msk OR push_bit i 1) (av @ [slot64 e m s])
         else if sz \<le> 4
           then hot_args e m szs (Suc i) reg_idx' stack_idx' msk (av @ [zext32 (slot32 e m s)])
         else None)"

definition tci_hot_call :: "'w tci_env \<Rightarrow> u32 \<Rightarrow> u32 \<Rightarrow> 'w machine \<Rightarrow> 'w outcome" where
  "tci_hot_call e insn tb_ptr m =
     (let (len, ptr) = tci_args_nl insn tb_ptr;
          func = ptr32 (load64 (mem m) ptr);
          cif = ptr32 (load64 (mem m) (ptr + 8))
      in if func = helper_lookup_tb_ptr_addr e then
           after_helper (\<lambda>lo hi m'. Next tb_ptr (set_reg 0 (zext32 (lo32 lo)) m'))
             (helper_lookup_tb_ptr e (ptr32 (regs m 8)) m)
         else
           let n = length (cif_arg_sizes e cif)
           in if n > 6 \<or> len > 2 then Cold m
              else case hot_args e m (cif_arg_sizes e cif) 0 0 0 0 [] of
                     None \<Rightarrow> Cold m
                   | Some (msk, av) \<Rightarrow>
                       let m1 = m\<lparr>tci_tb_ptr := tb_ptr\<rparr>
                       in case tci_direct_call e func n msk len av m1 of
                            None \<Rightarrow> Cold m1
                          | Some r \<Rightarrow>
                              after_helper (\<lambda>rv hi m'. Next tb_ptr
                                (if len = 1 then set_reg 0 (zext32 (lo32 rv)) m'
                                 else if len = 2 then set_reg 0 rv m' else m')) r)"

definition hot_enter_tb :: "'w tci_env \<Rightarrow> u32 \<Rightarrow> 'w machine \<Rightarrow> 'w outcome" where
  "hot_enter_tb e tb_ptr m =
     (let m1 = m\<lparr>ctx_tb_ptr := tb_ptr\<rparr>;
          tb_counter_ptr = tb_ptr + of_int (counter_vec_off (thread e));
          cnt = load32 (mem m1) tb_counter_ptr
      in if s32 cnt \<ge> 0 \<and> tb_wants_tci (tune e) (thread e) (mem m1) cnt tb_ptr
         then let m2 = set_mem (store32 (mem m1) tb_counter_ptr (cnt + 1)) m1
              in Chain (tb_ptr + load32 (mem m2) tb_ptr) m2
         else Leave 0 m1)"

definition hot_ld :: "'w tci_env \<Rightarrow> (u64 \<Rightarrow> u64) \<Rightarrow> u32 \<Rightarrow> u32 \<Rightarrow> 'w machine \<Rightarrow> 'w outcome" where
  "hot_ld e conv insn tb_ptr m =
     (let (r0, r1, oi, ptr) = tci_args_ldst insn tb_ptr (mem m)
      in if \<not> (r0 < 16 \<and> r1 < 16) then Stuck
         else case tci_qemu_ld e (conv (regs m r1)) oi tb_ptr ptr m of
                None \<Rightarrow> Stuck
              | Some r \<Rightarrow> after_helper (\<lambda>lo hi m'. Next tb_ptr (set_reg r0 lo m')) r)"

definition hot_st :: "'w tci_env \<Rightarrow> (u64 \<Rightarrow> u64) \<Rightarrow> u32 \<Rightarrow> u32 \<Rightarrow> 'w machine \<Rightarrow> 'w outcome" where
  "hot_st e conv insn tb_ptr m =
     (let (r0, r1, oi, ptr) = tci_args_ldst insn tb_ptr (mem m)
      in if \<not> (r0 < 16 \<and> r1 < 16) then Stuck
         else case tci_qemu_st e (conv (regs m r1)) (regs m r0) oi tb_ptr ptr m of
                None \<Rightarrow> Stuck
              | Some r \<Rightarrow> after_helper (\<lambda>lo hi m'. Next tb_ptr m') r)"

text \<open>The \<open>switch\<close> of the hot loop, group by group.\<close>

definition hot_host :: "tcg_host \<Rightarrow> u32 \<Rightarrow> u32 \<Rightarrow> 'w machine \<Rightarrow> 'w outcome" where
  "hot_host h insn tb_ptr m =
     (let (r0, r1, ofs) = tci_args_rrs insn;
          a = ptr32 (regs m r1 + scast ofs)
      in case h of
           H_ld I64 \<Rightarrow> Next tb_ptr (set_reg r0 (load64 (mem m) a) m)
         | H_ld I32 \<Rightarrow> Next tb_ptr (set_reg r0 (zext32 (load32 (mem m) a)) m)
         | H_ld32u_i64 \<Rightarrow> Next tb_ptr (set_reg r0 (zext32 (load32 (mem m) a)) m)
         | H_ld32s_i64 \<Rightarrow> Next tb_ptr (set_reg r0 (sext32 (load32 (mem m) a)) m)
         | H_ld8u _ \<Rightarrow> Next tb_ptr (set_reg r0 (ucast (load8 (mem m) a)) m)
         | H_st I64 \<Rightarrow> Next tb_ptr (set_mem (store64 (mem m) a (regs m r0)) m)
         | H_st I32 \<Rightarrow> Next tb_ptr (set_mem (store32 (mem m) a (lo32 (regs m r0))) m)
         | H_st32_i64 \<Rightarrow> Next tb_ptr (set_mem (store32 (mem m) a (lo32 (regs m r0))) m)
         | H_st8 _ \<Rightarrow> Next tb_ptr (set_mem (store8 (mem m) a (ucast (regs m r0))) m)
         | _ \<Rightarrow> Cold m)"

definition hot_rrr :: "tcg_rrr \<Rightarrow> tcg_width \<Rightarrow> u32 \<Rightarrow> u32 \<Rightarrow> 'w machine \<Rightarrow> 'w outcome" where
  "hot_rrr a w insn tb_ptr m =
     (let (r0, r1, r2) = tci_args_rrr insn
      in case (a, w) of
           (R_add, _) \<Rightarrow> Next tb_ptr (set_reg r0 (regs m r1 + regs m r2) m)
         | (R_sub, _) \<Rightarrow> Next tb_ptr (set_reg r0 (regs m r1 - regs m r2) m)
         | (R_and, _) \<Rightarrow> Next tb_ptr (set_reg r0 (regs m r1 AND regs m r2) m)
         | (R_or, _) \<Rightarrow> Next tb_ptr (set_reg r0 (regs m r1 OR regs m r2) m)
         | (R_xor, _) \<Rightarrow> Next tb_ptr (set_reg r0 (regs m r1 XOR regs m r2) m)
         | (R_shl, I64) \<Rightarrow> Next tb_ptr (set_reg r0 (push_bit (unat (regs m r2 AND 63)) (regs m r1)) m)
         | (R_shr, I64) \<Rightarrow> Next tb_ptr (set_reg r0 (drop_bit (unat (regs m r2 AND 63)) (regs m r1)) m)
         | (R_sar, I64) \<Rightarrow>
             Next tb_ptr (set_reg r0 (signed_drop_bit (unat (regs m r2 AND 63)) (regs m r1)) m)
         | _ \<Rightarrow> Cold m)"

definition hot_rr :: "tcg_rr \<Rightarrow> tcg_width \<Rightarrow> u32 \<Rightarrow> u32 \<Rightarrow> 'w machine \<Rightarrow> 'w outcome" where
  "hot_rr u w insn tb_ptr m =
     (let (r0, r1) = tci_args_rr insn
      in case (u, w) of
           (U_mov, _) \<Rightarrow> Next tb_ptr (set_reg r0 (regs m r1) m)
         | (U_ext8u, I64) \<Rightarrow> Next tb_ptr (set_reg r0 (ucast (ucast (regs m r1) :: u8)) m)
         | _ \<Rightarrow> Cold m)"

definition hot_rr64 :: "tcg_rr64 \<Rightarrow> u32 \<Rightarrow> u32 \<Rightarrow> 'w machine \<Rightarrow> 'w outcome" where
  "hot_rr64 u insn tb_ptr m =
     (let (r0, r1) = tci_args_rr insn
      in case u of
           W_ext32u_i64 \<Rightarrow> Next tb_ptr (set_reg r0 (zext32 (lo32 (regs m r1))) m)
         | W_extu_i32_i64 \<Rightarrow> Next tb_ptr (set_reg r0 (zext32 (lo32 (regs m r1))) m)
         | W_ext32s_i64 \<Rightarrow> Next tb_ptr (set_reg r0 (sext32 (lo32 (regs m r1))) m)
         | W_ext_i32_i64 \<Rightarrow> Next tb_ptr (set_reg r0 (sext32 (lo32 (regs m r1))) m)
         | _ \<Rightarrow> Cold m)"

definition hot_exec :: "'w tci_env \<Rightarrow> tcg_op \<Rightarrow> u32 \<Rightarrow> u32 \<Rightarrow> 'w machine \<Rightarrow> 'w outcome" where
  "hot_exec e op insn tb_ptr m =
     (case op of
        Op_tci_movi \<Rightarrow> (let (r0, t1) = tci_args_ri insn in Next tb_ptr (set_reg r0 t1 m))
      | Op_tci_movl \<Rightarrow> (let (r0, ptr) = tci_args_rl insn tb_ptr
                       in Next tb_ptr (set_reg r0 (load64 (mem m) ptr) m))
      | Op_rr u w \<Rightarrow> hot_rr u w insn tb_ptr m
      | Op_host h \<Rightarrow> hot_host h insn tb_ptr m
      | Op_rrr a w \<Rightarrow> hot_rrr a w insn tb_ptr m
      | Op_rr64 u \<Rightarrow> hot_rr64 u insn tb_ptr m
      | Op_deposit I64 \<Rightarrow>
          (let (r0, r1, r2, pos, len) = tci_args_rrrbb insn
           in if bitfield_ok 64 pos len
              then Next tb_ptr (set_reg r0 (deposit64 (regs m r1) pos len (regs m r2)) m) else Stuck)
      | Op_setcond I32 \<Rightarrow>
          (let (r0, r1, r2, c) = tci_args_rrrc insn
           in case tci_compare32 (lo32 (regs m r1)) (lo32 (regs m r2)) c of
                None \<Rightarrow> Stuck | Some b \<Rightarrow> Next tb_ptr (set_reg r0 (of_bool_word b) m))
      | Op_setcond I64 \<Rightarrow>
          (let (r0, r1, r2, c) = tci_args_rrrc insn
           in case tci_compare64 (regs m r1) (regs m r2) c of
                None \<Rightarrow> Stuck | Some b \<Rightarrow> Next tb_ptr (set_reg r0 (of_bool_word b) m))
      | Op_movcond I64 \<Rightarrow>
          (let (r0, r1, r2, r3, r4, c) = tci_args_rrrrrc insn
           in case tci_compare64 (regs m r1) (regs m r2) c of
                None \<Rightarrow> Stuck | Some b \<Rightarrow> Next tb_ptr (set_reg r0 (regs m (if b then r3 else r4)) m))
      | Op_brcond I32 \<Rightarrow>
          (let (r0, ptr) = tci_args_rl insn tb_ptr
           in if lo32 (regs m r0) \<noteq> 0 then Next ptr m else Next tb_ptr m)
      | Op_brcond I64 \<Rightarrow>
          (let (r0, ptr) = tci_args_rl insn tb_ptr
           in if regs m r0 \<noteq> 0 then Next ptr m else Next tb_ptr m)
      | Op_br \<Rightarrow> Next (tci_args_br insn tb_ptr) m
      | Op_mb \<Rightarrow> Next tb_ptr m
      | Op_qemu_ld_a64 w \<Rightarrow> hot_ld e (\<lambda>v. v) insn tb_ptr m
      | Op_qemu_ld_a32 w \<Rightarrow> hot_ld e (\<lambda>v. zext32 (lo32 v)) insn tb_ptr m
      | Op_qemu_st_a64 w \<Rightarrow> hot_st e (\<lambda>v. v) insn tb_ptr m
      | Op_qemu_st_a32 w \<Rightarrow> hot_st e (\<lambda>v. zext32 (lo32 v)) insn tb_ptr m
      | Op_call \<Rightarrow> tci_hot_call e insn tb_ptr m
      | Op_exit_tb \<Rightarrow> Leave (tci_args_l insn tb_ptr) (m\<lparr>ctx_tb_ptr := 0\<rparr>)
      | Op_goto_tb \<Rightarrow>
          (let next_tb = load32 (mem m) (tci_args_l insn tb_ptr)
           in if next_tb \<noteq> 0 then hot_enter_tb e next_tb m else Next tb_ptr m)
      | Op_goto_ptr \<Rightarrow>
          (let ptr = ptr32 (regs m (tci_args_r insn))
           in if ptr = 0 then Leave 0 (m\<lparr>ctx_tb_ptr := 0\<rparr>) else hot_enter_tb e ptr m)
      | _ \<Rightarrow> Cold m)"

text \<open>An opcode that is not in the table falls into the hot loop's \<open>default\<close> case.\<close>

definition hot_step :: "'w tci_env \<Rightarrow> u32 \<Rightarrow> 'w machine \<Rightarrow> 'w outcome" where
  "hot_step e tb_ptr m =
     (let insn = load32 (mem m) tb_ptr
      in case insn_opc insn of
           None \<Rightarrow> Cold m
         | Some op \<Rightarrow> hot_exec e op insn (tb_ptr + 4) m)"

primrec hot_loop :: "'w tci_env \<Rightarrow> nat \<Rightarrow> u32 \<Rightarrow> 'w machine \<Rightarrow> 'w outcome option" where
  "hot_loop e 0 tb_ptr m = None"
| "hot_loop e (Suc n) tb_ptr m =
     (case hot_step e tb_ptr m of
        Next tb_ptr' m' \<Rightarrow> hot_loop e n tb_ptr' m'
      | Chain tb_ptr' m' \<Rightarrow> hot_loop e n tb_ptr' m'
      | Cold m' \<Rightarrow> Some (Leave 0 (m'\<lparr>bb_cold_ptr := tb_ptr\<rparr>))
      | r \<Rightarrow> Some r)"

definition tci_hot_loop :: "'w tci_env \<Rightarrow> nat \<Rightarrow> u32 \<Rightarrow> 'w machine \<Rightarrow> 'w outcome option" where
  "tci_hot_loop e fuel start m = hot_loop e fuel (tci_start start m) (tci_enter e m)"

section \<open>Choosing the interpreter\<close>

text \<open>The loop of \<open>tci_exec\<close>; the fuel bounds its turns and each of the two loops inside.\<close>

fun tci_exec_loop :: "'w tci_env \<Rightarrow> nat \<Rightarrow> u32 \<Rightarrow> 'w machine \<Rightarrow> 'w outcome option" where
  "tci_exec_loop e 0 p m = None"
| "tci_exec_loop e (Suc n) p m =
     (case tci_hot_loop e (Suc n) p (m\<lparr>bb_fast_tci_depth := True\<rparr>) of
        Some (Leave r m1) \<Rightarrow>
          (let m2 = m1\<lparr>bb_fast_tci_depth := False\<rparr>
           in if bb_cold_ptr m2 = 0 then Some (Leave r m2)
              else
                (case tcg_qemu_tb_exec_tci_full e (Suc n) (bb_cold_ptr m2) True
                        (m2\<lparr>bb_cold_ptr := 0\<rparr>) of
                   Some (Leave r m3) \<Rightarrow>
                     if bb_resume_ptr m3 = 0 then Some (Leave r m3)
                     else tci_exec_loop e n (bb_resume_ptr m3) (m3\<lparr>bb_resume_ptr := 0\<rparr>)
                 | x \<Rightarrow> x))
      | x \<Rightarrow> x)"

definition tci_exec :: "'w tci_env \<Rightarrow> nat \<Rightarrow> 'w machine \<Rightarrow> 'w outcome option" where
  "tci_exec e fuel m =
     (if \<not> wasm_fast_tci (tune e) \<or> bb_force_slow_tci m
      then tcg_qemu_tb_exec_tci_full e fuel 0 False (m\<lparr>bb_force_slow_tci := False\<rparr>)
      else tci_exec_loop e fuel 0 m)"

text \<open>
  A helper's \<open>longjmp\<close> arrives in \<open>cpu_exec_setjmp\<close> (\<open>accel/tcg/cpu-exec.c\<close>), which clears the depth.
\<close>

fun cpu_exec_setjmp :: "'w outcome \<Rightarrow> 'w outcome" where
  "cpu_exec_setjmp (Unwound m) = Unwound (m\<lparr>bb_fast_tci_depth := False\<rparr>)"
| "cpu_exec_setjmp r = r"

section \<open>One instruction: hot against full\<close>

lemma slot_tci_tb_ptr [simp]:
  "slot64 e (m\<lparr>tci_tb_ptr := x\<rparr>) s = slot64 e m s" "slot32 e (m\<lparr>tci_tb_ptr := x\<rparr>) s = slot32 e m s"
  by (cases s; simp)+

lemma simple_args_tci_tb_ptr [simp]:
  "simple_args e (m\<lparr>tci_tb_ptr := x\<rparr>) args i msk av = simple_args e m args i msk av"
  by (induction e m args i msk av rule: simple_args.induct) simp_all

lemma hot_args_simple:
  "hot_args e m szs i r s msk av = simple_args e m (zip szs (call_slots szs r s)) i msk av"
  by (induction szs arbitrary: i r s msk av) (simp_all add: Let_def)

lemma simple_args_mask:
  assumes "simple_args e m args i msk av = Some (msk', av')" "\<forall>j\<ge>i. \<not> bit msk j"
  shows "\<forall>j\<ge>i + length args. \<not> bit msk' j"
  using assms
proof (induction e m args i msk av rule: simple_args.induct)
  case (2 e m sz s args i msk av)
  have "\<forall>j\<ge>Suc i. \<not> bit (msk OR push_bit i 1) j" using "2.prems"(2) by (auto simp: bit_simps)
  with 2 show ?case by (auto split: if_splits)
qed auto

lemma unat_less_if_bits:
  assumes "\<forall>j\<ge>n. \<not> bit (w :: u32) j"
  shows "unat w < 2 ^ n"
proof -
  have "take_bit n w = w" by (intro bit_eqI) (metis assms bit_take_bit_iff not_le)
  then have "unat w = take_bit n (unat w)" by (metis unsigned_take_bit_eq)
  then show ?thesis by (metis take_bit_nat_less_exp)
qed

lemma direct_call_key:
  assumes "rk \<le> 2" "n \<le> (6::nat)"
  shows "(push_bit 3 rk OR n) div 8 = rk" "(push_bit 3 rk OR n) mod 8 = n"
proof -
  have rk: "rk = 0 \<or> rk = 1 \<or> rk = 2" using assms(1) by linarith
  have n: "n = 0 \<or> n = 1 \<or> n = 2 \<or> n = 3 \<or> n = 4 \<or> n = 5 \<or> n = 6" using assms(2) by linarith
  show "(push_bit 3 rk OR n) div 8 = rk" "(push_bit 3 rk OR n) mod 8 = n"
    using rk n by (elim disjE; simp)+
qed

lemma tci_direct_call_total:
  assumes "simple_args e m args 0 0 [] = Some (msk, av)" "length args = n" "n \<le> 6" "rk \<le> 2"
  shows "tci_direct_call e func n msk rk av m' \<noteq> None"
  using unat_less_if_bits [OF simple_args_mask [OF assms(1)]] assms(2-4)
  by (simp add: tci_direct_call_def Let_def direct_call_key)

lemma length_call_slots [simp]: "length (call_slots szs r s) = length szs"
  by (induction szs r s rule: call_slots.induct) simp_all

text \<open>
  The hot loop either refuses an instruction without having changed anything or does exactly what
  the full interpreter does.
\<close>

lemma hot_call_cases:
  "tci_hot_call e insn tb_ptr m = Cold m \<or> tci_hot_call e insn tb_ptr m = full_call e insn tb_ptr m"
proof -
  obtain len ptr where lp: "tci_args_nl insn tb_ptr = (len, ptr)" by fastforce
  let ?func = "ptr32 (load64 (mem m) ptr)" and ?cif = "ptr32 (load64 (mem m) (ptr + 8))"
  let ?szs = "cif_arg_sizes e ?cif"
  show ?thesis
  proof (cases "?func = helper_lookup_tb_ptr_addr e \<or> length ?szs > 6 \<or> len > 2")
    case True
    then show ?thesis by (auto simp: tci_hot_call_def full_call_def lp Let_def)
  next
    case False
    then have small: "length ?szs \<le> 6" "len \<le> 2" by auto
    show ?thesis
    proof (cases "simple_args e m (zip ?szs (call_slots ?szs 0 0)) 0 0 []")
      case None
      with False show ?thesis by (simp add: tci_hot_call_def lp Let_def hot_args_simple)
    next
      case (Some a)
      obtain msk av where a: "a = (msk, av)" by fastforce
      obtain r where "tci_direct_call e ?func (length ?szs) msk len av (m\<lparr>tci_tb_ptr := tb_ptr\<rparr>) = Some r"
        using tci_direct_call_total [OF Some [unfolded a] _ small] by fastforce
      with False Some a show ?thesis
        by (simp add: tci_hot_call_def full_call_def lp Let_def hot_args_simple direct_result_def [abs_def])
    qed
  qed
qed

lemma hot_enter_tb_eq: "hot_enter_tb e tb_ptr m = enter_tb e tb_ptr m"
  by (simp add: hot_enter_tb_def enter_tb_def)

lemma hot_host_cases:
  "hot_host h insn tb_ptr m = Cold m \<or> hot_host h insn tb_ptr m = full_exec e (Op_host h) insn tb_ptr m"
proof -
  have "hot_host h insn tb_ptr m = Cold m \<or> hot_host h insn tb_ptr m = full_exec e (Op_host h) insn tb_ptr m"
    if "tci_args_rrs insn = (r0, r1, ofs)" for r0 r1 ofs
    by (cases h) (simp_all add: hot_host_def host_addr_def that Let_def split: tcg_width.split)
  then show ?thesis by (cases "tci_args_rrs insn") auto
qed

lemma hot_rrr_cases:
  "hot_rrr a w insn tb_ptr m = Cold m \<or> hot_rrr a w insn tb_ptr m = full_exec e (Op_rrr a w) insn tb_ptr m"
proof -
  have "hot_rrr a w insn tb_ptr m = Cold m \<or> hot_rrr a w insn tb_ptr m = full_exec e (Op_rrr a w) insn tb_ptr m"
    if "tci_args_rrr insn = (r0, r1, r2)" for r0 r1 r2
    by (cases a; cases w) (auto simp: hot_rrr_def write_next_def that)
  then show ?thesis by (cases "tci_args_rrr insn") auto
qed

lemma hot_rr_cases:
  "hot_rr u w insn tb_ptr m = Cold m \<or> hot_rr u w insn tb_ptr m = full_exec e (Op_rr u w) insn tb_ptr m"
proof -
  obtain r0 r1 where "tci_args_rr insn = (r0, r1)" by fastforce
  then show ?thesis by (cases u; cases w) (auto simp: hot_rr_def)
qed

lemma hot_rr64_cases:
  "hot_rr64 u insn tb_ptr m = Cold m \<or> hot_rr64 u insn tb_ptr m = full_exec e (Op_rr64 u) insn tb_ptr m"
proof -
  obtain r0 r1 where "tci_args_rr insn = (r0, r1)" by fastforce
  then show ?thesis by (cases u) (auto simp: hot_rr64_def)
qed

lemma hot_exec_cases:
  "hot_exec e op insn tb_ptr m = Cold m \<or> hot_exec e op insn tb_ptr m = full_exec e op insn tb_ptr m"
proof (cases op)
  case (Op_setcond w)
  then show ?thesis
    by (cases w) (auto simp: hot_exec_def write_next_def compare_value_def split: prod.split option.split)
next
  case (Op_movcond w)
  then show ?thesis
    by (cases w) (auto simp: hot_exec_def write_next_def compare_value_def split: prod.split option.split)
next
  case (Op_deposit w)
  then show ?thesis
    by (cases w) (auto simp: hot_exec_def write_next_def deposit_value_def split: prod.split option.split)
next
  case (Op_brcond w)
  then show ?thesis
    by (cases w) (auto simp: hot_exec_def branch_taken_def split: prod.split)
next
  case (Op_rrr a w)
  then show ?thesis using hot_rrr_cases [of a w] by (simp add: hot_exec_def)
next
  case (Op_rr u w)
  then show ?thesis using hot_rr_cases [of u w] by (simp add: hot_exec_def)
next
  case (Op_rr64 u)
  then show ?thesis using hot_rr64_cases [of u] by (simp add: hot_exec_def)
next
  case (Op_host h)
  then show ?thesis using hot_host_cases [of h] by (simp add: hot_exec_def)
next
  case Op_call
  then show ?thesis using hot_call_cases by (simp add: hot_exec_def)
qed (auto simp: hot_exec_def hot_enter_tb_eq full_goto_tb_def full_goto_ptr_def hot_ld_def
    hot_st_def full_qemu_ld_def full_qemu_st_def Let_def split: prod.split)

lemma hot_step_cases: "hot_step e tb_ptr m = Cold m \<or> hot_step e tb_ptr m = full_step e tb_ptr m"
proof (cases "insn_opc (load32 (mem m) tb_ptr)")
  case (Some op)
  then show ?thesis
    using hot_exec_cases [of e op "load32 (mem m) tb_ptr" "tb_ptr + 4" m]
    by (simp add: hot_step_def full_step_def)
qed (simp add: hot_step_def)

end
