(* ===== verification/TCI_Equiv.thy ===== *)
theory TCI_Equiv
  imports TCI_Hot
begin

text \<open>
  The fast interpreter computes what the full interpreter computes.

  \<^item> \<open>fast m\<close> is the machine \<open>m\<close> with \<open>bb_fast_tci_depth\<close> set, as the hot loop runs it.
  \<^item> The locale \<open>guarded_hooks\<close> is the contract of the code the interpreters call: called from the hot
    loop a helper either does what it does when called from the full interpreter, or it defers (it sets
    \<open>bb_force_slow_tci\<close> and unwinds); and it leaves the interpreters' own hand-off variables alone.
  \<^item> \<open>quiet\<close> is what the code generator promises of the byte code: the two reserved registers are never
    written and no instruction lies at address 0.
  \<^item> \<open>hot_phase\<close>, \<open>cold_phase\<close> and their converses relate one run of each of the two loops to the full
    interpreter's run.
\<close>

section \<open>Running with the depth set\<close>

definition fast :: "'w machine \<Rightarrow> 'w machine" where
  "fast m = m\<lparr>bb_fast_tci_depth := True\<rparr>"

lemma fast_simps [simp]:
  "regs (fast m) = regs m" "mem (fast m) = mem m" "ctx_tb_ptr (fast m) = ctx_tb_ptr m"
  "bb_cold_ptr (fast m) = bb_cold_ptr m" "bb_resume_ptr (fast m) = bb_resume_ptr m"
  "bb_force_slow_tci (fast m) = bb_force_slow_tci m" "tci_tb_ptr (fast m) = tci_tb_ptr m"
  "set_reg r v (fast m) = fast (set_reg r v m)" "set_mem mm (fast m) = fast (set_mem mm m)"
  "(fast m)\<lparr>ctx_tb_ptr := p\<rparr> = fast (m\<lparr>ctx_tb_ptr := p\<rparr>)"
  "(fast m)\<lparr>tci_tb_ptr := p\<rparr> = fast (m\<lparr>tci_tb_ptr := p\<rparr>)"
  "(fast m)\<lparr>bb_cold_ptr := p\<rparr> = fast (m\<lparr>bb_cold_ptr := p\<rparr>)"
  by (simp_all add: fast_def set_reg_def set_mem_def)

lemma tci_write_reg64_fast [simp]: "tci_write_reg64 h l v (fast m) = fast (tci_write_reg64 h l v m)"
  by (simp add: tci_write_reg64_def)

lemma fast_off [simp]:
  "\<not> bb_fast_tci_depth m \<Longrightarrow> (fast m)\<lparr>bb_fast_tci_depth := False\<rparr> = m"
  by (simp add: fast_def)

fun fast_hres :: "'w hres \<Rightarrow> 'w hres" where
  "fast_hres (HRet lo hi m) = HRet lo hi (fast m)"
| "fast_hres (HUnwind m) = HUnwind (fast m)"

fun fast_out :: "'w outcome \<Rightarrow> 'w outcome" where
  "fast_out (Next p m) = Next p (fast m)"
| "fast_out (Chain p m) = Chain p (fast m)"
| "fast_out (Leave r m) = Leave r (fast m)"
| "fast_out (Cold m) = Cold (fast m)"
| "fast_out (Unwound m) = Unwound (fast m)"
| "fast_out Stuck = Stuck"

text \<open>A deferred access: the run unwinds and the next one will be done by the full interpreter.\<close>

fun deferred :: "'w outcome \<Rightarrow> bool" where
  "deferred (Unwound m) = bb_force_slow_tci m"
| "deferred _ = False"

definition guarded :: "'w hres \<Rightarrow> 'w hres \<Rightarrow> bool" where
  "guarded f s \<longleftrightarrow> (\<exists>m. f = HUnwind m \<and> bb_force_slow_tci m) \<or> f = fast_hres s"

text \<open>The interpreters' hand-off variables, which a helper leaves alone when it returns.\<close>

definition handoff :: "'w machine \<Rightarrow> bool \<times> u32 \<times> u32" where
  "handoff m = (bb_fast_tci_depth m, bb_cold_ptr m, bb_resume_ptr m)"

fun keeps :: "'w machine \<Rightarrow> 'w hres \<Rightarrow> bool" where
  "keeps m (HRet lo hi m') \<longleftrightarrow> handoff m' = handoff m"
| "keeps m (HUnwind m') \<longleftrightarrow> True"

locale guarded_hooks =
  fixes e :: "'w tci_env"
  assumes lookup: "guarded (helper_lookup_tb_ptr e a (fast m)) (helper_lookup_tb_ptr e a m)"
    and helper: "guarded (call_helper e fn args (fast m)) (call_helper e fn args m)"
    and ffi: "guarded (ffi_call e cif fn st slots (fast m)) (ffi_call e cif fn st slots m)"
    and ld: "guarded (helper_ld_mmu e sz taddr oi ra (fast m)) (helper_ld_mmu e sz taddr oi ra m)"
    and st: "guarded (helper_st_mmu e sz taddr v oi ra (fast m)) (helper_st_mmu e sz taddr v oi ra m)"
    and keep_lookup: "keeps m (helper_lookup_tb_ptr e a m)"
    and keep_helper: "keeps m (call_helper e fn args m)"
    and keep_ffi: "keeps m (ffi_call e cif fn st' slots m)"
    and keep_ld: "keeps m (helper_ld_mmu e sz taddr oi ra m)"
    and keep_st: "keeps m (helper_st_mmu e sz taddr v oi ra m)"

text \<open>One outcome simulates another: it is deferred, or the same with the depth set.\<close>

definition sim :: "'w outcome \<Rightarrow> 'w outcome \<Rightarrow> bool" where
  "sim f s \<longleftrightarrow> deferred f \<or> f = fast_out s"

lemma sim_refl: "f = fast_out s \<Longrightarrow> sim f s"
  by (simp add: sim_def)

lemma sim_after_helper:
  assumes "guarded rf rs" "\<And>lo hi m. sim (f lo hi (fast m)) (f lo hi m)"
  shows "sim (after_helper f rf) (after_helper f rs)"
proof (cases rs)
  case (HRet lo hi m)
  with assms(1) assms(2) [of lo hi m] show ?thesis by (auto simp: guarded_def sim_def after_helper_def)
qed (use assms(1) in \<open>auto simp: guarded_def sim_def after_helper_def\<close>)

text \<open>The parts of the interpreter that call nothing.\<close>

lemma write_next_fast: "write_next r v p (fast m) = fast_out (write_next r v p m)"
  by (cases v) (simp_all add: write_next_def)

lemma full_host_fast: "full_host h r a (fast m) = fast (full_host h r a m)"
  by (induction h r a m rule: full_host.induct) simp_all

lemma slot_fast [simp]: "slot64 e (fast m) s = slot64 e m s" "slot32 e (fast m) s = slot32 e m s"
  by (cases s; simp)+

lemma simple_args_fast [simp]: "simple_args e (fast m) args i msk av = simple_args e m args i msk av"
  by (induction e m args i msk av rule: simple_args.induct) simp_all

lemma enter_tb_fast: "enter_tb e p (fast m) = fast_out (enter_tb e p m)"
  by (simp add: enter_tb_def Let_def)

lemma two_word_fast:
  "full_add2_i32 insn (fast m) = fast (full_add2_i32 insn m)"
  "full_add2_i64 insn (fast m) = fast (full_add2_i64 insn m)"
  "full_sub2_i32 insn (fast m) = fast (full_sub2_i32 insn m)"
  "full_sub2_i64 insn (fast m) = fast (full_sub2_i64 insn m)"
  "full_mul2_i32 b insn (fast m) = fast (full_mul2_i32 b insn m)"
  by (simp_all add: full_add2_i32_def full_add2_i64_def full_sub2_i32_def full_sub2_i64_def
      full_mul2_i32_def Let_def split: prod.split)

lemma result_fast:
  "direct_result len p rv hi (fast m) = fast_out (direct_result len p rv hi m)"
  "ffi_result e len p (fast m) = fast_out (ffi_result e len p m)"
  by (simp_all add: direct_result_def ffi_result_def Let_def)

text \<open>The hand-off variables through one instruction.\<close>

fun out_keeps :: "'w machine \<Rightarrow> 'w outcome \<Rightarrow> bool" where
  "out_keeps m (Next p m') \<longleftrightarrow> handoff m' = handoff m"
| "out_keeps m (Chain p m') \<longleftrightarrow> handoff m' = handoff m"
| "out_keeps m (Leave r m') \<longleftrightarrow> handoff m' = handoff m"
| "out_keeps m (Cold m') \<longleftrightarrow> False"
| "out_keeps m (Unwound m') \<longleftrightarrow> True"
| "out_keeps m Stuck \<longleftrightarrow> True"

lemma handoff_simps [simp]:
  "handoff (set_reg r v m) = handoff m" "handoff (set_mem mm m) = handoff m"
  "handoff (m\<lparr>ctx_tb_ptr := p\<rparr>) = handoff m" "handoff (m\<lparr>tci_tb_ptr := p\<rparr>) = handoff m"
  by (simp_all add: handoff_def set_reg_def set_mem_def)

lemma handoff_updates [simp]:
  "handoff (tci_write_reg64 h l v m) = handoff m" "handoff (full_host hh r a m) = handoff m"
  "handoff (full_add2_i32 insn m) = handoff m" "handoff (full_sub2_i32 insn m) = handoff m"
  "handoff (full_add2_i64 insn m) = handoff m" "handoff (full_sub2_i64 insn m) = handoff m"
  "handoff (full_mul2_i32 b insn m) = handoff m"
  by (simp_all add: tci_write_reg64_def full_add2_i32_def full_add2_i64_def full_sub2_i32_def
      full_sub2_i64_def full_mul2_i32_def Let_def split: prod.split)
    (induction hh r a m rule: full_host.induct; simp)

lemma keeps_after_helper:
  assumes "keeps m r" "\<And>lo hi m'. handoff m' = handoff m \<Longrightarrow> out_keeps m (f lo hi m')"
  shows "out_keeps m (after_helper f r)"
  using assms by (cases r) (auto simp: after_helper_def)

lemma write_next_keeps: "out_keeps m (write_next r v p m)"
  by (cases v) (simp_all add: write_next_def)

lemma enter_tb_keeps: "out_keeps m (enter_tb e p m)"
  by (simp add: enter_tb_def Let_def)

lemma result_keeps:
  "handoff m' = handoff m \<Longrightarrow> out_keeps m (direct_result len p rv hi m')"
  "handoff m' = handoff m \<Longrightarrow> out_keeps m (ffi_result e len p m')"
  by (simp_all add: direct_result_def ffi_result_def Let_def)

context guarded_hooks
begin

lemma direct_call_guarded:
  "rel_option guarded (tci_direct_call e fn n msk rk av (fast m)) (tci_direct_call e fn n msk rk av m)"
proof -
  have "guarded (case call_helper e fn args (fast m) of HRet lo hi m' \<Rightarrow> HRet (f lo) 0 m' | HUnwind m' \<Rightarrow> HUnwind m')
      (case call_helper e fn args m of HRet lo hi m' \<Rightarrow> HRet (f lo) 0 m' | HUnwind m' \<Rightarrow> HUnwind m')" for args f
    using helper [of fn args m] unfolding guarded_def by (cases "call_helper e fn args m") auto
  then show ?thesis by (simp add: tci_direct_call_def Let_def)
qed

lemma full_call_sim: "sim (full_call e insn p (fast m)) (full_call e insn p m)"
proof -
  obtain len ptr where lp: "tci_args_nl insn p = (len, ptr)" by fastforce
  let ?func = "ptr32 (load64 (mem m) ptr)" and ?cif = "ptr32 (load64 (mem m) (ptr + 8))"
  let ?szs = "cif_arg_sizes e ?cif" and ?m = "m\<lparr>tci_tb_ptr := p\<rparr>"
  let ?direct = "\<lambda>m. if length ?szs \<le> 6 \<and> len \<le> 2
      then case simple_args e m (zip ?szs (call_slots ?szs 0 0)) 0 0 [] of None \<Rightarrow> None
           | Some (msk, av) \<Rightarrow> tci_direct_call e ?func (length ?szs) msk len av m
      else None"
  have d: "rel_option guarded (?direct (fast ?m)) (?direct ?m)"
    by (auto simp: direct_call_guarded split: option.split)
  note hooks = sim_after_helper [OF lookup] sim_after_helper [OF helper] sim_after_helper [OF ffi]
  show ?thesis
  proof (cases "?func = helper_lookup_tb_ptr_addr e")
    case True
    then show ?thesis by (simp add: full_call_def lp Let_def hooks sim_refl)
  next
    case False
    show ?thesis
    proof (cases "?direct ?m")
      case None
      with d have "?direct (fast ?m) = None" by simp
      with None False show ?thesis
        by (simp add: full_call_def lp Let_def hooks sim_refl result_fast
            del: simple_args_fast simple_args_tci_tb_ptr)
    next
      case (Some r)
      with d obtain r' where "?direct (fast ?m) = Some r'" "guarded r' r" by (auto simp: option_rel_Some2)
      with Some False show ?thesis
        by (simp add: full_call_def lp Let_def sim_after_helper sim_refl result_fast
            del: simple_args_fast simple_args_tci_tb_ptr)
    qed
  qed
qed

lemma qemu_ldst_guarded:
  "rel_option guarded (tci_qemu_ld e taddr oi p ptr (fast m)) (tci_qemu_ld e taddr oi p ptr m)"
  "rel_option guarded (tci_qemu_st e taddr v oi p ptr (fast m)) (tci_qemu_st e taddr v oi p ptr m)"
  using ld st by (simp_all add: tci_qemu_ld_def tci_qemu_st_def Let_def guarded_def)

lemma full_qemu_sim:
  "sim (full_qemu_ld e a64 insn p (fast m)) (full_qemu_ld e a64 insn p m)"
  "sim (full_qemu_st e a64 insn p (fast m)) (full_qemu_st e a64 insn p m)"
proof -
  obtain r0 r1 oi ptr where a: "tci_args_ldst insn p (mem m) = (r0, r1, oi, ptr)" by (cases "tci_args_ldst insn p (mem m)")
  let ?t = "if a64 then regs m r1 else zext32 (lo32 (regs m r1))"
  show "sim (full_qemu_ld e a64 insn p (fast m)) (full_qemu_ld e a64 insn p m)"
    using qemu_ldst_guarded(1) [of ?t oi p ptr m]
    by (auto simp: full_qemu_ld_def a Let_def sim_refl elim!: option.rel_cases intro!: sim_after_helper)
  show "sim (full_qemu_st e a64 insn p (fast m)) (full_qemu_st e a64 insn p m)"
    using qemu_ldst_guarded(2) [of ?t "regs m r0" oi p ptr m]
    by (auto simp: full_qemu_st_def a Let_def sim_refl elim!: option.rel_cases intro!: sim_after_helper)
qed

lemma full_exec_sim: "sim (full_exec e op insn p (fast m)) (full_exec e op insn p m)"
proof (cases op)
  case Op_call
  then show ?thesis by (simp add: full_call_sim)
next
  case (Op_add2 w)
  then show ?thesis by (cases w) (simp_all add: sim_refl two_word_fast)
next
  case (Op_sub2 w)
  then show ?thesis by (cases w) (simp_all add: sim_refl two_word_fast)
qed (simp_all add: sim_refl write_next_fast full_host_fast two_word_fast enter_tb_fast full_qemu_sim
    host_addr_def full_goto_tb_def full_goto_ptr_def Let_def split: prod.split)

lemma full_step_sim: "sim (full_step e p (fast m)) (full_step e p m)"
  by (simp add: full_step_def Let_def full_exec_sim sim_refl split: option.split)

text \<open>One instruction in the hot loop.\<close>

lemma hot_step_sim:
  "hot_step e p (fast m) = Cold (fast m) \<or> sim (hot_step e p (fast m)) (full_step e p m)"
  using hot_step_cases [of e p "fast m"] full_step_sim [of p m] by auto

lemma direct_call_keeps:
  "pred_option (keeps m) (tci_direct_call e fn n msk rk av m)"
proof -
  have "keeps m (case call_helper e fn args m of HRet lo hi m' \<Rightarrow> HRet (f lo) 0 m' | HUnwind m' \<Rightarrow> HUnwind m')" for args f
    using keep_helper [of m fn args] by (cases "call_helper e fn args m") auto
  then show ?thesis by (simp add: tci_direct_call_def Let_def)
qed

lemma full_call_keeps: "out_keeps m (full_call e insn p m)"
proof -
  obtain len ptr where lp: "tci_args_nl insn p = (len, ptr)" by fastforce
  let ?func = "ptr32 (load64 (mem m) ptr)" and ?cif = "ptr32 (load64 (mem m) (ptr + 8))"
  let ?szs = "cif_arg_sizes e ?cif" and ?m = "m\<lparr>tci_tb_ptr := p\<rparr>"
  let ?direct = "if length ?szs \<le> 6 \<and> len \<le> 2
      then case simple_args e ?m (zip ?szs (call_slots ?szs 0 0)) 0 0 [] of None \<Rightarrow> None
           | Some (msk, av) \<Rightarrow> tci_direct_call e ?func (length ?szs) msk len av ?m
      else None"
  have d: "pred_option (keeps ?m) ?direct"
    using direct_call_keeps [of ?m] by (auto split: option.split)
  have m: "keeps ?m r \<Longrightarrow> keeps m r" for r by (cases r) simp_all
  note hooks = keeps_after_helper [OF keep_lookup] keeps_after_helper [OF m [OF keep_helper]]
    keeps_after_helper [OF m [OF keep_ffi]]
  show ?thesis
  proof (cases "?func = helper_lookup_tb_ptr_addr e")
    case True
    then show ?thesis by (simp add: full_call_def lp Let_def hooks)
  next
    case False
    show ?thesis
    proof (cases ?direct)
      case None
      with False show ?thesis
        by (simp add: full_call_def lp Let_def hooks result_keeps del: simple_args_tci_tb_ptr)
    next
      case (Some r)
      with d have "keeps m r" using m by simp
      with Some False show ?thesis
        by (simp add: full_call_def lp Let_def keeps_after_helper result_keeps del: simple_args_tci_tb_ptr)
    qed
  qed
qed

lemma qemu_ldst_keeps:
  "pred_option (keeps m) (tci_qemu_ld e taddr oi p ptr m)"
  "pred_option (keeps m) (tci_qemu_st e taddr v oi p ptr m)"
  using keep_ld [of m] keep_st [of m] by (simp_all add: tci_qemu_ld_def tci_qemu_st_def Let_def)

lemma full_qemu_keeps:
  "out_keeps m (full_qemu_ld e a64 insn p m)" "out_keeps m (full_qemu_st e a64 insn p m)"
proof -
  obtain r0 r1 oi ptr where a: "tci_args_ldst insn p (mem m) = (r0, r1, oi, ptr)" by (cases "tci_args_ldst insn p (mem m)")
  let ?t = "if a64 then regs m r1 else zext32 (lo32 (regs m r1))"
  show "out_keeps m (full_qemu_ld e a64 insn p m)"
    using qemu_ldst_keeps(1) [of m ?t oi p ptr]
    by (auto simp: full_qemu_ld_def a Let_def split: option.split intro!: keeps_after_helper)
  show "out_keeps m (full_qemu_st e a64 insn p m)"
    using qemu_ldst_keeps(2) [of m ?t "regs m r0" oi p ptr]
    by (auto simp: full_qemu_st_def a Let_def split: option.split intro!: keeps_after_helper)
qed

lemma full_exec_keeps: "out_keeps m (full_exec e op insn p m)"
proof (cases op)
  case Op_call
  then show ?thesis by (simp add: full_call_keeps)
next
  case (Op_add2 w)
  then show ?thesis by (cases w) simp_all
next
  case (Op_sub2 w)
  then show ?thesis by (cases w) simp_all
qed (simp_all add: write_next_keeps enter_tb_keeps full_qemu_keeps full_goto_tb_def full_goto_ptr_def
    Let_def split: prod.split)

lemma full_step_keeps: "out_keeps m (full_step e p m)"
  by (simp add: full_step_def Let_def full_exec_keeps split: option.split)

end

section \<open>Runs\<close>

definition reserved_ok :: "'w tci_env \<Rightarrow> u32 \<Rightarrow> 'w machine \<Rightarrow> bool" where
  "reserved_ok e p m \<longleftrightarrow> p \<noteq> 0 \<and> regs m TCG_AREG0 = zext32 (env_ptr e)
     \<and> regs m TCG_REG_CALL_STACK = zext32 (ctx_stack e)"

coinductive quiet :: "'w tci_env \<Rightarrow> u32 \<Rightarrow> 'w machine \<Rightarrow> bool" for e where
  quietI: "reserved_ok e p m
    \<Longrightarrow> (\<And>p' m'. full_step e p m = Next p' m' \<or> full_step e p m = Chain p' m' \<Longrightarrow> quiet e p' m')
    \<Longrightarrow> quiet e p m"

lemma quiet_reserved: "quiet e p m \<Longrightarrow> reserved_ok e p m"
  by (erule quiet.cases) simp

lemma quiet_step:
  "quiet e p m \<Longrightarrow> full_step e p m = Next p' m' \<or> full_step e p m = Chain p' m' \<Longrightarrow> quiet e p' m'"
  by (erule quiet.cases) simp

definition calm :: "'w machine \<Rightarrow> bool" where
  "calm m \<longleftrightarrow> handoff m = (False, 0, 0)"

lemma calm_iff: "calm m \<longleftrightarrow> \<not> bb_fast_tci_depth m \<and> bb_cold_ptr m = 0 \<and> bb_resume_ptr m = 0"
  by (simp add: calm_def handoff_def)

lemma tci_enter_reserved: "reserved_ok e p m \<Longrightarrow> tci_enter e m = m"
  by (simp add: tci_enter_def reserved_ok_def set_reg_def TCG_AREG0_def TCG_REG_CALL_STACK_def
      fun_upd_idem)

lemma tci_enter_fast: "tci_enter e (fast m) = fast (tci_enter e m)"
  by (simp add: tci_enter_def)

lemma tci_start_fast: "tci_start p (fast m) = tci_start p m"
  by (simp add: tci_start_def)

lemma calm_tci_enter: "calm (tci_enter e m) = calm m"
  by (simp add: calm_def tci_enter_def)

subsection \<open>More fuel changes nothing\<close>

lemma full_loop_mono:
  "full_loop e single n p m = Some r \<Longrightarrow> n \<le> n' \<Longrightarrow> full_loop e single n' p m = Some r"
proof (induction n arbitrary: n' p m)
  case (Suc n)
  then obtain k where "n' = Suc k" "n \<le> k" by (cases n') auto
  with Suc show ?case by (auto split: outcome.splits if_splits)
qed simp

lemma hot_loop_mono: "hot_loop e n p m = Some r \<Longrightarrow> n \<le> n' \<Longrightarrow> hot_loop e n' p m = Some r"
proof (induction n arbitrary: n' p m)
  case (Suc n)
  then obtain k where "n' = Suc k" "n \<le> k" by (cases n') auto
  with Suc show ?case by (auto split: outcome.splits)
qed simp

lemma tci_exec_loop_mono:
  "tci_exec_loop e n p m = Some r \<Longrightarrow> n \<le> n' \<Longrightarrow> tci_exec_loop e n' p m = Some r"
proof (induction n arbitrary: n' p m)
  case (Suc n)
  then obtain k where k: "n' = Suc k" "n \<le> k" by (cases n') auto
  obtain x where x: "tci_hot_loop e (Suc n) p (fast m) = Some x"
    using Suc.prems(1) by (auto simp: fast_def [symmetric] split: option.splits)
  with k have x': "tci_hot_loop e (Suc k) p (fast m) = Some x"
    unfolding tci_hot_loop_def using hot_loop_mono [of e "Suc n"] by (metis Suc_le_mono)
  have full: "tcg_qemu_tb_exec_tci_full e (Suc n) c True m' = Some y
      \<Longrightarrow> tcg_qemu_tb_exec_tci_full e (Suc k) c True m' = Some y" for c m' y
    unfolding tcg_qemu_tb_exec_tci_full_def using full_loop_mono [of e True "Suc n"] k(2)
    by (metis Suc_le_mono)
  show ?case
    using Suc.prems(1) x x' Suc.IH [OF _ k(2)]
    by (auto simp: k(1) fast_def [symmetric] Let_def full split: outcome.splits if_splits option.splits)
qed simp

text \<open>The outcomes that end a run.\<close>

fun final :: "'w outcome \<Rightarrow> bool" where
  "final (Leave v m) = True"
| "final (Unwound m) = True"
| "final Stuck = True"
| "final _ = False"

lemma full_loop_final_step:
  "final (full_step e p m) \<Longrightarrow> full_loop e single (Suc n) p m = Some (full_step e p m)"
  by (cases "full_step e p m") simp_all

lemma hot_loop_final_step:
  "final s \<Longrightarrow> hot_step e p m = fast_out s \<Longrightarrow> hot_loop e (Suc n) p m = Some (fast_out s)"
  by (cases s) simp_all

context guarded_hooks
begin

lemma full_step_cases:
  obtains (move) p' m' where "full_step e p m = Next p' m' \<or> full_step e p m = Chain p' m'"
  | (stop) "final (full_step e p m)"
  using full_step_keeps [of m p] by (cases "full_step e p m") auto

lemma step_calm:
  "full_step e p m = Next p' m' \<or> full_step e p m = Chain p' m' \<Longrightarrow> calm m \<Longrightarrow> calm m'"
  using full_step_keeps [of m p] by (auto simp: calm_def)

lemma full_loop_keeps: "full_loop e False n p m = Some r \<Longrightarrow> out_keeps m r \<and> final r"
proof (induction n arbitrary: p m)
  case (Suc n)
  have trans: "handoff m' = handoff m \<Longrightarrow> out_keeps m' r \<Longrightarrow> out_keeps m r" for m' by (cases r) simp_all
  show ?case
  proof (cases p m rule: full_step_cases)
    case (move p' m')
    then have "full_loop e False n p' m' = Some r" using Suc.prems by auto
    with Suc.IH [OF this] move full_step_keeps [of m p] trans [of m'] show ?thesis by auto
  next
    case stop
    then show ?thesis
      using Suc.prems full_step_keeps [of m p] full_loop_final_step [of e p m False n] by simp
  qed
qed simp

subsection \<open>The phases of a fast run follow the slow run\<close>

text \<open>One turn of the hot loop against one step of the full interpreter.\<close>

lemma hot_turn:
  obtains (cold) "hot_step e p (fast m) = Cold (fast m)"
  | (deferral) "deferred (hot_step e p (fast m))"
      "\<And>n. hot_loop e (Suc n) p (fast m) = Some (hot_step e p (fast m))"
  | (move) p' m' where "full_step e p m = Next p' m' \<or> full_step e p m = Chain p' m'"
      "\<And>n. hot_loop e (Suc n) p (fast m) = hot_loop e n p' (fast m')"
  | (stop) "final (full_step e p m)"
      "\<And>n. hot_loop e (Suc n) p (fast m) = Some (fast_out (full_step e p m))"
proof -
  from hot_step_sim [of p m] consider "hot_step e p (fast m) = Cold (fast m)"
    | (d) "deferred (hot_step e p (fast m))"
    | (s) "hot_step e p (fast m) = fast_out (full_step e p m)" by (auto simp: sim_def)
  then show thesis
  proof cases
    case d
    then have "hot_loop e (Suc n) p (fast m) = Some (hot_step e p (fast m))" for n
      by (cases "hot_step e p (fast m)") auto
    with d show thesis by (rule deferral)
  next
    case s
    show thesis
    proof (cases p m rule: full_step_cases)
      case (move p' m')
      then have "hot_loop e (Suc n) p (fast m) = hot_loop e n p' (fast m')" for n using s by auto
      with move show thesis by (rule that(3))
    next
      case stop
      with s show thesis by (intro that(4) hot_loop_final_step) simp_all
    qed
  qed (rule cold)
qed

lemma hot_phase:
  assumes "full_loop e False n p m = Some r" "quiet e p m" "calm m"
  shows "\<exists>n'. (\<exists>r'. hot_loop e n' p (fast m) = Some r' \<and> (deferred r' \<or> r' = fast_out r))
    \<or> (\<exists>k p' m'. k \<le> n \<and> hot_loop e n' p (fast m) = Some (Leave 0 (fast (m'\<lparr>bb_cold_ptr := p'\<rparr>)))
         \<and> full_loop e False k p' m' = Some r \<and> quiet e p' m' \<and> calm m')"
  using assms
proof (induction n arbitrary: p m)
  case (Suc n)
  show ?case
  proof (cases p m rule: hot_turn)
    case cold
    then have "hot_loop e 1 p (fast m) = Some (Leave 0 (fast (m\<lparr>bb_cold_ptr := p\<rparr>)))" by simp
    with Suc.prems show ?thesis by blast
  next
    case deferral
    then show ?thesis by blast
  next
    case (move p' m')
    then have "full_loop e False n p' m' = Some r" using Suc.prems(1) by auto
    from Suc.IH [OF this quiet_step [OF Suc.prems(2) move(1)] step_calm [OF move(1) Suc.prems(3)]]
    show ?thesis using move(2) by (metis le_SucI)
  next
    case stop
    then have "r = full_step e p m" using Suc.prems(1) full_loop_final_step [of e p m] by simp
    with stop(2) show ?thesis by blast
  qed
qed simp

lemma cold_phase:
  assumes "full_loop e False n p m = Some r" "quiet e p m" "calm m"
  shows "full_loop e True n p m = Some r
    \<or> (\<exists>k p' m'. k < n \<and> full_loop e True n p m = Some (Leave 0 (m'\<lparr>bb_resume_ptr := p'\<rparr>))
         \<and> full_loop e False k p' m' = Some r \<and> quiet e p' m' \<and> calm m')"
  using assms
proof (induction n arbitrary: p m)
  case (Suc n)
  show ?case
  proof (cases p m rule: full_step_cases)
    case (move p' m')
    have r: "full_loop e False n p' m' = Some r" using Suc.prems(1) move by auto
    note q = quiet_step [OF Suc.prems(2) move] step_calm [OF move Suc.prems(3)]
    from move show ?thesis
    proof
      assume "full_step e p m = Next p' m'"
      then have "full_loop e True (Suc n) p m = full_loop e True n p' m'" by simp
      then show ?thesis using Suc.IH [OF r q] by (metis less_SucI)
    next
      assume "full_step e p m = Chain p' m'"
      then have "full_loop e True (Suc n) p m = Some (Leave 0 (m'\<lparr>bb_resume_ptr := p'\<rparr>))" by simp
      then show ?thesis using r q by blast
    qed
  next
    case stop
    then show ?thesis using Suc.prems(1) full_loop_final_step [of e p m] by simp
  qed
qed simp

text \<open>The converse: what a run of either loop says about the slow run.\<close>

lemma slow_step_back:
  "full_step e p m = Next p' m' \<or> full_step e p m = Chain p' m' \<Longrightarrow> full_loop e False k p' m' = Some r
    \<Longrightarrow> full_loop e False (Suc k) p m = Some r"
  by auto

lemma hot_phase_conv:
  assumes "hot_loop e n p (fast m) = Some x" "quiet e p m" "calm m"
  shows "deferred x \<or> (\<exists>k r. full_loop e False k p m = Some r \<and> x = fast_out r)
    \<or> (\<exists>p' m'. x = Leave 0 (fast (m'\<lparr>bb_cold_ptr := p'\<rparr>)) \<and> quiet e p' m' \<and> calm m'
         \<and> (\<forall>k r. full_loop e False k p' m' = Some r \<longrightarrow> (\<exists>k'. full_loop e False k' p m = Some r)))"
  using assms
proof (induction n arbitrary: p m)
  case (Suc n)
  show ?case
  proof (cases p m rule: hot_turn)
    case cold
    then have "x = Leave 0 (fast (m\<lparr>bb_cold_ptr := p\<rparr>))" using Suc.prems(1) by simp
    with Suc.prems(2,3) show ?thesis by blast
  next
    case deferral
    then show ?thesis using Suc.prems(1) by simp
  next
    case (move p' m')
    then have "hot_loop e n p' (fast m') = Some x" using Suc.prems(1) by simp
    from Suc.IH [OF this quiet_step [OF Suc.prems(2) move(1)] step_calm [OF move(1) Suc.prems(3)]]
    show ?thesis using slow_step_back [OF move(1)] by metis
  next
    case stop
    then have "x = fast_out (full_step e p m)" using Suc.prems(1) by simp
    with full_loop_final_step [OF stop(1), of False 0] show ?thesis by blast
  qed
qed simp

lemma cold_phase_conv:
  assumes "full_loop e True n p m = Some x" "quiet e p m" "calm m"
  shows "(\<exists>k. full_loop e False k p m = Some x)
    \<or> (\<exists>p' m'. x = Leave 0 (m'\<lparr>bb_resume_ptr := p'\<rparr>) \<and> quiet e p' m' \<and> calm m'
         \<and> (\<forall>k r. full_loop e False k p' m' = Some r \<longrightarrow> (\<exists>k'. full_loop e False k' p m = Some r)))"
  using assms
proof (induction n arbitrary: p m)
  case (Suc n)
  show ?case
  proof (cases p m rule: full_step_cases)
    case (move p' m')
    note q = quiet_step [OF Suc.prems(2) move] step_calm [OF move Suc.prems(3)]
    from move show ?thesis
    proof
      assume "full_step e p m = Next p' m'"
      then have "full_loop e True n p' m' = Some x" using Suc.prems(1) by simp
      from Suc.IH [OF this q] show ?thesis using slow_step_back [OF move] by metis
    next
      assume "full_step e p m = Chain p' m'"
      then have "x = Leave 0 (m'\<lparr>bb_resume_ptr := p'\<rparr>)" using Suc.prems(1) by simp
      with q slow_step_back [OF move] show ?thesis by blast
    qed
  next
    case stop
    then show ?thesis using Suc.prems(1) full_loop_final_step [of e p m] by metis
  qed
qed simp

subsection \<open>The whole run\<close>

lemma hot_entry:
  "tci_hot_loop e n p (fast m) = hot_loop e n (tci_start p m) (fast (tci_enter e m))"
  by (simp add: tci_hot_loop_def tci_start_fast tci_enter_fast)

text \<open>One turn of the loop of \<open>tci_exec\<close>, by what the hot loop returned.\<close>

lemma exec_turn_deferred:
  "tci_hot_loop e (Suc n) p (fast m) = Some r \<Longrightarrow> deferred r \<Longrightarrow> tci_exec_loop e (Suc n) p m = Some r"
  by (cases r) (simp_all add: fast_def)

lemma exec_turn_final:
  assumes "tci_hot_loop e (Suc n) p (fast m) = Some (fast_out r)" "out_keeps m' r" "calm m'" "final r"
  shows "\<exists>r'. tci_exec_loop e (Suc n) p m = Some r' \<and> cpu_exec_setjmp r' = cpu_exec_setjmp r"
  using assms
  by (cases r) (auto simp: fast_def calm_def handoff_def Let_def)

lemma exec_turn_cold:
  assumes "tci_hot_loop e (Suc n) p (fast m) = Some (Leave 0 (fast (m'\<lparr>bb_cold_ptr := p'\<rparr>)))"
    and "quiet e p' m'" "calm m'"
  shows "tci_exec_loop e (Suc n) p m =
    (case full_loop e True (Suc n) p' m' of
       Some (Leave r m3) \<Rightarrow>
         if bb_resume_ptr m3 = 0 then Some (Leave r m3)
         else tci_exec_loop e n (bb_resume_ptr m3) (m3\<lparr>bb_resume_ptr := 0\<rparr>)
     | x \<Rightarrow> x)"
proof -
  have p': "p' \<noteq> 0" "tci_enter e m' = m'"
    using quiet_reserved [OF assms(2)] tci_enter_reserved by (auto simp: reserved_ok_def)
  have "m'\<lparr>bb_cold_ptr := 0\<rparr> = m'" "m'\<lparr>bb_fast_tci_depth := False\<rparr> = m'"
    using assms(3) by (simp_all add: calm_iff)
  then have m': "(fast (m'\<lparr>bb_cold_ptr := p'\<rparr>))\<lparr>bb_fast_tci_depth := False, bb_cold_ptr := 0\<rparr> = m'"
    by (simp add: fast_def)
  show ?thesis
    using assms(1) p' m'
    by (simp add: fast_def Let_def tcg_qemu_tb_exec_tci_full_def tci_start_def)
qed

lemma calm_resume: "calm m \<Longrightarrow> m\<lparr>bb_resume_ptr := p, bb_resume_ptr := 0\<rparr> = m"
  by (simp add: calm_iff)

text \<open>A slow run that returns: the fast run returns too.\<close>

lemma exec_loop_complete:
  assumes "full_loop e False n (tci_start p m) (tci_enter e m) = Some r"
    and "quiet e (tci_start p m) (tci_enter e m)" "calm m"
  shows "\<exists>n' r'. tci_exec_loop e n' p m = Some r' \<and> (deferred r' \<or> cpu_exec_setjmp r' = cpu_exec_setjmp r)"
  using assms
proof (induction n arbitrary: p m rule: less_induct)
  case (less n)
  let ?tb = "tci_start p m" and ?m = "tci_enter e m"
  have keeps: "out_keeps ?m r" "final r" using full_loop_keeps [OF less.prems(1)] by auto
  have calm_m: "calm ?m" using less.prems(3) by (simp add: calm_tci_enter)
  from hot_phase [OF less.prems(1,2) calm_m] obtain n1 where n1:
    "(\<exists>r'. hot_loop e n1 ?tb (fast ?m) = Some r' \<and> (deferred r' \<or> r' = fast_out r))
     \<or> (\<exists>k p' m'. k \<le> n \<and> hot_loop e n1 ?tb (fast ?m) = Some (Leave 0 (fast (m'\<lparr>bb_cold_ptr := p'\<rparr>)))
         \<and> full_loop e False k p' m' = Some r \<and> quiet e p' m' \<and> calm m')" by blast
  have hot: "tci_hot_loop e (Suc N) p (fast m) = Some x"
    if "hot_loop e n1 ?tb (fast ?m) = Some x" "n1 \<le> N" for N x
    unfolding hot_entry using that(2) by (intro hot_loop_mono [OF that(1)]) simp
  from n1 show ?case
  proof (elim disjE exE conjE)
    fix r' assume "hot_loop e n1 ?tb (fast ?m) = Some r'" "deferred r'"
    with exec_turn_deferred [OF hot [OF _ le_refl]] show ?thesis by blast
  next
    fix r' assume "hot_loop e n1 ?tb (fast ?m) = Some r'" "r' = fast_out r"
    with exec_turn_final [OF hot [OF _ le_refl] keeps(1) calm_m keeps(2)] show ?thesis by blast
  next
    fix k p' m'
    assume k: "k \<le> n" and x: "hot_loop e n1 ?tb (fast ?m) = Some (Leave 0 (fast (m'\<lparr>bb_cold_ptr := p'\<rparr>)))"
      and r: "full_loop e False k p' m' = Some r" and q: "quiet e p' m'" and c: "calm m'"
    note turn = exec_turn_cold [OF hot [OF x] q c]
    from cold_phase [OF r q c] show ?thesis
    proof (elim disjE exE conjE)
      assume "full_loop e True k p' m' = Some r"
      then have "full_loop e True (Suc (max n1 k)) p' m' = Some r" by (rule full_loop_mono) simp
      then have "tci_exec_loop e (Suc (max n1 k)) p m = Some r"
        using turn [of "max n1 k"] full_loop_keeps [OF r] c
        by (cases r) (auto simp: calm_def handoff_def)
      then show ?thesis by blast
    next
      fix j p2 m2
      assume j: "j < k" and y: "full_loop e True k p' m' = Some (Leave 0 (m2\<lparr>bb_resume_ptr := p2\<rparr>))"
        and r2: "full_loop e False j p2 m2 = Some r" and q2: "quiet e p2 m2" and c2: "calm m2"
      have p2: "p2 \<noteq> 0" "tci_enter e m2 = m2" "tci_start p2 m2 = p2"
        using quiet_reserved [OF q2] tci_enter_reserved by (auto simp: reserved_ok_def tci_start_def)
      from less.IH [of j p2 m2] j k r2 q2 c2 p2 obtain n2 r' where n2:
        "tci_exec_loop e n2 p2 m2 = Some r'" "deferred r' \<or> cpu_exec_setjmp r' = cpu_exec_setjmp r"
        by auto
      let ?N = "max (max n1 k) n2"
      have "full_loop e True (Suc ?N) p' m' = Some (Leave 0 (m2\<lparr>bb_resume_ptr := p2\<rparr>))"
        using y by (rule full_loop_mono) simp
      then have "tci_exec_loop e (Suc ?N) p m = tci_exec_loop e ?N p2 m2"
        using turn [of ?N] p2(1) calm_resume [OF c2] by simp
      also have "tci_exec_loop e ?N p2 m2 = Some r'" using n2(1) by (rule tci_exec_loop_mono) simp
      finally show ?thesis using n2(2) by blast
    qed
  qed
qed

text \<open>A fast run that returns: it was deferred, or the slow run returns with the same result.\<close>

lemma exec_loop_sound:
  assumes "tci_exec_loop e n p m = Some r'"
    and "quiet e (tci_start p m) (tci_enter e m)" "calm m"
  shows "deferred r' \<or> (\<exists>k r. full_loop e False k (tci_start p m) (tci_enter e m) = Some r
    \<and> cpu_exec_setjmp r' = cpu_exec_setjmp r)"
  using assms
proof (induction n arbitrary: p m)
  case (Suc n)
  let ?tb = "tci_start p m" and ?m = "tci_enter e m"
  have calm_m: "calm ?m" using Suc.prems(3) by (simp add: calm_tci_enter)
  obtain x where x: "tci_hot_loop e (Suc n) p (fast m) = Some x"
    using Suc.prems(1) by (auto simp: fast_def [symmetric] split: option.splits)
  from hot_phase_conv [OF x [unfolded hot_entry] Suc.prems(2) calm_m] show ?case
  proof (elim disjE exE conjE)
    assume "deferred x"
    with exec_turn_deferred [OF x] Suc.prems(1) show ?thesis by simp
  next
    fix k r assume r: "full_loop e False k ?tb ?m = Some r" "x = fast_out r"
    from x r(2) have "tci_hot_loop e (Suc n) p (fast m) = Some (fast_out r)" by simp
    with exec_turn_final [OF this _ calm_m] full_loop_keeps [OF r(1)] Suc.prems(1) r(1)
    show ?thesis by auto
  next
    fix p' m'
    assume cx: "x = Leave 0 (fast (m'\<lparr>bb_cold_ptr := p'\<rparr>))" and q: "quiet e p' m'" and c: "calm m'"
      and bk: "\<forall>k r. full_loop e False k p' m' = Some r \<longrightarrow> (\<exists>k'. full_loop e False k' ?tb ?m = Some r)"
    note turn = exec_turn_cold [OF x [unfolded cx] q c]
    obtain y where y: "full_loop e True (Suc n) p' m' = Some y"
      using Suc.prems(1) turn by (auto split: option.splits)
    from cold_phase_conv [OF y q c] show ?thesis
    proof (elim disjE exE conjE)
      fix k assume k: "full_loop e False k p' m' = Some y"
      then have "r' = y"
        using Suc.prems(1) turn y full_loop_keeps [OF k] c by (cases y) (auto simp: calm_def handoff_def)
      with bk k show ?thesis by blast
    next
      fix p2 m2
      assume y2: "y = Leave 0 (m2\<lparr>bb_resume_ptr := p2\<rparr>)" and q2: "quiet e p2 m2" and c2: "calm m2"
        and bk2: "\<forall>k r. full_loop e False k p2 m2 = Some r \<longrightarrow> (\<exists>k'. full_loop e False k' p' m' = Some r)"
      have p2: "p2 \<noteq> 0" "tci_enter e m2 = m2" "tci_start p2 m2 = p2"
        using quiet_reserved [OF q2] tci_enter_reserved by (auto simp: reserved_ok_def tci_start_def)
      have "tci_exec_loop e n p2 m2 = Some r'"
        using Suc.prems(1) turn y y2 p2(1) calm_resume [OF c2] by simp
      from Suc.IH [OF this] q2 c2 p2 have "deferred r' \<or> (\<exists>k r. full_loop e False k p2 m2 = Some r
          \<and> cpu_exec_setjmp r' = cpu_exec_setjmp r)" by simp
      with bk bk2 show ?thesis by metis
    qed
  qed
qed simp

end

text \<open>
  C1.  The fast interpreter is equivalent to the full one.  For byte code that keeps the reserved registers and helpers that
  satisfy their contract: if the full interpreter, started on the current block, returns (by leaving
  the block, by a helper's \<open>longjmp\<close>, or by stopping at an assertion), then \<open>tci_exec\<close> with the fast
  interpreter on returns as well, and its result is the same unless a guard deferred an access to the
  full interpreter; and whenever \<open>tci_exec\<close> returns without such a deferral, the full interpreter
  returns with the same result.
\<close>

theorem fast_tci_equiv:
  assumes "guarded_hooks e" "wasm_fast_tci (tune e)" "\<not> bb_force_slow_tci m" "calm m"
    and "quiet e (tci_start 0 m) (tci_enter e m)"
  shows "(\<forall>n r. tcg_qemu_tb_exec_tci_full e n 0 False m = Some r \<longrightarrow>
      (\<exists>n' r'. tci_exec e n' m = Some r' \<and> (deferred r' \<or> cpu_exec_setjmp r' = cpu_exec_setjmp r)))
    \<and> (\<forall>n r'. tci_exec e n m = Some r' \<and> \<not> deferred r' \<longrightarrow>
      (\<exists>n' r. tcg_qemu_tb_exec_tci_full e n' 0 False m = Some r
         \<and> cpu_exec_setjmp r' = cpu_exec_setjmp r))"
proof (intro conjI allI impI)
  fix n r assume "tcg_qemu_tb_exec_tci_full e n 0 False m = Some r"
  from guarded_hooks.exec_loop_complete [OF assms(1) this [unfolded tcg_qemu_tb_exec_tci_full_def] assms(5,4)]
  show "\<exists>n' r'. tci_exec e n' m = Some r' \<and> (deferred r' \<or> cpu_exec_setjmp r' = cpu_exec_setjmp r)"
    using assms(2,3) by (simp add: tci_exec_def)
next
  fix n r' assume "tci_exec e n m = Some r' \<and> \<not> deferred r'"
  then have "tci_exec_loop e n 0 m = Some r'" "\<not> deferred r'"
    using assms(2,3) by (simp_all add: tci_exec_def)
  with guarded_hooks.exec_loop_sound [OF assms(1) this(1) assms(5,4)]
  show "\<exists>n' r. tcg_qemu_tb_exec_tci_full e n' 0 False m = Some r \<and> cpu_exec_setjmp r' = cpu_exec_setjmp r"
    by (simp add: tcg_qemu_tb_exec_tci_full_def)
qed

end
