(* ===== verification/IO_Guard.thy ===== *)
theory IO_Guard
  imports TCI_Equiv
begin

text \<open>
  Device accesses from the fast interpreter: the guards \<open>bb_guard_mmio\<close> (with \<open>bb_mr_may_yield\<close>, in
  \<open>accel/tcg/cputlb.c\<close>) and \<open>bb_guard_pio\<close> (in \<open>target/i386/tcg/sysemu/misc_helper.c\<close>), the memory-mapped
  accesses and port helpers that call them, and the interpretation of the contract
  \<open>guarded_hooks\<close> on them.

  The device models, the guest-state restore of \<open>cpu_loop_exit_restore\<close> and every other helper are
  parameters, collected in \<open>devices\<close>.  They never see the interpreters' hand-off variables: those are
  hidden from them and put back afterwards (\<open>blind\<close>).
\<close>

section \<open>Guards\<close>

definition strstr_found :: "string \<Rightarrow> string \<Rightarrow> bool" where
  "strstr_found hay needle \<longleftrightarrow>
     list_ex (\<lambda>i. take (length needle) (drop i hay) = needle) [0..<Suc (length hay)]"

definition strncmp_eq :: "string \<Rightarrow> string \<Rightarrow> nat \<Rightarrow> bool" where
  "strncmp_eq a b n \<longleftrightarrow> take n a = take n b"

text \<open>The region's name, \<^const>\<open>None\<close> for a null pointer.\<close>

definition bb_mr_may_yield :: "string option \<Rightarrow> bool" where
  "bb_mr_may_yield name =
     (case name of
        None \<Rightarrow> True
      | Some n \<Rightarrow>
          n = ''virtio-pci'' \<or> strncmp_eq n ''virtio-pci-common'' 17
          \<or> strncmp_eq n ''virtio-pci-device'' 17 \<or> strncmp_eq n ''virtio-mmio'' 11
          \<or> strncmp_eq n ''ahci'' 4 \<or> strncmp_eq n ''ide'' 3 \<or> strncmp_eq n ''bmdma'' 5
          \<or> strncmp_eq n ''fdc'' 3 \<or> strstr_found n ''pflash'' \<or> strncmp_eq n ''nvme'' 4)"

text \<open>
  A guard returns \<^const>\<open>None\<close> to let the access go on and the machine after
  \<open>cpu_loop_exit_restore\<close> when it defers.
\<close>

definition bb_guard_mmio ::
    "(u32 \<Rightarrow> 'w machine \<Rightarrow> 'w machine) \<Rightarrow> string option \<Rightarrow> u32 \<Rightarrow> 'w machine \<Rightarrow> 'w machine option" where
  "bb_guard_mmio restore mr ra m =
     (if bb_fast_tci_depth m \<and> bb_mr_may_yield mr
      then Some (restore ra (m\<lparr>bb_force_slow_tci := True\<rparr>)) else None)"

text \<open>\<open>translate\<close> is \<open>address_space_translate\<close> on the port space: the region's name and the offset in it.\<close>

definition pio_may_yield ::
    "(u32 \<Rightarrow> bool \<Rightarrow> 'w machine \<Rightarrow> string option \<times> u64) \<Rightarrow> u32 \<Rightarrow> bool \<Rightarrow> 'w machine \<Rightarrow> bool" where
  "pio_may_yield translate port is_write m =
     (let ide_cmd = (port \<ge> 0x1f0 \<and> port \<le> 0x1f7) \<or> (port \<ge> 0x170 \<and> port \<le> 0x177)
            \<or> port = 0x3f6 \<or> port = 0x376;
          ide_data = (port = 0x1f0 \<or> port = 0x170);
          fdc = (port \<ge> 0x3f0 \<and> port \<le> 0x3f7 \<and> port \<noteq> 0x3f6);
          bar = (if port \<ge> 0xc000
                 then let (mr, xlat) = translate port is_write m
                      in case mr of
                           None \<Rightarrow> True
                         | Some n \<Rightarrow> \<not> strncmp_eq n ''virtio-pci'' 10 \<or> \<not> (xlat = 16 \<or> xlat = 17 \<or> xlat = 19)
                 else False)
      in bar \<or> ide_data \<or> (is_write \<and> (ide_cmd \<or> fdc)))"

definition bb_guard_pio ::
    "(u32 \<Rightarrow> 'w machine \<Rightarrow> 'w machine) \<Rightarrow> (u32 \<Rightarrow> bool \<Rightarrow> 'w machine \<Rightarrow> string option \<times> u64)
      \<Rightarrow> u32 \<Rightarrow> bool \<Rightarrow> u32 \<Rightarrow> 'w machine \<Rightarrow> 'w machine option" where
  "bb_guard_pio restore translate port is_write ra m =
     (if bb_fast_tci_depth m \<and> pio_may_yield translate port is_write m
      then Some (restore ra (m\<lparr>bb_force_slow_tci := True\<rparr>)) else None)"

section \<open>Accesses\<close>

text \<open>Which port helper a function pointer is, and the width of its access in bytes.\<close>

datatype pio = Pio_out nat | Pio_in nat

record 'w devices =
  exit_restore :: "u32 \<Rightarrow> 'w machine \<Rightarrow> 'w machine"
  io_translate :: "u32 \<Rightarrow> bool \<Rightarrow> 'w machine \<Rightarrow> string option \<times> u64"
  io_write :: "nat \<Rightarrow> u32 \<Rightarrow> u32 \<Rightarrow> 'w machine \<Rightarrow> 'w hres"
  io_read :: "nat \<Rightarrow> u32 \<Rightarrow> 'w machine \<Rightarrow> 'w hres"
  pio_helper :: "u32 \<Rightarrow> pio option"
  mmio_region :: "u64 \<Rightarrow> u32 \<Rightarrow> 'w machine \<Rightarrow> string option option"
  mmio_ld :: "u32 \<Rightarrow> u64 \<Rightarrow> u32 \<Rightarrow> 'w machine \<Rightarrow> 'w hres"
  mmio_st :: "u32 \<Rightarrow> u64 \<Rightarrow> u64 \<Rightarrow> u32 \<Rightarrow> 'w machine \<Rightarrow> 'w hres"

definition hide :: "'w machine \<Rightarrow> 'w machine" where
  "hide m = m\<lparr>bb_fast_tci_depth := False, bb_cold_ptr := 0, bb_resume_ptr := 0\<rparr>"

definition unhide :: "'w machine \<Rightarrow> 'w machine \<Rightarrow> 'w machine" where
  "unhide m m' = m'\<lparr>bb_fast_tci_depth := bb_fast_tci_depth m, bb_cold_ptr := bb_cold_ptr m,
     bb_resume_ptr := bb_resume_ptr m\<rparr>"

definition blind :: "('w machine \<Rightarrow> 'w hres) \<Rightarrow> 'w machine \<Rightarrow> 'w hres" where
  "blind h m = (case h (hide m) of
     HRet lo hi m' \<Rightarrow> HRet lo hi (unhide m m') | HUnwind m' \<Rightarrow> HUnwind (unhide m m'))"

definition blind_state :: "('w machine \<Rightarrow> 'w machine) \<Rightarrow> 'w machine \<Rightarrow> 'w machine" where
  "blind_state f m =
     (unhide m (f (hide m)))\<lparr>bb_force_slow_tci := bb_force_slow_tci m\<rparr>"

text \<open>\<open>helper_outb\<close>, \<open>helper_outw\<close>, \<open>helper_outl\<close> and the three inputs; \<open>GETPC\<close> is \<open>tci_tb_ptr\<close>.\<close>

definition helper_out :: "'w devices \<Rightarrow> nat \<Rightarrow> u32 \<Rightarrow> u32 \<Rightarrow> 'w machine \<Rightarrow> 'w hres" where
  "helper_out d sz port data m =
     (case bb_guard_pio (\<lambda>ra. blind_state (exit_restore d ra)) (\<lambda>p w m. io_translate d p w (hide m))
             port True (tci_tb_ptr m) m of
        Some m' \<Rightarrow> HUnwind m'
      | None \<Rightarrow> blind (io_write d sz port data) m)"

definition helper_in :: "'w devices \<Rightarrow> nat \<Rightarrow> u32 \<Rightarrow> 'w machine \<Rightarrow> 'w hres" where
  "helper_in d sz port m =
     (case bb_guard_pio (\<lambda>ra. blind_state (exit_restore d ra)) (\<lambda>p w m. io_translate d p w (hide m))
             port False (tci_tb_ptr m) m of
        Some m' \<Rightarrow> HUnwind m'
      | None \<Rightarrow> blind (io_read d sz port) m)"

text \<open>\<open>do_ld_mmio_beN\<close> and \<open>do_st_mmio_leN\<close>: guard, then the device under the big lock.\<close>

definition do_ld_mmio ::
    "'w devices \<Rightarrow> string option \<Rightarrow> u32 \<Rightarrow> u64 \<Rightarrow> u32 \<Rightarrow> u32 \<Rightarrow> 'w machine \<Rightarrow> 'w hres" where
  "do_ld_mmio d mr sz taddr oi ra m =
     (case bb_guard_mmio (\<lambda>ra. blind_state (exit_restore d ra)) mr ra m of
        Some m' \<Rightarrow> HUnwind m'
      | None \<Rightarrow> blind (mmio_ld d sz taddr oi) m)"

definition do_st_mmio ::
    "'w devices \<Rightarrow> string option \<Rightarrow> u32 \<Rightarrow> u64 \<Rightarrow> u64 \<Rightarrow> u32 \<Rightarrow> u32 \<Rightarrow> 'w machine \<Rightarrow> 'w hres" where
  "do_st_mmio d mr sz taddr v oi ra m =
     (case bb_guard_mmio (\<lambda>ra. blind_state (exit_restore d ra)) mr ra m of
        Some m' \<Rightarrow> HUnwind m'
      | None \<Rightarrow> blind (mmio_st d sz taddr v oi) m)"

text \<open>
  The environment of a vCPU thread with these devices: port helpers and memory-mapped accesses go
  through the guards, everything else is code that does not see the hand-off variables.
\<close>

definition device_env :: "'w devices \<Rightarrow> 'w tci_env \<Rightarrow> 'w tci_env" where
  "device_env d e = e\<lparr>
     helper_lookup_tb_ptr := (\<lambda>a. blind (helper_lookup_tb_ptr e a)),
     call_helper := (\<lambda>fn args m.
       case (pio_helper d fn, args) of
         (Some (Pio_out sz), [A32 env, A32 port, A32 data]) \<Rightarrow> helper_out d sz port data m
       | (Some (Pio_in sz), [A32 env, A32 port]) \<Rightarrow> helper_in d sz port m
       | _ \<Rightarrow> blind (call_helper e fn args) m),
     ffi_call := (\<lambda>cif fn st slots. blind (ffi_call e cif fn st slots)),
     helper_ld_mmu := (\<lambda>sz taddr oi ra m.
       case mmio_region d taddr oi (hide m) of
         Some mr \<Rightarrow> do_ld_mmio d mr sz taddr oi ra m
       | None \<Rightarrow> blind (helper_ld_mmu e sz taddr oi ra) m),
     helper_st_mmu := (\<lambda>sz taddr v oi ra m.
       case mmio_region d taddr oi (hide m) of
         Some mr \<Rightarrow> do_st_mmio d mr sz taddr v oi ra m
       | None \<Rightarrow> blind (helper_st_mmu e sz taddr v oi ra) m) \<rparr>"

lemma tune_device_env [simp]: "tune (device_env d e) = tune e"
  by (simp add: device_env_def)

section \<open>The contract holds\<close>

lemma hide_fast [simp]: "hide (fast m) = hide m"
  by (simp add: hide_def fast_def)

lemma unhide_fast [simp]: "unhide (fast m) m' = fast (unhide m m')"
  by (simp add: unhide_def fast_def)

lemma handoff_unhide [simp]: "handoff (unhide m m') = handoff m"
  by (simp add: unhide_def handoff_def)

lemma blind_guarded: "guarded (blind h (fast m)) (blind h m)"
  by (cases "h (hide m)") (simp_all add: guarded_def blind_def)

lemma blind_keeps: "keeps m (blind h m)"
  by (cases "h (hide m)") (simp_all add: blind_def)

text \<open>A guard never fires with the depth clear, and defers when it fires.\<close>

lemma guard_shallow:
  "\<not> bb_fast_tci_depth m \<Longrightarrow> bb_guard_mmio restore mr ra m = None"
  "\<not> bb_fast_tci_depth m \<Longrightarrow> bb_guard_pio restore translate port w ra m = None"
  by (simp_all add: bb_guard_mmio_def bb_guard_pio_def)

lemma guard_fires:
  "bb_guard_mmio (\<lambda>ra. blind_state (f ra)) mr ra m = Some m' \<Longrightarrow> bb_force_slow_tci m'"
  "bb_guard_pio (\<lambda>ra. blind_state (f ra)) translate port w ra m = Some m' \<Longrightarrow> bb_force_slow_tci m'"
  by (auto simp: bb_guard_mmio_def bb_guard_pio_def blind_state_def split: if_splits)

text \<open>An access behind a guard: with the depth set it is deferred or the same.\<close>

lemma guarded_access:
  assumes "\<And>m'. g (fast m) = Some m' \<Longrightarrow> bb_force_slow_tci m'"
    and "\<not> bb_fast_tci_depth m \<Longrightarrow> g m = None" "bb_fast_tci_depth m \<Longrightarrow> fast m = m"
  shows "guarded (case g (fast m) of Some m' \<Rightarrow> HUnwind m' | None \<Rightarrow> blind h (fast m))
    (case g m of Some m' \<Rightarrow> HUnwind m' | None \<Rightarrow> blind h m)"
proof (cases "g (fast m)")
  case None
  then have "g m = None" using assms(2,3) by (cases "bb_fast_tci_depth m") simp_all
  with None blind_guarded [of h m] show ?thesis by simp
next
  case (Some m')
  with assms(1) show ?thesis by (simp add: guarded_def)
qed

lemma fast_deep: "bb_fast_tci_depth m \<Longrightarrow> fast m = m"
  by (simp add: fast_def)

lemma guarded_accesses:
  "guarded (helper_out d sz port data (fast m)) (helper_out d sz port data m)"
  "guarded (helper_in d sz port (fast m)) (helper_in d sz port m)"
  "guarded (do_ld_mmio d mr s taddr oi ra (fast m)) (do_ld_mmio d mr s taddr oi ra m)"
  "guarded (do_st_mmio d mr s taddr v oi ra (fast m)) (do_st_mmio d mr s taddr v oi ra m)"
  unfolding helper_out_def helper_in_def do_ld_mmio_def do_st_mmio_def
  by (rule guarded_access, erule guard_fires, erule guard_shallow, erule fast_deep)+

lemma kept_accesses:
  "keeps m (helper_out d sz port data m)" "keeps m (helper_in d sz port m)"
  "keeps m (do_ld_mmio d mr s taddr oi ra m)" "keeps m (do_st_mmio d mr s taddr v oi ra m)"
  by (simp_all add: helper_out_def helper_in_def do_ld_mmio_def do_st_mmio_def blind_keeps
      split: option.split)

interpretation device: guarded_hooks "device_env d e" for d e
proof
  show "guarded (call_helper (device_env d e) fn args (fast m)) (call_helper (device_env d e) fn args m)"
    for fn args m
    by (simp add: device_env_def blind_guarded guarded_accesses
        split: option.split pio.split list.split harg.split)
  show "keeps m (call_helper (device_env d e) fn args m)" for m fn args
    by (simp add: device_env_def blind_keeps kept_accesses
        split: option.split pio.split list.split harg.split)
qed (simp_all add: device_env_def blind_guarded blind_keeps guarded_accesses kept_accesses
    split: option.split)


definition no_devices :: "unit devices" where
  "no_devices = \<lparr>exit_restore = (\<lambda>_ m. m), io_translate = (\<lambda>_ _ _. (None, 0)),
     io_write = (\<lambda>_ _ _ m. HRet 0 0 m), io_read = (\<lambda>_ _ m. HRet 0 0 m), pio_helper = (\<lambda>_. None),
     mmio_region = (\<lambda>_ _ _. None), mmio_ld = (\<lambda>_ _ _ m. HRet 0 0 m), mmio_st = (\<lambda>_ _ _ _ m. HRet 0 0 m)\<rparr>"

definition idle_machine :: "unit machine" where
  "idle_machine = \<lparr>regs = (\<lambda>_. 0), mem = (\<lambda>_. 0), ctx_tb_ptr = 0, tci_tb_ptr = 0, bb_cold_ptr = 0,
     bb_resume_ptr = 0, bb_fast_tci_depth = False, bb_force_slow_tci = False, world = ()\<rparr>"


section \<open>An example run\<close>

text \<open>
  A block with three instructions: R0 := 7, R1 := R0 * R0 (which the hot loop does not run) and a return
  to the dispatcher, on a thread with no devices.
\<close>

definition demo_mem :: memory where
  "demo_mem = (\<lambda>_. 0)(0x1000 := 0x20, 0x1020 := 0xC2, 0x1021 := 0x70, 0x1024 := 0x50, 0x1025 := 0x01,
     0x1028 := 0x82)"

definition demo_env :: "unit tci_env" where
  "demo_env = device_env no_devices \<lparr>env_ptr = 0x8000, ctx_stack = 0x9000, thread = thread_fresh,
     tune = tune_default\<lparr>wasm_fast_tci := True\<rparr>, helper_lookup_tb_ptr_addr = 1,
     helper_lookup_tb_ptr = (\<lambda>_ m. HRet 0 0 m), cif_arg_sizes = (\<lambda>_. []),
     call_helper = (\<lambda>_ _ m. HRet 0 0 m), ffi_call = (\<lambda>_ _ _ _ m. HRet 0 0 m),
     helper_ld_mmu = (\<lambda>_ _ _ _ m. HRet 0 0 m), helper_st_mmu = (\<lambda>_ _ _ _ _ m. HRet 0 0 m)\<rparr>"

definition demo_machine :: "unit machine" where
  "demo_machine = idle_machine\<lparr>mem := demo_mem, ctx_tb_ptr := 0x1000\<rparr>"

lemma demo_insns:
  "load32 demo_mem 0x1000 = 0x20" "load32 demo_mem 0x1020 = 28866" "load32 demo_mem 0x1024 = 336"
  "load32 demo_mem 0x1028 = 130"
  by (simp_all add: demo_mem_def load32_def load_nat_bytes)

lemma demo_opcodes:
  "insn_opc 28866 = Some Op_tci_movi" "insn_opc 336 = Some (Op_rrr R_mul I64)"
  "insn_opc 130 = Some Op_exit_tb"
proof -
  have "tcg_opcodes ! 194 = Some Op_tci_movi" "tcg_opcodes ! 80 = Some (Op_rrr R_mul I64)"
    "tcg_opcodes ! 130 = Some Op_exit_tb"
    by (simp_all add: tcg_opcodes_def)
  then show "insn_opc 28866 = Some Op_tci_movi" "insn_opc 336 = Some (Op_rrr R_mul I64)"
    "insn_opc 130 = Some Op_exit_tb"
    by (simp_all add: insn_opc_def extract32_def mask_eq_exp_minus_1 tcg_op_of_def length_tcg_opcodes)
qed

lemma demo_args:
  "tci_args_ri 28866 = (0, 7)" "tci_args_rrr 336 = (1, 0, 0)" "tci_args_l 130 p = 0"
  by (simp_all add: tci_args_ri_def tci_args_rrr_def tci_args_l_def insn_reg_def extract32_def sextract32_def
      mask_eq_exp_minus_1)

lemma demo_steps:
  assumes "mem m = demo_mem"
  shows "full_step e 0x1020 m = Next 0x1024 (set_reg 0 7 m)"
    and "full_step e 0x1024 m = Next 0x1028 (set_reg 1 (regs m 0 * regs m 0) m)"
    and "full_step e 0x1028 m = Leave 0 (m\<lparr>ctx_tb_ptr := 0\<rparr>)"
  by (simp_all add: full_step_def assms demo_insns demo_opcodes demo_args write_next_def)

lemma demo_handoff: "calm demo_machine" "\<not> bb_force_slow_tci demo_machine"
  by (simp_all add: calm_iff demo_machine_def idle_machine_def)

lemma demo_quiet: "quiet demo_env (tci_start 0 demo_machine) (tci_enter demo_env demo_machine)"
proof -
  let ?m = "tci_enter demo_env demo_machine"
  have mem: "mem ?m = demo_mem" by (simp add: tci_enter_def set_reg_def demo_machine_def)
  have start: "tci_start 0 demo_machine = 0x1020"
    by (simp add: tci_start_def demo_machine_def demo_insns)
  have res: "reserved_ok demo_env p (set_reg r v m)"
    if "reserved_ok demo_env p0 m" "p \<noteq> 0" "r < 14" for p p0 r v m
    using that by (simp add: reserved_ok_def set_reg_def TCG_AREG0_def TCG_REG_CALL_STACK_def)
  have r0: "reserved_ok demo_env 0x1020 ?m"
    by (simp add: reserved_ok_def tci_enter_def set_reg_def TCG_AREG0_def TCG_REG_CALL_STACK_def)
  let ?m1 = "set_reg 0 7 ?m" and ?m2 = "set_reg 1 49 (set_reg 0 7 ?m)"
  have r1: "reserved_ok demo_env 0x1024 ?m1" by (rule res [OF r0]) simp_all
  have r2: "reserved_ok demo_env 0x1028 ?m2" by (rule res [OF r1]) simp_all
  have m1: "mem ?m1 = demo_mem" "regs ?m1 0 = 7" and m2: "mem ?m2 = demo_mem"
    using mem by (simp_all add: set_reg_def)
  have "quiet demo_env 0x1028 ?m2" by (rule quietI [OF r2]) (use demo_steps(3) [OF m2] in auto)
  then have "quiet demo_env 0x1024 ?m1"
    by (intro quietI [OF r1]) (auto simp: demo_steps(2) [OF m1(1)] m1(2))
  then have "quiet demo_env 0x1020 ?m"
    by (intro quietI [OF r0]) (auto simp: demo_steps(1) [OF mem])
  then show ?thesis by (simp add: start)
qed

lemma demo_run:
  "\<exists>m. tcg_qemu_tb_exec_tci_full demo_env (Suc (Suc (Suc 0))) 0 False demo_machine = Some (Leave 0 m)
     \<and> regs m 1 = 49"
proof -
  have "mem (tci_enter demo_env demo_machine) = demo_mem" "tci_start 0 demo_machine = 0x1020"
    by (simp_all add: tci_enter_def set_reg_def tci_start_def demo_machine_def demo_insns)
  then show ?thesis
    by (simp add: tcg_qemu_tb_exec_tci_full_def demo_steps set_reg_def)
qed

theorem fast_tci_equiv_witness:
  "\<exists>n m r. regs m 1 = 49 \<and> tci_exec demo_env n demo_machine = Some r
     \<and> (deferred r \<or> cpu_exec_setjmp r = Leave 0 m)"
proof -
  have g: "guarded_hooks demo_env" unfolding demo_env_def by (rule device.guarded_hooks_axioms)
  have f: "wasm_fast_tci (tune demo_env)" by (simp add: demo_env_def)
  obtain m where m: "tcg_qemu_tb_exec_tci_full demo_env (Suc (Suc (Suc 0))) 0 False demo_machine
      = Some (Leave 0 m)" "regs m 1 = 49" using demo_run by blast
  from fast_tci_equiv [OF g f demo_handoff(2,1) demo_quiet, THEN conjunct1, rule_format, OF m(1)]
  obtain n r where "tci_exec demo_env n demo_machine = Some r"
    "deferred r \<or> cpu_exec_setjmp r = Leave 0 m" by auto
  with m(2) show ?thesis by blast
qed

end
