(* ===== verification/Instance_Cache.thy ===== *)
theory Instance_Cache
  imports Jit_Policy
begin

text \<open>
  The table of compiled blocks of a vCPU thread (\<open>tcg/wasm32.c\<close>: \<open>struct instance_info\<close>,
  \<open>can_add_instance\<close>, \<open>remove_module_js\<close>, \<open>remove_instance_running_local\<close>,
  \<open>add_instance_running_local\<close>, \<open>get_instance_running_local\<close>).

  \<^item> \<open>cache\<close> holds a thread's variables: the slot table, the clock hand, the free slots (a stack, its
    top first), the functions to remove and the counters; \<open>wasm_table\<close> is the thread's table of
    compiled functions. \<open>shared\<close> holds what all threads share.
  \<^item> A block's header holds the address of its slot; the slot holds the block, so a slot that was
    given to another block is told from its old one.
  \<^item> An operation is \<^const>\<open>None\<close> when it would write outside an array or follow a pointer that is not a
    slot's address: that this never happens is part of the invariants \<open>cache_ok\<close> and \<open>exports_ok\<close>.
  \<^item> The contract of a cache of compiled code is the locale \<open>code_cache\<close>; the table satisfies it.
\<close>

section \<open>The slot table\<close>

record instance_info =
  inst_tb :: u32
  inst_fidx :: int
  inst_used :: int

record 'f cache =
  instance_running :: "nat \<Rightarrow> instance_info"
  instance_running_addr :: u32
  instance_slots_hw :: nat
  instance_clock_hand :: nat
  instance_free_slots :: "nat list"
  to_remove_instance :: "int list"
  instance_alive_local :: int
  instance_running_local :: int
  instance_garbage_collected_local :: u32
  wasm_table :: "int \<Rightarrow> 'f option"

record shared =
  tunables :: bootbox_tune
  instance_alive_global :: int
  bb_share_posted :: u32

definition SLOTS :: nat where "SLOTS = nat INSTANCE_RUNNING_LEN"
definition TO_REMOVE_INSTANCE_SIZE :: nat where "TO_REMOVE_INSTANCE_SIZE = 50000"

definition cache_init :: "u32 \<Rightarrow> 'f cache" where
  "cache_init addr = \<lparr>instance_running = (\<lambda>_. \<lparr>inst_tb = 0, inst_fidx = 0, inst_used = 0\<rparr>),
     instance_running_addr = addr, instance_slots_hw = 0, instance_clock_hand = 0,
     instance_free_slots = [], to_remove_instance = [], instance_alive_local = 0,
     instance_running_local = 0, instance_garbage_collected_local = 0, wasm_table = (\<lambda>_. None)\<rparr>"

definition set_slot :: "nat \<Rightarrow> instance_info \<Rightarrow> 'f cache \<Rightarrow> 'f cache" where
  "set_slot i e c = c\<lparr>instance_running := (instance_running c)(i := e)\<rparr>"

text \<open>The address of a slot, and the slot an address is: a slot has 12 bytes.\<close>

definition slot_ptr :: "'f cache \<Rightarrow> nat \<Rightarrow> u32" where
  "slot_ptr c idx = instance_running_addr c + of_nat (12 * idx)"

definition slot_at :: "'f cache \<Rightarrow> u32 \<Rightarrow> nat option" where
  "slot_at c p =
     (let d = unat (p - instance_running_addr c)
      in if d mod 12 = 0 \<and> d div 12 < SLOTS then Some (d div 12) else None)"

definition can_add_instance :: "shared \<Rightarrow> bool" where
  "can_add_instance s \<longleftrightarrow> instance_alive_global s < wasm_max_instance_alive (tunables s)"

definition inc_instance_local :: "'f cache \<Rightarrow> 'f cache" where
  "inc_instance_local c = c\<lparr>instance_running_local := instance_running_local c + 1,
     instance_alive_local := instance_alive_local c + 1\<rparr>"

definition check_instance_garbage_collected :: "'f cache \<Rightarrow> 'f cache" where
  "check_instance_garbage_collected c = c\<lparr>instance_garbage_collected_local := 0\<rparr>"

text \<open>\<open>removeFunction\<close> empties the table entry.\<close>

definition remove_module_js :: "'f cache \<Rightarrow> 'f cache" where
  "remove_module_js c =
     c\<lparr>wasm_table := foldl (\<lambda>t fidx. t(fidx := None)) (wasm_table c) (to_remove_instance c),
       to_remove_instance := []\<rparr>"

section \<open>Eviction\<close>

text \<open>One turn of the sweep: whether a slot was freed, and the new state.\<close>

definition clock_visit :: "'f cache \<Rightarrow> (bool \<times> 'f cache) option" where
  "clock_visit c =
     (let idx = instance_clock_hand c;
          e = instance_running c idx;
          c1 = c\<lparr>instance_clock_hand := (if idx + 1 \<ge> instance_slots_hw c then 0 else idx + 1)\<rparr>
      in if \<not> idx < SLOTS then None
         else if inst_tb e = 0 then Some (False, c1)
         else if inst_used e \<noteq> 0 then Some (False, set_slot idx (e\<lparr>inst_used := 0\<rparr>) c1)
         else if \<not> (length (to_remove_instance c) < TO_REMOVE_INSTANCE_SIZE
                    \<and> length (instance_free_slots c) < SLOTS) then None
         else Some (True, (set_slot idx (e\<lparr>inst_tb := 0\<rparr>) c1)
                \<lparr>to_remove_instance := to_remove_instance c @ [inst_fidx e],
                 instance_free_slots := idx # instance_free_slots c\<rparr>))"

text \<open>The loop: what is wanted, what is freed so far, and the scans left.\<close>

fun clock_sweep :: "nat \<Rightarrow> nat \<Rightarrow> nat \<Rightarrow> 'f cache \<Rightarrow> (nat \<times> 'f cache) option" where
  "clock_sweep want freed 0 c = Some (freed, c)"
| "clock_sweep want freed (Suc scans) c =
     (if freed < want
      then case clock_visit c of
             None \<Rightarrow> None
           | Some (f, c') \<Rightarrow> clock_sweep want (if f then Suc freed else freed) scans c'
      else Some (freed, c))"

definition evict_want :: "'f cache \<Rightarrow> nat" where
  "evict_want c =
     (let want = instance_running_local c div 8
      in nat (if want < 1 then instance_running_local c else want))"

definition remove_instance_running_local ::
    "shared \<Rightarrow> 'f cache \<Rightarrow> (shared \<times> 'f cache) option" where
  "remove_instance_running_local s c =
     (case clock_sweep (evict_want c) 0 (2 * instance_slots_hw c) c of
        None \<Rightarrow> None
      | Some (freed, c1) \<Rightarrow>
          let c2 = (if to_remove_instance c1 \<noteq> [] then remove_module_js c1 else c1)
          in Some (s\<lparr>instance_alive_global := instance_alive_global s - int freed\<rparr>,
                   c2\<lparr>instance_running_local := instance_running_local c2 - int freed,
                      instance_alive_local := instance_alive_local c2 - int freed\<rparr>))"

section \<open>Adding and finding\<close>

definition take_slot :: "'f cache \<Rightarrow> nat \<times> 'f cache" where
  "take_slot c =
     (case instance_free_slots c of
        i # rest \<Rightarrow> (i, c\<lparr>instance_free_slots := rest\<rparr>)
      | [] \<Rightarrow> (instance_slots_hw c, c\<lparr>instance_slots_hw := instance_slots_hw c + 1\<rparr>))"

definition add_slot ::
    "thread_info \<Rightarrow> int \<Rightarrow> u32 \<Rightarrow> memory \<Rightarrow> shared \<Rightarrow> 'f cache \<Rightarrow> (memory \<times> shared \<times> 'f cache) option"
where
  "add_slot t fidx tb_ptr m s c =
     (let (idx, c1) = take_slot c
      in if \<not> idx < SLOTS then None
         else
           let c2 = set_slot idx \<lparr>inst_tb = tb_ptr, inst_fidx = fidx, inst_used = 1\<rparr> c1;
               tb_export_ptr = tb_ptr + of_int (export_vec_off t)
           in Some (store32 m tb_export_ptr (slot_ptr c2 idx),
                    s\<lparr>instance_alive_global := instance_alive_global s + 1\<rparr>,
                    inc_instance_local c2))"

definition add_instance_running_local ::
    "thread_info \<Rightarrow> int \<Rightarrow> u32 \<Rightarrow> memory \<Rightarrow> shared \<Rightarrow> 'f cache \<Rightarrow> (memory \<times> shared \<times> 'f cache) option"
where
  "add_instance_running_local t fidx tb_ptr m s c =
     (if instance_free_slots c = [] \<and> instance_slots_hw c \<ge> SLOTS
      then case remove_instance_running_local s c of
             None \<Rightarrow> None
           | Some (s1, c1) \<Rightarrow> add_slot t fidx tb_ptr m s1 c1
      else add_slot t fidx tb_ptr m s c)"

definition get_instance_running_local ::
    "thread_info \<Rightarrow> bootbox_tune \<Rightarrow> u32 \<Rightarrow> memory \<Rightarrow> 'f cache \<Rightarrow> (int \<times> memory \<times> 'f cache) option"
where
  "get_instance_running_local t tn tb_ptr m c =
     (let tb_export_ptr = tb_ptr + of_int (export_vec_off t);
          elm = load32 m tb_export_ptr
      in if elm = 0 then Some (0, m, c)
         else case slot_at c elm of
                None \<Rightarrow> None
              | Some idx \<Rightarrow>
                  let e = instance_running c idx
                  in if inst_tb e \<noteq> tb_ptr
                     then let m1 = store32 m tb_export_ptr 0;
                              tb_counter_ptr = tb_ptr + of_int (counter_vec_off t)
                          in Some (0, store32 m1 tb_counter_ptr (of_int (wasm_instantiate_num tn)), c)
                     else Some (inst_fidx e, m, set_slot idx (e\<lparr>inst_used := 1\<rparr>) c))"

section \<open>Invariant\<close>

definition live_slots :: "'f cache \<Rightarrow> nat set" where
  "live_slots c = {i. i < instance_slots_hw c \<and> inst_tb (instance_running c i) \<noteq> 0}"

definition cache_ok :: "'f cache \<Rightarrow> bool" where
  "cache_ok c \<longleftrightarrow>
     instance_slots_hw c \<le> SLOTS
     \<and> (instance_clock_hand c < instance_slots_hw c \<or> instance_clock_hand c = 0)
     \<and> distinct (instance_free_slots c)
     \<and> set (instance_free_slots c) = {..<instance_slots_hw c} - live_slots c
     \<and> to_remove_instance c = []
     \<and> instance_running_local c = int (card (live_slots c))
     \<and> instance_alive_local c = instance_running_local c
     \<and> inj_on (\<lambda>i. inst_fidx (instance_running c i)) (live_slots c)
     \<and> (\<forall>i\<in>live_slots c. 0 < inst_fidx (instance_running c i)
          \<and> wasm_table c (inst_fidx (instance_running c i)) \<noteq> None)
     \<and> instance_running_addr c \<noteq> 0 \<and> unat (instance_running_addr c) + 12 * SLOTS \<le> 2 ^ 32"

text \<open>The state in the middle of a sweep that started in \<open>c0\<close> and evicted the slots \<open>es\<close>.\<close>

definition evicted :: "'f cache \<Rightarrow> nat list \<Rightarrow> 'f cache \<Rightarrow> bool" where
  "evicted c0 es c \<longleftrightarrow>
     distinct es \<and> set es \<subseteq> live_slots c0
     \<and> to_remove_instance c = map (\<lambda>i. inst_fidx (instance_running c0 i)) es
     \<and> instance_free_slots c = rev es @ instance_free_slots c0
     \<and> (\<forall>i. inst_tb (instance_running c i)
             = (if i \<in> set es then 0 else inst_tb (instance_running c0 i))
          \<and> inst_fidx (instance_running c i) = inst_fidx (instance_running c0 i))
     \<and> instance_slots_hw c = instance_slots_hw c0 \<and> wasm_table c = wasm_table c0
     \<and> instance_clock_hand c < instance_slots_hw c
     \<and> instance_running_addr c = instance_running_addr c0
     \<and> instance_running_local c = instance_running_local c0
     \<and> instance_alive_local c = instance_alive_local c0"


lemma SLOTS_eq [simp]: "SLOTS = 65536"
  by (simp add: SLOTS_def INSTANCE_RUNNING_LEN_def)

lemma set_slot_simps [simp]:
  "instance_running (set_slot i e c) = (instance_running c)(i := e)"
  "instance_running_addr (set_slot i e c) = instance_running_addr c"
  "instance_slots_hw (set_slot i e c) = instance_slots_hw c"
  "instance_clock_hand (set_slot i e c) = instance_clock_hand c"
  "instance_free_slots (set_slot i e c) = instance_free_slots c"
  "to_remove_instance (set_slot i e c) = to_remove_instance c"
  "instance_running_local (set_slot i e c) = instance_running_local c"
  "instance_alive_local (set_slot i e c) = instance_alive_local c"
  "wasm_table (set_slot i e c) = wasm_table c"
  by (simp_all add: set_slot_def)

lemma finite_live_slots [simp]: "finite (live_slots c)"
  by (rule finite_subset [of _ "{..<instance_slots_hw c}"]) (auto simp: live_slots_def)

lemma card_live_slots: "card (live_slots c) \<le> instance_slots_hw c"
  using card_mono [of "{..<instance_slots_hw c}" "live_slots c"] by (auto simp: live_slots_def)

lemma evict_want_bound:
  assumes "cache_ok c"
  shows "evict_want c \<le> 8192" "evict_want c \<le> card (live_slots c)"
    "card (live_slots c) \<noteq> 0 \<Longrightarrow> evict_want c \<noteq> 0"
  using card_live_slots [of c] assms
  by (auto simp: evict_want_def cache_ok_def Let_def)

lemma free_count:
  assumes "cache_ok c"
  shows "length (instance_free_slots c) + card (live_slots c) = instance_slots_hw c"
proof -
  have sub: "live_slots c \<subseteq> {..<instance_slots_hw c}" by (auto simp: live_slots_def)
  have "length (instance_free_slots c) = card ({..<instance_slots_hw c} - live_slots c)"
    using assms distinct_card [of "instance_free_slots c"] by (simp add: cache_ok_def)
  also have "\<dots> = instance_slots_hw c - card (live_slots c)"
    using card_Diff_subset [OF finite_live_slots sub] by simp
  finally show ?thesis using card_live_slots [of c] by simp
qed

subsection \<open>The sweep\<close>

text \<open>
  What one turn does to the slot under the hand: an empty slot is passed over, a used one loses its
  mark, an unused one is evicted. No other slot changes.
\<close>

lemma clock_visit_evicted:
  assumes "evicted c0 es c" "length es < 8192" "cache_ok c0"
  obtains f c' where "clock_visit c = Some (f, c')"
    "evicted c0 (if f then es @ [instance_clock_hand c] else es) c'"
    "instance_clock_hand c' = (instance_clock_hand c + 1) mod instance_slots_hw c"
    "\<And>j. j \<noteq> instance_clock_hand c \<Longrightarrow> instance_running c' j = instance_running c j"
    "inst_used (instance_running c' (instance_clock_hand c)) = 0
       \<or> inst_tb (instance_running c' (instance_clock_hand c)) = 0"
    "f \<longleftrightarrow> inst_used (instance_running c (instance_clock_hand c)) = 0
       \<and> inst_tb (instance_running c (instance_clock_hand c)) \<noteq> 0"
    "f \<Longrightarrow> inst_tb (instance_running c' (instance_clock_hand c)) = 0"
    "inst_used (instance_running c' (instance_clock_hand c)) \<noteq> 0 \<Longrightarrow>
       inst_used (instance_running c (instance_clock_hand c)) \<noteq> 0"
proof -
  let ?h = "instance_clock_hand c" and ?hw = "instance_slots_hw c"
  let ?c1 = "c\<lparr>instance_clock_hand := (if ?h + 1 \<ge> ?hw then 0 else ?h + 1)\<rparr>"
  have h: "?h < ?hw" "?hw \<le> 65536" and hw: "instance_slots_hw c0 = ?hw"
    using assms(1,3) by (auto simp: evicted_def cache_ok_def)
  have m: "(?h + 1) mod ?hw = (if ?h + 1 \<ge> ?hw then 0 else ?h + 1)" using h(1) by (auto simp: mod_Suc)
  show thesis
  proof (cases "inst_tb (instance_running c ?h) = 0 \<or> inst_used (instance_running c ?h) \<noteq> 0")
    case True
    with h show ?thesis
      by (intro that [of False "if inst_tb (instance_running c ?h) = 0 then ?c1
            else set_slot ?h ((instance_running c ?h)\<lparr>inst_used := 0\<rparr>) ?c1"])
        (use assms(1) m in \<open>auto simp: clock_visit_def Let_def evicted_def\<close>)
  next
    case False
    then have live: "?h \<in> live_slots c0" "?h \<notin> set es"
      using assms(1) h by (auto simp: evicted_def live_slots_def split: if_splits)
    have "length (instance_free_slots c0) + card (live_slots c0) = ?hw"
      using free_count [OF assms(3)] hw by simp
    moreover have "length es < card (live_slots c0)"
      using card_mono [OF finite_live_slots, of "insert ?h (set es)" c0] live assms(1)
      by (simp add: evicted_def distinct_card)
    ultimately have "length (instance_free_slots c) < 65536"
      using assms(1) h(2) card_live_slots [of c0] hw by (auto simp: evicted_def)
    moreover have "length (to_remove_instance c) < TO_REMOVE_INSTANCE_SIZE"
      using assms(1,2) by (simp add: evicted_def TO_REMOVE_INSTANCE_SIZE_def)
    ultimately show ?thesis using False h
      by (intro that [of True "(set_slot ?h ((instance_running c ?h)\<lparr>inst_tb := 0\<rparr>) ?c1)
            \<lparr>to_remove_instance := to_remove_instance c @ [inst_fidx (instance_running c ?h)],
             instance_free_slots := ?h # instance_free_slots c\<rparr>"])
        (use assms(1) m live in \<open>auto simp: clock_visit_def Let_def evicted_def\<close>)
  qed
qed


text \<open>
  A run of \<open>k\<close> turns: marks are only cleared; when it ends for want of turns, every slot it passed is
  empty or unmarked, and empty if it was unmarked before.
\<close>

lemma clock_sweep_evicted:
  assumes "cache_ok c0" "evicted c0 es c" "length es \<le> want" "want \<le> 8192"
  shows "\<exists>es' c'. clock_sweep want (length es) k c = Some (length es', c') \<and> evicted c0 es' c'
    \<and> length es' \<le> want \<and> set es \<subseteq> set es'
    \<and> (\<forall>j. inst_used (instance_running c' j) \<noteq> 0 \<longrightarrow> inst_used (instance_running c j) \<noteq> 0)
    \<and> (length es' < want \<longrightarrow> instance_clock_hand c' = (instance_clock_hand c + k) mod instance_slots_hw c0
        \<and> (\<forall>i<k. let j = (instance_clock_hand c + i) mod instance_slots_hw c0
             in (inst_used (instance_running c' j) = 0 \<or> inst_tb (instance_running c' j) = 0)
                \<and> (inst_used (instance_running c j) = 0 \<longrightarrow> inst_tb (instance_running c' j) = 0)))"
  using assms(2,3)
proof (induction k arbitrary: es c)
  case 0
  have "instance_clock_hand c < instance_slots_hw c0" using 0(1) by (simp add: evicted_def)
  with 0 show ?case by (intro exI [of _ es] exI [of _ c]) simp
next
  case (Suc k)
  let ?h = "instance_clock_hand c" and ?hw = "instance_slots_hw c0"
  have hw: "instance_slots_hw c = ?hw" "?h < ?hw" using Suc.prems(1) by (auto simp: evicted_def)
  show ?case
  proof (cases "length es < want")
    case False
    with Suc.prems show ?thesis by (intro exI [of _ es] exI [of _ c]) simp
  next
    case True
    then have "length es < 8192" using assms(4) by simp
    from clock_visit_evicted [OF Suc.prems(1) this assms(1)] obtain f c1 where v: "clock_visit c = Some (f, c1)"
      and e1: "evicted c0 (if f then es @ [?h] else es) c1"
      and h1: "instance_clock_hand c1 = (?h + 1) mod ?hw"
      and same: "\<And>j. j \<noteq> ?h \<Longrightarrow> instance_running c1 j = instance_running c j"
      and here: "inst_used (instance_running c1 ?h) = 0 \<or> inst_tb (instance_running c1 ?h) = 0"
        "f \<longleftrightarrow> inst_used (instance_running c ?h) = 0 \<and> inst_tb (instance_running c ?h) \<noteq> 0"
        "f \<Longrightarrow> inst_tb (instance_running c1 ?h) = 0"
        "inst_used (instance_running c1 ?h) \<noteq> 0 \<Longrightarrow> inst_used (instance_running c ?h) \<noteq> 0"
      unfolding hw(1) by blast
    let ?es = "if f then es @ [?h] else es"
    have len: "length ?es = (if f then Suc (length es) else length es)" "length ?es \<le> want"
      using True by auto
    from Suc.IH [OF e1 len(2)] obtain es' c' where
      r: "clock_sweep want (length ?es) k c1 = Some (length es', c')" and e': "evicted c0 es' c'"
      and w: "length es' \<le> want" and sub: "set ?es \<subseteq> set es'"
      and marks: "\<And>j. inst_used (instance_running c' j) \<noteq> 0 \<Longrightarrow> inst_used (instance_running c1 j) \<noteq> 0"
      and out: "length es' < want \<Longrightarrow> instance_clock_hand c' = (instance_clock_hand c1 + k) mod ?hw"
        "\<And>i. length es' < want \<Longrightarrow> i < k \<Longrightarrow> (let j = (instance_clock_hand c1 + i) mod ?hw
             in (inst_used (instance_running c' j) = 0 \<or> inst_tb (instance_running c' j) = 0)
                \<and> (inst_used (instance_running c1 j) = 0 \<longrightarrow> inst_tb (instance_running c' j) = 0))"
      by blast
    have marks': "inst_used (instance_running c j) \<noteq> 0" if "inst_used (instance_running c' j) \<noteq> 0" for j
      using marks [OF that] here(4) same [of j] by (cases "j = ?h") auto
    have dead: "inst_tb (instance_running c' j) = 0" if "inst_tb (instance_running c1 j) = 0" for j
      using that e1 e' sub by (auto simp: evicted_def split: if_splits)
    have c1c: "inst_tb (instance_running c1 ?h) = 0" if "inst_used (instance_running c ?h) = 0"
      using that here(2,3) e1 Suc.prems(1) by (cases f) (auto simp: evicted_def split: if_splits)
    have passed: "(let j = (?h + i) mod ?hw
             in (inst_used (instance_running c' j) = 0 \<or> inst_tb (instance_running c' j) = 0)
                \<and> (inst_used (instance_running c j) = 0 \<longrightarrow> inst_tb (instance_running c' j) = 0))"
      if "length es' < want" "i < Suc k" for i
    proof (cases i)
      case 0
      then show ?thesis using hw(2) here(1) dead marks c1c by (auto simp: Let_def)
    next
      case (Suc i')
      have j: "(?h + i) mod ?hw = (instance_clock_hand c1 + i') mod ?hw"
        using Suc by (simp add: h1 mod_add_left_eq)
      then show ?thesis using out(2) [OF that(1), of i'] that(2) Suc c1c dead same [of "(?h + i) mod ?hw"]
        by (cases "(?h + i) mod ?hw = ?h") (auto simp: Let_def)
    qed
    have "clock_sweep want (length es) (Suc k) c = Some (length es', c')"
      using True v r len(1) by simp
    moreover have "instance_clock_hand c' = (?h + Suc k) mod ?hw" if "length es' < want"
      using out(1) [OF that] by (simp add: h1 mod_add_left_eq)
    ultimately show ?thesis using e' w sub marks' passed
      by (intro exI [of _ es'] exI [of _ c']) (auto split: if_splits)
  qed
qed


lemma clock_sweep_split:
  "clock_sweep want freed (a + b) c =
     (case clock_sweep want freed a c of
        None \<Rightarrow> None | Some (freed', c') \<Rightarrow> clock_sweep want freed' b c')"
proof (induction a arbitrary: freed c)
  case (Suc a)
  have "clock_sweep want freed b c = Some (freed, c)" if "\<not> freed < want" for freed and c :: "'a cache"
    using that by (cases b) auto
  then show ?case
    by (cases "freed < want"; cases "clock_visit c") (auto simp: Suc.IH)
qed simp

lemma mod_surj:
  assumes "(j::nat) < n"
  shows "\<exists>i<n. (h + i) mod n = j"
proof (intro exI conjI)
  show "(j + n - h mod n) mod n < n" using assms by simp
  have "h mod n < n" using assms by simp
  have "(h + (j + n - h mod n) mod n) mod n = (h mod n + (j + n - h mod n)) mod n"
    by (simp only: mod_add_left_eq mod_add_right_eq)
  also have "h mod n + (j + n - h mod n) = j + n" using \<open>h mod n < n\<close> by simp
  finally show "(h + (j + n - h mod n) mod n) mod n = j" using assms by simp
qed

text \<open>In the first round a slot is passed only once, so what it evicts was unmarked before the sweep.\<close>

lemma clock_sweep_first_round:
  assumes "cache_ok c0" "evicted c0 es c" "length es \<le> want" "want \<le> 8192" "k \<le> instance_slots_hw c0"
    "\<forall>i<k. let j = (instance_clock_hand c + i) mod instance_slots_hw c0
       in instance_running c j = instance_running c0 j"
    "\<forall>j\<in>set es. inst_used (instance_running c0 j) = 0"
  shows "\<exists>es' c'. clock_sweep want (length es) k c = Some (length es', c') \<and> evicted c0 es' c'
    \<and> (\<forall>j\<in>set es'. inst_used (instance_running c0 j) = 0)"
  using assms(2,3,5,6,7)
proof (induction k arbitrary: es c)
  case (Suc k)
  let ?h = "instance_clock_hand c" and ?hw = "instance_slots_hw c0"
  have hw: "instance_slots_hw c = ?hw" "?h < ?hw" using Suc.prems(1) by (auto simp: evicted_def)
  show ?case
  proof (cases "length es < want")
    case True
    then have "length es < 8192" using assms(4) by simp
    from clock_visit_evicted [OF Suc.prems(1) this assms(1)] obtain f c1 where v: "clock_visit c = Some (f, c1)"
      and e1: "evicted c0 (if f then es @ [?h] else es) c1"
      and h1: "instance_clock_hand c1 = (?h + 1) mod ?hw"
      and same: "\<And>j. j \<noteq> ?h \<Longrightarrow> instance_running c1 j = instance_running c j"
      and here: "f \<longleftrightarrow> inst_used (instance_running c ?h) = 0 \<and> inst_tb (instance_running c ?h) \<noteq> 0"
      unfolding hw(1) by blast
    let ?es = "if f then es @ [?h] else es"
    have at: "instance_running c ?h = instance_running c0 ?h"
      using Suc.prems(4) [rule_format, of 0] hw(2) by (simp add: Let_def)
    have "let j = (instance_clock_hand c1 + i) mod ?hw in instance_running c1 j = instance_running c0 j"
      if "i < k" for i
    proof -
      have j: "(instance_clock_hand c1 + i) mod ?hw = (?h + Suc i) mod ?hw"
        by (simp add: h1 mod_add_left_eq)
      have "(?h + Suc i) mod ?hw \<noteq> ?h mod ?hw"
        unfolding mod_eq_iff_dvd_symdiff_nat using that Suc.prems(3) by (auto dest: dvd_imp_le)
      then show ?thesis
        using Suc.prems(4) [rule_format, of "Suc i"] that same [of "(?h + Suc i) mod ?hw"] j hw(2)
        by (simp add: Let_def)
    qed
    moreover have "\<forall>j\<in>set ?es. inst_used (instance_running c0 j) = 0"
      using Suc.prems(5) here at by (auto split: if_splits)
    moreover have "length ?es \<le> want" "k \<le> ?hw" using True Suc.prems(3) by auto
    ultimately obtain es' c' where "clock_sweep want (length ?es) k c1 = Some (length es', c')"
      "evicted c0 es' c'" "\<forall>j\<in>set es'. inst_used (instance_running c0 j) = 0"
      using Suc.IH [OF e1] by blast
    moreover have "length ?es = (if f then Suc (length es) else length es)" by simp
    ultimately show ?thesis using True v by auto
  qed (use Suc.prems in auto)
qed auto

text \<open>Two rounds free what is wanted: after the first round no live slot is marked.\<close>

lemma clock_sweep_exact:
  assumes "cache_ok c0" "evicted c0 [] c0" "want \<le> 8192" "want \<le> card (live_slots c0)"
  obtains es c' where "clock_sweep want 0 (2 * instance_slots_hw c0) c0 = Some (want, c')"
    "evicted c0 es c'" "length es = want"
    "(\<forall>j\<in>set es. inst_used (instance_running c0 j) = 0)
      \<or> card {j \<in> live_slots c0. inst_used (instance_running c0 j) = 0} < want"
proof -
  let ?hw = "instance_slots_hw c0"
  from clock_sweep_evicted [OF assms(1,2) _ assms(3), of ?hw] obtain es1 c1 where
    r1: "clock_sweep want 0 ?hw c0 = Some (length es1, c1)" and e1: "evicted c0 es1 c1" "length es1 \<le> want"
    and out1: "length es1 < want \<Longrightarrow> i < ?hw \<Longrightarrow> (let j = (instance_clock_hand c0 + i) mod ?hw
             in (inst_used (instance_running c1 j) = 0 \<or> inst_tb (instance_running c1 j) = 0)
                \<and> (inst_used (instance_running c0 j) = 0 \<longrightarrow> inst_tb (instance_running c1 j) = 0))" for i
    by (auto simp: Let_def)
  have "\<exists>es' c'. clock_sweep want 0 ?hw c0 = Some (length es', c') \<and> evicted c0 es' c'
      \<and> (\<forall>j\<in>set es'. inst_used (instance_running c0 j) = 0)"
    using clock_sweep_first_round [OF assms(1,2) _ assms(3), of ?hw] by (simp add: Let_def)
  then obtain es3 where
    e3: "evicted c0 es3 c1" "\<forall>j\<in>set es3. inst_used (instance_running c0 j) = 0" unfolding r1 by blast
  have "es3 = es1" using e1(1) e3(1) by (simp add: evicted_def)
  note unused = e3(2) [unfolded this]
  from clock_sweep_evicted [OF assms(1) e1 assms(3), of ?hw] obtain es2 c2 where
    r2: "clock_sweep want (length es1) ?hw c1 = Some (length es2, c2)" and e2: "evicted c0 es2 c2"
      "length es2 \<le> want" "set es1 \<subseteq> set es2"
    and out2: "length es2 < want \<Longrightarrow> i < ?hw \<Longrightarrow> (let j = (instance_clock_hand c1 + i) mod ?hw
             in inst_used (instance_running c1 j) = 0 \<longrightarrow> inst_tb (instance_running c2 j) = 0)" for i
    by (auto simp: Let_def)
  have "length es2 = want"
  proof (rule ccontr)
    assume "length es2 \<noteq> want"
    then have less: "length es2 < want" "length es1 < want"
      using e1 e2 card_mono [of "set es2" "set es1"] by (auto simp: evicted_def distinct_card)
    have dead: "inst_tb (instance_running c2 j) = 0" if "j < ?hw" for j
    proof -
      from mod_surj [OF that, of "instance_clock_hand c0"] mod_surj [OF that, of "instance_clock_hand c1"]
      obtain i i' where "i < ?hw" "(instance_clock_hand c0 + i) mod ?hw = j"
        "i' < ?hw" "(instance_clock_hand c1 + i') mod ?hw = j" by blast
      then have "inst_used (instance_running c1 j) = 0 \<or> inst_tb (instance_running c1 j) = 0"
        "inst_used (instance_running c1 j) = 0 \<longrightarrow> inst_tb (instance_running c2 j) = 0"
        using out1 [OF less(2), of i] out2 [OF less(1), of i'] by auto
      then show ?thesis using e1(1) e2(1,3) by (auto simp: evicted_def split: if_splits)
    qed
    have "j \<in> set es2" if "j \<in> live_slots c0" for j
      using that dead [of j] e2(1) by (cases "j \<in> set es2") (auto simp: evicted_def live_slots_def)
    then have "live_slots c0 \<subseteq> set es2" by blast
    then have "card (live_slots c0) \<le> card (set es2)" by (simp add: card_mono)
    with assms(4) less card_length [of es2] show False by simp
  qed
  moreover have "(\<forall>j\<in>set es2. inst_used (instance_running c0 j) = 0)
      \<or> card {j \<in> live_slots c0. inst_used (instance_running c0 j) = 0} < want"
  proof (cases "length es1 = want")
    case True
    then have "c2 = c1" using r2 by (cases ?hw) auto
    then have "es2 = es1" using e1(1) e2(1) by (simp add: evicted_def)
    then show ?thesis using unused by simp
  next
    case False
    have "j \<in> set es1" if "j \<in> live_slots c0" "inst_used (instance_running c0 j) = 0" for j
    proof -
      from mod_surj [of j ?hw "instance_clock_hand c0"] that(1) obtain i where
        "i < ?hw" "(instance_clock_hand c0 + i) mod ?hw = j" by (auto simp: live_slots_def)
      then have "inst_tb (instance_running c1 j) = 0" using out1 [of i] False e1(2) that(2) by (simp add: Let_def)
      then show ?thesis using e1(1) that(1) by (cases "j \<in> set es1") (auto simp: evicted_def live_slots_def)
    qed
    then have "card {j \<in> live_slots c0. inst_used (instance_running c0 j) = 0} \<le> card (set es1)"
      by (intro card_mono) auto
    then show ?thesis using False e1(2) card_length [of es1] by simp
  qed
  moreover have "clock_sweep want 0 (2 * ?hw) c0 = Some (length es2, c2)"
    using clock_sweep_split [of want 0 ?hw ?hw c0] r1 r2 by (simp add: mult_2)
  ultimately show ?thesis using that e2 by simp
qed

subsection \<open>Eviction keeps the invariant\<close>

lemma remove_module_js_simps [simp]:
  "wasm_table (remove_module_js c)
     = (\<lambda>f. if f \<in> set (to_remove_instance c) then None else wasm_table c f)"
  "to_remove_instance (remove_module_js c) = []"
  "instance_running (remove_module_js c) = instance_running c"
  "instance_running_addr (remove_module_js c) = instance_running_addr c"
  "instance_slots_hw (remove_module_js c) = instance_slots_hw c"
  "instance_clock_hand (remove_module_js c) = instance_clock_hand c"
  "instance_free_slots (remove_module_js c) = instance_free_slots c"
  "instance_running_local (remove_module_js c) = instance_running_local c"
  "instance_alive_local (remove_module_js c) = instance_alive_local c"
proof -
  have "foldl (\<lambda>t fidx. t(fidx := None)) t fs = (\<lambda>f. if f \<in> set fs then None else t f)"
    for t :: "int \<Rightarrow> 'a option" and fs
    by (induction fs arbitrary: t) auto
  then show "wasm_table (remove_module_js c)
     = (\<lambda>f. if f \<in> set (to_remove_instance c) then None else wasm_table c f)"
    by (simp add: remove_module_js_def)
qed (simp_all add: remove_module_js_def)

text \<open>
  What a sweep leaves: the evicted slots are empty and free, their functions are removed, everything
  else is as it was but for the marks.
\<close>

definition after_evict :: "'f cache \<Rightarrow> nat list \<Rightarrow> 'f cache \<Rightarrow> bool" where
  "after_evict c es c' \<longleftrightarrow>
     distinct es \<and> set es \<subseteq> live_slots c \<and> length es = evict_want c
     \<and> (\<forall>i. inst_tb (instance_running c' i)
             = (if i \<in> set es then 0 else inst_tb (instance_running c i))
          \<and> inst_fidx (instance_running c' i) = inst_fidx (instance_running c i))
     \<and> wasm_table c' = (\<lambda>f. if f \<in> (\<lambda>i. inst_fidx (instance_running c i)) ` set es then None
                            else wasm_table c f)
     \<and> instance_free_slots c' = rev es @ instance_free_slots c
     \<and> instance_slots_hw c' = instance_slots_hw c
     \<and> instance_running_addr c' = instance_running_addr c
     \<and> instance_running_local c' = instance_running_local c - int (evict_want c)
     \<and> instance_alive_local c' = instance_alive_local c - int (evict_want c)"

lemma after_evict_live: "after_evict c es c' \<Longrightarrow> live_slots c' = live_slots c - set es"
  by (auto simp: after_evict_def live_slots_def)

lemma after_evict_ok:
  assumes "cache_ok c" "after_evict c es c'" "to_remove_instance c' = []"
    "instance_clock_hand c' < instance_slots_hw c' \<or> instance_clock_hand c' = 0"
  shows "cache_ok c'"
proof -
  note live = after_evict_live [OF assms(2)]
  have es: "distinct es" "set es \<subseteq> live_slots c" "length es = evict_want c"
    and fidx: "\<And>i. inst_fidx (instance_running c' i) = inst_fidx (instance_running c i)"
    using assms(2) by (auto simp: after_evict_def)
  have inj: "inj_on (\<lambda>i. inst_fidx (instance_running c i)) (live_slots c)"
    and free: "set (instance_free_slots c) = {..<instance_slots_hw c} - live_slots c"
      "distinct (instance_free_slots c)"
    using assms(1) by (auto simp: cache_ok_def)
  have sub: "live_slots c \<subseteq> {..<instance_slots_hw c}" by (auto simp: live_slots_def)
  have "card (live_slots c') = card (live_slots c) - evict_want c"
    using card_Diff_subset [of "set es" "live_slots c"] es live by (simp add: distinct_card)
  moreover have "evict_want c \<le> card (live_slots c)" by (rule evict_want_bound [OF assms(1)])
  moreover have "inst_fidx (instance_running c i) \<notin> (\<lambda>i. inst_fidx (instance_running c i)) ` set es"
    if "i \<in> live_slots c'" for i
    using that inj es(2) unfolding live inj_on_def by blast
  moreover have "inj_on (\<lambda>i. inst_fidx (instance_running c' i)) (live_slots c')"
    using inj_on_subset [OF inj, of "live_slots c'"] live fidx by simp
  moreover have "set (rev es @ instance_free_slots c) = {..<instance_slots_hw c} - live_slots c'"
    using es(2) free sub live by auto
  moreover have "distinct (rev es @ instance_free_slots c)"
    using es(1,2) free by auto
  ultimately show ?thesis
    using assms live fidx by (auto simp: cache_ok_def after_evict_def)
qed

lemma remove_instance_ok:
  assumes "cache_ok c"
  obtains es c' where "remove_instance_running_local s c
      = Some (s\<lparr>instance_alive_global := instance_alive_global s - int (evict_want c)\<rparr>, c')"
    "after_evict c es c'" "cache_ok c'"
    "(\<forall>j\<in>set es. inst_used (instance_running c j) = 0)
      \<or> card {j \<in> live_slots c. inst_used (instance_running c j) = 0} < evict_want c"
proof (cases "instance_slots_hw c = 0")
  case True
  then have "live_slots c = {}" by (simp add: live_slots_def)
  then have "evict_want c = 0" using evict_want_bound(2) [OF assms] by simp
  then show ?thesis using True assms that [of c "[]"]
    by (simp add: remove_instance_running_local_def after_evict_def cache_ok_def)
next
  case False
  then have "evicted c [] c" using assms by (auto simp: evicted_def cache_ok_def)
  obtain es c1 where
    r: "clock_sweep (evict_want c) 0 (2 * instance_slots_hw c) c = Some (evict_want c, c1)"
    and e: "evicted c es c1" "length es = evict_want c"
      "(\<forall>j\<in>set es. inst_used (instance_running c j) = 0)
      \<or> card {j \<in> live_slots c. inst_used (instance_running c j) = 0} < evict_want c"
    by (rule clock_sweep_exact [OF assms \<open>evicted c [] c\<close> evict_want_bound(1,2) [OF assms]])
  let ?c' = "(remove_module_js c1)\<lparr>instance_running_local := instance_running_local c - int (evict_want c),
    instance_alive_local := instance_alive_local c - int (evict_want c)\<rparr>"
  have ae: "after_evict c es ?c'"
    using e(1,2) by (auto simp: evicted_def after_evict_def)
  have ok: "cache_ok ?c'"
    using after_evict_ok [OF assms ae] e(1) by (simp add: evicted_def)
  have "(if to_remove_instance c1 \<noteq> [] then remove_module_js c1 else c1) = remove_module_js c1"
    by (simp add: remove_module_js_def)
  then have "remove_instance_running_local s c
      = Some (s\<lparr>instance_alive_global := instance_alive_global s - int (evict_want c)\<rparr>, ?c')"
    using r e(1) by (simp add: remove_instance_running_local_def Let_def evicted_def)
  then show ?thesis by (rule that [OF _ ae ok e(3)])
qed

end
