(* ===== verification/Instance_Table.thy ===== *)
theory Instance_Table
  imports Instance_Cache
begin

text \<open>
  A thread's table of compiled blocks (theory \<open>Instance_Cache\<close>) as a map from blocks to compiled
  functions: the effect of looking up, adding and evicting on the map, the headers in which the blocks
  keep the addresses of their slots, the contract \<open>code_cache\<close> and that the table satisfies it.
\<close>

section \<open>The table as a map\<close>

text \<open>
  The compiled function a block has on this thread.  \<open>headers_apart\<close>: the words of a thread in the
  headers of different blocks do not overlap.
\<close>

definition cached :: "thread_info \<Rightarrow> memory \<Rightarrow> 'f cache \<Rightarrow> u32 \<Rightarrow> 'f option" where
  "cached t m c tb_ptr =
     (let elm = load32 m (tb_ptr + of_int (export_vec_off t))
      in if elm = 0 then None
         else case slot_at c elm of
                None \<Rightarrow> None
              | Some idx \<Rightarrow> if inst_tb (instance_running c idx) = tb_ptr
                           then wasm_table c (inst_fidx (instance_running c idx)) else None)"

definition headers_apart :: "thread_info \<Rightarrow> u32 set \<Rightarrow> bool" where
  "headers_apart t T \<longleftrightarrow> 0 \<notin> T \<and> (\<forall>a\<in>T. \<forall>b\<in>T.
     disjoint_span (a + of_int (export_vec_off t)) 4 (b + of_int (counter_vec_off t)) 4
     \<and> (a \<noteq> b \<longrightarrow> disjoint_span (a + of_int (export_vec_off t)) 4 (b + of_int (export_vec_off t)) 4))"

definition exports_ok :: "thread_info \<Rightarrow> u32 set \<Rightarrow> memory \<Rightarrow> 'f cache \<Rightarrow> bool" where
  "exports_ok t T m c \<longleftrightarrow> (\<forall>a\<in>T. let elm = load32 m (a + of_int (export_vec_off t))
     in elm = 0 \<or> (\<exists>idx<instance_slots_hw c. elm = slot_ptr c idx))"

lemma slot_at_set_slot [simp]: "slot_at (set_slot i e c) = slot_at c"
  by (simp add: slot_at_def fun_eq_iff)

lemma slot_ptr_set_slot [simp]: "slot_ptr (set_slot i e c) = slot_ptr c"
  by (simp add: slot_ptr_def fun_eq_iff)

lemma slot_at_ptr:
  assumes "idx < SLOTS"
  shows "slot_at c (slot_ptr c idx) = Some idx"
  using assms by (simp add: slot_at_def slot_ptr_def unat_of_nat del: of_nat_mult)

lemma slot_ptr_neq_0:
  assumes "cache_ok c" "idx < SLOTS"
  shows "slot_ptr c idx \<noteq> 0"
proof
  assume *: "slot_ptr c idx = 0"
  have a: "unat (instance_running_addr c) + 12 * idx < 2 ^ 32" "0 < unat (instance_running_addr c)"
    using assms by (auto simp: cache_ok_def unat_gt_0)
  have "unat (slot_ptr c idx) = unat (instance_running_addr c) + 12 * idx"
    using a(1) unfolding slot_ptr_def by (simp add: unat_word_ariths unat_of_nat del: of_nat_mult)
  with * a show False by simp
qed

lemma cached_slot:
  assumes "cache_ok c" "load32 m (a + of_int (export_vec_off t)) = slot_ptr c idx" "idx < SLOTS"
  shows "cached t m c a = (if inst_tb (instance_running c idx) = a
           then wasm_table c (inst_fidx (instance_running c idx)) else None)"
  using assms slot_ptr_neq_0 [OF assms(1,3)] by (simp add: cached_def slot_at_ptr)

lemma exports_slot:
  assumes "exports_ok t T m c" "cache_ok c" "a \<in> T"
  obtains "load32 m (a + of_int (export_vec_off t)) = 0" "cached t m c a = None"
  | idx where "idx < instance_slots_hw c" "idx < SLOTS"
      "load32 m (a + of_int (export_vec_off t)) = slot_ptr c idx"
  using assms by (fastforce simp: exports_ok_def cached_def Let_def cache_ok_def)

lemma mark_slot_ok:
  assumes "cache_ok c"
  shows "cache_ok (set_slot idx ((instance_running c idx)\<lparr>inst_used := u\<rparr>) c)" (is "cache_ok ?c'")
proof -
  have eq: "inst_tb (instance_running ?c' j) = inst_tb (instance_running c j)"
    "inst_fidx (instance_running ?c' j) = inst_fidx (instance_running c j)" for j by simp_all
  have ls: "live_slots ?c' = live_slots c" unfolding live_slots_def eq by simp
  show ?thesis using assms unfolding cache_ok_def ls eq by simp
qed

text \<open>
  Looking a block up gives 0 when it has no function, and the table index of its function otherwise;
  the map does not change.
\<close>

lemma get_instance_ok:
  assumes "cache_ok c" "exports_ok t T m c" "headers_apart t T" "a \<in> T"
  obtains fidx m' c' where "get_instance_running_local t tn a m c = Some (fidx, m', c')"
    "cache_ok c'" "exports_ok t T m' c'" "\<And>b. b \<in> T \<Longrightarrow> cached t m' c' b = cached t m c b"
    "cached t m c a = (if fidx > 0 then wasm_table c' fidx else None)"
    "fidx > 0 \<Longrightarrow> cached t m c a \<noteq> None" "wasm_table c' = wasm_table c"
  using assms(2,1,4)
proof (cases rule: exports_slot)
  case 1
  then show ?thesis using assms by (intro that [of 0 m c]) (auto simp: get_instance_running_local_def)
next
  case (2 idx)
  let ?e = "instance_running c idx"
  have a0: "a \<noteq> 0" using assms(3,4) by (auto simp: headers_apart_def)
  note p = slot_ptr_neq_0 [OF assms(1) 2(2)] slot_at_ptr [OF 2(2), of c] cached_slot [OF assms(1) 2(3,2)]
  show ?thesis
  proof (cases "inst_tb ?e = a")
    case True
    let ?c' = "set_slot idx (?e\<lparr>inst_used := 1\<rparr>) c"
    have live: "idx \<in> live_slots c" using True 2(1) a0 by (simp add: live_slots_def)
    have eq: "inst_tb (instance_running ?c' j) = inst_tb (instance_running c j)"
      "inst_fidx (instance_running ?c' j) = inst_fidx (instance_running c j)" for j by simp_all
    have "cache_ok ?c'" by (rule mark_slot_ok [OF assms(1)])
    moreover have "cached t m ?c' b = cached t m c b" for b
      unfolding cached_def eq slot_at_set_slot set_slot_simps(9) ..
    moreover have "exports_ok t T m ?c'"
      using assms(2) by (simp add: exports_ok_def slot_ptr_def)
    moreover have "0 < inst_fidx ?e" "wasm_table c (inst_fidx ?e) \<noteq> None"
      using assms(1) live by (auto simp: cache_ok_def)
    ultimately show ?thesis using True p 2(3)
      by (intro that [of "inst_fidx ?e" m ?c']) (auto simp: get_instance_running_local_def Let_def)
  next
    case False
    let ?m' = "store32 (store32 m (a + of_int (export_vec_off t)) 0) (a + of_int (counter_vec_off t))
      (of_int (wasm_instantiate_num tn))"
    have r: "load32 ?m' (b + of_int (export_vec_off t))
        = (if b = a then 0 else load32 m (b + of_int (export_vec_off t)))" if "b \<in> T" for b
      using assms(3,4) that by (auto simp: headers_apart_def memory)
    show ?thesis using False p 2 assms r
      by (intro that [of 0 ?m' c])
        (auto simp: get_instance_running_local_def cached_def exports_ok_def Let_def)
  qed
qed


text \<open>
  Adding a compiled function.  The function is in the table already, at an index no live slot has.
\<close>

definition new_fidx :: "'f cache \<Rightarrow> int \<Rightarrow> bool" where
  "new_fidx c fidx \<longleftrightarrow> 0 < fidx \<and> wasm_table c fidx \<noteq> None
     \<and> fidx \<notin> (\<lambda>i. inst_fidx (instance_running c i)) ` live_slots c"

lemma inj_on_insert_upd:
  assumes "inj_on f A" "a \<notin> A" "\<And>j. j \<in> A \<Longrightarrow> f j \<noteq> v"
  shows "inj_on (\<lambda>j. if j = a then v else f j) (insert a A)"
  using assms by (auto simp: inj_on_def)

lemma take_slot_ok:
  assumes "cache_ok c" "instance_free_slots c \<noteq> [] \<or> instance_slots_hw c < SLOTS" "take_slot c = (idx, c1)"
  shows "idx \<notin> live_slots c" "idx < instance_slots_hw c1" "instance_slots_hw c \<le> instance_slots_hw c1"
    "instance_slots_hw c1 \<le> SLOTS" "{..<instance_slots_hw c1} = insert idx {..<instance_slots_hw c}"
    "distinct (instance_free_slots c1)"
    "set (instance_free_slots c1) = {..<instance_slots_hw c} - insert idx (live_slots c)"
    "instance_running c1 = instance_running c" "instance_running_addr c1 = instance_running_addr c"
    "wasm_table c1 = wasm_table c" "instance_clock_hand c1 = instance_clock_hand c"
    "to_remove_instance c1 = to_remove_instance c" "instance_alive_local c1 = instance_alive_local c"
    "instance_running_local c1 = instance_running_local c"
proof -
  have hw: "instance_slots_hw c \<le> SLOTS" and d: "distinct (instance_free_slots c)"
    and f: "set (instance_free_slots c) = {..<instance_slots_hw c} - live_slots c"
    using assms(1) by (auto simp: cache_ok_def)
  have l: "live_slots c \<subseteq> {..<instance_slots_hw c}" by (auto simp: live_slots_def)
  have "idx \<notin> live_slots c \<and> idx < instance_slots_hw c1 \<and> instance_slots_hw c \<le> instance_slots_hw c1
    \<and> instance_slots_hw c1 \<le> SLOTS \<and> {..<instance_slots_hw c1} = insert idx {..<instance_slots_hw c}
    \<and> distinct (instance_free_slots c1)
    \<and> set (instance_free_slots c1) = {..<instance_slots_hw c} - insert idx (live_slots c)"
  proof (cases "instance_free_slots c")
    case Nil
    then have *: "idx = instance_slots_hw c" "c1 = c\<lparr>instance_slots_hw := instance_slots_hw c + 1\<rparr>"
      "instance_slots_hw c < SLOTS" using assms(2,3) by (auto simp: take_slot_def)
    have "idx \<notin> live_slots c" using l * by auto
    moreover have "{} = {..<instance_slots_hw c} - insert idx (live_slots c)" using f Nil by auto
    ultimately show ?thesis using * Nil by (simp add: lessThan_Suc)
  next
    case (Cons i rest)
    then have *: "idx = i" "c1 = c\<lparr>instance_free_slots := rest\<rparr>" using assms(3) by (auto simp: take_slot_def)
    have "i \<in> {..<instance_slots_hw c} - live_slots c" unfolding f [symmetric] Cons by simp
    moreover have "set rest = {..<instance_slots_hw c} - live_slots c - {i}"
      unfolding f [symmetric] Cons using d Cons by simp
    ultimately show ?thesis using * hw d Cons by (auto simp del: SLOTS_eq)
  qed
  then show "idx \<notin> live_slots c" "idx < instance_slots_hw c1" "instance_slots_hw c \<le> instance_slots_hw c1"
    "instance_slots_hw c1 \<le> SLOTS" "{..<instance_slots_hw c1} = insert idx {..<instance_slots_hw c}"
    "distinct (instance_free_slots c1)"
    "set (instance_free_slots c1) = {..<instance_slots_hw c} - insert idx (live_slots c)"
    by blast+
qed (use assms(3) in \<open>auto simp: take_slot_def split: list.splits\<close>)

lemma inc_instance_local_simps [simp]:
  "instance_running (inc_instance_local c) = instance_running c"
  "instance_running_addr (inc_instance_local c) = instance_running_addr c"
  "instance_slots_hw (inc_instance_local c) = instance_slots_hw c"
  "instance_clock_hand (inc_instance_local c) = instance_clock_hand c"
  "instance_free_slots (inc_instance_local c) = instance_free_slots c"
  "to_remove_instance (inc_instance_local c) = to_remove_instance c"
  "instance_running_local (inc_instance_local c) = instance_running_local c + 1"
  "instance_alive_local (inc_instance_local c) = instance_alive_local c + 1"
  "wasm_table (inc_instance_local c) = wasm_table c"
  by (simp_all add: inc_instance_local_def)

lemma add_slot_cache_ok:
  assumes "cache_ok c" "a \<noteq> 0" "new_fidx c fidx" "take_slot c = (idx, c1)"
    and room: "instance_free_slots c \<noteq> [] \<or> instance_slots_hw c < SLOTS"
  shows "cache_ok (inc_instance_local (set_slot idx \<lparr>inst_tb = a, inst_fidx = fidx, inst_used = 1\<rparr> c1))"
    (is "cache_ok ?c'")
proof -
  note s = take_slot_ok [OF assms(1) room assms(4)]
  have run: "instance_running ?c' = (instance_running c)(idx := \<lparr>inst_tb = a, inst_fidx = fidx, inst_used = 1\<rparr>)"
    using s(8) by simp
  have live: "live_slots ?c' = insert idx (live_slots c)"
    unfolding live_slots_def run using assms(2) s(5) by (auto simp: set_eq_iff)
  have fx: "inst_fidx (instance_running ?c' j) = (if j = idx then fidx else inst_fidx (instance_running c j))"
    for j unfolding run by simp
  have inj: "inj_on (\<lambda>j. inst_fidx (instance_running c j)) (live_slots c)"
    and neq: "\<And>j. j \<in> live_slots c \<Longrightarrow> inst_fidx (instance_running c j) \<noteq> fidx"
    using assms(1,3) by (auto simp: cache_ok_def new_fidx_def)
  have "inj_on (\<lambda>j. inst_fidx (instance_running ?c' j)) (insert idx (live_slots c))"
    unfolding fx by (rule inj_on_insert_upd [OF inj s(1) neq])
  moreover have "instance_clock_hand ?c' < instance_slots_hw ?c' \<or> instance_clock_hand ?c' = 0"
    using assms(1) s by (auto simp: cache_ok_def)
  moreover have "set (instance_free_slots ?c') = {..<instance_slots_hw ?c'} - insert idx (live_slots c)"
    using s by auto
  moreover have "int (card (insert idx (live_slots c))) = instance_running_local ?c'"
    using assms(1) s by (simp add: cache_ok_def)
  moreover have "\<forall>j\<in>insert idx (live_slots c). 0 < inst_fidx (instance_running ?c' j)
      \<and> wasm_table ?c' (inst_fidx (instance_running ?c' j)) \<noteq> None"
    unfolding run using assms(1,3) s(1,10) by (auto simp: cache_ok_def new_fidx_def)
  ultimately show ?thesis
    using assms(1) s unfolding cache_ok_def live by simp
qed

lemma add_slot_ok:
  assumes "cache_ok c" "exports_ok t T m c" "headers_apart t T" "a \<in> T" "new_fidx c fidx"
    and room: "instance_free_slots c \<noteq> [] \<or> instance_slots_hw c < SLOTS"
  obtains m' c' where "add_slot t fidx a m s c
      = Some (m', s\<lparr>instance_alive_global := instance_alive_global s + 1\<rparr>, c')"
    "cache_ok c'" "exports_ok t T m' c'" "wasm_table c' = wasm_table c"
    "\<And>b. b \<in> T \<Longrightarrow> cached t m' c' b = (if b = a then wasm_table c fidx else cached t m c b)"
    "instance_alive_local c' = instance_alive_local c + 1"
proof -
  obtain idx c1 where tk: "take_slot c = (idx, c1)" by fastforce
  note s = take_slot_ok [OF assms(1) room tk]
  let ?c' = "inc_instance_local (set_slot idx \<lparr>inst_tb = a, inst_fidx = fidx, inst_used = 1\<rparr> c1)"
  let ?m' = "store32 m (a + of_int (export_vec_off t)) (slot_ptr ?c' idx)"
  have a0: "a \<noteq> 0" using assms(3,4) by (auto simp: headers_apart_def)
  have i: "idx < SLOTS" using s(2,4) by simp
  have run: "instance_running ?c' = (instance_running c)(idx := \<lparr>inst_tb = a, inst_fidx = fidx, inst_used = 1\<rparr>)"
    using s(8) by simp
  note ok = add_slot_cache_ok [OF assms(1) a0 assms(5) tk room]
  have ptr: "slot_ptr ?c' j = slot_ptr c j" for j using s(9) by (simp add: slot_ptr_def)
  have r: "load32 ?m' (b + of_int (export_vec_off t))
      = (if b = a then slot_ptr ?c' idx else load32 m (b + of_int (export_vec_off t)))" if "b \<in> T" for b
    using assms(3,4) that by (auto simp: headers_apart_def memory)
  have ex: "exports_ok t T ?m' ?c'"
    using assms(2) r s(2,3) unfolding exports_ok_def Let_def ptr
    by (auto simp: ptr intro: less_le_trans)
  have new: "cached t ?m' ?c' a = wasm_table c fidx"
    using cached_slot [OF ok, of ?m' a t idx] r [OF assms(4)] i s by simp
  have old: "cached t ?m' ?c' b = cached t m c b" if "b \<in> T" "b \<noteq> a" for b
    using assms(2,1) that(1)
  proof (cases rule: exports_slot)
    case 1
    then show ?thesis using r [OF that(1)] that(2) by (simp add: cached_def)
  next
    case (2 j)
    have "inst_tb (instance_running c idx) = 0 \<or> \<not> idx < instance_slots_hw c"
      using s(1) by (auto simp: live_slots_def)
    moreover have "b \<noteq> 0" using assms(3) that(1) by (auto simp: headers_apart_def)
    moreover have "load32 ?m' (b + of_int (export_vec_off t)) = slot_ptr ?c' j"
      using r [OF that(1)] that(2) 2(3) ptr by simp
    then have "cached t ?m' ?c' b = (if inst_tb (instance_running ?c' j) = b
        then wasm_table c (inst_fidx (instance_running ?c' j)) else None)"
      using cached_slot [OF ok _ 2(2)] s(10) by simp
    ultimately show ?thesis
      unfolding run cached_slot [OF assms(1) 2(3,2)] using that(2) 2(1) by (cases "j = idx") auto
  qed
  have add: "add_slot t fidx a m s c
      = Some (?m', s\<lparr>instance_alive_global := instance_alive_global s + 1\<rparr>, ?c')"
    using i tk by (simp add: add_slot_def Let_def slot_ptr_def)
  show ?thesis by (rule that [OF add ok ex]) (use new old s in simp_all)
qed


text \<open>Eviction forgets the evicted functions and nothing else.\<close>

lemma after_evict_view:
  assumes "cache_ok c" "cache_ok c'" "exports_ok t T m c" "after_evict c es c'"
  shows "exports_ok t T m c'"
    and "b \<in> T \<Longrightarrow> cached t m c' b = cached t m c b \<or> cached t m c' b = None"
proof -
  have eq: "instance_slots_hw c' = instance_slots_hw c" "slot_ptr c' = slot_ptr c"
    using assms(4) by (auto simp: after_evict_def slot_ptr_def)
  show "exports_ok t T m c'" using assms(3) by (simp add: exports_ok_def eq)
  assume "b \<in> T"
  with assms(3,1) show "cached t m c' b = cached t m c b \<or> cached t m c' b = None"
  proof (cases rule: exports_slot)
    case 1
    then show ?thesis by (simp add: cached_def)
  next
    case (2 idx)
    with assms(4) show ?thesis
      using cached_slot [OF assms(1) 2(3,2)] cached_slot [OF assms(2), of m b t idx] eq(2)
      by (auto simp: after_evict_def)
  qed
qed

lemma new_fidx_evict:
  assumes "after_evict c es c1" "new_fidx c fidx"
  shows "wasm_table c1 fidx = wasm_table c fidx" "new_fidx c1 fidx"
proof -
  have "set es \<subseteq> live_slots c" using assms(1) by (simp add: after_evict_def)
  then have "fidx \<notin> (\<lambda>i. inst_fidx (instance_running c i)) ` set es"
    using assms(2) by (auto simp: new_fidx_def)
  then show t: "wasm_table c1 fidx = wasm_table c fidx" using assms(1) by (simp add: after_evict_def)
  have "(\<lambda>i. inst_fidx (instance_running c1 i)) ` live_slots c1
      \<subseteq> (\<lambda>i. inst_fidx (instance_running c i)) ` live_slots c"
    unfolding after_evict_live [OF assms(1)] using assms(1) by (auto simp: after_evict_def)
  then show "new_fidx c1 fidx" using assms(2) t by (auto simp: new_fidx_def)
qed

lemma add_instance_ok:
  assumes "cache_ok c" "exports_ok t T m c" "headers_apart t T" "a \<in> T" "new_fidx c fidx"
  obtains m' s' c' where "add_instance_running_local t fidx a m s c = Some (m', s', c')"
    "cache_ok c'" "exports_ok t T m' c'" "cached t m' c' a = wasm_table c fidx"
    "\<And>b. b \<in> T \<Longrightarrow> b \<noteq> a \<Longrightarrow> cached t m' c' b = cached t m c b \<or> cached t m' c' b = None"
    "instance_alive_global s' - instance_alive_global s = instance_alive_local c' - instance_alive_local c"
    "instance_alive_global s' \<le> instance_alive_global s + 1" "tunables s' = tunables s"
    "dom (wasm_table c') \<subseteq> dom (wasm_table c)" "wasm_table c' fidx = wasm_table c fidx"
proof (cases "instance_free_slots c = [] \<and> instance_slots_hw c \<ge> SLOTS")
  case False
  then have "instance_free_slots c \<noteq> [] \<or> instance_slots_hw c < SLOTS" by auto
  from add_slot_ok [OF assms this, of s] obtain m' c' where
    *: "add_slot t fidx a m s c
      = Some (m', s\<lparr>instance_alive_global := instance_alive_global s + 1\<rparr>, c')"
    "cache_ok c'" "exports_ok t T m' c'" "wasm_table c' = wasm_table c"
    "\<And>b. b \<in> T \<Longrightarrow> cached t m' c' b = (if b = a then wasm_table c fidx else cached t m c b)"
    "instance_alive_local c' = instance_alive_local c + 1" by blast
  with False assms(4) show ?thesis
    by (intro that [of m' "s\<lparr>instance_alive_global := instance_alive_global s + 1\<rparr>" c'])
      (auto simp: add_instance_running_local_def)
next
  case True
  define s1 where "s1 = s\<lparr>instance_alive_global := instance_alive_global s - int (evict_want c)\<rparr>"
  obtain es c1 where r: "remove_instance_running_local s c = Some (s1, c1)"
    and e: "after_evict c es c1" and ok: "cache_ok c1"
    unfolding s1_def by (rule remove_instance_ok [OF assms(1), of s]) blast
  have "card (live_slots c) = instance_slots_hw c" using free_count [OF assms(1)] True by simp
  then have "evict_want c \<noteq> 0" using evict_want_bound(3) [OF assms(1)] True by simp
  then have room: "instance_free_slots c1 \<noteq> [] \<or> instance_slots_hw c1 < SLOTS"
    using e by (auto simp: after_evict_def)
  note t = new_fidx_evict(1) [OF e assms(5)] and new = new_fidx_evict(2) [OF e assms(5)]
  note view = after_evict_view [OF assms(1) ok assms(2) e]
  from add_slot_ok [OF ok view(1) assms(3,4) new room, of s1] obtain m' c' where
    *: "add_slot t fidx a m s1 c1
      = Some (m', s1\<lparr>instance_alive_global := instance_alive_global s1 + 1\<rparr>, c')"
    "cache_ok c'" "exports_ok t T m' c'" "wasm_table c' = wasm_table c1"
    "\<And>b. b \<in> T \<Longrightarrow> cached t m' c' b = (if b = a then wasm_table c1 fidx else cached t m c1 b)"
    "instance_alive_local c' = instance_alive_local c1 + 1" by blast
  have "dom (wasm_table c1) \<subseteq> dom (wasm_table c)"
    "instance_alive_local c1 = instance_alive_local c - int (evict_want c)"
    using e by (auto simp: after_evict_def split: if_splits)
  then show ?thesis using * r True t view(2) assms(4)
    by (intro that [of m' "s1\<lparr>instance_alive_global := instance_alive_global s1 + 1\<rparr>" c'])
      (simp_all add: add_instance_running_local_def s1_def)
qed

section \<open>Block headers\<close>

text \<open>
  The header \<open>tcg_gen_code\<close> writes in front of a block for \<open>n\<close> cores: no core has compiled it or run
  it.  The headers of the blocks in the code buffer do not overlap.
\<close>

definition tb_header_init :: "nat \<Rightarrow> u32 \<Rightarrow> memory \<Rightarrow> memory" where
  "tb_header_init n a m =
     (let export_size = 4 * n;
          m1 = store_nat m (a + 8) export_size 0;
          m2 = store32 m1 (a + 4) (of_nat export_size);
          counter_size = 4 * n;
          m3 = store_nat m2 (a + of_nat (12 + export_size)) counter_size 0;
          m4 = store32 m3 (a + of_nat (8 + export_size)) (of_nat counter_size)
      in store32 m4 a (of_nat (16 + export_size + counter_size)))"

definition headers_disjoint :: "nat \<Rightarrow> u32 set \<Rightarrow> bool" where
  "headers_disjoint n T \<longleftrightarrow> 0 \<notin> T \<and>
     (\<forall>a\<in>T. \<forall>b\<in>T. a \<noteq> b \<longrightarrow> disjoint_span a (16 + 8 * n) b (16 + 8 * n))"

lemma disjoint_span_sub:
  assumes "disjoint_span a N b K" "i + n \<le> N" "j + k \<le> K"
  shows "disjoint_span (a + of_nat i) n (b + of_nat j) k"
  unfolding disjoint_span_def
proof (intro allI impI)
  fix i' j' assume "i' < n" "j' < k"
  then have "i + i' < N" "j + j' < K" using assms by auto
  then show "a + of_nat i + of_nat i' \<noteq> b + of_nat j + of_nat j'"
    using assms(1) by (auto simp: disjoint_span_def add.assoc simp flip: of_nat_add)
qed

lemma disjoint_span_same:
  assumes "i + n \<le> j \<or> j + k \<le> i" "i + n \<le> 2 ^ 32" "j + k \<le> 2 ^ 32"
  shows "disjoint_span (a + of_nat i) n (a + of_nat j) k"
  unfolding disjoint_span_def
proof (intro allI impI)
  fix i' j' assume *: "i' < n" "j' < k"
  show "a + of_nat i + of_nat i' \<noteq> a + of_nat j + of_nat j'"
  proof
    assume "a + of_nat i + of_nat i' = a + of_nat j + of_nat j'"
    then have "(of_nat (i + i') :: u32) = of_nat (j + j')" by simp
    from arg_cong [OF this, of unat] have "(i + i') mod 2 ^ 32 = (j + j') mod 2 ^ 32"
      by (simp add: unat_of_nat del: of_nat_add)
    with * assms show False by auto
  qed
qed

lemma core_slot_offsets:
  assumes "core_slots (int n) (int i) t"
  shows "of_int (export_vec_off t) = (of_nat (8 + 4 * i) :: u32)"
    "of_int (counter_vec_off t) = (of_nat (12 + 4 * n + 4 * i) :: u32)"
proof -
  have "export_vec_off t = int (8 + 4 * i)" "counter_vec_off t = int (12 + 4 * n + 4 * i)"
    using assms by (auto simp: core_slots_def)
  then show "of_int (export_vec_off t) = (of_nat (8 + 4 * i) :: u32)"
    "of_int (counter_vec_off t) = (of_nat (12 + 4 * n + 4 * i) :: u32)"
    by (simp_all only: of_int_of_nat_eq)
qed

lemma headers_disjoint_apart:
  assumes "headers_disjoint n T" "core_slots (int n) (int i) t" "i < n" "n < 2 ^ 20"
  shows "headers_apart t T"
proof -
  have "disjoint_span (a + of_nat (8 + 4 * i)) 4 (b + of_nat (12 + 4 * n + 4 * i)) 4"
    if "a \<in> T" "b \<in> T" for a b
  proof (cases "a = b")
    case True
    show ?thesis unfolding True by (rule disjoint_span_same) (use assms(3,4) in auto)
  next
    case False
    then have "disjoint_span a (16 + 8 * n) b (16 + 8 * n)"
      using assms(1) that by (simp add: headers_disjoint_def)
    then show ?thesis by (rule disjoint_span_sub) (use assms(3) in auto)
  qed
  moreover have "disjoint_span (a + of_nat (8 + 4 * i)) 4 (b + of_nat (8 + 4 * i)) 4"
    if "a \<in> T" "b \<in> T" "a \<noteq> b" for a b
    by (rule disjoint_span_sub [of a "16 + 8 * n" b "16 + 8 * n"])
      (use assms(1,3) that in \<open>auto simp: headers_disjoint_def\<close>)
  ultimately show ?thesis
    using assms(1) unfolding headers_apart_def core_slot_offsets [OF assms(2)]
    by (auto simp: headers_disjoint_def)
qed


lemma store_nat_zero:
  assumes "i < k" "k \<le> 2 ^ 32"
  shows "store_nat m p k 0 (p + of_nat i) = 0"
  using assms
proof (induction k arbitrary: m p i)
  case (Suc k)
  show ?case
  proof (cases i)
    case 0
    have "p \<noteq> p + 1 + of_nat j" if "j < k" for j
      using of_nat_offset_neq [of "Suc j" p] that Suc.prems by (simp add: add.assoc)
    then show ?thesis using 0 by (simp add: store_nat_other)
  next
    case (Suc i')
    then show ?thesis using Suc.IH [of i' "m(p := 0)" "p + 1"] Suc.prems
      by (simp add: add.assoc fun_upd_def)
  qed
qed simp

lemma load32_zero:
  assumes "\<And>i. i < 4 \<Longrightarrow> m (p + of_nat i) = 0"
  shows "load32 m p = 0"
proof -
  have "load_nat (\<lambda>_. 0) p n = 0" for n by (induction n arbitrary: p) auto
  then show ?thesis using load_nat_cong [of 4 m p "\<lambda>_. 0"] assms by (simp add: load32_def)
qed

text \<open>A new header clears the export word of its own block and leaves those of the others.\<close>

lemma tb_header_init_other:
  assumes "disjoint_span b (16 + 8 * n) a (16 + 8 * n)" "k + 4 \<le> 16 + 8 * n"
  shows "load32 (tb_header_init n a m) (b + of_nat k) = load32 m (b + of_nat k)"
proof -
  have *: "load_nat (store_nat m (a + of_nat j) l v) (b + of_nat k) 4 = load_nat m (b + of_nat k) 4"
    if "j + l \<le> 16 + 8 * n" for m j l v
    by (rule load_nat_store_nat_disjoint, rule disjoint_span_sub [OF assms that])
  show ?thesis
    using * [of 8 "4 * n"] * [of 4 4] * [of "12 + 4 * n" "4 * n"] * [of "8 + 4 * n" 4] * [of 0 4]
    by (simp add: load32_def tb_header_init_def Let_def store32_def)
qed

lemma tb_header_init_self:
  assumes "i < n" "n < 2 ^ 20"
  shows "load32 (tb_header_init n a m) (a + of_nat (8 + 4 * i)) = 0"
proof -
  have *: "load_nat (store_nat m (a + of_nat j) l v) (a + of_nat (8 + 4 * i)) 4
      = load_nat m (a + of_nat (8 + 4 * i)) 4"
    if "j + l \<le> 8 + 4 * i \<or> 12 + 4 * i \<le> j" "j + l \<le> 2 ^ 32" for m j l v
    by (rule load_nat_store_nat_disjoint, rule disjoint_span_same) (use assms that in auto)
  have "load32 (store_nat m (a + of_nat 8) (4 * n) 0) (a + of_nat (8 + 4 * i)) = 0"
  proof (rule load32_zero)
    fix k :: nat assume "k < 4"
    then show "store_nat m (a + of_nat 8) (4 * n) 0 (a + of_nat (8 + 4 * i) + of_nat k) = 0"
      using store_nat_zero [of "4 * i + k" "4 * n" m "a + of_nat 8"] assms by (simp add: algebra_simps)
  qed
  then show ?thesis
    using * [of 4 4] * [of "12 + 4 * n" "4 * n"] * [of "8 + 4 * n" 4] * [of 0 4] assms
    by (simp add: load32_def tb_header_init_def Let_def store32_def)
qed


section \<open>The contract\<close>

text \<open>
  A cache of compiled code, as the dispatcher sees it: code is inserted for a block, looked up, evicted,
  and forgotten when a new block takes the address.  \<open>latest\<close> is the code a block was last given.
\<close>

datatype ('k, 'v) cache_op = Insert 'k 'v | Lookup 'k | Evict | Fresh 'k

primrec op_keys :: "('k, 'v) cache_op \<Rightarrow> 'k set" where
  "op_keys (Insert k v) = {k}"
| "op_keys (Lookup k) = {k}"
| "op_keys Evict = {}"
| "op_keys (Fresh k) = {k}"

primrec latest_op :: "('k, 'v) cache_op \<Rightarrow> ('k \<Rightarrow> 'v option) \<Rightarrow> 'k \<Rightarrow> 'v option" where
  "latest_op (Insert k v) g = g(k := Some v)"
| "latest_op (Lookup k) g = g"
| "latest_op Evict g = g"
| "latest_op (Fresh k) g = g(k := None)"

primrec latest :: "('k, 'v) cache_op list \<Rightarrow> ('k \<Rightarrow> 'v option) \<Rightarrow> 'k \<Rightarrow> 'v option" where
  "latest [] g = g"
| "latest (op # ops) g = latest ops (latest_op op g)"

primrec cache_run :: "('o \<Rightarrow> 's \<Rightarrow> 's option) \<Rightarrow> 'o list \<Rightarrow> 's \<Rightarrow> 's option" where
  "cache_run step [] s = Some s"
| "cache_run step (op # ops) s = (case step op s of None \<Rightarrow> None | Some s' \<Rightarrow> cache_run step ops s')"

locale code_cache =
  fixes K :: "'k set" and ok :: "'s \<Rightarrow> bool" and view :: "'s \<Rightarrow> 'k \<Rightarrow> 'v option"
    and step :: "('k, 'v) cache_op \<Rightarrow> 's \<Rightarrow> 's option"
  assumes step_ok: "ok s \<Longrightarrow> op_keys op \<subseteq> K \<Longrightarrow>
      \<exists>s'. step op s = Some s' \<and> ok s'
        \<and> (\<forall>k\<in>K. view s' k = None \<or> view s' k = latest_op op (view s) k)"
    and insert_kept: "ok s \<Longrightarrow> k \<in> K \<Longrightarrow> step (Insert k v) s = Some s' \<Longrightarrow> view s' k = Some v"
begin

text \<open>No sequence of operations fails, and a block never has code other than the latest it was given.\<close>

lemma run_sound:
  assumes "ok s" "\<forall>op\<in>set ops. op_keys op \<subseteq> K" "\<forall>k\<in>K. view s k = None \<or> view s k = g k"
  shows "\<exists>s'. cache_run step ops s = Some s' \<and> ok s'
    \<and> (\<forall>k\<in>K. view s' k = None \<or> view s' k = latest ops g k)"
  using assms
proof (induction ops arbitrary: s g)
  case (Cons op ops)
  from step_ok [OF Cons.prems(1), of op] Cons.prems(2) obtain s1 where
    s1: "step op s = Some s1" "ok s1" "\<forall>k\<in>K. view s1 k = None \<or> view s1 k = latest_op op (view s) k"
    by auto
  have "\<forall>k\<in>K. view s1 k = None \<or> view s1 k = latest_op op g k"
  proof
    fix k assume "k \<in> K"
    with s1(3) Cons.prems(3) have "view s1 k = None \<or> view s1 k = latest_op op (view s) k"
      "view s k = None \<or> view s k = g k" by auto
    then show "view s1 k = None \<or> view s1 k = latest_op op g k" by (cases op) (auto split: if_splits)
  qed
  from Cons.IH [OF s1(2) _ this] Cons.prems(2) s1(1) show ?case by auto
qed auto

lemma run_append:
  "cache_run step (ops @ [op]) s = (case cache_run step ops s of None \<Rightarrow> None | Some s' \<Rightarrow> step op s')"
  by (induction ops arbitrary: s) (auto split: option.splits)

lemma insert_hit:
  assumes "ok s" "\<forall>op\<in>set ops. op_keys op \<subseteq> K" "k \<in> K" "cache_run step (ops @ [Insert k v]) s = Some s'"
  shows "view s' k = Some v"
proof -
  from run_sound [OF assms(1,2), of "view s"] obtain s1 where
    "cache_run step ops s = Some s1" "ok s1" by auto
  with assms(4) insert_kept [of s1 k v s'] assms(3) show ?thesis by (simp add: run_append)
qed

end

text \<open>
  The table under these operations.  \<open>alloc\<close> is the choice of emscripten's \<open>addFunction\<close>: a free
  positive index.
\<close>

type_synonym 'f table = "memory \<times> shared \<times> 'f cache"

definition add_function :: "((int \<Rightarrow> 'f option) \<Rightarrow> int) \<Rightarrow> 'f \<Rightarrow> 'f cache \<Rightarrow> int \<times> 'f cache" where
  "add_function alloc f c =
     (let fidx = alloc (wasm_table c) in (fidx, c\<lparr>wasm_table := (wasm_table c)(fidx := Some f)\<rparr>))"

fun table_op :: "thread_info \<Rightarrow> nat \<Rightarrow> ((int \<Rightarrow> 'f option) \<Rightarrow> int) \<Rightarrow> (u32, 'f) cache_op
    \<Rightarrow> 'f table \<Rightarrow> 'f table option" where
  "table_op t n alloc (Insert a f) (m, s, c) =
     (let (fidx, c1) = add_function alloc f c in add_instance_running_local t fidx a m s c1)"
| "table_op t n alloc (Lookup a) (m, s, c) =
     (case get_instance_running_local t (tunables s) a m c of
        None \<Rightarrow> None | Some (_, m', c') \<Rightarrow> Some (m', s, c'))"
| "table_op t n alloc Evict (m, s, c) =
     (case remove_instance_running_local s c of None \<Rightarrow> None | Some (s', c') \<Rightarrow> Some (m, s', c'))"
| "table_op t n alloc (Fresh a) (m, s, c) = Some (tb_header_init n a m, s, c)"

definition alloc_ok :: "((int \<Rightarrow> 'f option) \<Rightarrow> int) \<Rightarrow> bool" where
  "alloc_ok alloc \<longleftrightarrow> (\<forall>w. finite (dom w) \<longrightarrow> 0 < alloc w \<and> w (alloc w) = None)"

text \<open>
  The configuration: the thread has core number \<open>i\<close> of \<open>n\<close>, the blocks at the addresses \<open>T\<close> have
  separate headers.
\<close>

definition table_config ::
    "thread_info \<Rightarrow> u32 set \<Rightarrow> nat \<Rightarrow> nat \<Rightarrow> ((int \<Rightarrow> 'f option) \<Rightarrow> int) \<Rightarrow> bool" where
  "table_config t T n i alloc \<longleftrightarrow>
     core_slots (int n) (int i) t \<and> i < n \<and> n < 2 ^ 20 \<and> headers_disjoint n T \<and> alloc_ok alloc"

definition table_ok ::
    "thread_info \<Rightarrow> u32 set \<Rightarrow> nat \<Rightarrow> nat \<Rightarrow> ((int \<Rightarrow> 'f option) \<Rightarrow> int) \<Rightarrow> 'f table \<Rightarrow> bool" where
  "table_ok t T n i alloc x = (case x of (m, s, c) \<Rightarrow> table_config t T n i alloc
     \<and> cache_ok c \<and> exports_ok t T m c \<and> finite (dom (wasm_table c)))"

definition table_view :: "thread_info \<Rightarrow> 'f table \<Rightarrow> u32 \<Rightarrow> 'f option" where
  "table_view t x = (case x of (m, s, c) \<Rightarrow> cached t m c)"

lemma add_function_ok:
  assumes "alloc_ok alloc" "cache_ok c" "exports_ok t T m c" "finite (dom (wasm_table c))"
    "add_function alloc f c = (fidx, c1)"
  shows "cache_ok c1" "exports_ok t T m c1" "finite (dom (wasm_table c1))" "new_fidx c1 fidx"
    "wasm_table c1 fidx = Some f" "instance_alive_local c1 = instance_alive_local c"
    "b \<in> T \<Longrightarrow> b \<noteq> 0 \<Longrightarrow> cached t m c1 b = cached t m c b"
proof -
  have c1: "c1 = c\<lparr>wasm_table := (wasm_table c)(fidx := Some f)\<rparr>"
    and f: "0 < fidx" "wasm_table c fidx = None"
    using assms(1,4,5) by (auto simp: add_function_def Let_def alloc_ok_def)
  have live: "live_slots c1 = live_slots c" by (simp add: c1 live_slots_def)
  have neq: "inst_fidx (instance_running c i) \<noteq> fidx" if "i \<in> live_slots c" for i
    using assms(2) f that by (auto simp: cache_ok_def)
  show ok: "cache_ok c1"
    using assms(2) neq unfolding cache_ok_def live by (auto simp: c1)
  show "exports_ok t T m c1" using assms(3) by (simp add: exports_ok_def c1 slot_ptr_def)
  show "finite (dom (wasm_table c1))" using assms(4) by (simp add: c1)
  show "new_fidx c1 fidx" using f neq unfolding new_fidx_def live by (auto simp: c1)
  show "wasm_table c1 fidx = Some f" "instance_alive_local c1 = instance_alive_local c" by (simp_all add: c1)
  assume "b \<in> T" "b \<noteq> 0"
  from assms(3,2) this(1) show "cached t m c1 b = cached t m c b"
  proof (cases rule: exports_slot)
    case 1
    then show ?thesis by (simp add: cached_def)
  next
    case (2 idx)
    have "slot_ptr c1 idx = slot_ptr c idx" by (simp add: c1 slot_ptr_def)
    moreover have "inst_tb (instance_running c idx) = b \<Longrightarrow> idx \<in> live_slots c"
      using 2(1) \<open>b \<noteq> 0\<close> by (simp add: live_slots_def)
    ultimately show ?thesis
      using cached_slot [OF assms(2) 2(3,2)] cached_slot [OF ok, of m b t idx] 2 neq
      by (auto simp: c1)
  qed
qed

lemma table_ok_parts:
  assumes "table_ok t T n i alloc (m, s, c)"
  shows "headers_apart t T" "0 \<notin> T" "alloc_ok alloc" "cache_ok c" "exports_ok t T m c"
    "finite (dom (wasm_table c))" "core_slots (int n) (int i) t" "i < n" "n < 2 ^ 20" "headers_disjoint n T"
  using assms headers_disjoint_apart [of n T i t]
  by (auto simp: table_ok_def table_config_def headers_disjoint_def)

lemma table_ok_step:
  assumes "table_ok t T n i alloc (m, s, c)" "cache_ok c'" "exports_ok t T m' c'"
    "dom (wasm_table c') \<subseteq> dom (wasm_table c)"
  shows "table_ok t T n i alloc (m', s', c')"
  using assms finite_subset [OF assms(4)] by (simp add: table_ok_def)

lemma table_insert_ok:
  assumes "table_ok t T n i alloc (m, s, c)" "a \<in> T"
  obtains m' s' c' where "table_op t n alloc (Insert a f) (m, s, c) = Some (m', s', c')"
    "table_ok t T n i alloc (m', s', c')" "cached t m' c' a = Some f"
    "\<And>b. b \<in> T \<Longrightarrow> b \<noteq> a \<Longrightarrow> cached t m' c' b = cached t m c b \<or> cached t m' c' b = None"
proof -
  note p = table_ok_parts [OF assms(1)]
  obtain fidx c1 where af: "add_function alloc f c = (fidx, c1)" by fastforce
  note c1 = add_function_ok [OF p(3-6) af]
  obtain m' s' c' where
    add: "add_instance_running_local t fidx a m s c1 = Some (m', s', c')" "cache_ok c'" "exports_ok t T m' c'"
    "cached t m' c' a = wasm_table c1 fidx"
    "\<And>b. b \<in> T \<Longrightarrow> b \<noteq> a \<Longrightarrow> cached t m' c' b = cached t m c1 b \<or> cached t m' c' b = None"
    "dom (wasm_table c') \<subseteq> dom (wasm_table c1)"
    by (rule add_instance_ok [OF c1(1,2) p(1) assms(2) c1(4), of s]) blast
  have ok: "table_ok t T n i alloc (m', s', c')"
    using assms(1) add finite_subset [OF add(6) c1(3)] by (simp add: table_ok_def)
  have "cached t m c1 b = cached t m c b" if "b \<in> T" for b
    using c1(7) [OF that] p(2) that by (cases "b = 0") auto
  then show ?thesis using add(5)
    by (intro that [OF _ ok]) (simp_all add: add af c1(5))
qed

lemma table_lookup_ok:
  assumes "table_ok t T n i alloc (m, s, c)" "a \<in> T"
  obtains m' c' where "table_op t n alloc (Lookup a) (m, s, c) = Some (m', s, c')"
    "table_ok t T n i alloc (m', s, c')" "\<And>b. b \<in> T \<Longrightarrow> cached t m' c' b = cached t m c b"
proof -
  note p = table_ok_parts [OF assms(1)]
  obtain fidx m' c' where
    g: "get_instance_running_local t (tunables s) a m c = Some (fidx, m', c')" "cache_ok c'" "exports_ok t T m' c'"
      "\<And>b. b \<in> T \<Longrightarrow> cached t m' c' b = cached t m c b" and w: "wasm_table c' = wasm_table c"
    by (rule get_instance_ok [OF p(4,5,1) assms(2), of "tunables s"]) blast
  show ?thesis
    by (rule that [OF _ table_ok_step [OF assms(1) g(2,3)] g(4)]) (simp_all add: g(1) w)
qed

lemma table_evict_ok:
  assumes "table_ok t T n i alloc (m, s, c)"
  obtains s' c' where "table_op t n alloc Evict (m, s, c) = Some (m, s', c')"
    "table_ok t T n i alloc (m, s', c')"
    "\<And>b. b \<in> T \<Longrightarrow> cached t m c' b = cached t m c b \<or> cached t m c' b = None"
proof -
  note p = table_ok_parts [OF assms(1)]
  obtain es c' where
    r: "remove_instance_running_local s c
      = Some (s\<lparr>instance_alive_global := instance_alive_global s - int (evict_want c)\<rparr>, c')"
      "after_evict c es c'" "cache_ok c'"
    by (rule remove_instance_ok [OF p(4)]) blast
  note v = after_evict_view [OF p(4) r(3) p(5) r(2)]
  have "dom (wasm_table c') \<subseteq> dom (wasm_table c)"
    using r(2) by (auto simp: after_evict_def split: if_splits)
  from that [OF _ table_ok_step [OF assms(1) r(3) v(1) this] v(2)] show ?thesis by (simp add: r(1))
qed

lemma table_fresh_ok:
  assumes "table_ok t T n i alloc (m, s, c)" "a \<in> T"
  shows "table_ok t T n i alloc (tb_header_init n a m, s, c)"
    "b \<in> T \<Longrightarrow> cached t (tb_header_init n a m) c b = (if b = a then None else cached t m c b)"
proof -
  note p = table_ok_parts [OF assms(1)]
  note off = core_slot_offsets [OF p(7)]
  have r: "load32 (tb_header_init n a m) (b + of_int (export_vec_off t))
      = (if b = a then 0 else load32 m (b + of_int (export_vec_off t)))" if "b \<in> T" for b
    unfolding off using p(8-10) that assms(2) tb_header_init_self [of i n a m]
      tb_header_init_other [of b n a "8 + 4 * i" m]
    by (auto simp: headers_disjoint_def)
  show "b \<in> T \<Longrightarrow> cached t (tb_header_init n a m) c b = (if b = a then None else cached t m c b)"
    using r [of b] by (simp add: cached_def)
  have "exports_ok t T (tb_header_init n a m) c" using p(5) r by (auto simp: exports_ok_def Let_def)
  then show "table_ok t T n i alloc (tb_header_init n a m, s, c)"
    by (rule table_ok_step [OF assms(1) p(4)]) simp
qed

interpretation instances: code_cache T "table_ok t T n i alloc" "table_view t" "table_op t n alloc"
  for t :: thread_info and T n i and alloc :: "(int \<Rightarrow> 'f option) \<Rightarrow> int"
proof (unfold_locales, goal_cases)
  case (1 x op)
  obtain m s c where x: "x = (m, s, c)" by (metis prod_cases3)
  note ok = 1(1) [unfolded x]
  show ?case
  proof (cases op)
    case (Insert a f)
    with 1(2) have a: "a \<in> T" by simp
    obtain m' s' c' where
      *: "table_op t n alloc (Insert a f) (m, s, c) = Some (m', s', c')"
      "table_ok t T n i alloc (m', s', c')" "cached t m' c' a = Some f"
      "\<And>b. b \<in> T \<Longrightarrow> b \<noteq> a \<Longrightarrow> cached t m' c' b = cached t m c b \<or> cached t m' c' b = None"
      by (rule table_insert_ok [OF ok a, of f]) blast
    then show ?thesis unfolding x Insert
      by (intro exI [of _ "(m', s', c')"]) (auto simp: table_view_def simp del: table_op.simps)
  next
    case (Lookup a)
    with 1(2) have a: "a \<in> T" by simp
    obtain m' c' where *: "table_op t n alloc (Lookup a) (m, s, c) = Some (m', s, c')"
      "table_ok t T n i alloc (m', s, c')" "\<And>b. b \<in> T \<Longrightarrow> cached t m' c' b = cached t m c b"
      by (rule table_lookup_ok [OF ok a]) blast
    then show ?thesis unfolding x Lookup
      by (intro exI [of _ "(m', s, c')"]) (auto simp: table_view_def simp del: table_op.simps)
  next
    case Evict
    obtain s' c' where *: "table_op t n alloc Evict (m, s, c) = Some (m, s', c')"
      "table_ok t T n i alloc (m, s', c')"
      "\<And>b. b \<in> T \<Longrightarrow> cached t m c' b = cached t m c b \<or> cached t m c' b = None"
      by (rule table_evict_ok [OF ok]) blast
    then show ?thesis unfolding x Evict
      by (intro exI [of _ "(m, s', c')"]) (auto simp: table_view_def simp del: table_op.simps)
  next
    case (Fresh a)
    with 1(2) show ?thesis using table_fresh_ok [OF ok, of a] by (auto simp: x table_view_def)
  qed
next
  case (2 x a f x')
  obtain m s c where x: "x = (m, s, c)" by (metis prod_cases3)
  obtain m' s' c' where "table_op t n alloc (Insert a f) (m, s, c) = Some (m', s', c')"
    "cached t m' c' a = Some f"
    by (rule table_insert_ok [OF 2(1) [unfolded x] 2(2), of f]) blast
  with 2(3) show ?case by (auto simp: x table_view_def simp del: table_op.simps)
qed

lemma cache_init_ok:
  assumes "addr \<noteq> 0" "unat addr + 12 * SLOTS \<le> 2 ^ 32"
  shows "cache_ok (cache_init addr)"
  using assms by (auto simp: cache_ok_def cache_init_def live_slots_def)

section \<open>Properties\<close>

text \<open>
  C4.  A thread never runs stale code.  Start with an empty table and blocks whose headers are separate,
  and let blocks be compiled, looked up, evicted and replaced by new blocks at the same addresses in any
  order: no operation fails, and afterwards a lookup of any block finds either nothing or the function
  compiled last for the block now at that address, a function that has not been removed.  A block that was
  compiled just now is found.
\<close>

theorem compiled_code_current:
  assumes "table_config t T n i alloc" "addr \<noteq> 0" "unat addr + 12 * SLOTS \<le> 2 ^ 32"
    and "\<forall>a\<in>T. load32 m (a + of_int (export_vec_off t)) = 0"
    and "\<forall>op\<in>set ops. op_keys op \<subseteq> T"
  shows "\<exists>m' s' c'. cache_run (table_op t n alloc) ops (m, s, cache_init addr) = Some (m', s', c')
    \<and> (\<forall>a\<in>T. \<exists>fidx m'' c''. get_instance_running_local t (tunables s') a m' c' = Some (fidx, m'', c'')
         \<and> (fidx > 0 \<longrightarrow> wasm_table c'' fidx \<noteq> None \<and> wasm_table c'' fidx = latest ops Map.empty a)
         \<and> (\<forall>ops' f. ops = ops' @ [Insert a f] \<longrightarrow> fidx > 0))"
proof -
  let ?x = "(m, s, cache_init addr)"
  have ok: "table_ok t T n i alloc ?x"
    using assms(1,4) cache_init_ok [OF assms(2,3)]
    by (auto simp: table_ok_def exports_ok_def cache_init_def dom_def)
  have "\<forall>a\<in>T. table_view t ?x a = None" using assms(4) by (simp add: table_view_def cached_def)
  then obtain m' s' c' where
    run: "cache_run (table_op t n alloc) ops ?x = Some (m', s', c')" "table_ok t T n i alloc (m', s', c')"
      "\<forall>a\<in>T. cached t m' c' a = None \<or> cached t m' c' a = latest ops Map.empty a"
    using instances.run_sound [OF ok assms(5), of Map.empty] by (auto simp: table_view_def)
  note p = table_ok_parts [OF run(2)]
  have "\<exists>fidx m'' c''. get_instance_running_local t (tunables s') a m' c' = Some (fidx, m'', c'')
         \<and> (fidx > 0 \<longrightarrow> wasm_table c'' fidx \<noteq> None \<and> wasm_table c'' fidx = latest ops Map.empty a)
         \<and> (\<forall>ops' f. ops = ops' @ [Insert a f] \<longrightarrow> fidx > 0)" if a: "a \<in> T" for a
  proof -
    obtain fidx m'' c'' where g: "get_instance_running_local t (tunables s') a m' c' = Some (fidx, m'', c'')"
      "cached t m' c' a = (if fidx > 0 then wasm_table c'' fidx else None)"
      "fidx > 0 \<Longrightarrow> cached t m' c' a \<noteq> None"
      by (rule get_instance_ok [OF p(4,5,1) a, of "tunables s'"]) blast
    have "fidx > 0" if "ops = ops' @ [Insert a f]" for ops' f
      using instances.insert_hit [OF ok _ a, of ops' f "(m', s', c')"] run(1) g(2) assms(5) that
      by (auto simp: table_view_def split: if_splits)
    moreover have "fidx > 0 \<longrightarrow> wasm_table c'' fidx \<noteq> None \<and> wasm_table c'' fidx = latest ops Map.empty a"
      using g(2,3) run(3) [rule_format, OF a] by auto
    ultimately show ?thesis using g(1) by blast
  qed
  with run(1) show ?thesis by blast
qed

definition table_example_thread :: thread_info where
  "table_example_thread = \<lparr>initdone = True, cur_core_num = 0, export_vec_off = 8, counter_vec_off = 16,
     all_cores_num = 1\<rparr>"

definition next_fidx :: "(int \<Rightarrow> 'f option) \<Rightarrow> int" where
  "next_fidx w = Max (insert 0 (dom w)) + 1"

lemma next_fidx_ok: "alloc_ok next_fidx"
  unfolding alloc_ok_def
proof (intro allI impI conjI)
  fix w :: "int \<Rightarrow> 'a option" assume fin: "finite (dom w)"
  have le: "x \<le> Max (insert 0 (dom w))" if "x \<in> insert 0 (dom w)" for x
    using that fin by (intro Max_ge) auto
  from le [of 0] show "0 < next_fidx w" by (simp add: next_fidx_def)
  from le [of "next_fidx w"] show "w (next_fidx w) = None" by (cases "w (next_fidx w)") (auto simp: next_fidx_def dom_def)
qed

lemma table_example_config:
  "table_config table_example_thread {0x1000, 0x2000} 1 0 (next_fidx :: (int \<Rightarrow> bool option) \<Rightarrow> int)"
proof -
  have "disjoint_span (0 + of_nat 0x1000) 24 (0 + of_nat 0x2000) 24"
    "disjoint_span (0 + of_nat 0x2000) 24 (0 + of_nat 0x1000) 24"
    by (rule disjoint_span_same; simp)+
  then show ?thesis
    by (simp add: table_config_def next_fidx_ok headers_disjoint_def core_slots_def table_example_thread_def)
qed

theorem compiled_code_current_witness:
  "\<exists>m' s' c' fidx m'' c''.
     cache_run (table_op table_example_thread 1 next_fidx)
       [Insert 0x1000 True, Fresh 0x1000, Evict, Insert 0x2000 True, Insert 0x1000 False]
       (\<lambda>_. 0, \<lparr>tunables = tune_default, instance_alive_global = 0, bb_share_posted = 0\<rparr>, cache_init 0x10000)
       = Some (m', s', c')
     \<and> get_instance_running_local table_example_thread (tunables s') 0x1000 m' c' = Some (fidx, m'', c'')
     \<and> wasm_table c'' fidx = Some False"
proof -
  let ?ops = "[Insert 0x1000 True, Fresh 0x1000, Evict, Insert 0x2000 True] @ [Insert (0x1000 :: u32) False]"
  let ?s = "\<lparr>tunables = tune_default, instance_alive_global = 0, bb_share_posted = 0\<rparr>"
  have "\<exists>m' s' c'. cache_run (table_op table_example_thread 1 next_fidx) ?ops (\<lambda>_. 0, ?s, cache_init 0x10000)
      = Some (m', s', c')
    \<and> (\<forall>a\<in>{0x1000, 0x2000}. \<exists>fidx m'' c''.
         get_instance_running_local table_example_thread (tunables s') a m' c' = Some (fidx, m'', c'')
         \<and> (fidx > 0 \<longrightarrow> wasm_table c'' fidx \<noteq> None \<and> wasm_table c'' fidx = latest ?ops Map.empty a)
         \<and> (\<forall>ops' f. ?ops = ops' @ [Insert a f] \<longrightarrow> fidx > 0))"
    by (rule compiled_code_current [OF table_example_config]) (auto intro!: load32_zero)
  then obtain m' s' c' where
    1: "cache_run (table_op table_example_thread 1 next_fidx) ?ops (\<lambda>_. 0, ?s, cache_init 0x10000) = Some (m', s', c')"
    and 2: "\<forall>a\<in>{0x1000, 0x2000}. \<exists>fidx m'' c''.
         get_instance_running_local table_example_thread (tunables s') a m' c' = Some (fidx, m'', c'')
         \<and> (fidx > 0 \<longrightarrow> wasm_table c'' fidx \<noteq> None \<and> wasm_table c'' fidx = latest ?ops Map.empty a)
         \<and> (\<forall>ops' f. ?ops = ops' @ [Insert a f] \<longrightarrow> fidx > 0)"
    by (elim exE conjE)
  from bspec [OF 2 insertI1] obtain fidx m'' c'' where
    g: "get_instance_running_local table_example_thread (tunables s') 0x1000 m' c' = Some (fidx, m'', c'')"
    and f: "fidx > 0 \<longrightarrow> wasm_table c'' fidx \<noteq> None \<and> wasm_table c'' fidx = latest ?ops Map.empty 0x1000"
    and pos: "\<forall>ops' f. ?ops = ops' @ [Insert 0x1000 f] \<longrightarrow> fidx > 0"
    by (elim exE conjE)
  have "fidx > 0" by (rule pos [rule_format]) (rule refl)
  with f have "wasm_table c'' fidx = Some False" by simp
  with 1 g show ?thesis by (simp del: cache_run.simps table_op.simps)
qed

text \<open>
  C12.  Eviction frees what it is asked for.  On a well-formed table the sweep stays inside its arrays,
  frees exactly an eighth of the thread's instances (all of them below eight), takes them off the counts
  of the thread and of all threads, removes their functions, and leaves a well-formed table.  An instance
  that ran since the last sweep is evicted only when too few others did not.
\<close>

theorem eviction_exact:
  assumes "cache_ok c"
  shows "\<exists>s' c'. remove_instance_running_local s c = Some (s', c') \<and> cache_ok c'
    \<and> live_slots c' \<subseteq> live_slots c
    \<and> int (card (live_slots c - live_slots c'))
        = (if instance_running_local c < 8 then instance_running_local c else instance_running_local c div 8)
    \<and> instance_alive_global s - instance_alive_global s' = int (card (live_slots c - live_slots c'))
    \<and> instance_running_local c' = int (card (live_slots c'))
    \<and> (\<forall>j\<in>live_slots c - live_slots c'. wasm_table c' (inst_fidx (instance_running c j)) = None
        \<and> (inst_used (instance_running c j) \<noteq> 0 \<longrightarrow>
             card {k \<in> live_slots c. inst_used (instance_running c k) = 0}
               < card (live_slots c - live_slots c')))"
proof -
  obtain es c' where r: "remove_instance_running_local s c
      = Some (s\<lparr>instance_alive_global := instance_alive_global s - int (evict_want c)\<rparr>, c')"
    "after_evict c es c'" "cache_ok c'"
    "(\<forall>j\<in>set es. inst_used (instance_running c j) = 0)
      \<or> card {j \<in> live_slots c. inst_used (instance_running c j) = 0} < evict_want c"
    by (rule remove_instance_ok [OF assms, of s])
  have es: "distinct es" "set es \<subseteq> live_slots c" "length es = evict_want c"
    using r(2) by (auto simp: after_evict_def)
  have gone: "live_slots c - live_slots c' = set es" using after_evict_live [OF r(2)] es(2) by auto
  have "card (set es) = evict_want c" using es by (simp add: distinct_card)
  moreover have "int (evict_want c)
      = (if instance_running_local c < 8 then instance_running_local c else instance_running_local c div 8)"
    using assms by (auto simp: evict_want_def cache_ok_def Let_def)
  moreover have "wasm_table c' (inst_fidx (instance_running c j)) = None" if "j \<in> set es" for j
    using r(2) that by (simp add: after_evict_def)
  moreover have "instance_running_local c' = int (card (live_slots c'))"
    using r(3) by (simp add: cache_ok_def)
  moreover have "live_slots c' \<subseteq> live_slots c" using after_evict_live [OF r(2)] by auto
  ultimately show ?thesis using r(1,3,4)
    by (intro exI [of _ "s\<lparr>instance_alive_global := instance_alive_global s - int (evict_want c)\<rparr>"]
        exI [of _ c']) (auto simp: gone)
qed

definition one_instance :: "bool cache" where
  "one_instance = (cache_init 0x10000)
     \<lparr>instance_running := (\<lambda>_. \<lparr>inst_tb = 0x1000, inst_fidx = 5, inst_used = 1\<rparr>), instance_slots_hw := 1,
      instance_running_local := 1, instance_alive_local := 1, wasm_table := [5 \<mapsto> True]\<rparr>"

theorem eviction_exact_witness:
  "\<exists>s' c'. remove_instance_running_local
       \<lparr>tunables = tune_default, instance_alive_global = 3, bb_share_posted = 0\<rparr> one_instance = Some (s', c')
     \<and> cache_ok c' \<and> live_slots c' = {} \<and> wasm_table c' 5 = None \<and> instance_alive_global s' = 2"
proof -
  let ?s = "\<lparr>tunables = tune_default, instance_alive_global = 3, bb_share_posted = 0\<rparr>"
  have live: "live_slots one_instance = {0}" by (auto simp: live_slots_def one_instance_def)
  have "cache_ok one_instance"
    unfolding cache_ok_def live by (auto simp: one_instance_def cache_init_def)
  from eviction_exact [OF this, of ?s, unfolded live] obtain s' c' where
    r: "remove_instance_running_local ?s one_instance = Some (s', c')" "cache_ok c'"
      "live_slots c' \<subseteq> {0}"
      "int (card ({0} - live_slots c')) = (if instance_running_local one_instance < 8
         then instance_running_local one_instance else instance_running_local one_instance div 8)"
      "instance_alive_global ?s - instance_alive_global s' = int (card ({0} - live_slots c'))"
      "\<forall>j\<in>{0} - live_slots c'. wasm_table c' (inst_fidx (instance_running one_instance j)) = None"
    by blast
  have "live_slots c' = {}" using r(3,4) by (auto simp: one_instance_def)
  with r show ?thesis by (intro exI [of _ s'] exI [of _ c']) (simp add: one_instance_def)
qed

end
