(* ===== verification/Dispatcher.thy ===== *)
theory Dispatcher
  imports Complex_Main TCI_Hot Instance_Table
begin

text \<open>
  The loop that runs translated blocks: \<open>tcg_qemu_tb_exec\<close> and \<open>trysleep\<close> of \<open>tcg/wasm32.c\<close>.

  \<^item> \<open>vcpu\<close> is the state of a vCPU thread: the interpreter's \<open>machine\<close>, the variables all threads share,
    the thread's table of compiled blocks, the counters of \<open>trysleep\<close> and two fields of \<open>ctx\<close>.
  \<^item> \<open>backend\<close> holds the functions outside this component: running a compiled module, the JavaScript
    engine's compiler with the modules other threads posted, re-translating a block, the clock and the
    two ways to return to the worker's event loop.
  \<^item> \<open>turn\<close> is one run of the loop's body. \<open>Broken\<close> is a trap (a call of an empty table entry), an access
    outside an array, or an assertion of the interpreter.
\<close>

section \<open>State\<close>

record ('f, 'w) vcpu =
  vmach :: "'w machine"
  vshared :: shared
  vcache :: "'f cache"
  exec_cnt :: int
  bb_share_seen :: u32
  bb_share_last_yield :: real
  ctx_do_init :: u32
  ctx_chain_budget :: int

datatype 'v run = Ran u32 'v | Jumped 'v | Broken

record ('f, 'w) backend =
  run_wasm :: "'f \<Rightarrow> ('f, 'w) vcpu \<Rightarrow> ('f, 'w) vcpu run"
  bb_share_has :: "u32 \<Rightarrow> u32 \<Rightarrow> ('f, 'w) vcpu \<Rightarrow> bool"
  wasm_module :: "u32 \<Rightarrow> u32 \<Rightarrow> bool \<Rightarrow> ('f, 'w) vcpu \<Rightarrow> 'f option \<times> ('f, 'w) vcpu"
  bb_tb_regen_wasm :: "u32 \<Rightarrow> ('f, 'w) vcpu \<Rightarrow> u32 \<times> ('f, 'w) vcpu"
  bb_tb_flush_gen :: "('f, 'w) vcpu \<Rightarrow> u32"
  bb_clock_ms :: "('f, 'w) vcpu \<Rightarrow> real"
  bb_yield_js :: "('f, 'w) vcpu \<Rightarrow> ('f, 'w) vcpu"
  emscripten_sleep :: "('f, 'w) vcpu \<Rightarrow> ('f, 'w) vcpu"
  add_function_index :: "(int \<Rightarrow> 'f option) \<Rightarrow> int"

definition MAX_EXEC_NUM :: int where "MAX_EXEC_NUM = 50000"

abbreviation vmem :: "('f, 'w) vcpu \<Rightarrow> memory" where
  "vmem v \<equiv> mem (vmach v)"

abbreviation vtb :: "('f, 'w) vcpu \<Rightarrow> u32" where
  "vtb v \<equiv> ctx_tb_ptr (vmach v)"

abbreviation vtune :: "('f, 'w) vcpu \<Rightarrow> bootbox_tune" where
  "vtune v \<equiv> tunables (vshared v)"

definition set_vmem :: "memory \<Rightarrow> ('f, 'w) vcpu \<Rightarrow> ('f, 'w) vcpu" where
  "set_vmem mm v = v\<lparr>vmach := set_mem mm (vmach v)\<rparr>"

definition set_vtb :: "u32 \<Rightarrow> ('f, 'w) vcpu \<Rightarrow> ('f, 'w) vcpu" where
  "set_vtb p v = v\<lparr>vmach := (vmach v)\<lparr>ctx_tb_ptr := p\<rparr>\<rparr>"

section \<open>Yielding\<close>

definition take_posted :: "('f, 'w) backend \<Rightarrow> ('f, 'w) vcpu \<Rightarrow> ('f, 'w) vcpu" where
  "take_posted b v =
     (if bb_share_on (vtune v) \<and> exec_cnt v AND 2047 = 0
      then let p = bb_share_posted (vshared v)
           in if p - bb_share_seen v \<ge> 8
              then let now = bb_clock_ms b v
                   in if now - bb_share_last_yield v > 5
                      then bb_yield_js b (v\<lparr>bb_share_seen := p, bb_share_last_yield := now\<rparr>)
                      else v
              else v
      else v)"

definition trysleep :: "('f, 'w) backend \<Rightarrow> ('f, 'w) vcpu \<Rightarrow> ('f, 'w) vcpu" where
  "trysleep b v =
     (let v1 = take_posted b v;
          v2 = v1\<lparr>exec_cnt := exec_cnt v1 - 1\<rparr>
      in if exec_cnt v2 = 0
         then let v3 = (if \<not> can_add_instance (vshared v2)
                        then let v' = emscripten_sleep b v2
                             in v'\<lparr>vcache := check_instance_garbage_collected (vcache v')\<rparr>
                        else v2)
              in v3\<lparr>exec_cnt := MAX_EXEC_NUM\<rparr>
         else v2)"

section \<open>Compiling\<close>

text \<open>\<open>instantiate_wasm\<close>: 0 is the host's refusal.\<close>

definition instantiate_wasm ::
    "('f, 'w) backend \<Rightarrow> u32 \<Rightarrow> u32 \<Rightarrow> bool \<Rightarrow> ('f, 'w) vcpu \<Rightarrow> int \<times> ('f, 'w) vcpu" where
  "instantiate_wasm b key gen share v =
     (case wasm_module b key gen share v of
        (None, v') \<Rightarrow> (0, v')
      | (Some f, v') \<Rightarrow>
          let (fidx, c1) = add_function (add_function_index b) f (vcache v')
          in (fidx, v'\<lparr>vcache := c1\<rparr>))"

definition count_posted :: "bool \<Rightarrow> int \<Rightarrow> ('f, 'w) vcpu \<Rightarrow> ('f, 'w) vcpu" where
  "count_posted post fidx v =
     (if post \<and> fidx > 0
      then v\<lparr>vshared := (vshared v)\<lparr>bb_share_posted := bb_share_posted (vshared v) + 1\<rparr>\<rparr> else v)"

definition compile_tb ::
    "('f, 'w) backend \<Rightarrow> thread_info \<Rightarrow> ('f, 'w) vcpu \<Rightarrow> int \<times> ('f, 'w) vcpu" where
  "compile_tb b t v =
     (let tb = vtb v;
          body = tb + load32 (vmem v) tb;
          gen = bb_tb_flush_gen b v;
          key = tb
      in if bb_share_on (vtune v) \<and> bb_share_has b key gen v
         then instantiate_wasm b key gen True v
         else if load32 (vmem v) (body + load32 (vmem v) (body - 4)) = 0
         then let live = tb;
                  (copy, v1) = bb_tb_regen_wasm b live v
              in if copy \<noteq> 0
                 then let v2 = set_vtb copy v1;
                          post = (bb_share_on (vtune v2) \<and> tb_run_elsewhere t (vmem v2) live);
                          (fidx, v3) = instantiate_wasm b key gen post v2
                      in (fidx, count_posted post fidx (set_vtb live v3))
                 else (- 1, v1)
         else let post = (bb_share_on (vtune v) \<and> tb_run_elsewhere t (vmem v) tb);
                  (fidx, v1) = instantiate_wasm b key gen post v
              in (fidx, count_posted post fidx v1))"

section \<open>Running\<close>

definition call_wasm :: "('f, 'w) backend \<Rightarrow> int \<Rightarrow> ('f, 'w) vcpu \<Rightarrow> ('f, 'w) vcpu run" where
  "call_wasm b fidx v =
     (case wasm_table (vcache v) fidx of
        None \<Rightarrow> Broken
      | Some f \<Rightarrow> run_wasm b f (v\<lparr>ctx_chain_budget := wasm_chain_budget (vtune v)\<rparr>))"

text \<open>\<^const>\<open>None\<close>: the fuel of the interpreter ran out.\<close>

definition call_tci :: "'w tci_env \<Rightarrow> nat \<Rightarrow> ('f, 'w) vcpu \<Rightarrow> ('f, 'w) vcpu run option" where
  "call_tci e fuel v =
     (case tci_exec (e\<lparr>tune := vtune v\<rparr>) fuel (vmach v) of
        None \<Rightarrow> None
      | Some (Leave res m') \<Rightarrow> Some (Ran res (v\<lparr>vmach := m'\<rparr>))
      | Some (Unwound m') \<Rightarrow> Some (Jumped (v\<lparr>vmach := m'\<rparr>))
      | Some _ \<Rightarrow> Some Broken)"

definition counter_ptr :: "thread_info \<Rightarrow> u32 \<Rightarrow> u32" where
  "counter_ptr t tb_ptr = tb_ptr + of_int (counter_vec_off t)"

definition store_counter :: "thread_info \<Rightarrow> u32 \<Rightarrow> u32 \<Rightarrow> ('f, 'w) vcpu \<Rightarrow> ('f, 'w) vcpu" where
  "store_counter t tb x v = set_vmem (store32 (vmem v) (counter_ptr t tb) x) v"

text \<open>The host refused: settle the cap under the live count, restart the counter, evict, interpret.\<close>

definition settle_cap :: "shared \<Rightarrow> shared" where
  "settle_cap s =
     (let alive = instance_alive_global s;
          cap = max MAX_INSTANCE_ALIVE (alive - alive div 8)
      in if cap < wasm_max_instance_alive (tunables s)
         then s\<lparr>tunables := (tunables s)\<lparr>wasm_max_instance_alive := cap\<rparr>\<rparr> else s)"

definition evict_and_interpret ::
    "'w tci_env \<Rightarrow> nat \<Rightarrow> ('f cache \<Rightarrow> 'f cache) \<Rightarrow> ('f, 'w) vcpu \<Rightarrow> ('f, 'w) vcpu run option" where
  "evict_and_interpret e fuel gc v =
     (case remove_instance_running_local (vshared v) (vcache v) of
        None \<Rightarrow> Some Broken
      | Some (s', c') \<Rightarrow> call_tci e fuel (v\<lparr>vshared := s', vcache := gc c'\<rparr>))"

definition after_compile ::
    "('f, 'w) backend \<Rightarrow> 'w tci_env \<Rightarrow> nat \<Rightarrow> int \<times> ('f, 'w) vcpu \<Rightarrow> u32 \<Rightarrow> ('f, 'w) vcpu run option" where
  "after_compile b e fuel r tb =
     (let (fidx, v) = r; t = thread e
      in if fidx = - 1 then call_tci e fuel (store_counter t tb 0 v)
         else if fidx > 0 then
           (case add_instance_running_local t fidx (vtb v) (vmem v) (vshared v) (vcache v) of
              None \<Rightarrow> Some Broken
            | Some (mm, s', c') \<Rightarrow> Some (call_wasm b fidx (set_vmem mm (v\<lparr>vshared := s', vcache := c'\<rparr>))))
         else
           evict_and_interpret e fuel id
             (store_counter t tb 0 (v\<lparr>vshared := settle_cap (vshared v)\<rparr>)))"

definition turn ::
    "('f, 'w) backend \<Rightarrow> 'w tci_env \<Rightarrow> nat \<Rightarrow> ('f, 'w) vcpu \<Rightarrow> ('f, 'w) vcpu run option" where
  "turn b e fuel v0 =
     (let v = trysleep b v0; t = thread e; tb = vtb v
      in case get_instance_running_local t (vtune v) tb (vmem v) (vcache v) of
           None \<Rightarrow> Some Broken
         | Some (fidx, mm, c1) \<Rightarrow>
             let v1 = set_vmem mm (v\<lparr>vcache := c1\<rparr>);
                 cnt = load32 (vmem v1) (counter_ptr t tb)
             in if fidx > 0 then Some (call_wasm b fidx v1)
                else if tb_wants_tci (vtune v1) t (vmem v1) cnt tb
                then call_tci e fuel (store_counter t tb (cnt + 1) v1)
                else if \<not> can_add_instance (vshared v1)
                then evict_and_interpret e fuel check_instance_garbage_collected v1
                else after_compile b e fuel (compile_tb b t v1) tb)"

text \<open>The loop: it returns when a block leaves no successor.\<close>

fun tb_exec_loop ::
    "('f, 'w) backend \<Rightarrow> 'w tci_env \<Rightarrow> nat \<Rightarrow> ('f, 'w) vcpu \<Rightarrow> ('f, 'w) vcpu run option" where
  "tb_exec_loop b e 0 v = None"
| "tb_exec_loop b e (Suc fuel) v =
     (case turn b e fuel v of
        Some (Ran res v') \<Rightarrow> if vtb v' = 0 then Some (Ran res v') else tb_exec_loop b e fuel v'
      | r \<Rightarrow> r)"

definition tcg_qemu_tb_exec ::
    "('f, 'w) backend \<Rightarrow> 'w tci_env \<Rightarrow> nat \<Rightarrow> u32 \<Rightarrow> ('f, 'w) vcpu \<Rightarrow> ('f, 'w) vcpu run option" where
  "tcg_qemu_tb_exec b e fuel tb v =
     tb_exec_loop b e fuel ((set_vtb tb v)\<lparr>ctx_do_init := 1\<rparr>)"

section \<open>Invariant\<close>

text \<open>
  What the loop relies on (\<open>vinv\<close>): the thread's table is well formed, and the machine satisfies \<open>J\<close>,
  which stands for what the code it runs needs (the blocks hold the code that was translated).
  \<open>backend_ok\<close>: the outside functions keep this, \<open>J\<close> does not depend on the header words this
  component writes, and only running a block changes which block is next.
\<close>

abbreviation vtable :: "('f, 'w) vcpu \<Rightarrow> 'f table" where
  "vtable v \<equiv> (vmem v, vshared v, vcache v)"

definition vinv ::
    "('f, 'w) backend \<Rightarrow> thread_info \<Rightarrow> u32 set \<Rightarrow> nat \<Rightarrow> nat \<Rightarrow> ('w machine \<Rightarrow> bool) \<Rightarrow> ('f, 'w) vcpu \<Rightarrow> bool" where
  "vinv b t T n i J v \<longleftrightarrow> table_ok t T n i (add_function_index b) (vtable v) \<and> J (vmach v)"

definition vcpu_ok ::
    "('f, 'w) backend \<Rightarrow> thread_info \<Rightarrow> u32 set \<Rightarrow> nat \<Rightarrow> nat \<Rightarrow> ('w machine \<Rightarrow> bool) \<Rightarrow> ('f, 'w) vcpu \<Rightarrow> bool" where
  "vcpu_ok b t T n i J v \<longleftrightarrow> vinv b t T n i J v \<and> vtb v \<in> insert 0 T"

fun run_ok :: "('v \<Rightarrow> bool) \<Rightarrow> 'v run \<Rightarrow> bool" where
  "run_ok P (Ran res v) = P v"
| "run_ok P (Jumped v) = P v"
| "run_ok P Broken = False"

definition code_stable :: "thread_info \<Rightarrow> u32 set \<Rightarrow> ('w machine \<Rightarrow> bool) \<Rightarrow> bool" where
  "code_stable t T J \<longleftrightarrow> (\<forall>m. J m \<longrightarrow> (\<forall>p. J (m\<lparr>ctx_tb_ptr := p\<rparr>))
     \<and> (\<forall>a\<in>T. \<forall>x. J (set_mem (store32 (mem m) (a + of_int (export_vec_off t)) x) m)
          \<and> J (set_mem (store32 (mem m) (a + of_int (counter_vec_off t)) x) m)))"

definition backend_ok ::
    "('f, 'w) backend \<Rightarrow> 'w tci_env \<Rightarrow> u32 set \<Rightarrow> nat \<Rightarrow> nat \<Rightarrow> ('w machine \<Rightarrow> bool) \<Rightarrow> bool" where
  "backend_ok b e T n i J \<longleftrightarrow> code_stable (thread e) T J \<and> (\<forall>v. vinv b (thread e) T n i J v \<longrightarrow>
     (vtb v \<in> T \<longrightarrow> (\<forall>f. run_ok (vcpu_ok b (thread e) T n i J) (run_wasm b f v))
        \<and> (\<forall>fuel r. call_tci e fuel v = Some r \<longrightarrow> run_ok (vcpu_ok b (thread e) T n i J) r))
     \<and> (\<forall>v'\<in>{bb_yield_js b v, emscripten_sleep b v} \<union> range (\<lambda>live. snd (bb_tb_regen_wasm b live v))
            \<union> range (\<lambda>(key, gen, share). snd (wasm_module b key gen share v)).
          vtb v' = vtb v \<and> vinv b (thread e) T n i J v'))"

lemma backend_okD:
  assumes "backend_ok b e T n i J" "vinv b (thread e) T n i J v"
  shows "vtb v \<in> T \<Longrightarrow> run_ok (vcpu_ok b (thread e) T n i J) (run_wasm b f v)"
    "vtb v \<in> T \<Longrightarrow> call_tci e fuel v = Some r \<Longrightarrow> run_ok (vcpu_ok b (thread e) T n i J) r"
    "wasm_module b key gen share v = (fo, v') \<Longrightarrow> vtb v' = vtb v \<and> vinv b (thread e) T n i J v'"
    "bb_tb_regen_wasm b live v = (p, v') \<Longrightarrow> vtb v' = vtb v \<and> vinv b (thread e) T n i J v'"
    "vtb (bb_yield_js b v) = vtb v \<and> vinv b (thread e) T n i J (bb_yield_js b v)"
    "vtb (emscripten_sleep b v) = vtb v \<and> vinv b (thread e) T n i J (emscripten_sleep b v)"
proof -
  let ?ok = "\<lambda>v'. vtb v' = vtb v \<and> vinv b (thread e) T n i J v'"
  note ok = assms(1) [unfolded backend_ok_def, THEN conjunct2, rule_format, OF assms(2)]
  note h = ok [THEN conjunct1] and o = ok [THEN conjunct2, rule_format]
  from h show "vtb v \<in> T \<Longrightarrow> run_ok (vcpu_ok b (thread e) T n i J) (run_wasm b f v)"
    "vtb v \<in> T \<Longrightarrow> call_tci e fuel v = Some r \<Longrightarrow> run_ok (vcpu_ok b (thread e) T n i J) r" by blast+
  show "?ok (bb_yield_js b v)" "?ok (emscripten_sleep b v)" by (rule o; simp)+
  show "?ok v'" if "wasm_module b key gen share v = (fo, v')"
    by (rule o) (use that in \<open>force intro!: image_eqI [of _ _ "(key, gen, share)"]\<close>)
  show "?ok v'" if "bb_tb_regen_wasm b live v = (p, v')"
    by (rule o) (use that in \<open>force intro!: image_eqI [of _ _ live]\<close>)
qed

lemma set_mem_simps [simp]:
  "mem (set_mem mm m) = mm" "ctx_tb_ptr (set_mem mm m) = ctx_tb_ptr m"
  "set_mem mm' (set_mem mm m) = set_mem mm' m" "set_mem (mem m) m = m"
  by (simp_all add: set_mem_def)

lemma set_vmem_simps [simp]:
  "vshared (set_vmem mm v) = vshared v" "vcache (set_vmem mm v) = vcache v"
  "vmach (set_vmem mm v) = set_mem mm (vmach v)"
  "vshared (set_vtb p v) = vshared v" "vcache (set_vtb p v) = vcache v"
  "vmach (set_vtb p v) = (vmach v)\<lparr>ctx_tb_ptr := p\<rparr>"
  by (simp_all add: set_vmem_def set_vtb_def set_mem_def)

lemma table_ok_shared [simp]:
  "table_ok t T n i alloc (m, s\<lparr>bb_share_posted := p\<rparr>, c) = table_ok t T n i alloc (m, s, c)"
  "table_ok t T n i alloc (m, settle_cap s, c) = table_ok t T n i alloc (m, s, c)"
  by (simp_all add: table_ok_def settle_cap_def)

lemma table_ok_gc [simp]:
  "table_ok t T n i alloc (m, s, check_instance_garbage_collected c) = table_ok t T n i alloc (m, s, c)"
  by (simp add: table_ok_def check_instance_garbage_collected_def cache_ok_def live_slots_def exports_ok_def
      slot_ptr_def)

text \<open>Updates of the thread's state that keep the invariant.\<close>

lemma vinv_simps [simp]:
  "vinv b t T n i J (v\<lparr>exec_cnt := k\<rparr>) = vinv b t T n i J v"
  "vinv b t T n i J (v\<lparr>bb_share_seen := x, bb_share_last_yield := y\<rparr>) = vinv b t T n i J v"
  "vinv b t T n i J (v\<lparr>ctx_chain_budget := k\<rparr>) = vinv b t T n i J v"
  "vinv b t T n i J (v\<lparr>ctx_do_init := d\<rparr>) = vinv b t T n i J v"
  "vinv b t T n i J (v\<lparr>vshared := settle_cap (vshared v)\<rparr>) = vinv b t T n i J v"
  "vinv b t T n i J (v\<lparr>vcache := check_instance_garbage_collected (vcache v)\<rparr>) = vinv b t T n i J v"
  by (simp_all add: vinv_def)

lemma backend_stable:
  assumes "backend_ok b e T n i J" "J m"
  shows "J (m\<lparr>ctx_tb_ptr := p\<rparr>)"
    "a \<in> T \<Longrightarrow> J (set_mem (store32 (mem m) (a + of_int (export_vec_off (thread e))) x) m)"
    "a \<in> T \<Longrightarrow> J (set_mem (store32 (mem m) (a + of_int (counter_vec_off (thread e))) x) m)"
proof -
  have "code_stable (thread e) T J" using assms(1) unfolding backend_ok_def by (rule conjunct1)
  then show "J (m\<lparr>ctx_tb_ptr := p\<rparr>)"
    "a \<in> T \<Longrightarrow> J (set_mem (store32 (mem m) (a + of_int (export_vec_off (thread e))) x) m)"
    "a \<in> T \<Longrightarrow> J (set_mem (store32 (mem m) (a + of_int (counter_vec_off (thread e))) x) m)"
    using assms(2) by (simp_all add: code_stable_def)
qed

lemma vinv_set_vtb:
  assumes "backend_ok b e T n i J" "vinv b (thread e) T n i J v"
  shows "vinv b (thread e) T n i J (set_vtb p v)"
  using assms(2) backend_stable(1) [OF assms(1)] by (simp add: vinv_def)

lemma counter_keeps_exports:
  assumes "table_ok t T n i alloc (m, s, c)" "tb \<in> T"
  shows "table_ok t T n i alloc (store32 m (counter_ptr t tb) x, s, c)"
proof -
  note p = table_ok_parts [OF assms(1)]
  have r: "load32 (store32 m (counter_ptr t tb) x) (b + of_int (export_vec_off t))
      = load32 m (b + of_int (export_vec_off t))" if "b \<in> T" for b
    using p(1) assms(2) that by (simp add: headers_apart_def counter_ptr_def memory)
  have "exports_ok t T (store32 m (counter_ptr t tb) x) c"
    using p(5) by (simp add: exports_ok_def r)
  then show ?thesis by (rule table_ok_step [OF assms(1) p(4)]) simp
qed

lemma vinv_store_counter:
  assumes "backend_ok b e T n i J" "vinv b (thread e) T n i J v" "tb \<in> T"
  shows "vinv b (thread e) T n i J (store_counter (thread e) tb x v)"
proof -
  have "J (set_mem (store32 (vmem v) (counter_ptr (thread e) tb) x) (vmach v))"
    using assms(2,3) backend_stable(3) [OF assms(1)] by (simp add: vinv_def counter_ptr_def)
  then show ?thesis
    using counter_keeps_exports [of "thread e" T n i "add_function_index b"] assms(2,3)
    by (simp add: vinv_def store_counter_def)
qed

lemma vtb_store_counter [simp]: "vtb (store_counter t tb x v) = vtb v"
  by (simp add: store_counter_def)

lemma vinv_memory:
  assumes "backend_ok b e T n i J" "vinv b (thread e) T n i J v" "tb \<in> T"
    "table_ok (thread e) T n i (add_function_index b) (mm, vshared v', vcache v')" "vmach v' = vmach v"
    "mm = vmem v \<or> (\<exists>x. mm = store32 (vmem v) (tb + of_int (export_vec_off (thread e))) x)
      \<or> (\<exists>x y. mm = store32 (store32 (vmem v) (tb + of_int (export_vec_off (thread e))) x)
            (tb + of_int (counter_vec_off (thread e))) y)"
  shows "vinv b (thread e) T n i J (set_vmem mm v')"
proof -
  note st = backend_stable(2,3) [OF assms(1) _ assms(3)]
  have j: "J (vmach v)" using assms(2) by (simp add: vinv_def)
  have "J (set_mem mm (vmach v))"
    using assms(6) j st(1) [OF j] st(2) [OF st(1) [OF j]] by auto
  then show ?thesis using assms(4,5) by (simp add: vinv_def)
qed

lemma trysleep_ok:
  assumes "backend_ok b e T n i J" "vinv b (thread e) T n i J v"
  shows "vtb (trysleep b v) = vtb v" "vinv b (thread e) T n i J (trysleep b v)"
proof -
  let ?ok = "\<lambda>v'. vtb v' = vtb v \<and> vinv b (thread e) T n i J v'"
  have tp: "?ok (take_posted b v)"
    using backend_okD(5) [OF assms(1), where v = "v\<lparr>bb_share_seen := bb_share_posted (vshared v),
        bb_share_last_yield := bb_clock_ms b v\<rparr>"] assms(2)
    by (simp add: take_posted_def Let_def)
  have "?ok (emscripten_sleep b ((take_posted b v)\<lparr>exec_cnt := k\<rparr>))" for k
    using backend_okD(6) [OF assms(1), where v = "(take_posted b v)\<lparr>exec_cnt := k\<rparr>"] tp by simp
  with tp have "?ok (trysleep b v)" by (simp add: trysleep_def Let_def)
  then show "vtb (trysleep b v) = vtb v" "vinv b (thread e) T n i J (trysleep b v)" by simp_all
qed

lemma get_instance_mem:
  assumes "get_instance_running_local t tn a m c = Some (fidx, mm, c')"
  shows "mm = m \<or> (\<exists>x y. mm = store32 (store32 m (a + of_int (export_vec_off t)) x)
    (a + of_int (counter_vec_off t)) y)"
  using assms by (auto simp: get_instance_running_local_def Let_def split: if_splits option.splits)

lemma add_instance_mem:
  assumes "add_instance_running_local t fidx a m s c = Some (mm, s', c')"
  shows "\<exists>x. mm = store32 m (a + of_int (export_vec_off t)) x"
proof -
  have "\<exists>x. mm = store32 m (a + of_int (export_vec_off t)) x"
    if "add_slot t fidx a m s c = Some (mm, s', c')" for s c
    using that by (auto simp: add_slot_def Let_def split: if_splits prod.splits)
  then show ?thesis
    using assms by (auto simp: add_instance_running_local_def split: if_splits option.splits)
qed

text \<open>
  Compiling keeps the invariant and the current block; a positive index is a fresh function of the table.
\<close>

definition compiled_ok ::
    "('f, 'w) backend \<Rightarrow> thread_info \<Rightarrow> u32 set \<Rightarrow> nat \<Rightarrow> nat \<Rightarrow> ('w machine \<Rightarrow> bool) \<Rightarrow> ('f, 'w) vcpu
      \<Rightarrow> int \<times> ('f, 'w) vcpu \<Rightarrow> bool" where
  "compiled_ok b t T n i J v r = (case r of (fidx, v') \<Rightarrow>
     vtb v' = vtb v \<and> vinv b t T n i J v' \<and> (fidx = 0 \<or> fidx = - 1 \<or> new_fidx (vcache v') fidx))"

lemma instantiate_wasm_ok:
  assumes "backend_ok b e T n i J" "vinv b (thread e) T n i J v"
  shows "compiled_ok b (thread e) T n i J v (instantiate_wasm b key gen share v)"
    "fst (wasm_module b key gen share v) = Some f \<Longrightarrow> instantiate_wasm b key gen share v = (fidx, v') \<Longrightarrow>
       fidx > 0 \<and> wasm_table (vcache v') fidx = Some f"
proof -
  obtain fo v1 where m: "wasm_module b key gen share v = (fo, v1)" by (rule prod.exhaust)
  note v1 = backend_okD(3) [OF assms m]
  have tv1: "table_ok (thread e) T n i (add_function_index b) (vtable v1)" using v1 by (simp add: vinv_def)
  note p = table_ok_parts [OF tv1]
  show "compiled_ok b (thread e) T n i J v (instantiate_wasm b key gen share v)"
  proof (cases fo)
    case None
    then show ?thesis using v1 m by (simp add: instantiate_wasm_def compiled_ok_def)
  next
    case (Some f)
    obtain fidx c1 where af: "add_function (add_function_index b) f (vcache v1) = (fidx, c1)" by (rule prod.exhaust)
    from add_function_ok [OF p(3-6) af] v1 m Some af show ?thesis
      by (simp add: table_ok_def instantiate_wasm_def compiled_ok_def vinv_def)
  qed
  assume "fst (wasm_module b key gen share v) = Some f" "instantiate_wasm b key gen share v = (fidx, v')"
  then obtain c1 where af: "add_function (add_function_index b) f (vcache v1) = (fidx, c1)" "v' = v1\<lparr>vcache := c1\<rparr>"
    using m by (auto simp: instantiate_wasm_def split: prod.splits)
  from add_function_ok(4,5) [OF p(3-6) af(1)] af(2) show "fidx > 0 \<and> wasm_table (vcache v') fidx = Some f"
    by (simp add: new_fidx_def)
qed

lemma count_posted_simps [simp]:
  "vmach (count_posted post fidx v) = vmach v" "vcache (count_posted post fidx v) = vcache v"
  "table_ok t T n i alloc (m, vshared (count_posted post fidx v), c) = table_ok t T n i alloc (m, vshared v, c)"
  by (simp_all add: count_posted_def)

lemma compiled_ok_posted:
  "compiled_ok b t T n i J v (fidx, count_posted post fidx w) = compiled_ok b t T n i J v (fidx, w)"
  by (simp add: compiled_ok_def vinv_def)

text \<open>The three ways to a module: posted by another thread, from a re-translation, from the block itself.\<close>

lemma compile_tb_cases:
  assumes "bb_tb_regen_wasm b (vtb v) v = (copy, v1)"
    "instantiate_wasm b (vtb v) (bb_tb_flush_gen b v) True v = (f0, w0)"
    "instantiate_wasm b (vtb v) (bb_tb_flush_gen b v)
       (bb_share_on (vtune v) \<and> tb_run_elsewhere t (vmem v) (vtb v)) v = (f1, w1)"
    "instantiate_wasm b (vtb v) (bb_tb_flush_gen b v)
       (bb_share_on (vtune v1) \<and> tb_run_elsewhere t (vmem v1) (vtb v)) (set_vtb copy v1) = (f2, w2)"
  obtains "compile_tb b t v = (f0, w0)"
  | post where "compile_tb b t v = (f1, count_posted post f1 w1)"
  | "copy = 0" "compile_tb b t v = (- 1, v1)"
  | post where "compile_tb b t v = (f2, count_posted post f2 (set_vtb (vtb v) w2))"
proof (cases "bb_share_on (vtune v) \<and> bb_share_has b (vtb v) (bb_tb_flush_gen b v) v")
  case True
  then have "compile_tb b t v = (f0, w0)" by (simp add: compile_tb_def Let_def assms(2))
  then show ?thesis by (rule that(1))
next
  case False
  let ?body = "vtb v + load32 (vmem v) (vtb v)"
  show ?thesis
  proof (cases "load32 (vmem v) (?body + load32 (vmem v) (?body - 4)) = 0")
    case True
    show ?thesis
    proof (cases "copy = 0")
      case c0: True
      with True False have "compile_tb b t v = (- 1, v1)"
        unfolding compile_tb_def Let_def assms(1) prod.case by auto
      with c0 show ?thesis by (rule that(3))
    next
      case c1: False
      have "compile_tb b t v = (f2, count_posted (bb_share_on (vtune v1) \<and> tb_run_elsewhere t (vmem v1) (vtb v)) f2
          (set_vtb (vtb v) w2))"
        unfolding compile_tb_def Let_def assms(1) prod.case using True False c1 assms(4) by auto
      then show ?thesis by (rule that(4))
    qed
  next
    case nz: False
    have "compile_tb b t v = (f1, count_posted (bb_share_on (vtune v) \<and> tb_run_elsewhere t (vmem v) (vtb v)) f1 w1)"
      unfolding compile_tb_def Let_def using False nz assms(3) by auto
    then show ?thesis by (rule that(2))
  qed
qed

lemma compile_tb_ok:
  assumes "backend_ok b e T n i J" "vinv b (thread e) T n i J v"
  shows "compiled_ok b (thread e) T n i J v (compile_tb b (thread e) v)"
    "\<lbrakk>\<And>gen share w. fst (wasm_module b (vtb v) gen share w) = Some f;
      \<And>w. fst (bb_tb_regen_wasm b (vtb v) w) \<noteq> 0; compile_tb b (thread e) v = (fidx, v')\<rbrakk> \<Longrightarrow>
       fidx > 0 \<and> wasm_table (vcache v') fidx = Some f"
proof -
  let ?gen = "bb_tb_flush_gen b v"
  obtain copy v1 where r: "bb_tb_regen_wasm b (vtb v) v = (copy, v1)" by (rule prod.exhaust)
  note v1 = backend_okD(4) [OF assms r]
  note v2 = vinv_set_vtb [OF assms(1) v1 [THEN conjunct2], of copy]
  obtain f0 w0 where w0: "instantiate_wasm b (vtb v) ?gen True v = (f0, w0)" by (rule prod.exhaust)
  obtain f1 w1 where w1: "instantiate_wasm b (vtb v) ?gen
      (bb_share_on (vtune v) \<and> tb_run_elsewhere (thread e) (vmem v) (vtb v)) v = (f1, w1)" by (rule prod.exhaust)
  obtain f2 w2 where w2: "instantiate_wasm b (vtb v) ?gen
      (bb_share_on (vtune v1) \<and> tb_run_elsewhere (thread e) (vmem v1) (vtb v)) (set_vtb copy v1) = (f2, w2)"
    by (rule prod.exhaust)
  note inst = instantiate_wasm_ok [OF assms(1)]
  have "compiled_ok b (thread e) T n i J (set_vtb copy v1) (f2, w2)"
    unfolding w2 [symmetric] by (rule inst(1) [OF v2])
  then have c2: "compiled_ok b (thread e) T n i J v (f2, set_vtb (vtb v) w2)"
    using vinv_set_vtb [OF assms(1), of w2 "vtb v"] by (simp add: compiled_ok_def)
  note cs = compile_tb_cases [OF r w0 w1 w2]
  show "compiled_ok b (thread e) T n i J v (compile_tb b (thread e) v)"
  proof (cases rule: cs)
    case 1
    then show ?thesis using inst(1) [OF assms(2), of "vtb v" ?gen True] w0 by simp
  next
    case (2 post)
    show ?thesis unfolding 2 compiled_ok_posted w1 [symmetric] by (rule inst(1) [OF assms(2)])
  next
    case 3
    then show ?thesis using v1 by (simp add: compiled_ok_def)
  next
    case (4 post)
    show ?thesis unfolding 4 compiled_ok_posted by (rule c2)
  qed
  assume some: "\<And>gen share w. fst (wasm_module b (vtb v) gen share w) = Some f"
    and copy: "\<And>w. fst (bb_tb_regen_wasm b (vtb v) w) \<noteq> 0" and c: "compile_tb b (thread e) v = (fidx, v')"
  note i0 = inst(2) [OF assms(2) some w0] and i1 = inst(2) [OF assms(2) some w1] and i2 = inst(2) [OF v2 some w2]
  have "copy \<noteq> 0" using copy [of v] r by simp
  then show "fidx > 0 \<and> wasm_table (vcache v') fidx = Some f"
    by (rule_tac cs) (use c i0 i1 i2 in auto)
qed

text \<open>The last steps of a turn.\<close>

lemma call_wasm_ok:
  assumes "backend_ok b e T n i J" "vinv b (thread e) T n i J v" "wasm_table (vcache v) fidx \<noteq> None" "vtb v \<in> T"
  shows "run_ok (vcpu_ok b (thread e) T n i J) (call_wasm b fidx v)"
  using backend_okD(1) [OF assms(1), where v = "v\<lparr>ctx_chain_budget := wasm_chain_budget (vtune v)\<rparr>"] assms(2-4)
  by (auto simp: call_wasm_def)

lemma evict_and_interpret_ok:
  assumes "backend_ok b e T n i J" "vinv b (thread e) T n i J v" "vtb v \<in> T"
    "evict_and_interpret e fuel gc v = Some r" "gc = id \<or> gc = check_instance_garbage_collected"
  shows "run_ok (vcpu_ok b (thread e) T n i J) r"
proof -
  have tv: "table_ok (thread e) T n i (add_function_index b) (vtable v)" using assms(2) by (simp add: vinv_def)
  obtain s' c' where ev: "table_op (thread e) n (add_function_index b) Evict (vtable v) = Some (vmem v, s', c')"
    "table_ok (thread e) T n i (add_function_index b) (vmem v, s', c')"
    by (rule table_evict_ok [OF tv]) blast
  then have rm: "remove_instance_running_local (vshared v) (vcache v) = Some (s', c')"
    by (auto split: option.splits)
  have "vinv b (thread e) T n i J (v\<lparr>vshared := s', vcache := gc c'\<rparr>)"
    using ev(2) assms(2,5) by (auto simp: vinv_def)
  from backend_okD(2) [OF assms(1) this] assms(3,4) rm show ?thesis by (simp add: evict_and_interpret_def)
qed

lemma add_compiled_ok:
  assumes "backend_ok b e T n i J" "vinv b (thread e) T n i J v" "vtb v = tb" "tb \<in> T" "new_fidx (vcache v) fidx"
  obtains m1 s1 c1 where "add_instance_running_local (thread e) fidx tb (vmem v) (vshared v) (vcache v) = Some (m1, s1, c1)"
    "vinv b (thread e) T n i J (set_vmem m1 (v\<lparr>vshared := s1, vcache := c1\<rparr>))"
    "wasm_table c1 fidx = wasm_table (vcache v) fidx" "cached (thread e) m1 c1 tb = wasm_table (vcache v) fidx"
proof -
  have tv: "table_ok (thread e) T n i (add_function_index b) (vtable v)" using assms(2) by (simp add: vinv_def)
  note p = table_ok_parts [OF tv]
  obtain m1 s1 c1 where add: "add_instance_running_local (thread e) fidx tb (vmem v) (vshared v) (vcache v) = Some (m1, s1, c1)"
    "cache_ok c1" "exports_ok (thread e) T m1 c1" "cached (thread e) m1 c1 tb = wasm_table (vcache v) fidx"
    "dom (wasm_table c1) \<subseteq> dom (wasm_table (vcache v))" "wasm_table c1 fidx = wasm_table (vcache v) fidx"
    by (rule add_instance_ok [OF p(4,5,1) assms(4,5), of "vshared v"]) blast
  have "vinv b (thread e) T n i J (set_vmem m1 (v\<lparr>vshared := s1, vcache := c1\<rparr>))"
    by (rule vinv_memory [OF assms(1,2,4)])
      (use table_ok_step [OF tv add(2,3,5)] add_instance_mem [OF add(1)] in auto)
  with add show ?thesis using that by blast
qed

lemma after_compile_ok:
  assumes "backend_ok b e T n i J" "compiled_ok b (thread e) T n i J v (fidx, v')" "vtb v = tb" "tb \<in> T"
    "after_compile b e fuel (fidx, v') tb = Some r"
  shows "run_ok (vcpu_ok b (thread e) T n i J) r"
proof -
  let ?t = "thread e"
  have v': "vtb v' = tb" "vinv b ?t T n i J v'" "fidx = 0 \<or> fidx = - 1 \<or> new_fidx (vcache v') fidx"
    using assms(2,3) by (auto simp: compiled_ok_def)
  note ctr = vinv_store_counter [OF assms(1) _ assms(4)]
  consider "fidx = - 1" | "fidx = 0" | "fidx > 0" "new_fidx (vcache v') fidx"
    using v'(3) by (auto simp: new_fidx_def)
  then show ?thesis
  proof cases
    case 1
    then have "call_tci e fuel (store_counter ?t tb 0 v') = Some r" using assms(5) by (simp add: after_compile_def)
    then show ?thesis using backend_okD(2) [OF assms(1) ctr [OF v'(2)]] v'(1) assms(4) by simp
  next
    case 2
    let ?w = "v'\<lparr>vshared := settle_cap (vshared v')\<rparr>"
    have w: "vinv b ?t T n i J ?w" using v'(2) by simp
    have "evict_and_interpret e fuel id (store_counter ?t tb 0 ?w) = Some r"
      using assms(5) 2 by (simp add: after_compile_def)
    then show ?thesis
      by (rule evict_and_interpret_ok [OF assms(1) ctr [OF w], rotated]) (use v'(1) assms(4) in simp_all)
  next
    case 3
    obtain m1 s1 c1 where add: "add_instance_running_local ?t fidx tb (vmem v') (vshared v') (vcache v') = Some (m1, s1, c1)"
      "vinv b ?t T n i J (set_vmem m1 (v'\<lparr>vshared := s1, vcache := c1\<rparr>))"
      "wasm_table c1 fidx = wasm_table (vcache v') fidx"
      by (rule add_compiled_ok [OF assms(1) v'(2,1) assms(4) 3(2)])
    have "run_ok (vcpu_ok b ?t T n i J) (call_wasm b fidx (set_vmem m1 (v'\<lparr>vshared := s1, vcache := c1\<rparr>)))"
      by (rule call_wasm_ok [OF assms(1) add(2)]) (use add(3) 3(2) v'(1) assms(4) in \<open>simp_all add: new_fidx_def\<close>)
    then show ?thesis using assms(5) 3(1) add(1) v'(1) by (simp add: after_compile_def)
  qed
qed

lemma turn_cases:
  assumes "turn b e fuel v0 = Some r" "trysleep b v0 = v" "vtb v = tb"
    "get_instance_running_local (thread e) (vtune v) tb (vmem v) (vcache v) = Some (fidx, mm, c1)"
    "set_vmem mm (v\<lparr>vcache := c1\<rparr>) = v1" "load32 mm (counter_ptr (thread e) tb) = cnt"
  obtains "fidx > 0" "r = call_wasm b fidx v1"
    | "\<not> fidx > 0" "tb_wants_tci (vtune v1) (thread e) mm cnt tb"
      "call_tci e fuel (store_counter (thread e) tb (cnt + 1) v1) = Some r"
    | "\<not> can_add_instance (vshared v1)"
      "evict_and_interpret e fuel check_instance_garbage_collected v1 = Some r"
    | "after_compile b e fuel (compile_tb b (thread e) v1) tb = Some r"
proof -
  have vm: "vmem v1 = mm" unfolding assms(5) [symmetric] by simp
  have r: "(if 0 < fidx then Some (call_wasm b fidx v1)
      else if tb_wants_tci (vtune v1) (thread e) mm cnt tb
        then call_tci e fuel (store_counter (thread e) tb (cnt + 1) v1)
      else if \<not> can_add_instance (vshared v1)
        then evict_and_interpret e fuel check_instance_garbage_collected v1
      else after_compile b e fuel (compile_tb b (thread e) v1) tb) = Some r"
    using assms(1) unfolding turn_def Let_def assms(2-5) option.case prod.case vm assms(6) .
  show ?thesis
  proof (cases "0 < fidx")
    case True
    with r show ?thesis by (intro that(1)) simp_all
  next
    case False
    with r show ?thesis using that(2-4) by (simp split: if_split_asm)
  qed
qed

text \<open>The state after the lookup that starts a turn.\<close>

lemma turn_lookup:
  assumes "backend_ok b e T n i J" "vinv b (thread e) T n i J v" "vtb v \<in> T"
  obtains fidx mm c1 where
    "get_instance_running_local (thread e) (vtune v) (vtb v) (vmem v) (vcache v) = Some (fidx, mm, c1)"
    "vinv b (thread e) T n i J (set_vmem mm (v\<lparr>vcache := c1\<rparr>))"
    "fidx > 0 \<Longrightarrow> wasm_table c1 fidx \<noteq> None"
proof -
  have tv: "table_ok (thread e) T n i (add_function_index b) (vtable v)" using assms(2) by (simp add: vinv_def)
  note p = table_ok_parts [OF tv]
  obtain fidx mm c1 where g: "get_instance_running_local (thread e) (vtune v) (vtb v) (vmem v) (vcache v) = Some (fidx, mm, c1)"
    "cache_ok c1" "exports_ok (thread e) T mm c1"
    "cached (thread e) (vmem v) (vcache v) (vtb v) = (if fidx > 0 then wasm_table c1 fidx else None)"
    "fidx > 0 \<Longrightarrow> cached (thread e) (vmem v) (vcache v) (vtb v) \<noteq> None" "wasm_table c1 = wasm_table (vcache v)"
    by (rule get_instance_ok [OF p(4,5,1) assms(3), of "vtune v"]) blast
  have "vinv b (thread e) T n i J (set_vmem mm (v\<lparr>vcache := c1\<rparr>))"
    by (rule vinv_memory [OF assms(1,2,3)])
      (use table_ok_step [OF tv g(2,3)] g(6) get_instance_mem [OF g(1)] in auto)
  then show ?thesis using that g by simp
qed

lemma turn_ok:
  assumes "backend_ok b e T n i J" "vinv b (thread e) T n i J v" "vtb v \<in> T" "turn b e fuel v = Some r"
  shows "run_ok (vcpu_ok b (thread e) T n i J) r"
proof -
  let ?t = "thread e" and ?v = "trysleep b v" and ?tb = "vtb v"
  note ts = trysleep_ok [OF assms(1,2)]
  have tb: "vtb ?v \<in> T" using ts(1) assms(3) by simp
  obtain fidx mm c1 where g: "get_instance_running_local ?t (vtune ?v) (vtb ?v) (vmem ?v) (vcache ?v) = Some (fidx, mm, c1)"
    "vinv b ?t T n i J (set_vmem mm (?v\<lparr>vcache := c1\<rparr>))" "fidx > 0 \<Longrightarrow> wasm_table c1 fidx \<noteq> None"
    by (rule turn_lookup [OF assms(1) ts(2) tb]) blast
  let ?v1 = "set_vmem mm (?v\<lparr>vcache := c1\<rparr>)"
  have tb1: "vtb ?v1 = vtb ?v" by simp
  from assms(4) refl refl g(1) refl refl show ?thesis
  proof (cases rule: turn_cases)
    case 1
    then show ?thesis using call_wasm_ok [OF assms(1) g(2), of fidx] g(3) tb by simp
  next
    case 2
    show ?thesis
      by (rule backend_okD(2) [OF assms(1) vinv_store_counter [OF assms(1) g(2) tb] _ 2(3)]) (use tb in simp)
  next
    case 3
    show ?thesis by (rule evict_and_interpret_ok [OF assms(1) g(2) _ 3(2)]) (use tb in simp_all)
  next
    case 4
    obtain cf cv where c: "compile_tb b ?t ?v1 = (cf, cv)" by (rule prod.exhaust)
    show ?thesis
      by (rule after_compile_ok [OF assms(1) compile_tb_ok(1) [OF assms(1) g(2), unfolded c] tb1 tb 4 [unfolded c]])
  qed
qed

lemma loop_ok:
  assumes "backend_ok b e T n i J" "vinv b (thread e) T n i J v" "vtb v \<in> T"
    "tb_exec_loop b e fuel v = Some r"
  shows "run_ok (vcpu_ok b (thread e) T n i J) r"
  using assms(2-4)
proof (induction fuel arbitrary: v)
  case (Suc fuel)
  note tk = turn_ok [OF assms(1) Suc.prems(1,2)]
  show ?case
  proof (cases "turn b e fuel v")
    case (Some x)
    note x = tk [OF Some]
    show ?thesis
    proof (cases "\<exists>res v'. x = Ran res v' \<and> vtb v' \<noteq> 0")
      case True
      then obtain res v' where v': "x = Ran res v'" "vtb v' \<noteq> 0" by blast
      then have "vinv b (thread e) T n i J v'" "vtb v' \<in> T" using x by (auto simp: vcpu_ok_def)
      from Suc.IH [OF this] Suc.prems(3) Some v' show ?thesis by simp
    next
      case False
      then have "r = x" using Suc.prems(3) Some by (auto split: run.splits if_splits)
      then show ?thesis using x by simp
    qed
  qed (use Suc.prems(3) in simp)
qed simp

text \<open>The header words after a failed lookup.\<close>

lemma get_instance_miss:
  assumes "table_ok t T n i alloc (m, s, c)" "tb \<in> T" "cached t m c tb = None" "tune_ok tn"
    "load32 m (tb + of_int (export_vec_off t)) \<noteq> 0 \<or> s32 (load32 m (counter_ptr t tb)) \<ge> wasm_instantiate_num tn"
    "get_instance_running_local t tn tb m c = Some (fidx, mm, c')"
  shows "\<not> fidx > 0" "\<not> tb_wants_tci tn t mm (load32 mm (counter_ptr t tb)) tb"
proof -
  note p = table_ok_parts [OF assms(1)]
  show "\<not> fidx > 0"
    by (rule get_instance_ok [OF p(4,5,1) assms(2), of tn]) (use assms(3,6) in auto)
  have N: "1 \<le> wasm_instantiate_num tn" "wasm_instantiate_num tn \<le> 1000000"
    "wasm_hot_num tn \<le> wasm_instantiate_num tn"
    using assms(4) by (auto simp: tune_ok_def tune_range_def)
  then have s: "s32 (of_int (wasm_instantiate_num tn)) = wasm_instantiate_num tn"
    by (simp add: signed_of_int signed_take_bit_int_eq_self)
  have "s32 (load32 mm (counter_ptr t tb)) \<ge> wasm_instantiate_num tn"
    using p(5,4) assms(2)
  proof (cases rule: exports_slot)
    case 1
    then show ?thesis using assms(5,6) by (simp add: get_instance_running_local_def)
  next
    case (2 idx)
    have "inst_tb (instance_running c idx) \<noteq> tb"
    proof
      assume "inst_tb (instance_running c idx) = tb"
      moreover from this have "idx \<in> live_slots c" using 2(1) p(2) assms(2) by (auto simp: live_slots_def)
      ultimately show False
        using cached_slot [OF p(4) 2(3,2)] assms(3) p(4) by (auto simp: cache_ok_def)
    qed
    then have "mm = store32 (store32 m (tb + of_int (export_vec_off t)) 0) (counter_ptr t tb)
        (of_int (wasm_instantiate_num tn))"
      using assms(6) 2(3) slot_ptr_neq_0 [OF p(4) 2(2)] slot_at_ptr [OF 2(2), of c]
      by (simp add: get_instance_running_local_def counter_ptr_def)
    then show ?thesis using s by (simp add: memory)
  qed
  then show "\<not> tb_wants_tci tn t mm (load32 mm (counter_ptr t tb)) tb"
    using N by (simp add: tb_wants_tci_def)
qed

section \<open>Properties\<close>

text \<open>
  C5.  The dispatcher is safe.  If the code it calls leaves the slots and the headers alone, then however
  many blocks it runs, compiles, evicts and interprets, it never follows a header word to something that is
  not a slot, never writes outside the slot table, the free list or the removal list, and never calls a
  table entry that has no function; when it returns or is left by \<open>longjmp\<close>, the table is well formed and
  the next block is one of the blocks.
\<close>

theorem dispatcher_safe:
  assumes "backend_ok b e T n i J" "vinv b (thread e) T n i J v" "tb \<in> T"
  shows "tcg_qemu_tb_exec b e fuel tb v \<noteq> Some Broken
    \<and> (\<forall>r. tcg_qemu_tb_exec b e fuel tb v = Some r \<longrightarrow> run_ok (vcpu_ok b (thread e) T n i J) r)"
proof -
  let ?v = "(set_vtb tb v)\<lparr>ctx_do_init := 1\<rparr>"
  have v: "vinv b (thread e) T n i J ?v" "vtb ?v \<in> T"
    using vinv_set_vtb [OF assms(1,2)] assms(3) by simp_all
  have "run_ok (vcpu_ok b (thread e) T n i J) r" if "tcg_qemu_tb_exec b e fuel tb v = Some r" for r
    by (rule loop_ok [OF assms(1) v that [unfolded tcg_qemu_tb_exec_def]])
  then show ?thesis by fastforce
qed

text \<open>
  C6.  A hot block is compiled.  When the next block has no function on this thread, and either it ran
  \<open>wasm_instantiate_num\<close> times interpreted or its function was evicted and its slot reused, and the live
  count is below the cap and the host accepts the module, then this very turn runs the new function, and
  the block keeps it.
\<close>

theorem hot_block_compiled:
  assumes "backend_ok b e T n i J" "vinv b (thread e) T n i J v" "vtb v = tb" "tb \<in> T"
    and "w = trysleep b v" "tune_ok (vtune w)" "can_add_instance (vshared w)"
    and "cached (thread e) (vmem w) (vcache w) tb = None"
    and "load32 (vmem w) (tb + of_int (export_vec_off (thread e))) \<noteq> 0
      \<or> s32 (load32 (vmem w) (counter_ptr (thread e) tb)) \<ge> wasm_instantiate_num (vtune w)"
    and "\<And>gen share w. fst (wasm_module b tb gen share w) = Some f"
    and "\<And>w. fst (bb_tb_regen_wasm b tb w) \<noteq> 0"
  shows "\<exists>fidx v'. turn b e fuel v = Some (call_wasm b fidx v') \<and> vtb v' = tb
    \<and> wasm_table (vcache v') fidx = Some f \<and> cached (thread e) (vmem v') (vcache v') tb = Some f"
proof -
  let ?t = "thread e"
  have w: "vtb w = tb" "vinv b ?t T n i J w" using trysleep_ok [OF assms(1,2)] assms(3,5) by simp_all
  have tw: "table_ok ?t T n i (add_function_index b) (vtable w)" using w(2) by (simp add: vinv_def)
  have tb: "vtb w \<in> T" using w(1) assms(4) by simp
  obtain fidx mm c1 where g: "get_instance_running_local ?t (vtune w) (vtb w) (vmem w) (vcache w) = Some (fidx, mm, c1)"
    "vinv b ?t T n i J (set_vmem mm (w\<lparr>vcache := c1\<rparr>))"
    by (rule turn_lookup [OF assms(1) w(2) tb]) blast
  note miss = get_instance_miss [OF tw assms(4,8,6,9) g(1) [unfolded w(1)]]
  let ?v1 = "set_vmem mm (w\<lparr>vcache := c1\<rparr>)"
  have v1: "vtb ?v1 = tb" using w(1) by simp
  obtain cf cv where c: "compile_tb b ?t ?v1 = (cf, cv)" by (rule prod.exhaust)
  have cf: "cf > 0" "wasm_table (vcache cv) cf = Some f"
    using compile_tb_ok(2) [OF assms(1) g(2), unfolded v1, OF assms(10,11) c] by simp_all
  have cv: "vtb cv = tb" "vinv b ?t T n i J cv" "new_fidx (vcache cv) cf"
    using compile_tb_ok(1) [OF assms(1) g(2), unfolded c] v1 cf(1) by (auto simp: compiled_ok_def)
  obtain m1 s1 c1' where add: "add_instance_running_local ?t cf tb (vmem cv) (vshared cv) (vcache cv) = Some (m1, s1, c1')"
    "wasm_table c1' cf = wasm_table (vcache cv) cf" "cached ?t m1 c1' tb = wasm_table (vcache cv) cf"
    by (rule add_compiled_ok [OF assms(1) cv(2,1) assms(4) cv(3)]) blast
  let ?v' = "set_vmem m1 (cv\<lparr>vshared := s1, vcache := c1'\<rparr>)"
  have "turn b e fuel v = after_compile b e fuel (cf, cv) tb"
    unfolding turn_def Let_def assms(5) [symmetric] w(1) using g(1) w(1) miss c assms(7) by simp
  also have "\<dots> = Some (call_wasm b cf ?v')"
    using cf(1) add(1) cv(1) by (simp add: after_compile_def)
  finally show ?thesis using cv(1) add(2,3) cf(2)
    by (intro exI [of _ cf] exI [of _ ?v']) simp
qed

section \<open>An example\<close>

text \<open>
  One block at \<open>0x1000\<close> whose code returns to the main loop, on a thread that runs alone, with a host that
  accepts every module. It ran 2000 times interpreted.
\<close>

definition exit_code :: "unit machine \<Rightarrow> bool" where
  "exit_code m \<longleftrightarrow> load32 (mem m) 0x1000 = 0x20 \<and> load32 (mem m) 0x1020 = 130
     \<and> bb_cold_ptr m = 0 \<and> bb_resume_ptr m = 0"

definition exit_env :: "unit tci_env" where
  "exit_env = \<lparr>env_ptr = 0x8000, ctx_stack = 0x9000, thread = table_example_thread, tune = tune_default,
     helper_lookup_tb_ptr_addr = 1, helper_lookup_tb_ptr = (\<lambda>_ m. HRet 0 0 m), cif_arg_sizes = (\<lambda>_. []),
     call_helper = (\<lambda>_ _ m. HRet 0 0 m), ffi_call = (\<lambda>_ _ _ _ m. HRet 0 0 m),
     helper_ld_mmu = (\<lambda>_ _ _ _ m. HRet 0 0 m), helper_st_mmu = (\<lambda>_ _ _ _ _ m. HRet 0 0 m)\<rparr>"

definition exit_backend :: "(bool, unit) backend" where
  "exit_backend = \<lparr>run_wasm = (\<lambda>_ v. Ran 0 (set_vtb 0 v)), bb_share_has = (\<lambda>_ _ _. False),
     wasm_module = (\<lambda>_ _ _ v. (Some True, v)), bb_tb_regen_wasm = (\<lambda>_ v. (0x9000, v)),
     bb_tb_flush_gen = (\<lambda>_. 0), bb_clock_ms = (\<lambda>_. 0), bb_yield_js = (\<lambda>v. v), emscripten_sleep = (\<lambda>v. v),
     add_function_index = next_fidx\<rparr>"

definition exit_vcpu :: "(bool, unit) vcpu" where
  "exit_vcpu = \<lparr>vmach = \<lparr>regs = (\<lambda>_. 0),
       mem = (\<lambda>_. 0)(0x1000 := 0x20, 0x1010 := 0xD0, 0x1011 := 0x07, 0x1020 := 0x82),
       ctx_tb_ptr = 0x1000, tci_tb_ptr = 0, bb_cold_ptr = 0, bb_resume_ptr = 0, bb_fast_tci_depth = False,
       bb_force_slow_tci = False, world = ()\<rparr>,
     vshared = \<lparr>tunables = tune_default, instance_alive_global = 0, bb_share_posted = 0\<rparr>,
     vcache = cache_init 0x10000, exec_cnt = MAX_EXEC_NUM, bb_share_seen = 0, bb_share_last_yield = 0,
     ctx_do_init = 0, ctx_chain_budget = 0\<rparr>"

lemma exit_opcode: "insn_opc 130 = Some Op_exit_tb" "tci_args_l 130 p = 0"
proof -
  have "tcg_opcodes ! 130 = Some Op_exit_tb" by (simp add: tcg_opcodes_def)
  then show "insn_opc 130 = Some Op_exit_tb"
    by (simp add: insn_opc_def extract32_def mask_eq_exp_minus_1 tcg_op_of_def length_tcg_opcodes)
qed (simp add: tci_args_l_def sextract32_def mask_eq_exp_minus_1)

lemma exit_tci:
  assumes "exit_code m" "ctx_tb_ptr m = 0x1000" "tci_exec e fuel m = Some r"
  shows "\<exists>m'. r = Leave 0 m' \<and> mem m' = mem m \<and> exit_code m' \<and> ctx_tb_ptr m' = 0"
proof -
  have start: "tci_start 0 m = 0x1020" using assms(1,2) by (simp add: tci_start_def exit_code_def)
  have step: "full_step e 0x1020 m' = Leave 0 (m'\<lparr>ctx_tb_ptr := 0\<rparr>)"
    "hot_step e 0x1020 m' = Leave 0 (m'\<lparr>ctx_tb_ptr := 0\<rparr>)" if "mem m' = mem m" for m' :: "unit machine"
    using assms(1) that by (simp_all add: full_step_def hot_step_def exit_code_def exit_opcode hot_exec_def)
  obtain k where f: "fuel = Suc k"
    using assms(3) by (cases fuel) (auto simp: tci_exec_def tcg_qemu_tb_exec_tci_full_def split: if_splits)
  have en: "mem (tci_enter e m') = mem m'" "bb_cold_ptr (tci_enter e m') = bb_cold_ptr m'"
    "bb_resume_ptr (tci_enter e m') = bb_resume_ptr m'" for m' :: "unit machine"
    by (simp_all add: tci_enter_def set_reg_def)
  have st: "tci_start 0 (m\<lparr>bb_force_slow_tci := x\<rparr>) = 0x1020" "tci_start 0 (m\<lparr>bb_fast_tci_depth := y\<rparr>) = 0x1020" for x y
    using start by (simp_all add: tci_start_def)
  show ?thesis
  proof (cases "\<not> wasm_fast_tci (tune e) \<or> bb_force_slow_tci m")
    case True
    then show ?thesis using assms(1,3) unfolding f
      by (auto simp: tci_exec_def tcg_qemu_tb_exec_tci_full_def st step en exit_code_def)
  next
    case False
    then show ?thesis using assms(1,3) unfolding f
      by (auto simp: tci_exec_def tci_hot_loop_def st step en exit_code_def)
  qed
qed

lemma exit_stable: "code_stable table_example_thread {0x1000} exit_code"
proof -
  have "disjoint_span (0 + of_nat 0x1000) 4 (0 + of_nat 0x1008) 4" "disjoint_span (0 + of_nat 0x1020) 4 (0 + of_nat 0x1008) 4"
    "disjoint_span (0 + of_nat 0x1000) 4 (0 + of_nat 0x1010) 4" "disjoint_span (0 + of_nat 0x1020) 4 (0 + of_nat 0x1010) 4"
    by (rule disjoint_span_same; simp)+
  then show ?thesis
    by (simp add: code_stable_def exit_code_def table_example_thread_def memory set_mem_def)
qed

lemma exit_backend_ok: "backend_ok exit_backend exit_env {0x1000} 1 0 exit_code"
proof -
  have r: "run_ok (vcpu_ok exit_backend table_example_thread {0x1000} 1 0 exit_code) r"
    if "vinv exit_backend table_example_thread {0x1000} 1 0 exit_code v" "vtb v = 0x1000"
      "call_tci exit_env fuel v = Some r" for v fuel r
  proof -
    note h = that
    obtain x where x: "tci_exec (exit_env\<lparr>tune := vtune v\<rparr>) fuel (vmach v) = Some x"
      using h(3) by (auto simp: call_tci_def split: option.splits)
    have "exit_code (vmach v)" using h(1) by (simp add: vinv_def)
    from exit_tci [OF this h(2) x] obtain m' where
      "x = Leave 0 m'" "mem m' = vmem v" "exit_code m'" "ctx_tb_ptr m' = 0" by blast
    then show ?thesis using h(1,3) x by (auto simp: call_tci_def vcpu_ok_def vinv_def)
  qed
  have t: "thread exit_env = table_example_thread" by (simp add: exit_env_def)
  show ?thesis unfolding backend_ok_def t
  proof (intro conjI allI impI ballI)
    show "code_stable table_example_thread {0x1000} exit_code" by (rule exit_stable)
  next
    fix v f assume "vinv exit_backend table_example_thread {0x1000} 1 0 exit_code v" "vtb v \<in> {0x1000}"
    then show "run_ok (vcpu_ok exit_backend table_example_thread {0x1000} 1 0 exit_code) (run_wasm exit_backend f v)"
      by (simp add: exit_backend_def vcpu_ok_def vinv_def exit_code_def)
  qed (use r in \<open>auto simp: exit_backend_def\<close>)
qed

lemma exit_vinv: "vinv exit_backend table_example_thread {0x1000} 1 0 exit_code exit_vcpu"
proof -
  have cfg: "table_config table_example_thread {0x1000} 1 0 (next_fidx :: (int \<Rightarrow> bool option) \<Rightarrow> int)"
    using table_example_config by (simp add: table_config_def headers_disjoint_def)
  have "cache_ok (cache_init 0x10000 :: bool cache)" by (rule cache_init_ok) simp_all
  then have "table_ok table_example_thread {0x1000} 1 0 next_fidx (vtable exit_vcpu)"
    using cfg by (simp add: table_ok_def exit_vcpu_def exports_ok_def table_example_thread_def load32_def
        load_nat_bytes cache_init_def)
  then show ?thesis
    by (simp add: vinv_def exit_backend_def exit_code_def) (simp add: exit_vcpu_def load32_def load_nat_bytes)
qed

lemma exit_thread: "thread exit_env = table_example_thread"
  by (simp add: exit_env_def)

lemma exit_vinv': "vinv exit_backend (thread exit_env) {0x1000} 1 0 exit_code exit_vcpu"
  unfolding exit_thread by (rule exit_vinv)

theorem dispatcher_safe_witness:
  "tcg_qemu_tb_exec exit_backend exit_env (Suc (Suc 0)) 0x1000 exit_vcpu \<noteq> Some Broken"
  by (rule dispatcher_safe [OF exit_backend_ok exit_vinv', THEN conjunct1]) simp

theorem hot_block_compiled_witness:
  "\<exists>fidx v'. turn exit_backend exit_env 1 exit_vcpu = Some (call_wasm exit_backend fidx v')
     \<and> wasm_table (vcache v') fidx = Some True"
proof -
  let ?w = "trysleep exit_backend exit_vcpu"
  have w: "?w = exit_vcpu\<lparr>exec_cnt := MAX_EXEC_NUM - 1\<rparr>"
    by (simp add: trysleep_def take_posted_def exit_vcpu_def tune_default_def MAX_EXEC_NUM_def Let_def)
  have cnt: "s32 (load32 (vmem ?w) (counter_ptr (thread exit_env) 0x1000)) \<ge> wasm_instantiate_num (vtune ?w)"
    unfolding w exit_thread
    by (simp add: exit_vcpu_def counter_ptr_def table_example_thread_def load32_def load_nat_bytes
        tune_default_def INSTANTIATE_NUM_def)
  have none: "cached (thread exit_env) (vmem ?w) (vcache ?w) 0x1000 = None"
    unfolding w exit_thread
    by (simp add: exit_vcpu_def cached_def table_example_thread_def load32_def load_nat_bytes)
  have add: "can_add_instance (vshared ?w)" "tune_ok (vtune ?w)" "vtb exit_vcpu = 0x1000"
    unfolding w by (simp_all add: exit_vcpu_def tune_default_ok can_add_instance_def)
      (simp add: tune_default_def MAX_INSTANCE_ALIVE_def)
  have "\<exists>fidx v'. turn exit_backend exit_env 1 exit_vcpu = Some (call_wasm exit_backend fidx v') \<and> vtb v' = 0x1000
    \<and> wasm_table (vcache v') fidx = Some True \<and> cached (thread exit_env) (vmem v') (vcache v') 0x1000 = Some True"
    by (rule hot_block_compiled [OF exit_backend_ok exit_vinv' add(3) insertI1 refl add(2,1) none disjI2 [OF cnt]])
      (simp_all add: exit_backend_def)
  then show ?thesis by blast
qed

end
