(* ===== verification/Jit_Threads.thy ===== *)
theory Jit_Threads
  imports Instance_Table
begin

text \<open>
  The vCPU threads compiling side by side: the steps of \<open>tcg_qemu_tb_exec\<close> (\<open>tcg/wasm32.c\<close>) that read or
  write the variables all threads share, in any interleaving.  A thread tests the cap
  (\<open>can_add_instance\<close>), compiles, and counts the new instance only after that, so the count can pass the
  cap; how far is property \<open>live_instances_bounded\<close>.
\<close>

section \<open>Steps\<close>

text \<open>
  Where a thread is: in the dispatcher, compiling after the test, adding a compiled function, lowering
  the cap after the host refused a module, or evicting after that.
\<close>

datatype jit_pc = Ready | Compiling | Adding int u32 | SetCap int | Evicting

type_synonym 'f jit_state = "memory \<times> shared \<times> (nat \<Rightarrow> jit_pc \<times> 'f cache)"

definition refused_cap :: "shared \<Rightarrow> int" where
  "refused_cap s =
     (let alive = instance_alive_global s in max MAX_INSTANCE_ALIVE (alive - alive div 8))"

inductive jit_step ::
    "nat \<Rightarrow> ((int \<Rightarrow> 'f option) \<Rightarrow> int) \<Rightarrow> (nat \<Rightarrow> thread_info) \<Rightarrow> 'f jit_state \<Rightarrow> 'f jit_state \<Rightarrow> bool"
  for n alloc ti where
  guest: "jit_step n alloc ti (m, s, th) (m', s, th)"
| lookup: "i < n \<Longrightarrow> th i = (Ready, c) \<Longrightarrow>
    get_instance_running_local (ti i) (tunables s) a m c = Some (fidx, m', c') \<Longrightarrow>
    jit_step n alloc ti (m, s, th) (m', s, th(i := (Ready, c')))"
| below_cap: "i < n \<Longrightarrow> th i = (Ready, c) \<Longrightarrow> can_add_instance s \<Longrightarrow>
    jit_step n alloc ti (m, s, th) (m, s, th(i := (Compiling, c)))"
| at_cap: "i < n \<Longrightarrow> th i = (Ready, c) \<Longrightarrow> \<not> can_add_instance s \<Longrightarrow>
    remove_instance_running_local s c = Some (s', c') \<Longrightarrow>
    jit_step n alloc ti (m, s, th) (m, s', th(i := (Ready, check_instance_garbage_collected c')))"
| compiled: "i < n \<Longrightarrow> th i = (Compiling, c) \<Longrightarrow> add_function alloc f c = (fidx, c') \<Longrightarrow> a \<noteq> 0 \<Longrightarrow>
    jit_step n alloc ti (m, s, th) (m, s, th(i := (Adding fidx a, c')))"
| not_translatable: "i < n \<Longrightarrow> th i = (Compiling, c) \<Longrightarrow>
    jit_step n alloc ti (m, s, th) (m', s, th(i := (Ready, c)))"
| refused: "i < n \<Longrightarrow> th i = (Compiling, c) \<Longrightarrow> cap = refused_cap s \<Longrightarrow>
    jit_step n alloc ti (m, s, th)
      (m, s, th(i := (if cap < wasm_max_instance_alive (tunables s) then SetCap cap else Evicting, c)))"
| set_cap: "i < n \<Longrightarrow> th i = (SetCap cap, c) \<Longrightarrow>
    jit_step n alloc ti (m, s, th)
      (m, s\<lparr>tunables := (tunables s)\<lparr>wasm_max_instance_alive := cap\<rparr>\<rparr>, th(i := (Evicting, c)))"
| evict: "i < n \<Longrightarrow> th i = (Evicting, c) \<Longrightarrow> remove_instance_running_local s c = Some (s', c') \<Longrightarrow>
    jit_step n alloc ti (m, s, th) (m', s', th(i := (Ready, c')))"
| add_full: "i < n \<Longrightarrow> th i = (Adding fidx a, c) \<Longrightarrow>
    instance_free_slots c = [] \<and> instance_slots_hw c \<ge> SLOTS \<Longrightarrow>
    remove_instance_running_local s c = Some (s', c') \<Longrightarrow>
    jit_step n alloc ti (m, s, th) (m, s', th(i := (Adding fidx a, c')))"
| add: "i < n \<Longrightarrow> th i = (Adding fidx a, c) \<Longrightarrow>
    \<not> (instance_free_slots c = [] \<and> instance_slots_hw c \<ge> SLOTS) \<Longrightarrow>
    add_slot (ti i) fidx a m s c = Some (m', s', c') \<Longrightarrow>
    jit_step n alloc ti (m, s, th) (m', s', th(i := (Ready, c')))"

definition jit_start :: "memory \<Rightarrow> shared \<Rightarrow> (nat \<Rightarrow> u32) \<Rightarrow> 'f jit_state" where
  "jit_start m s addr = (m, s\<lparr>instance_alive_global := 0\<rparr>, \<lambda>i. (Ready, cache_init (addr i)))"

section \<open>Invariant\<close>

definition busy :: "jit_pc \<times> 'f cache \<Rightarrow> int" where
  "busy x = (case fst x of Compiling \<Rightarrow> 1 | Adding _ _ \<Rightarrow> 1 | _ \<Rightarrow> 0)"

definition thread_ok :: "int \<Rightarrow> jit_pc \<times> 'f cache \<Rightarrow> bool" where
  "thread_ok cap0 x \<longleftrightarrow> cache_ok (snd x) \<and> finite (dom (wasm_table (snd x)))
     \<and> (case fst x of Adding fidx a \<Rightarrow> new_fidx (snd x) fidx \<and> a \<noteq> 0 | SetCap cap \<Rightarrow> cap \<le> cap0 | _ \<Rightarrow> True)"

definition jit_inv :: "nat \<Rightarrow> int \<Rightarrow> 'f jit_state \<Rightarrow> bool" where
  "jit_inv n cap0 x = (case x of (m, s, th) \<Rightarrow>
     (\<forall>i<n. thread_ok cap0 (th i))
     \<and> instance_alive_global s = (\<Sum>i<n. instance_alive_local (snd (th i)))
     \<and> instance_alive_global s + (\<Sum>i<n. busy (th i)) < cap0 + int n
     \<and> wasm_max_instance_alive (tunables s) \<le> cap0)"

lemma busy_simps [simp]:
  "busy (Ready, c) = 0" "busy (Compiling, c) = 1" "busy (Adding fidx a, c) = 1" "busy (SetCap cap, c) = 0"
  "busy (Evicting, c) = 0"
  by (simp_all add: busy_def)

lemma sum_busy_le: "(\<Sum>i<n. busy (th i)) \<le> int n"
proof -
  have "busy (th i) \<le> 1" for i by (simp add: busy_def split: jit_pc.split)
  then show ?thesis using sum_mono [of "{..<n}" "\<lambda>i. busy (th i)" "\<lambda>_. 1"] by simp
qed

lemma sum_upd:
  fixes g :: "'a \<Rightarrow> int" and i n :: nat
  assumes "i < n"
  shows "(\<Sum>j<n. g ((th(i := x)) j)) = (\<Sum>j<n. g (th j)) + g x - g (th i)"
proof -
  have "(\<Sum>j<n. g ((th(i := x)) j)) = g x + (\<Sum>j\<in>{..<n} - {i}. g (th j))"
    using assms by (subst sum.remove [of _ i]) (auto intro!: sum.cong)
  also have "(\<Sum>j\<in>{..<n} - {i}. g (th j)) = (\<Sum>j<n. g (th j)) - g (th i)"
    using assms by (simp add: sum_diff1)
  finally show ?thesis by simp
qed

text \<open>
  One thread moves: it stays well formed, the count follows its table, and the instances together with
  the compiles in flight do not grow, unless the count was below the cap.
\<close>

lemma jit_inv_move:
  assumes "jit_inv n cap0 (m, s, th)" "i < n" "thread_ok cap0 x"
    "instance_alive_global s' - instance_alive_global s
       = instance_alive_local (snd x) - instance_alive_local (snd (th i))"
    "wasm_max_instance_alive (tunables s') \<le> cap0"
    "instance_alive_global s' - instance_alive_global s + busy x - busy (th i) \<le> 0
      \<or> instance_alive_global s' < cap0"
  shows "jit_inv n cap0 (m', s', th(i := x))"
proof -
  note up = sum_upd [OF assms(2), where th = th and x = x]
  have "(\<Sum>j<n. busy ((th(i := x)) j)) \<le> int n" by (rule sum_busy_le)
  moreover have "instance_alive_global s = (\<Sum>i<n. instance_alive_local (snd (th i)))"
    "instance_alive_global s + (\<Sum>i<n. busy (th i)) < cap0 + int n" "\<forall>i<n. thread_ok cap0 (th i)"
    using assms(1) by (simp_all add: jit_inv_def)
  ultimately show ?thesis
    unfolding jit_inv_def prod.case using assms(2-6) up [of busy] up [of "\<lambda>x. instance_alive_local (snd x)"]
    by (intro conjI allI impI; linarith?) (simp split: if_splits)
qed

lemma get_instance_cache:
  assumes "get_instance_running_local t tn a m c = Some (fidx, m', c')" "cache_ok c"
  shows "cache_ok c'" "wasm_table c' = wasm_table c" "instance_alive_local c' = instance_alive_local c"
  using assms mark_slot_ok [OF assms(2), of _ 1]
  by (auto simp: get_instance_running_local_def Let_def split: if_splits option.splits)

lemma remove_instance_cache:
  assumes "remove_instance_running_local s c = Some (s', c')" "cache_ok c" "finite (dom (wasm_table c))"
  shows "cache_ok c'" "finite (dom (wasm_table c'))"
    "instance_alive_global s' - instance_alive_global s = instance_alive_local c' - instance_alive_local c"
    "instance_alive_global s' \<le> instance_alive_global s" "tunables s' = tunables s"
    "new_fidx c fidx \<Longrightarrow> new_fidx c' fidx"
proof -
  obtain es where s': "s' = s\<lparr>instance_alive_global := instance_alive_global s - int (evict_want c)\<rparr>"
    and e: "after_evict c es c'" and ok: "cache_ok c'"
    by (rule remove_instance_ok [OF assms(2), of s]) (use assms(1) in auto)
  have "dom (wasm_table c') \<subseteq> dom (wasm_table c)" using e by (auto simp: after_evict_def split: if_splits)
  then show "finite (dom (wasm_table c'))" using assms(3) by (rule finite_subset)
  show "instance_alive_global s' - instance_alive_global s = instance_alive_local c' - instance_alive_local c"
    using e by (simp add: s' after_evict_def)
  show "new_fidx c fidx \<Longrightarrow> new_fidx c' fidx" by (rule new_fidx_evict [OF e])
  show "cache_ok c'" "instance_alive_global s' \<le> instance_alive_global s" "tunables s' = tunables s"
    using s' ok by simp_all
qed

lemma add_slot_cache:
  assumes "add_slot t fidx a m s c = Some (m', s', c')" "cache_ok c" "new_fidx c fidx" "a \<noteq> 0"
    "\<not> (instance_free_slots c = [] \<and> instance_slots_hw c \<ge> SLOTS)"
  shows "cache_ok c'" "wasm_table c' = wasm_table c"
    "s' = s\<lparr>instance_alive_global := instance_alive_global s + 1\<rparr>"
    "instance_alive_local c' = instance_alive_local c + 1"
proof -
  obtain idx c1 where tk: "take_slot c = (idx, c1)" by fastforce
  have room: "instance_free_slots c \<noteq> [] \<or> instance_slots_hw c < SLOTS" using assms(5) by auto
  have c': "c' = inc_instance_local (set_slot idx \<lparr>inst_tb = a, inst_fidx = fidx, inst_used = 1\<rparr> c1)"
    and s': "s' = s\<lparr>instance_alive_global := instance_alive_global s + 1\<rparr>"
    using assms(1) tk by (auto simp: add_slot_def Let_def split: if_splits)
  note t = take_slot_ok [OF assms(2) room tk]
  show "cache_ok c'" unfolding c' by (rule add_slot_cache_ok [OF assms(2,4,3) tk room])
  show "wasm_table c' = wasm_table c" "instance_alive_local c' = instance_alive_local c + 1"
    "s' = s\<lparr>instance_alive_global := instance_alive_global s + 1\<rparr>"
    using t s' by (simp_all add: c')
qed

lemma check_gc_ok [simp]:
  "cache_ok (check_instance_garbage_collected c) = cache_ok c"
  "wasm_table (check_instance_garbage_collected c) = wasm_table c"
  "instance_alive_local (check_instance_garbage_collected c) = instance_alive_local c"
  by (simp_all add: check_instance_garbage_collected_def cache_ok_def live_slots_def)

lemma add_function_cache:
  assumes "add_function alloc f c = (fidx, c')" "cache_ok c" "finite (dom (wasm_table c))" "alloc_ok alloc"
  shows "cache_ok c'" "finite (dom (wasm_table c'))" "new_fidx c' fidx"
    "instance_alive_local c' = instance_alive_local c"
  using add_function_ok [OF assms(4,2) _ assms(3,1), of _ "{}"] by (simp_all add: exports_ok_def)

lemma jit_inv_thread:
  assumes "jit_inv n cap0 (m, s, th)" "i < n" "th i = (pc, c)"
  shows "cache_ok c" "finite (dom (wasm_table c))" "thread_ok cap0 (pc, c)"
    "wasm_max_instance_alive (tunables s) \<le> cap0"
proof -
  show t: "thread_ok cap0 (pc, c)" and "wasm_max_instance_alive (tunables s) \<le> cap0"
    using assms by (auto simp: jit_inv_def)
  from t show "cache_ok c" "finite (dom (wasm_table c))" by (auto simp: thread_ok_def)
qed

lemma jit_inv_step:
  assumes "jit_step n alloc ti x x'" "jit_inv n cap0 x" "alloc_ok alloc"
  shows "jit_inv n cap0 x'"
  using assms(1,2)
proof (induction rule: jit_step.induct)
  case (guest m s th m')
  then show ?case by (simp add: jit_inv_def)
next
  case (lookup i th c s a m fidx m' c')
  note p = jit_inv_thread [OF lookup.prems lookup.hyps(1,2)]
  from get_instance_cache [OF lookup.hyps(3) p(1)] p lookup.hyps show ?case
    by (intro jit_inv_move [OF lookup.prems lookup.hyps(1)]) (auto simp: thread_ok_def)
next
  case (below_cap i th c s m)
  note p = jit_inv_thread [OF below_cap.prems below_cap.hyps(1,2)]
  from p below_cap.hyps show ?case
    by (intro jit_inv_move [OF below_cap.prems below_cap.hyps(1)])
      (auto simp: thread_ok_def can_add_instance_def)
next
  case (at_cap i th c s s' c' m)
  note p = jit_inv_thread [OF at_cap.prems at_cap.hyps(1,2)]
  from remove_instance_cache [OF at_cap.hyps(4) p(1,2)] p at_cap.hyps show ?case
    by (intro jit_inv_move [OF at_cap.prems at_cap.hyps(1)]) (auto simp: thread_ok_def)
next
  case (compiled i th c f fidx c' a m s)
  note p = jit_inv_thread [OF compiled.prems compiled.hyps(1,2)]
  from add_function_cache [OF compiled.hyps(3) p(1,2) assms(3)] p compiled.hyps show ?case
    by (intro jit_inv_move [OF compiled.prems compiled.hyps(1)]) (auto simp: thread_ok_def)
next
  case (not_translatable i th c m s m')
  note p = jit_inv_thread [OF not_translatable.prems not_translatable.hyps(1,2)]
  from p not_translatable.hyps show ?case
    by (intro jit_inv_move [OF not_translatable.prems not_translatable.hyps(1)]) (auto simp: thread_ok_def)
next
  case (refused i th c cap s m)
  note p = jit_inv_thread [OF refused.prems refused.hyps(1,2)]
  from p refused.hyps show ?case
    by (intro jit_inv_move [OF refused.prems refused.hyps(1)]) (auto simp: thread_ok_def)
next
  case (set_cap i th cap c m s)
  note p = jit_inv_thread [OF set_cap.prems set_cap.hyps(1,2)]
  from p set_cap.hyps show ?case
    by (intro jit_inv_move [OF set_cap.prems set_cap.hyps(1)]) (auto simp: thread_ok_def)
next
  case (evict i th c s s' c' m m')
  note p = jit_inv_thread [OF evict.prems evict.hyps(1,2)]
  from remove_instance_cache [OF evict.hyps(3) p(1,2)] p evict.hyps show ?case
    by (intro jit_inv_move [OF evict.prems evict.hyps(1)]) (auto simp: thread_ok_def)
next
  case (add_full i th fidx a c s s' c' m)
  note p = jit_inv_thread [OF add_full.prems add_full.hyps(1,2)]
  from remove_instance_cache [OF add_full.hyps(4) p(1,2)] p add_full.hyps show ?case
    by (intro jit_inv_move [OF add_full.prems add_full.hyps(1)]) (auto simp: thread_ok_def)
next
  case (add i th fidx a c m s m' s' c')
  note p = jit_inv_thread [OF add.prems add.hyps(1,2)]
  then have "new_fidx c fidx" "a \<noteq> 0" by (simp_all add: thread_ok_def)
  from add_slot_cache [OF add.hyps(4) p(1) this add.hyps(3)] p add.hyps show ?case
    by (intro jit_inv_move [OF add.prems add.hyps(1)]) (auto simp: thread_ok_def)
qed

lemma jit_inv_reach:
  assumes "(jit_step n alloc ti)\<^sup>*\<^sup>* x x'" "jit_inv n cap0 x" "alloc_ok alloc"
  shows "jit_inv n cap0 x'"
  using assms by (induction rule: rtranclp_induct) (auto intro: jit_inv_step)

lemma cache_init_fields:
  "instance_alive_local (cache_init a) = 0" "wasm_table (cache_init a) = Map.empty"
  by (simp_all add: cache_init_def)

section \<open>Property\<close>

text \<open>
  C11.  Compiled instances stay bounded.  Threads start with empty tables and take any steps in any order:
  the shared count is the number of instances the threads' tables hold, the cap only goes down from the
  tuned one, and the count passes the tuned cap by less than the number of threads, although a thread
  tests the cap long before it counts its instance.
\<close>

theorem live_instances_bounded:
  assumes "tune_ok (tunables s)" "alloc_ok alloc" "0 < n"
    and "\<forall>i<n. addr i \<noteq> 0 \<and> unat (addr i) + 12 * SLOTS \<le> 2 ^ 32"
    and "(jit_step n alloc ti)\<^sup>*\<^sup>* (jit_start m s addr) (m', s', th)"
  shows "instance_alive_global s' = (\<Sum>i<n. int (card (live_slots (snd (th i)))))
    \<and> instance_alive_global s' < wasm_max_instance_alive (tunables s) + int n
    \<and> wasm_max_instance_alive (tunables s') \<le> wasm_max_instance_alive (tunables s)"
proof -
  let ?cap = "wasm_max_instance_alive (tunables s)"
  have "0 \<le> ?cap" using assms(1) by (simp add: tune_ok_def tune_range_def)
  then have "jit_inv n ?cap (jit_start m s addr :: 'a jit_state)"
    using assms(3,4) by (simp add: jit_inv_def jit_start_def thread_ok_def cache_init_ok cache_init_fields)
  from jit_inv_reach [OF assms(5) this assms(2)] have inv: "jit_inv n ?cap (m', s', th)" .
  then have "instance_alive_local (snd (th i)) = int (card (live_slots (snd (th i))))" if "i < n" for i
    using jit_inv_thread(1) [OF inv that, of "fst (th i)" "snd (th i)"] by (simp add: cache_ok_def)
  then have "(\<Sum>i<n. instance_alive_local (snd (th i))) = (\<Sum>i<n. int (card (live_slots (snd (th i)))))"
    by (intro sum.cong) auto
  moreover have "0 \<le> (\<Sum>i<n. busy (th i))"
    by (intro sum_nonneg) (simp add: busy_def split: jit_pc.split)
  ultimately show ?thesis using inv by (simp add: jit_inv_def)
qed

definition one_thread :: shared where
  "one_thread = \<lparr>tunables = tune_default, instance_alive_global = 0, bb_share_posted = 0\<rparr>"

lemma one_thread_run:
  "\<exists>m' s' th. (jit_step 1 next_fidx (\<lambda>_. table_example_thread))\<^sup>*\<^sup>*
       (jit_start (\<lambda>_. 0) one_thread (\<lambda>_. 0x10000) :: bool jit_state) (m', s', th)
     \<and> instance_alive_global s' = 1"
proof -
  let ?R = "jit_step 1 (next_fidx :: (int \<Rightarrow> bool option) \<Rightarrow> int) (\<lambda>_. table_example_thread)"
  let ?c = "cache_init 0x10000 :: bool cache" and ?m = "(\<lambda>_. 0) :: memory"
  let ?th = "\<lambda>_::nat. (Ready, ?c)"
  obtain fidx c1 where af: "add_function next_fidx True ?c = (fidx, c1)" by fastforce
  have start: "jit_start ?m one_thread (\<lambda>_. 0x10000) = (?m, one_thread, ?th)"
    by (simp add: jit_start_def one_thread_def)
  have s1: "?R (?m, one_thread, ?th) (?m, one_thread, ?th(0 := (Compiling, ?c)))"
    by (rule jit_step.below_cap)
      (simp_all add: can_add_instance_def one_thread_def tune_default_def MAX_INSTANCE_ALIVE_def)
  have s2: "?R (?m, one_thread, ?th(0 := (Compiling, ?c)))
      (?m, one_thread, (?th(0 := (Compiling, ?c)))(0 := (Adding fidx 0x1000, c1)))"
    by (rule jit_step.compiled [OF _ _ af]) simp_all
  have c1: "instance_free_slots c1 = []" "instance_slots_hw c1 = 0"
    using af by (auto simp: add_function_def Let_def cache_init_def)
  then obtain m' c' where "add_slot table_example_thread fidx 0x1000 ?m one_thread c1
      = Some (m', one_thread\<lparr>instance_alive_global := 1\<rparr>, c')"
    by (simp add: add_slot_def take_slot_def Let_def one_thread_def)
  then have s3: "?R (?m, one_thread, (?th(0 := (Compiling, ?c)))(0 := (Adding fidx 0x1000, c1)))
      (m', one_thread\<lparr>instance_alive_global := 1\<rparr>,
       ((?th(0 := (Compiling, ?c)))(0 := (Adding fidx 0x1000, c1)))(0 := (Ready, c')))"
    using c1 by (intro jit_step.add) simp_all
  from converse_rtranclp_into_rtranclp [OF s1 converse_rtranclp_into_rtranclp [OF s2 r_into_rtranclp [of ?R, OF s3]]]
  show ?thesis unfolding start by (intro exI conjI) (assumption, simp)
qed

theorem live_instances_bounded_witness:
  "\<exists>m' s' th. (jit_step 1 next_fidx (\<lambda>_. table_example_thread))\<^sup>*\<^sup>*
       (jit_start (\<lambda>_. 0) one_thread (\<lambda>_. 0x10000) :: bool jit_state) (m', s', th)
     \<and> instance_alive_global s' = 1 \<and> card (live_slots (snd (th 0))) = 1"
proof -
  from one_thread_run obtain m' s' and th :: "nat \<Rightarrow> jit_pc \<times> bool cache" where
    r: "(jit_step 1 next_fidx (\<lambda>_. table_example_thread))\<^sup>*\<^sup>*
       (jit_start (\<lambda>_. 0) one_thread (\<lambda>_. 0x10000)) (m', s', th)" "instance_alive_global s' = 1" by blast
  have "instance_alive_global s' = (\<Sum>i<1. int (card (live_slots (snd (th i)))))"
    by (rule live_instances_bounded [OF _ next_fidx_ok _ _ r(1), THEN conjunct1])
      (simp_all add: one_thread_def tune_default_ok)
  with r show ?thesis by (intro exI [of _ m'] exI [of _ s'] exI [of _ th]) simp
qed

end
