(* ===== verification/Opt_Masks.thy ===== *)
theory Opt_Masks
  imports TCI_Full
begin

text \<open>
  The value level of the TCG optimizer, \<open>tcg/optimize.c\<close>: evaluation of an operation on constants
  (\<open>do_constant_folding\<close> and the comparisons) and the masks of known-zero bits and sign repetitions.

  \<^item> \<open>tcg_opc\<close>: the opcodes of the intermediate code, those of the interpreter and the ones that never
    reach it on this target.  Vector opcodes do not occur (the target has no vector registers).
  \<^item> \<open>canon\<close>: the value of a temporary as the optimizer sees it; 32-bit values are sign-extended.
  \<^item> \<open>zmask_ok\<close>, \<open>smask_ok\<close>: what a mask says about a value; \<open>smask_from_*_ok\<close> that the computed masks
    are right.
\<close>

section \<open>Opcodes of the intermediate code\<close>

datatype tcg_opc =
    Tcg tcg_op
  | Op_negsetcond tcg_width | Op_extract2 tcg_width | Op_extrl_i64_i32 | Op_extrh_i64_i32
  | Op_muluh tcg_width | Op_mulsh tcg_width | Op_mulu2_i64 | Op_muls2_i64
  | Op_setcond2_i32 | Op_brcond2_i32 | Op_set_label | Op_discard | Op_insn_start

definition TCG_BSWAP_IZ :: u64 where "TCG_BSWAP_IZ = 1"
definition TCG_BSWAP_OZ :: u64 where "TCG_BSWAP_OZ = 2"
definition TCG_BSWAP_OS :: u64 where "TCG_BSWAP_OS = 4"

lemmas TCG_BSWAP_defs = TCG_BSWAP_IZ_def TCG_BSWAP_OZ_def TCG_BSWAP_OS_def

section \<open>Constant folding\<close>

text \<open>\<open>mulu64\<close> and \<open>muls64\<close>: the two halves of a 128-bit product, low half first.\<close>

definition mulu64 :: "u64 \<Rightarrow> u64 \<Rightarrow> u64 \<times> u64" where
  "mulu64 a b = (let r = uint a * uint b in (word_of_int r, word_of_int (r div 2 ^ 64)))"

definition muls64 :: "u64 \<Rightarrow> u64 \<Rightarrow> u64 \<times> u64" where
  "muls64 a b = (let r = sint a * sint b in (word_of_int r, word_of_int (r div 2 ^ 64)))"

text \<open>
  \<open>do_constant_folding_2\<close>, one function per operand shape.  A zero divisor is replaced by 1.
  \<^const>\<open>None\<close> is \<open>g_assert_not_reached\<close>, or the trap of the least number divided by -1.
\<close>

fun fold2_rrr :: "tcg_rrr \<Rightarrow> tcg_width \<Rightarrow> u64 \<Rightarrow> u64 \<Rightarrow> u64 option" where
  "fold2_rrr R_add w x y = Some (x + y)"
| "fold2_rrr R_sub w x y = Some (x - y)"
| "fold2_rrr R_mul w x y = Some (x * y)"
| "fold2_rrr R_and w x y = Some (x AND y)"
| "fold2_rrr R_or w x y = Some (x OR y)"
| "fold2_rrr R_xor w x y = Some (x XOR y)"
| "fold2_rrr R_shl I32 x y = Some (zext32 (push_bit (unat (y AND 31)) (lo32 x)))"
| "fold2_rrr R_shl I64 x y = Some (push_bit (unat (y AND 63)) x)"
| "fold2_rrr R_shr I32 x y = Some (zext32 (drop_bit (unat (y AND 31)) (lo32 x)))"
| "fold2_rrr R_shr I64 x y = Some (drop_bit (unat (y AND 63)) x)"
| "fold2_rrr R_sar I32 x y = Some (sext32 (signed_drop_bit (unat (y AND 31)) (lo32 x)))"
| "fold2_rrr R_sar I64 x y = Some (signed_drop_bit (unat (y AND 63)) x)"
| "fold2_rrr R_rotr I32 x y = Some (zext32 (ror32 (lo32 x) (lo32 (y AND 31))))"
| "fold2_rrr R_rotr I64 x y = Some (ror64 x (lo32 (y AND 63)))"
| "fold2_rrr R_rotl I32 x y = Some (zext32 (rol32 (lo32 x) (lo32 (y AND 31))))"
| "fold2_rrr R_rotl I64 x y = Some (rol64 x (lo32 (y AND 63)))"
| "fold2_rrr R_andc w x y = Some (x AND NOT y)"
| "fold2_rrr R_orc w x y = Some (x OR NOT y)"
| "fold2_rrr R_eqv w x y = Some (NOT (x XOR y))"
| "fold2_rrr R_nand w x y = Some (NOT (x AND y))"
| "fold2_rrr R_nor w x y = Some (NOT (x OR y))"
| "fold2_rrr R_clz I32 x y = Some (if lo32 x \<noteq> 0 then of_nat (clz_word (lo32 x)) else y)"
| "fold2_rrr R_clz I64 x y = Some (if x \<noteq> 0 then of_nat (clz_word x) else y)"
| "fold2_rrr R_ctz I32 x y = Some (if lo32 x \<noteq> 0 then of_nat (ctz_word (lo32 x)) else y)"
| "fold2_rrr R_ctz I64 x y = Some (if x \<noteq> 0 then of_nat (ctz_word x) else y)"
| "fold2_rrr R_div I32 x y =
     map_option sext32 (sdiv_word (lo32 x) (if lo32 y \<noteq> 0 then lo32 y else 1))"
| "fold2_rrr R_divu I32 x y =
     map_option zext32 (udiv_word (lo32 x) (if lo32 y \<noteq> 0 then lo32 y else 1))"
| "fold2_rrr R_div I64 x y = sdiv_word x (if y \<noteq> 0 then y else 1)"
| "fold2_rrr R_divu I64 x y = udiv_word x (if y \<noteq> 0 then y else 1)"
| "fold2_rrr R_rem I32 x y =
     map_option sext32 (smod_word (lo32 x) (if lo32 y \<noteq> 0 then lo32 y else 1))"
| "fold2_rrr R_remu I32 x y =
     map_option zext32 (umod_word (lo32 x) (if lo32 y \<noteq> 0 then lo32 y else 1))"
| "fold2_rrr R_rem I64 x y = smod_word x (if y \<noteq> 0 then y else 1)"
| "fold2_rrr R_remu I64 x y = umod_word x (if y \<noteq> 0 then y else 1)"

fun fold2_rr :: "tcg_rr \<Rightarrow> tcg_width \<Rightarrow> u64 \<Rightarrow> u64 \<Rightarrow> u64 option" where
  "fold2_rr U_mov w x y = None"
| "fold2_rr U_not w x y = Some (NOT x)"
| "fold2_rr U_neg w x y = Some (- x)"
| "fold2_rr U_ctpop I32 x y = Some (of_nat (ctpop_word (lo32 x)))"
| "fold2_rr U_ctpop I64 x y = Some (of_nat (ctpop_word x))"
| "fold2_rr U_ext8s w x y = Some (scast (ucast x :: u8))"
| "fold2_rr U_ext16s w x y = Some (scast (ucast x :: u16))"
| "fold2_rr U_ext8u w x y = Some (ucast (ucast x :: u8))"
| "fold2_rr U_ext16u w x y = Some (ucast (ucast x :: u16))"
| "fold2_rr U_bswap16 w x y =
     Some (let x' = bswap16 (ucast x) in if y AND TCG_BSWAP_OS \<noteq> 0 then scast x' else ucast x')"
| "fold2_rr U_bswap32 w x y =
     Some (let x' = bswap32 (ucast x) in if y AND TCG_BSWAP_OS \<noteq> 0 then scast x' else ucast x')"

fun fold2_rr64 :: "tcg_rr64 \<Rightarrow> u64 \<Rightarrow> u64" where
  "fold2_rr64 W_bswap64_i64 x = bswap64 x"
| "fold2_rr64 W_ext_i32_i64 x = sext32 (lo32 x)"
| "fold2_rr64 W_ext32s_i64 x = sext32 (lo32 x)"
| "fold2_rr64 W_extu_i32_i64 x = zext32 (lo32 x)"
| "fold2_rr64 W_ext32u_i64 x = zext32 (lo32 x)"

fun do_constant_folding_2 :: "tcg_opc \<Rightarrow> u64 \<Rightarrow> u64 \<Rightarrow> u64 option" where
  "do_constant_folding_2 (Tcg (Op_rrr r w)) x y = fold2_rrr r w x y"
| "do_constant_folding_2 (Tcg (Op_rr u w)) x y = fold2_rr u w x y"
| "do_constant_folding_2 (Tcg (Op_rr64 u)) x y = Some (fold2_rr64 u x)"
| "do_constant_folding_2 Op_extrl_i64_i32 x y = Some (zext32 (lo32 x))"
| "do_constant_folding_2 Op_extrh_i64_i32 x y = Some (drop_bit 32 x)"
| "do_constant_folding_2 (Op_muluh I32) x y = Some (drop_bit 32 (zext32 (lo32 x) * zext32 (lo32 y)))"
| "do_constant_folding_2 (Op_mulsh I32) x y =
     Some (signed_drop_bit 32 (sext32 (lo32 x) * sext32 (lo32 y)))"
| "do_constant_folding_2 (Op_muluh I64) x y = Some (snd (mulu64 x y))"
| "do_constant_folding_2 (Op_mulsh I64) x y = Some (snd (muls64 x y))"
| "do_constant_folding_2 _ x y = None"

definition canon :: "tcg_width \<Rightarrow> u64 \<Rightarrow> u64" where
  "canon w v = (case w of I32 \<Rightarrow> sext32 (lo32 v) | I64 \<Rightarrow> v)"

definition do_constant_folding :: "tcg_opc \<Rightarrow> tcg_width \<Rightarrow> u64 \<Rightarrow> u64 \<Rightarrow> u64 option" where
  "do_constant_folding opc type x y =
     (case do_constant_folding_2 opc x y of
        None \<Rightarrow> None
      | Some res \<Rightarrow> Some (if type = I32 then sext32 (lo32 res) else res))"

section \<open>Comparisons of constants\<close>

definition do_constant_folding_cond_32 :: "u32 \<Rightarrow> u32 \<Rightarrow> u32 \<Rightarrow> bool option" where
  "do_constant_folding_cond_32 x y c =
     (if c = TCG_COND_EQ then Some (x = y)
      else if c = TCG_COND_NE then Some (x \<noteq> y)
      else if c = TCG_COND_LT then Some (s32 x < s32 y)
      else if c = TCG_COND_GE then Some (s32 x \<ge> s32 y)
      else if c = TCG_COND_LE then Some (s32 x \<le> s32 y)
      else if c = TCG_COND_GT then Some (s32 x > s32 y)
      else if c = TCG_COND_LTU then Some (x < y)
      else if c = TCG_COND_GEU then Some (x \<ge> y)
      else if c = TCG_COND_LEU then Some (x \<le> y)
      else if c = TCG_COND_GTU then Some (x > y)
      else None)"

definition do_constant_folding_cond_64 :: "u64 \<Rightarrow> u64 \<Rightarrow> u32 \<Rightarrow> bool option" where
  "do_constant_folding_cond_64 x y c =
     (if c = TCG_COND_EQ then Some (x = y)
      else if c = TCG_COND_NE then Some (x \<noteq> y)
      else if c = TCG_COND_LT then Some (s64 x < s64 y)
      else if c = TCG_COND_GE then Some (s64 x \<ge> s64 y)
      else if c = TCG_COND_LE then Some (s64 x \<le> s64 y)
      else if c = TCG_COND_GT then Some (s64 x > s64 y)
      else if c = TCG_COND_LTU then Some (x < y)
      else if c = TCG_COND_GEU then Some (x \<ge> y)
      else if c = TCG_COND_LEU then Some (x \<le> y)
      else if c = TCG_COND_GTU then Some (x > y)
      else None)"

definition do_constant_folding_cond_eq :: "u32 \<Rightarrow> bool option" where
  "do_constant_folding_cond_eq c =
     (if c \<in> {TCG_COND_GT, TCG_COND_LTU, TCG_COND_LT, TCG_COND_GTU, TCG_COND_NE} then Some False
      else if c \<in> {TCG_COND_GE, TCG_COND_GEU, TCG_COND_LE, TCG_COND_LEU, TCG_COND_EQ} then Some True
      else None)"

section \<open>Masks\<close>

definition MAKE_64BIT_MASK :: "nat \<Rightarrow> nat \<Rightarrow> u64" where
  "MAKE_64BIT_MASK shift len = push_bit shift (drop_bit (64 - len) (- 1))"

text \<open>\<open>clrsb64\<close>, in the version that does not use the compiler's builtin.\<close>

definition clrsb64 :: "u64 \<Rightarrow> nat" where
  "clrsb64 v = clz_word (v XOR signed_drop_bit 1 v) - 1"

definition smask_from_value :: "u64 \<Rightarrow> u64" where
  "smask_from_value v = NOT (drop_bit (clrsb64 v) (- 1))"

definition smask_from_zmask :: "u64 \<Rightarrow> u64" where
  "smask_from_zmask zmask =
     (let rep = clz_word zmask
      in if rep = 0 then 0 else NOT (drop_bit (rep - 1) (- 1)))"

definition smask_from_smask :: "u64 \<Rightarrow> u64" where
  "smask_from_smask smask = smask_from_zmask (NOT smask)"

section \<open>Canonical values\<close>

definition width_bits :: "tcg_width \<Rightarrow> nat" where
  "width_bits w = (case w of I32 \<Rightarrow> 32 | I64 \<Rightarrow> 64)"

lemma width_bits_simps [simp]: "width_bits I32 = 32" "width_bits I64 = 64"
  by (simp_all add: width_bits_def)

lemma bit_sext32: "bit (sext32 v) i \<longleftrightarrow> i < 64 \<and> bit v (min i 31)"
  by (simp add: bit_simps min_def)

lemma bit_canon: "bit (canon w v) i \<longleftrightarrow> i < 64 \<and> bit v (min i (width_bits w - 1))"
  using bit_imp_le_length [of v i] by (cases w) (auto simp: canon_def bit_simps min_def)

lemma canon_I64 [simp]: "canon I64 v = v"
  by (simp add: canon_def)

lemma canon_I32: "canon I32 v = sext32 (lo32 v)"
  by (simp add: canon_def)

lemma lo32_sext32 [simp]: "lo32 (sext32 v) = v"
  by (rule bit_word_eqI) (simp add: bit_simps)

lemma lo32_canon_I32 [simp]: "lo32 (canon I32 v) = lo32 v"
  by (simp add: canon_I32)

lemma canon_canon [simp]: "canon w (canon w v) = canon w v"
  by (cases w) (simp_all add: canon_I32)

lemma canon_0 [simp]: "canon w 0 = 0"
  by (cases w) (simp_all add: canon_I32)

lemma canon_minus_1 [simp]: "canon w (- 1) = - 1"
  by (rule bit_eqI) (auto simp: bit_canon min_def width_bits_def split: tcg_width.split)

lemma canon_eqI: "(\<And>i. i < width_bits w \<Longrightarrow> bit a i = bit b i) \<Longrightarrow> canon w a = canon w b"
  by (rule bit_word_eqI) (cases w; simp add: bit_canon)

lemma canon_bit_eq: "canon w a = canon w b \<Longrightarrow> i < width_bits w \<Longrightarrow> bit a i = bit b i"
  using bit_canon [of w a i] bit_canon [of w b i] by (cases w) (auto simp: min_def)

lemma canon_eq_iff_lo32: "canon I32 a = canon I32 b \<longleftrightarrow> lo32 a = lo32 b"
  by (metis canon_I32 lo32_sext32)

lemma do_constant_folding_canon:
  "do_constant_folding opc w x y = map_option (canon w) (do_constant_folding_2 opc x y)"
  by (cases w) (auto simp: do_constant_folding_def canon_def split: option.split)

section \<open>What the masks say\<close>

text \<open>A bit of a value below the width may be 1 only where the known-zero mask has a 1.\<close>

definition zmask_ok :: "tcg_width \<Rightarrow> u64 \<Rightarrow> u64 \<Rightarrow> bool" where
  "zmask_ok w v z \<longleftrightarrow> (\<forall>i < width_bits w. bit v i \<longrightarrow> bit z i)"

text \<open>A 1 at position \<open>i\<close> of the sign mask: the bits from \<open>i - 1\<close> up are copies of the sign bit.\<close>

definition smask_ok :: "u64 \<Rightarrow> u64 \<Rightarrow> bool" where
  "smask_ok v s \<longleftrightarrow> (\<forall>i < 64. bit s i \<longrightarrow> (\<forall>j < 64. i \<le> Suc j \<longrightarrow> bit v j = bit v 63))"

lemma zmask_ok_minus_1 [simp]: "zmask_ok w v (- 1)"
  by (cases w) (simp_all add: zmask_ok_def)

lemma smask_ok_0 [simp]: "smask_ok v 0"
  by (simp add: smask_ok_def)

lemma zmask_ok_self [simp]: "zmask_ok w v v"
  by (simp add: zmask_ok_def)

lemma zmask_okD: "zmask_ok w v z \<Longrightarrow> i < width_bits w \<Longrightarrow> bit v i \<Longrightarrow> bit z i"
  by (simp add: zmask_ok_def)

lemma smask_okD: "smask_ok v s \<Longrightarrow> bit s i \<Longrightarrow> i \<le> Suc j \<Longrightarrow> j < 64 \<Longrightarrow> bit v j = bit v 63"
proof -
  assume "smask_ok v s" "bit s i" "i \<le> Suc j" "j < 64"
  moreover have "i < 64" using bit_imp_le_length [OF \<open>bit s i\<close>] by simp
  ultimately show ?thesis unfolding smask_ok_def by blast
qed

lemma smask_okI:
  "(\<And>i j. bit s i \<Longrightarrow> i < 64 \<Longrightarrow> j < 64 \<Longrightarrow> i \<le> Suc j \<Longrightarrow> bit v j = bit v 63) \<Longrightarrow> smask_ok v s"
  unfolding smask_ok_def by blast

text \<open>Counting leading zeros.\<close>

lemma clz_bits_le: "clz_bits bs \<le> length bs"
  by (induction bs) auto

lemma clz_bits_zero: "i < clz_bits bs \<Longrightarrow> \<not> bs ! i"
  by (induction bs arbitrary: i) (auto split: if_splits simp: less_Suc_eq_0_disj)

lemma clz_bits_one: "clz_bits bs < length bs \<Longrightarrow> bs ! clz_bits bs"
  by (induction bs) (auto split: if_splits)

lemma length_word_bits [simp]: "length (word_bits (w :: 'a::len word)) = LENGTH('a)"
  by (simp add: word_bits_def)

lemma rev_word_bits_nth:
  "i < LENGTH('a) \<Longrightarrow> rev (word_bits (w :: 'a::len word)) ! i = bit w (LENGTH('a) - Suc i)"
  by (simp add: rev_nth word_bits_def)

lemma clz_word_le: "clz_word (w :: 'a::len word) \<le> LENGTH('a)"
  using clz_bits_le [of "rev (word_bits w)"] by (simp add: clz_word_def)

lemma clz_word_zero:
  assumes "LENGTH('a) - clz_word w \<le> i" "i < LENGTH('a)"
  shows "\<not> bit (w :: 'a::len word) i"
proof -
  have "LENGTH('a) - Suc i < clz_word w" using assms by linarith
  then have "\<not> rev (word_bits w) ! (LENGTH('a) - Suc i)"
    unfolding clz_word_def by (rule clz_bits_zero)
  then show ?thesis using assms by (simp add: rev_word_bits_nth Suc_diff_Suc)
qed

lemma clz_word_one:
  assumes "clz_word (w :: 'a::len word) < LENGTH('a)"
  shows "bit w (LENGTH('a) - Suc (clz_word w))"
  using clz_bits_one [of "rev (word_bits w)"] assms
  by (simp add: clz_word_def rev_word_bits_nth)

lemma clz_word_less: "w \<noteq> 0 \<Longrightarrow> clz_word (w :: 'a::len word) < LENGTH('a)"
proof (rule ccontr)
  assume "w \<noteq> 0" "\<not> clz_word w < LENGTH('a)"
  then have "\<not> bit w i" for i
    using clz_word_zero [of w i] bit_imp_le_length [of w i] by fastforce
  with \<open>w \<noteq> 0\<close> show False by (simp add: bit_eq_iff)
qed

lemma ctz_word_less:
  assumes "w \<noteq> 0"
  shows "ctz_word (w :: 'a::len word) < LENGTH('a)"
proof (rule ccontr)
  assume n: "\<not> ctz_word w < LENGTH('a)"
  have "\<not> bit w i" for i
  proof (cases "i < LENGTH('a)")
    case True
    then have "\<not> word_bits w ! i"
      using clz_bits_zero [of i "word_bits w"] n by (simp add: ctz_word_def)
    then show ?thesis using True by (simp add: word_bits_def)
  qed (use bit_imp_le_length in blast)
  with assms show False by (simp add: bit_eq_iff)
qed

lemma ctpop_word_le: "ctpop_word (w :: 'a::len word) \<le> LENGTH('a)"
  using length_filter_le [of id "word_bits w"] by (simp add: ctpop_word_def)

section \<open>The masks computed from values and masks\<close>

lemma bit_left_mask: "n \<le> 64 \<Longrightarrow> bit (NOT (drop_bit n (- 1 :: u64))) i \<longleftrightarrow> 64 - n \<le> i \<and> i < 64"
  by (auto simp: bit_simps)

lemma smask_from_value_ok: "smask_ok v (smask_from_value v)"
proof (rule smask_okI)
  fix i j :: nat
  assume a: "bit (smask_from_value v) i" "i < 64" "j < 64" "i \<le> Suc j"
  let ?x = "v XOR signed_drop_bit 1 v"
  have le: "clrsb64 v \<le> 64" using clz_word_le [of ?x] by (simp add: clrsb64_def)
  have lo: "64 - clrsb64 v \<le> Suc j"
    using a(1,4) unfolding smask_from_value_def bit_left_mask [OF le] by linarith
  have step: "bit v k = bit v (Suc k)" if "j \<le> k" "k < 63" for k
  proof -
    have "64 - clz_word ?x \<le> k" using lo that by (simp add: clrsb64_def)
    then have "\<not> bit ?x k" using clz_word_zero [of ?x k] that by simp
    then show ?thesis using that by (auto simp: bit_simps)
  qed
  have "k + d = 63 \<Longrightarrow> j \<le> k \<Longrightarrow> bit v k = bit v 63" for d k
    by (induction d arbitrary: k) (use step in auto)
  from this [of j "63 - j"] a(3) show "bit v j = bit v 63" by simp
qed

lemma bit_smask_from_zmask:
  "bit (smask_from_zmask z) i \<longleftrightarrow> i < 64 \<and> clz_word z \<noteq> 0 \<and> 64 - (clz_word z - 1) \<le> i"
proof (cases "clz_word z = 0")
  case False
  have le: "clz_word z - 1 \<le> 64" using clz_word_le [of z] by simp
  have "smask_from_zmask z = NOT (drop_bit (clz_word z - 1) (- 1))"
    unfolding smask_from_zmask_def Let_def using False by (simp only: if_False)
  with False show ?thesis
    unfolding \<open>smask_from_zmask z = _\<close> bit_left_mask [OF le] by auto
qed (simp add: smask_from_zmask_def)

lemma smask_from_zmask_ok:
  assumes "zmask_ok w v z" "canon w v = v"
  shows "smask_ok v (smask_from_zmask z)"
proof (rule smask_okI)
  fix i j :: nat
  assume a: "bit (smask_from_zmask z) i" "i < 64" "j < 64" "i \<le> Suc j"
  have top: "bit v k = bit v 63" if "width_bits w - 1 \<le> k" "k < 64" for k
  proof -
    have "min k (width_bits w - 1) = min 63 (width_bits w - 1)" using that by (cases w) simp_all
    then show ?thesis using bit_canon [of w v k] bit_canon [of w v 63] that by (simp add: assms(2))
  qed
  have z0: "\<not> bit z k" if "j \<le> k" "k < 64" for k
  proof -
    have "64 - clz_word z \<le> k" using a that unfolding bit_smask_from_zmask by linarith
    then show ?thesis using clz_word_zero [of z k] that by simp
  qed
  show "bit v j = bit v 63"
  proof (cases "width_bits w - 1 \<le> j")
    case False
    have w: "width_bits w - 1 < width_bits w" "width_bits w - 1 < 64" by (cases w; simp)+
    have "\<not> bit v j" using zmask_okD [OF assms(1), of j] z0 [of j] a(3) False w by linarith
    moreover have "\<not> bit v (width_bits w - 1)"
      using zmask_okD [OF assms(1) w(1)] z0 [of "width_bits w - 1"] False w(2) by linarith
    ultimately show ?thesis using top [OF order.refl w(2)] by simp
  next
    case True
    then show ?thesis by (rule top [OF _ a(3)])
  qed
qed

lemma smask_from_smask_ok:
  assumes "\<And>j. j < 64 \<Longrightarrow> bit s j \<Longrightarrow> bit r j = b"
  shows "smask_ok r (smask_from_smask s)"
proof (rule smask_okI)
  fix i j :: nat
  assume a: "bit (smask_from_smask s) i" "i < 64" "j < 64" "i \<le> Suc j"
  have "bit s k" if "j \<le> k" "k < 64" for k
  proof -
    have "64 - clz_word (NOT s) \<le> k"
      using a that unfolding smask_from_smask_def bit_smask_from_zmask by linarith
    then show ?thesis using clz_word_zero [of "NOT s" k] that by (simp add: bit_not_iff)
  qed
  then show "bit r j = bit r 63" using assms [of j] assms [of 63] a(3) by simp
qed

end
