(* ===== verification/Opt_State.thy ===== *)
theory Opt_State
  imports Opt_Masks
begin

text \<open>
  The state of the TCG optimizer (\<open>tcg/optimize.c\<close>): temporaries, what is known of each of them
  (\<open>TempOptInfo\<close>), the rings of temporaries that hold the same value, and the known copies of CPU
  state fields in memory (\<open>MemCopyInfo\<close>).

  A temporary is a variable, numbered, or a constant: \<open>tcg_constant_internal\<close> hands out one temporary
  per type and value, so a constant is identified by these.  The interval tree of memory copies is a list
  ordered by start; its per-temporary lists are the elements with that temporary.
\<close>

section \<open>Temporaries and operations\<close>

datatype tcg_temp_kind = TEMP_EBB | TEMP_TB | TEMP_GLOBAL | TEMP_FIXED | TEMP_CONST

fun kind_num :: "tcg_temp_kind \<Rightarrow> nat" where
  "kind_num TEMP_EBB = 0"
| "kind_num TEMP_TB = 1"
| "kind_num TEMP_GLOBAL = 2"
| "kind_num TEMP_FIXED = 3"
| "kind_num TEMP_CONST = 4"

datatype tcgtemp = Tmp nat | Const tcg_width u64

text \<open>The description of a variable; the base type \<^const>\<open>None\<close> is a half of a 128-bit variable.\<close>

record temp_desc =
  tkind :: tcg_temp_kind
  tbase_type :: "tcg_width option"
  ttype :: tcg_width

text \<open>An argument of an operation: a temporary or an immediate.\<close>

datatype tcgarg = Arg tcgtemp | Imm u64

record tcgop =
  opc :: tcg_opc
  args :: "tcgarg list"
  callo :: nat
  calli :: nat
  call_flags :: u32

fun arg_temp :: "tcgarg \<Rightarrow> tcgtemp" where
  "arg_temp (Arg t) = t"
| "arg_temp (Imm n) = Tmp (unat n)"

fun arg_imm :: "tcgarg \<Rightarrow> u64" where
  "arg_imm (Imm n) = n"
| "arg_imm (Arg t) = 0"

text \<open>The operand counts of \<open>tcg-opc.h\<close> (outputs, inputs, immediates).\<close>

fun host_args :: "tcg_host \<Rightarrow> nat \<times> nat \<times> nat" where
  "host_args (H_st8 w) = (0, 2, 1)"
| "host_args (H_st16 w) = (0, 2, 1)"
| "host_args (H_st w) = (0, 2, 1)"
| "host_args H_st32_i64 = (0, 2, 1)"
| "host_args _ = (1, 1, 1)"

fun op_args :: "tcg_opc \<Rightarrow> nat \<times> nat \<times> nat" where
  "op_args (Tcg (Op_rrr r w)) = (1, 2, 0)"
| "op_args (Tcg (Op_rr u w)) = (1, 1, if u = U_bswap16 \<or> u = U_bswap32 then 1 else 0)"
| "op_args (Tcg (Op_rr64 u)) = (1, 1, if u = W_bswap64_i64 then 1 else 0)"
| "op_args (Tcg (Op_host h)) = host_args h"
| "op_args (Tcg (Op_setcond w)) = (1, 2, 1)"
| "op_args (Tcg (Op_movcond w)) = (1, 4, 1)"
| "op_args (Tcg (Op_deposit w)) = (1, 2, 2)"
| "op_args (Tcg (Op_extract w)) = (1, 1, 2)"
| "op_args (Tcg (Op_sextract w)) = (1, 1, 2)"
| "op_args (Tcg (Op_brcond w)) = (0, 2, 2)"
| "op_args (Tcg (Op_add2 w)) = (2, 4, 0)"
| "op_args (Tcg (Op_sub2 w)) = (2, 4, 0)"
| "op_args (Tcg Op_mulu2_i32) = (2, 2, 0)"
| "op_args (Tcg Op_muls2_i32) = (2, 2, 0)"
| "op_args (Tcg (Op_qemu_ld_a32 w)) = (1, 1, 1)"
| "op_args (Tcg (Op_qemu_ld_a64 w)) = (1, 1, 1)"
| "op_args (Tcg (Op_qemu_st_a32 w)) = (0, 2, 1)"
| "op_args (Tcg (Op_qemu_st_a64 w)) = (0, 2, 1)"
| "op_args (Tcg Op_call) = (0, 0, 3)"
| "op_args (Tcg Op_br) = (0, 0, 1)"
| "op_args (Tcg Op_exit_tb) = (0, 0, 1)"
| "op_args (Tcg Op_goto_tb) = (0, 0, 1)"
| "op_args (Tcg Op_goto_ptr) = (0, 1, 0)"
| "op_args (Tcg Op_mb) = (0, 0, 1)"
| "op_args (Tcg Op_tci_movi) = (1, 0, 1)"
| "op_args (Tcg Op_tci_movl) = (1, 0, 1)"
| "op_args (Op_negsetcond w) = (1, 2, 1)"
| "op_args (Op_extract2 w) = (1, 2, 1)"
| "op_args Op_extrl_i64_i32 = (1, 1, 0)"
| "op_args Op_extrh_i64_i32 = (1, 1, 0)"
| "op_args (Op_muluh w) = (1, 2, 0)"
| "op_args (Op_mulsh w) = (1, 2, 0)"
| "op_args Op_mulu2_i64 = (2, 2, 0)"
| "op_args Op_muls2_i64 = (2, 2, 0)"
| "op_args Op_setcond2_i32 = (1, 4, 1)"
| "op_args Op_brcond2_i32 = (0, 4, 2)"
| "op_args Op_set_label = (0, 0, 1)"
| "op_args Op_discard = (1, 0, 0)"
| "op_args Op_insn_start = (0, 0, 1)"

definition nb_oargs :: "tcg_opc \<Rightarrow> nat" where "nb_oargs oc = fst (op_args oc)"
definition nb_iargs :: "tcg_opc \<Rightarrow> nat" where "nb_iargs oc = fst (snd (op_args oc))"

text \<open>The flags of \<open>tcg-opc.h\<close> the optimizer tests.\<close>

definition opf_bb_end :: "tcg_opc \<Rightarrow> bool" where
  "opf_bb_end oc \<longleftrightarrow>
     (case oc of
        Tcg (Op_brcond w) \<Rightarrow> True | Op_brcond2_i32 \<Rightarrow> True | Op_set_label \<Rightarrow> True | Tcg Op_br \<Rightarrow> True
      | Tcg Op_exit_tb \<Rightarrow> True | Tcg Op_goto_tb \<Rightarrow> True | Tcg Op_goto_ptr \<Rightarrow> True | _ \<Rightarrow> False)"

definition opf_cond_branch :: "tcg_opc \<Rightarrow> bool" where
  "opf_cond_branch oc \<longleftrightarrow>
     (case oc of Tcg (Op_brcond w) \<Rightarrow> True | Op_brcond2_i32 \<Rightarrow> True | _ \<Rightarrow> False)"

fun host_width :: "tcg_host \<Rightarrow> tcg_width" where
  "host_width (H_ld8u w) = w"
| "host_width (H_ld8s w) = w"
| "host_width (H_ld16u w) = w"
| "host_width (H_ld16s w) = w"
| "host_width (H_ld w) = w"
| "host_width (H_st8 w) = w"
| "host_width (H_st16 w) = w"
| "host_width (H_st w) = w"
| "host_width H_ld32u_i64 = I64"
| "host_width H_ld32s_i64 = I64"
| "host_width H_st32_i64 = I64"

text \<open>The type of an operation: \<open>TCG_OPF_64BIT\<close> or not.\<close>

fun op_type :: "tcg_opc \<Rightarrow> tcg_width" where
  "op_type (Tcg (Op_rrr r w)) = w"
| "op_type (Tcg (Op_rr u w)) = w"
| "op_type (Tcg (Op_rr64 u)) = I64"
| "op_type (Tcg (Op_host h)) = host_width h"
| "op_type (Tcg (Op_setcond w)) = w"
| "op_type (Tcg (Op_movcond w)) = w"
| "op_type (Tcg (Op_deposit w)) = w"
| "op_type (Tcg (Op_extract w)) = w"
| "op_type (Tcg (Op_sextract w)) = w"
| "op_type (Tcg (Op_brcond w)) = w"
| "op_type (Tcg (Op_add2 w)) = w"
| "op_type (Tcg (Op_sub2 w)) = w"
| "op_type (Tcg (Op_qemu_ld_a32 w)) = w"
| "op_type (Tcg (Op_qemu_ld_a64 w)) = w"
| "op_type (Tcg (Op_qemu_st_a32 w)) = w"
| "op_type (Tcg (Op_qemu_st_a64 w)) = w"
| "op_type (Op_negsetcond w) = w"
| "op_type (Op_extract2 w) = w"
| "op_type (Op_muluh w) = w"
| "op_type (Op_mulsh w) = w"
| "op_type Op_mulu2_i64 = I64"
| "op_type Op_muls2_i64 = I64"
| "op_type _ = I32"

section \<open>The optimizer's context\<close>

record temp_opt_info =
  is_const :: bool
  prev_copy :: tcgtemp
  next_copy :: tcgtemp
  ti_val :: u64
  ti_z_mask :: u64
  ti_s_mask :: u64

record mem_copy_info =
  mc_start :: u64
  mc_last :: u64
  mc_ts :: tcgtemp
  mc_type :: tcg_width

text \<open>
  \<open>OptContext\<close> and the parts of \<open>TCGContext\<close> the pass uses.  \<open>op\<close> is the operation being folded,
  \<open>op_removed\<close> that \<open>tcg_op_remove\<close> took it out, \<open>op2\<close> what was inserted before it, \<open>out_ops\<close> the
  operations behind it; \<open>prev_mb\<close> is a position there.  \<open>trap\<close> records a failed assertion.
\<close>

record opt_context =
  tdesc :: "nat \<Rightarrow> temp_desc"
  nb_globals :: nat
  tcg_env :: tcgtemp
  out_ops :: "tcgop list"
  op2 :: "tcgop list"
  op :: tcgop
  op_removed :: bool
  prev_mb :: "nat option"
  temps_used :: "tcgtemp list"
  info :: "tcgtemp \<Rightarrow> temp_opt_info"
  mem_copy :: "mem_copy_info list"
  a_mask :: u64
  z_mask :: u64
  s_mask :: u64
  ctype :: tcg_width
  trap :: bool

fun temp_kind :: "opt_context \<Rightarrow> tcgtemp \<Rightarrow> tcg_temp_kind" where
  "temp_kind c (Tmp n) = tkind (tdesc c n)"
| "temp_kind c (Const w v) = TEMP_CONST"

fun temp_type :: "opt_context \<Rightarrow> tcgtemp \<Rightarrow> tcg_width" where
  "temp_type c (Tmp n) = ttype (tdesc c n)"
| "temp_type c (Const w v) = w"

fun temp_base_type :: "opt_context \<Rightarrow> tcgtemp \<Rightarrow> tcg_width option" where
  "temp_base_type c (Tmp n) = tbase_type (tdesc c n)"
| "temp_base_type c (Const w v) = Some w"

definition temp_readonly :: "opt_context \<Rightarrow> tcgtemp \<Rightarrow> bool" where
  "temp_readonly c ts \<longleftrightarrow> kind_num (temp_kind c ts) \<ge> kind_num TEMP_FIXED"

definition ts_info :: "opt_context \<Rightarrow> tcgtemp \<Rightarrow> temp_opt_info" where
  "ts_info c ts = info c ts"

definition arg_info :: "opt_context \<Rightarrow> tcgarg \<Rightarrow> temp_opt_info" where
  "arg_info c a = ts_info c (arg_temp a)"

definition ts_is_const :: "opt_context \<Rightarrow> tcgtemp \<Rightarrow> bool" where
  "ts_is_const c ts = is_const (ts_info c ts)"

definition arg_is_const :: "opt_context \<Rightarrow> tcgarg \<Rightarrow> bool" where
  "arg_is_const c a = ts_is_const c (arg_temp a)"

definition ts_is_copy :: "opt_context \<Rightarrow> tcgtemp \<Rightarrow> bool" where
  "ts_is_copy c ts \<longleftrightarrow> next_copy (ts_info c ts) \<noteq> ts"

definition cmp_better_copy :: "opt_context \<Rightarrow> tcgtemp \<Rightarrow> tcgtemp \<Rightarrow> tcgtemp" where
  "cmp_better_copy c a b = (if kind_num (temp_kind c a) < kind_num (temp_kind c b) then b else a)"

definition upd_info :: "tcgtemp \<Rightarrow> (temp_opt_info \<Rightarrow> temp_opt_info) \<Rightarrow> opt_context \<Rightarrow> opt_context" where
  "upd_info ts f c = c\<lparr>info := (info c)(ts := f (info c ts))\<rparr>"

definition init_ts_info :: "tcgtemp \<Rightarrow> opt_context \<Rightarrow> opt_context" where
  "init_ts_info ts c =
     (if ts \<in> set (temps_used c) then c
      else
        let c1 = c\<lparr>temps_used := ts # temps_used c\<rparr>;
            c2 = upd_info ts (\<lambda>ti. ti\<lparr>next_copy := ts, prev_copy := ts\<rparr>) c1
        in case ts of
             Const w v \<Rightarrow>
               upd_info ts (\<lambda>ti. ti\<lparr>is_const := True, ti_val := v, ti_z_mask := v,
                                     ti_s_mask := smask_from_value v\<rparr>) c2
           | Tmp n \<Rightarrow>
               upd_info ts (\<lambda>ti. ti\<lparr>is_const := False, ti_z_mask := - 1, ti_s_mask := 0\<rparr>) c2)"

section \<open>Copies in memory\<close>

definition mc_overlaps :: "u64 \<Rightarrow> u64 \<Rightarrow> mem_copy_info \<Rightarrow> bool" where
  "mc_overlaps s l mc \<longleftrightarrow> mc_start mc \<le> l \<and> s \<le> mc_last mc"

definition mem_copy_first :: "mem_copy_info list \<Rightarrow> u64 \<Rightarrow> u64 \<Rightarrow> mem_copy_info option" where
  "mem_copy_first mcs s l = find (mc_overlaps s l) mcs"

definition interval_tree_insert :: "mem_copy_info \<Rightarrow> mem_copy_info list \<Rightarrow> mem_copy_info list" where
  "interval_tree_insert mc mcs =
     takeWhile (\<lambda>m. mc_start m \<le> mc_start mc) mcs @ [mc] @ dropWhile (\<lambda>m. mc_start m \<le> mc_start mc) mcs"

text \<open>The loop of \<open>remove_mem_copy_in\<close>: as long as a copy overlaps, remove it.\<close>

function remove_in_loop :: "mem_copy_info list \<Rightarrow> u64 \<Rightarrow> u64 \<Rightarrow> mem_copy_info list" where
  "remove_in_loop mcs s l =
     (case mem_copy_first mcs s l of None \<Rightarrow> mcs | Some mc \<Rightarrow> remove_in_loop (remove1 mc mcs) s l)"
  by pat_completeness auto
termination
proof (relation "measure (\<lambda>(mcs, s, l). length mcs)")
  fix mcs s l mc
  assume "mem_copy_first mcs s l = Some mc"
  then have "mc \<in> set mcs"
    by (auto simp: mem_copy_first_def find_Some_iff)
  then show "((remove1 mc mcs, s, l), mcs, s, l) \<in> measure (\<lambda>(mcs, s, l). length mcs)"
    using length_pos_if_in_set by (fastforce simp: length_remove1)
qed simp

declare remove_in_loop.simps [simp del]

definition remove_mem_copy_in :: "u64 \<Rightarrow> u64 \<Rightarrow> opt_context \<Rightarrow> opt_context" where
  "remove_mem_copy_in s l c = c\<lparr>mem_copy := remove_in_loop (mem_copy c) s l\<rparr>"

definition remove_mem_copy_all :: "opt_context \<Rightarrow> opt_context" where
  "remove_mem_copy_all c = remove_mem_copy_in 0 (- 1) c"

section \<open>Rings of copies\<close>

text \<open>
  The loops over a ring, bounded by fuel: the number of temporaries in use.  \<^const>\<open>None\<close> would be a
  walk that does not come back to its start.
\<close>

fun better_loop :: "opt_context \<Rightarrow> nat \<Rightarrow> tcgtemp \<Rightarrow> tcgtemp \<Rightarrow> tcgtemp \<Rightarrow> tcgtemp option" where
  "better_loop c 0 ts i ret = (if i = ts then Some ret else None)"
| "better_loop c (Suc n) ts i ret =
     (if i = ts then Some ret
      else better_loop c n ts (next_copy (ts_info c i)) (cmp_better_copy c ret i))"

definition find_better_copy :: "opt_context \<Rightarrow> tcgtemp \<Rightarrow> tcgtemp" where
  "find_better_copy c ts =
     (if temp_readonly c ts then ts
      else case better_loop c (length (temps_used c)) ts (next_copy (ts_info c ts)) ts of
             Some ret \<Rightarrow> ret | None \<Rightarrow> ts)"

fun copies_loop :: "opt_context \<Rightarrow> nat \<Rightarrow> tcgtemp \<Rightarrow> tcgtemp \<Rightarrow> tcgtemp \<Rightarrow> bool option" where
  "copies_loop c 0 ts1 ts2 i = (if i = ts1 then Some False else if i = ts2 then Some True else None)"
| "copies_loop c (Suc n) ts1 ts2 i =
     (if i = ts1 then Some False
      else if i = ts2 then Some True
      else copies_loop c n ts1 ts2 (next_copy (ts_info c i)))"

definition ts_are_copies :: "opt_context \<Rightarrow> tcgtemp \<Rightarrow> tcgtemp \<Rightarrow> bool" where
  "ts_are_copies c ts1 ts2 \<longleftrightarrow>
     (if ts1 = ts2 then True
      else if \<not> ts_is_copy c ts1 \<or> \<not> ts_is_copy c ts2 then False
      else copies_loop c (length (temps_used c)) ts1 ts2 (next_copy (ts_info c ts1)) = Some True)"

definition args_are_copies :: "opt_context \<Rightarrow> tcgarg \<Rightarrow> tcgarg \<Rightarrow> bool" where
  "args_are_copies c a1 a2 = ts_are_copies c (arg_temp a1) (arg_temp a2)"

definition move_mem_copies :: "tcgtemp \<Rightarrow> tcgtemp \<Rightarrow> opt_context \<Rightarrow> opt_context" where
  "move_mem_copies dst src c =
     c\<lparr>mem_copy := map (\<lambda>mc. if mc_ts mc = src then mc\<lparr>mc_ts := dst\<rparr> else mc) (mem_copy c)\<rparr>"

definition reset_ts :: "tcgtemp \<Rightarrow> opt_context \<Rightarrow> opt_context" where
  "reset_ts ts c =
     (let pts = prev_copy (ts_info c ts);
          nts = next_copy (ts_info c ts);
          c1 = upd_info nts (\<lambda>ni. ni\<lparr>prev_copy := pts\<rparr>) c;
          c2 = upd_info pts (\<lambda>pi. pi\<lparr>next_copy := nts\<rparr>) c1;
          c3 = upd_info ts (\<lambda>ti. ti\<lparr>next_copy := ts, prev_copy := ts, is_const := False,
                                     ti_z_mask := - 1, ti_s_mask := 0\<rparr>) c2
      in if list_ex (\<lambda>mc. mc_ts mc = ts) (mem_copy c3) then
           if ts = nts then c3\<lparr>mem_copy := filter (\<lambda>mc. mc_ts mc \<noteq> ts) (mem_copy c3)\<rparr>
           else move_mem_copies (find_better_copy c3 nts) ts c3
         else c3)"

definition record_mem_copy :: "tcg_width \<Rightarrow> tcgtemp \<Rightarrow> u64 \<Rightarrow> u64 \<Rightarrow> opt_context \<Rightarrow> opt_context" where
  "record_mem_copy type ts start lst c =
     c\<lparr>mem_copy := interval_tree_insert
         \<lparr>mc_start = start, mc_last = lst, mc_ts = find_better_copy c ts, mc_type = type\<rparr> (mem_copy c)\<rparr>"

definition find_mem_copy_for :: "opt_context \<Rightarrow> tcg_width \<Rightarrow> u64 \<Rightarrow> tcgtemp option" where
  "find_mem_copy_for c type s =
     (case find (\<lambda>mc. mc_overlaps s s mc \<and> mc_start mc = s \<and> mc_type mc = type) (mem_copy c) of
        None \<Rightarrow> None
      | Some mc \<Rightarrow> Some (find_better_copy c (mc_ts mc)))"

section \<open>Moves\<close>

definition arg_new_constant :: "u64 \<Rightarrow> opt_context \<Rightarrow> tcgarg \<times> opt_context" where
  "arg_new_constant val c =
     (let ts = Const (ctype c) (if ctype c = I32 then sext32 (lo32 val) else val)
      in (Arg ts, init_ts_info ts c))"

text \<open>Make an operation a move; \<^const>\<open>None\<close> when it is removed because the move would do nothing.\<close>

definition tcg_opt_gen_mov :: "tcgop \<Rightarrow> tcgarg \<Rightarrow> tcgarg \<Rightarrow> opt_context \<Rightarrow> tcgop option \<times> opt_context" where
  "tcg_opt_gen_mov o1 dst src c =
     (let dst_ts = arg_temp dst; src_ts = arg_temp src
      in if ts_are_copies c dst_ts src_ts then (None, c)
         else
           let c1 = reset_ts dst_ts c;
               o2 = o1\<lparr>opc := Tcg (Op_rr U_mov (ctype c)), args := (args o1)[0 := dst, 1 := src]\<rparr>;
               si = ts_info c1 src_ts;
               c2 = upd_info dst_ts (\<lambda>di. di\<lparr>ti_z_mask := ti_z_mask si, ti_s_mask := ti_s_mask si\<rparr>) c1
           in if temp_type c src_ts = temp_type c dst_ts then
                let ni = next_copy si;
                    c3 = upd_info dst_ts (\<lambda>di. di\<lparr>next_copy := ni, prev_copy := src_ts\<rparr>) c2;
                    c4 = upd_info ni (\<lambda>i. i\<lparr>prev_copy := dst_ts\<rparr>) c3;
                    c5 = upd_info src_ts (\<lambda>i. i\<lparr>next_copy := dst_ts\<rparr>) c4;
                    c6 = upd_info dst_ts (\<lambda>di. di\<lparr>is_const := is_const si, ti_val := ti_val si\<rparr>) c5
                in (Some o2,
                    if list_ex (\<lambda>mc. mc_ts mc = src_ts) (mem_copy c6)
                       \<and> cmp_better_copy c6 src_ts dst_ts = dst_ts
                    then move_mem_copies dst_ts src_ts c6 else c6)
              else (Some o2, c2))"

text \<open>The same for the current operation, and with a new constant as source.\<close>

definition set_op :: "tcgop option \<Rightarrow> opt_context \<Rightarrow> opt_context" where
  "set_op r c = (case r of None \<Rightarrow> c\<lparr>op_removed := True\<rparr> | Some o1 \<Rightarrow> c\<lparr>op := o1\<rparr>)"

definition gen_mov :: "tcgarg \<Rightarrow> tcgarg \<Rightarrow> opt_context \<Rightarrow> bool \<times> opt_context" where
  "gen_mov dst src c = (let (r, c1) = tcg_opt_gen_mov (op c) dst src c in (True, set_op r c1))"

definition tcg_opt_gen_movi :: "tcgop \<Rightarrow> tcgarg \<Rightarrow> u64 \<Rightarrow> opt_context \<Rightarrow> tcgop option \<times> opt_context" where
  "tcg_opt_gen_movi o1 dst val c =
     (let (src, c1) = arg_new_constant val c in tcg_opt_gen_mov o1 dst src c1)"

definition gen_movi :: "tcgarg \<Rightarrow> u64 \<Rightarrow> opt_context \<Rightarrow> bool \<times> opt_context" where
  "gen_movi dst val c = (let (r, c1) = tcg_opt_gen_movi (op c) dst val c in (True, set_op r c1))"

end
