(* ===== verification/Opt_Fold.thy ===== *)
theory Opt_Fold
  imports Opt_State
begin

text \<open>
  The folding functions of the TCG optimizer and its main loop (\<open>tcg/optimize.c\<close>).  A folder returns
  the C function's boolean and the context; \<open>trap\<close> is set where the C code asserts.  The cases of vector
  types and vector opcodes are left out: the target has no vector registers.
\<close>

type_synonym folder = "opt_context \<Rightarrow> bool \<times> opt_context"

section \<open>Access to the current operation\<close>

definition oarg :: "opt_context \<Rightarrow> nat \<Rightarrow> tcgarg" where
  "oarg c i = args (op c) ! i"

definition set_oarg :: "nat \<Rightarrow> tcgarg \<Rightarrow> opt_context \<Rightarrow> opt_context" where
  "set_oarg i a c = c\<lparr>op := (op c)\<lparr>args := (args (op c))[i := a]\<rparr>\<rparr>"

definition set_opc :: "tcg_opc \<Rightarrow> opt_context \<Rightarrow> opt_context" where
  "set_opc oc c = c\<lparr>op := (op c)\<lparr>opc := oc\<rparr>\<rparr>"

definition oval :: "opt_context \<Rightarrow> nat \<Rightarrow> u64" where
  "oval c i = ti_val (arg_info c (oarg c i))"

definition oconst :: "opt_context \<Rightarrow> nat \<Rightarrow> bool" where
  "oconst c i = arg_is_const c (oarg c i)"

definition oimm :: "opt_context \<Rightarrow> nat \<Rightarrow> u64" where
  "oimm c i = arg_imm (oarg c i)"

text \<open>The short-circuit disjunction of two folders.\<close>

definition or_else :: "folder \<Rightarrow> folder \<Rightarrow> folder" where
  "or_else f g c = (let (b, c1) = f c in if b then (True, c1) else g c1)"

definition assert_fails :: folder where
  "assert_fails c = (True, c\<lparr>trap := True\<rparr>)"

section \<open>Conditions\<close>

text \<open>The result of folding a condition: -1, 0 or 1, or a failed assertion.\<close>

datatype cond_fold = Unknown | Known bool | Bad

definition known :: "bool option \<Rightarrow> cond_fold" where
  "known r = (case r of None \<Rightarrow> Bad | Some b \<Rightarrow> Known b)"

definition do_constant_folding_cond ::
    "opt_context \<Rightarrow> tcg_width \<Rightarrow> tcgarg \<Rightarrow> tcgarg \<Rightarrow> u32 \<Rightarrow> cond_fold" where
  "do_constant_folding_cond ctx type x y c =
     (if arg_is_const ctx x \<and> arg_is_const ctx y then
        let xv = ti_val (arg_info ctx x); yv = ti_val (arg_info ctx y)
        in case type of
             I32 \<Rightarrow> known (do_constant_folding_cond_32 (lo32 xv) (lo32 yv) c)
           | I64 \<Rightarrow> known (do_constant_folding_cond_64 xv yv c)
      else if args_are_copies ctx x y then known (do_constant_folding_cond_eq c)
      else if arg_is_const ctx y \<and> ti_val (arg_info ctx y) = 0 then
        if c = TCG_COND_LTU then Known False
        else if c = TCG_COND_GEU then Known True
        else Unknown
      else Unknown)"

definition do_constant_folding_cond2 ::
    "opt_context \<Rightarrow> tcgarg \<Rightarrow> tcgarg \<Rightarrow> tcgarg \<Rightarrow> tcgarg \<Rightarrow> u32 \<Rightarrow> cond_fold" where
  "do_constant_folding_cond2 ctx al ah bl bh c =
     (let copies = (if args_are_copies ctx al bl \<and> args_are_copies ctx ah bh
                    then known (do_constant_folding_cond_eq c) else Unknown)
      in if arg_is_const ctx bl \<and> arg_is_const ctx bh then
           let b = deposit64 (ti_val (arg_info ctx bl)) 32 32 (ti_val (arg_info ctx bh))
           in if arg_is_const ctx al \<and> arg_is_const ctx ah then
                let a = deposit64 (ti_val (arg_info ctx al)) 32 32 (ti_val (arg_info ctx ah))
                in known (do_constant_folding_cond_64 a b c)
              else if b = 0 \<and> c = TCG_COND_LTU then Known False
              else if b = 0 \<and> c = TCG_COND_GEU then Known True
              else copies
         else copies)"

text \<open>
  \<open>swap_commutative\<close> on the arguments at two positions; the destination is \<^const>\<open>None\<close> for \<open>NO_DEST\<close>.
\<close>

definition swap_commutative :: "tcgarg option \<Rightarrow> nat \<Rightarrow> nat \<Rightarrow> opt_context \<Rightarrow> bool \<times> opt_context" where
  "swap_commutative dest p1 p2 c =
     (let a1 = oarg c p1; a2 = oarg c p2;
          sum = of_bool (arg_is_const c a1) - of_bool (arg_is_const c a2) :: int
      in if sum > 0 \<or> (sum = 0 \<and> dest = Some a2)
         then (True, set_oarg p2 a1 (set_oarg p1 a2 c))
         else (False, c))"

definition swap_commutative2 :: "nat \<Rightarrow> nat \<Rightarrow> opt_context \<Rightarrow> bool \<times> opt_context" where
  "swap_commutative2 p1 p2 c =
     (let sum = of_bool (oconst c p1) + of_bool (oconst c (p1 + 1))
              - of_bool (oconst c p2) - of_bool (oconst c (p2 + 1)) :: int;
          a0 = oarg c p1; a1 = oarg c (p1 + 1); b0 = oarg c p2; b1 = oarg c (p2 + 1)
      in if sum > 0
         then (True, set_oarg (p2 + 1) a1 (set_oarg (p1 + 1) b1 (set_oarg p2 a0 (set_oarg p1 b0 c))))
         else (False, c))"

section \<open>The frame of an operation\<close>

definition init_arguments :: "nat \<Rightarrow> opt_context \<Rightarrow> opt_context" where
  "init_arguments nb_args c = fold (\<lambda>i c. init_ts_info (arg_temp (oarg c i)) c) [0..<nb_args] c"

definition copy_propagate_1 :: "nat \<Rightarrow> opt_context \<Rightarrow> opt_context" where
  "copy_propagate_1 i c =
     (let ts = arg_temp (oarg c i)
      in if ts_is_copy c ts then set_oarg i (Arg (find_better_copy c ts)) c else c)"

definition copy_propagate :: "nat \<Rightarrow> nat \<Rightarrow> opt_context \<Rightarrow> opt_context" where
  "copy_propagate nb_o nb_i c = fold copy_propagate_1 [nb_o..<nb_o + nb_i] c"

definition finish_out :: "nat \<Rightarrow> opt_context \<Rightarrow> opt_context" where
  "finish_out i c =
     (let ts = arg_temp (oarg c i); c1 = reset_ts ts c
      in if i = 0
         then upd_info ts (\<lambda>ti. ti\<lparr>ti_z_mask := z_mask c, ti_s_mask := s_mask c\<rparr>) c1
         else c1)"

definition finish_folding :: "opt_context \<Rightarrow> opt_context" where
  "finish_folding c =
     (if opf_bb_end (opc (op c)) then
        let c1 = c\<lparr>prev_mb := None\<rparr>
        in if \<not> opf_cond_branch (opc (op c)) then remove_mem_copy_all (c1\<lparr>temps_used := []\<rparr>) else c1
      else fold finish_out [0..<nb_oargs (opc (op c))] c)"

section \<open>Helpers of the folders\<close>

definition movi_result :: "u64 option \<Rightarrow> folder" where
  "movi_result r c =
     (case r of None \<Rightarrow> assert_fails c | Some t \<Rightarrow> gen_movi (oarg c 0) t c)"

definition fold_const1 :: folder where
  "fold_const1 c =
     (if oconst c 1 then movi_result (do_constant_folding (opc (op c)) (ctype c) (oval c 1) 0) c
      else (False, c))"

definition fold_const2 :: folder where
  "fold_const2 c =
     (if oconst c 1 \<and> oconst c 2
      then movi_result (do_constant_folding (opc (op c)) (ctype c) (oval c 1) (oval c 2)) c
      else (False, c))"

definition fold_const2_commutative :: folder where
  "fold_const2_commutative c = fold_const2 (snd (swap_commutative (Some (oarg c 0)) 1 2 c))"

definition fold_masks :: folder where
  "fold_masks c =
     (let a = (if ctype c = I32 then sext32 (lo32 (a_mask c)) else a_mask c);
          z = (if ctype c = I32 then sext32 (lo32 (z_mask c)) else z_mask c);
          s = (if ctype c = I32 then s_mask c OR MAKE_64BIT_MASK 32 32 else s_mask c);
          c1 = c\<lparr>z_mask := z, s_mask := s\<rparr>
      in if z = 0 then gen_movi (oarg c1 0) 0 c1
         else if a = 0 then gen_mov (oarg c1 0) (oarg c1 1) c1
         else (False, c1))"

definition fold_not :: folder where
  "fold_not c =
     (let (b, c1) = fold_const1 c
      in if b then (True, c1)
         else (True, finish_folding (c1\<lparr>s_mask := ti_s_mask (arg_info c1 (oarg c1 1))\<rparr>)))"

definition fold_to_not :: "nat \<Rightarrow> folder" where
  "fold_to_not idx c = fold_not (set_oarg 1 (oarg c idx) (set_opc (Tcg (Op_rr U_not (ctype c))) c))"

definition fold_ix_to_i :: "u64 \<Rightarrow> folder" where
  "fold_ix_to_i i c = (if oconst c 1 \<and> oval c 1 = i then gen_movi (oarg c 0) i c else (False, c))"

definition fold_ix_to_not :: "u64 \<Rightarrow> folder" where
  "fold_ix_to_not i c = (if oconst c 1 \<and> oval c 1 = i then fold_to_not 2 c else (False, c))"

definition fold_xi_to_i :: "u64 \<Rightarrow> folder" where
  "fold_xi_to_i i c = (if oconst c 2 \<and> oval c 2 = i then gen_movi (oarg c 0) i c else (False, c))"

definition fold_xi_to_x :: "u64 \<Rightarrow> folder" where
  "fold_xi_to_x i c = (if oconst c 2 \<and> oval c 2 = i then gen_mov (oarg c 0) (oarg c 1) c else (False, c))"

definition fold_xi_to_not :: "u64 \<Rightarrow> folder" where
  "fold_xi_to_not i c = (if oconst c 2 \<and> oval c 2 = i then fold_to_not 1 c else (False, c))"

definition fold_xx_to_i :: "u64 \<Rightarrow> folder" where
  "fold_xx_to_i i c =
     (if args_are_copies c (oarg c 1) (oarg c 2) then gen_movi (oarg c 0) i c else (False, c))"

definition fold_xx_to_x :: folder where
  "fold_xx_to_x c =
     (if args_are_copies c (oarg c 1) (oarg c 2) then gen_mov (oarg c 0) (oarg c 1) c else (False, c))"

text \<open>The masks of the first two inputs.\<close>

definition oz :: "opt_context \<Rightarrow> nat \<Rightarrow> u64" where "oz c i = ti_z_mask (arg_info c (oarg c i))"
definition os :: "opt_context \<Rightarrow> nat \<Rightarrow> u64" where "os c i = ti_s_mask (arg_info c (oarg c i))"

section \<open>The folders, by opcode\<close>

definition fold_add :: folder where
  "fold_add = or_else fold_const2_commutative (fold_xi_to_x 0)"

text \<open>The two moves an operation with two results becomes: the high part first, in \<open>op2\<close>.\<close>

definition two_movis :: "u64 \<Rightarrow> u64 \<Rightarrow> folder" where
  "two_movis lo hi c =
     (let rl = oarg c 0; rh = oarg c 1;
          o2 = \<lparr>opc = Op_discard, args = replicate 2 (Imm 0), callo = 0, calli = 0, call_flags = 0\<rparr>;
          (r1, c1) = tcg_opt_gen_movi (op c) rl lo c;
          (r2, c2) = tcg_opt_gen_movi o2 rh hi c1
      in (True, set_op r1 (c2\<lparr>op2 := (case r2 of None \<Rightarrow> [] | Some x \<Rightarrow> [x])\<rparr>)))"

definition addsub2_value :: "tcg_width \<Rightarrow> bool \<Rightarrow> u64 \<Rightarrow> u64 \<Rightarrow> u64 \<Rightarrow> u64 \<Rightarrow> u64 \<times> u64" where
  "addsub2_value w add al ah bl bh =
     (case w of
        I32 \<Rightarrow>
          let a = deposit64 al 32 32 ah; b = deposit64 bl 32 32 bh;
              r = (if add then a + b else a - b)
          in (sextract64 r 0 32, sextract64 r 32 32)
      | I64 \<Rightarrow>
          let a = (word_cat ah al :: 128 word); b = (word_cat bh bl :: 128 word);
              r = (if add then a + b else a - b)
          in (ucast r, ucast (drop_bit 64 r)))"

definition fold_addsub2 :: "bool \<Rightarrow> folder" where
  "fold_addsub2 add c =
     (let a_const = (oconst c 2 \<and> oconst c 3); b_const = (oconst c 4 \<and> oconst c 5)
      in if a_const \<and> b_const then
           let (al, ah) = addsub2_value (ctype c) add (oval c 2) (oval c 3) (oval c 4) (oval c 5)
           in two_movis al ah c
         else if \<not> add \<and> b_const then
           let bl = - oval c 4;
               bh = NOT (oval c 5) + of_bool (bl = 0);
               c1 = set_opc (Tcg (Op_add2 (ctype c))) c;
               (k4, c2) = arg_new_constant bl c1;
               c3 = set_oarg 4 k4 c2;
               (k5, c4) = arg_new_constant bh c3
           in (False, set_oarg 5 k5 c4)
         else (False, c))"

definition fold_add2 :: folder where
  "fold_add2 c =
     (let c1 = snd (swap_commutative (Some (oarg c 0)) 2 4 c);
          c2 = snd (swap_commutative (Some (oarg c1 1)) 3 5 c1)
      in fold_addsub2 True c2)"

definition and_masks :: folder where
  "and_masks c =
     (let z1 = oz c 1; z2 = oz c 2;
          c1 = c\<lparr>z_mask := z1 AND z2, s_mask := os c 1 AND os c 2\<rparr>
      in fold_masks (if oconst c 2 then c1\<lparr>a_mask := z1 AND NOT z2\<rparr> else c1))"

definition fold_and :: folder where
  "fold_and = or_else fold_const2_commutative (or_else (fold_xi_to_i 0) (or_else (fold_xi_to_x (- 1))
     (or_else fold_xx_to_x and_masks)))"

definition andc_masks :: folder where
  "andc_masks c =
     (let z1 = oz c 1;
          z2 = NOT (oz c 2);
          c1 = (if oconst c 2 then c\<lparr>a_mask := z1 AND NOT z2\<rparr> else c);
          z = (if oconst c 2 then z1 AND z2 else z1)
      in fold_masks (c1\<lparr>z_mask := z, s_mask := os c 1 AND os c 2\<rparr>))"

definition fold_andc :: folder where
  "fold_andc = or_else fold_const2 (or_else (fold_xx_to_i 0) (or_else (fold_xi_to_x 0)
     (or_else (fold_ix_to_not (- 1)) andc_masks)))"

definition fold_brcond :: folder where
  "fold_brcond c =
     (let cond = lo32 (oimm c 2);
          (sw, c1) = swap_commutative None 0 1 c;
          cond1 = (if sw then tcg_swap_cond cond else cond);
          c2 = (if sw then set_oarg 2 (Imm (zext32 cond1)) c1 else c1)
      in case do_constant_folding_cond c2 (ctype c2) (oarg c2 0) (oarg c2 1) cond1 of
           Bad \<Rightarrow> assert_fails c2
         | Unknown \<Rightarrow> (False, c2)
         | Known b \<Rightarrow>
             if \<not> b then (True, c2\<lparr>op_removed := True\<rparr>)
             else (False, set_oarg 0 (oarg c2 3) (set_opc (Tcg Op_br) c2)))"

definition brcond2_const :: "bool \<Rightarrow> tcgarg \<Rightarrow> folder" where
  "brcond2_const b label c =
     (if \<not> b then (True, c\<lparr>op_removed := True\<rparr>)
      else (False, set_oarg 0 label (set_opc (Tcg Op_br) c)))"

definition brcond2_high :: "u32 \<Rightarrow> tcgarg \<Rightarrow> folder" where
  "brcond2_high cond label c =
     (let c1 = set_opc (Tcg (Op_brcond I32)) c;
          c2 = set_oarg 0 (oarg c1 1) c1;
          c3 = set_oarg 1 (oarg c2 3) c2
      in (False, set_oarg 3 label (set_oarg 2 (Imm (zext32 cond)) c3)))"

definition brcond2_low :: "u32 \<Rightarrow> tcgarg \<Rightarrow> folder" where
  "brcond2_low cond label c =
     (let c1 = set_opc (Tcg (Op_brcond I32)) c;
          c2 = set_oarg 1 (oarg c1 2) c1
      in (False, set_oarg 3 label (set_oarg 2 (Imm (zext32 cond)) c2)))"

definition fold_brcond2 :: folder where
  "fold_brcond2 c =
     (let cond0 = lo32 (oimm c 4);
          label = oarg c 5;
          (sw, c1) = swap_commutative2 0 2 c;
          cond = (if sw then tcg_swap_cond cond0 else cond0);
          c2 = (if sw then set_oarg 4 (Imm (zext32 cond)) c1 else c1);
          inv = (cond = TCG_COND_NE)
      in case do_constant_folding_cond2 c2 (oarg c2 0) (oarg c2 1) (oarg c2 2) (oarg c2 3) cond of
           Bad \<Rightarrow> assert_fails c2
         | Known b \<Rightarrow> brcond2_const b label c2
         | Unknown \<Rightarrow>
             if cond = TCG_COND_LT \<or> cond = TCG_COND_GE then
               if oconst c2 2 \<and> oval c2 2 = 0 \<and> oconst c2 3 \<and> oval c2 3 = 0
               then brcond2_high cond label c2 else (False, c2)
             else if cond = TCG_COND_NE \<or> cond = TCG_COND_EQ then
               case do_constant_folding_cond c2 I32 (oarg c2 0) (oarg c2 2) cond of
                 Bad \<Rightarrow> assert_fails c2
               | Known b \<Rightarrow> if b = inv then brcond2_const b label c2 else brcond2_high cond label c2
               | Unknown \<Rightarrow>
                   (case do_constant_folding_cond c2 I32 (oarg c2 1) (oarg c2 3) cond of
                      Bad \<Rightarrow> assert_fails c2
                    | Known b \<Rightarrow> if b = inv then brcond2_const b label c2 else brcond2_low cond label c2
                    | Unknown \<Rightarrow> (False, c2))
             else (False, c2))"

text \<open>The mask and the sign of a byte swap, by opcode.\<close>

fun bswap_masks :: "tcg_opc \<Rightarrow> u64 \<Rightarrow> (u64 \<times> u64) option" where
  "bswap_masks (Tcg (Op_rr U_bswap16 w)) z = Some (ucast (bswap16 (ucast z)), - (2 ^ 15))"
| "bswap_masks (Tcg (Op_rr U_bswap32 w)) z = Some (zext32 (bswap32 (lo32 z)), - (2 ^ 31))"
| "bswap_masks (Tcg (Op_rr64 W_bswap64_i64)) z = Some (bswap64 z, - (2 ^ 63))"
| "bswap_masks _ z = None"

definition fold_bswap :: folder where
  "fold_bswap c =
     (if oconst c 1 then movi_result (do_constant_folding (opc (op c)) (ctype c) (oval c 1) (oimm c 2)) c
      else
        case bswap_masks (opc (op c)) (oz c 1) of
          None \<Rightarrow> assert_fails c
        | Some (z, sign) \<Rightarrow>
            let flags = oimm c 2 AND (TCG_BSWAP_OZ OR TCG_BSWAP_OS);
                s = smask_from_zmask z;
                (z', s') =
                  (if flags = TCG_BSWAP_OZ then (z, s)
                   else if flags = TCG_BSWAP_OS then
                     if z AND sign \<noteq> 0 then (z OR sign, push_bit 1 sign) else (z, s)
                   else (z OR push_bit 1 sign, 0))
            in fold_masks (c\<lparr>z_mask := z', s_mask := s'\<rparr>))"

definition TCG_CALL_NO_READ_GLOBALS :: u32 where "TCG_CALL_NO_READ_GLOBALS = 1"
definition TCG_CALL_NO_WRITE_GLOBALS :: u32 where "TCG_CALL_NO_WRITE_GLOBALS = 2"
definition TCG_CALL_NO_SIDE_EFFECTS :: u32 where "TCG_CALL_NO_SIDE_EFFECTS = 4"

definition fold_call :: folder where
  "fold_call c =
     (let nb_o = callo (op c); nb_i = calli (op c);
          c1 = copy_propagate nb_o nb_i (init_arguments (nb_o + nb_i) c);
          flags = call_flags (op c);
          c2 = (if flags AND (TCG_CALL_NO_READ_GLOBALS OR TCG_CALL_NO_WRITE_GLOBALS) = 0
                then fold (\<lambda>i c. if Tmp i \<in> set (temps_used c) then reset_ts (Tmp i) c else c)
                       [0..<nb_globals c1] c1
                else c1);
          c3 = (if flags AND TCG_CALL_NO_SIDE_EFFECTS = 0 then remove_mem_copy_all c2 else c2);
          c4 = fold (\<lambda>i c. reset_ts (arg_temp (oarg c i)) c) [0..<nb_o] c3
      in (True, c4\<lparr>prev_mb := None\<rparr>))"

definition fold_count_zeros :: folder where
  "fold_count_zeros c =
     (if oconst c 1 then
        let t = oval c 1
        in if t \<noteq> 0 then movi_result (do_constant_folding (opc (op c)) (ctype c) t 0) c
           else gen_mov (oarg c 0) (oarg c 2) c
      else
        let z = oz c 2 OR (case ctype c of I32 \<Rightarrow> 31 | I64 \<Rightarrow> 63)
        in (False, c\<lparr>z_mask := z, s_mask := smask_from_zmask z\<rparr>))"

definition ctpop_masks :: folder where
  "ctpop_masks c =
     (let z = (case ctype c of I32 \<Rightarrow> 32 OR 31 | I64 \<Rightarrow> 64 OR 63)
      in (False, c\<lparr>z_mask := z, s_mask := smask_from_zmask z\<rparr>))"

definition fold_ctpop :: folder where
  "fold_ctpop = or_else fold_const1 ctpop_masks"

definition fold_deposit :: folder where
  "fold_deposit c =
     (let pos = unat (oimm c 3); len = unat (oimm c 4)
      in if oconst c 1 \<and> oconst c 2 then
           if bitfield_ok 64 pos len
           then gen_movi (oarg c 0) (deposit64 (oval c 1) pos len (oval c 2)) c
           else assert_fails c
         else if oconst c 1 \<and> oval c 1 = 0 \<and> pos = 0 then
           let msk = MAKE_64BIT_MASK 0 len;
               c1 = set_opc (Tcg (Op_rrr R_and (ctype c))) c;
               c2 = set_oarg 1 (oarg c1 2) c1;
               (k, c3) = arg_new_constant msk c2;
               c4 = set_oarg 2 k c3
           in (False, c4\<lparr>z_mask := msk AND oz c4 1\<rparr>)
         else if oconst c 2 \<and> oval c 2 = 0 then
           if bitfield_ok 64 pos len then
             let msk = deposit64 (- 1) pos len 0;
                 c1 = set_opc (Tcg (Op_rrr R_and (ctype c))) c;
                 (k, c2) = arg_new_constant msk c1;
                 c3 = set_oarg 2 k c2
             in (False, c3\<lparr>z_mask := msk AND oz c3 1\<rparr>)
           else assert_fails c
         else if bitfield_ok 64 pos len
         then (False, c\<lparr>z_mask := deposit64 (oz c 1) pos len (oz c 2)\<rparr>)
         else assert_fails c)"

definition fold_divide :: folder where
  "fold_divide = or_else fold_const2 (fold_xi_to_x 1)"

text \<open>The last step of the folders of bitwise operations that only know sign repetitions.\<close>

definition both_smasks :: folder where
  "both_smasks c = (False, c\<lparr>s_mask := os c 1 AND os c 2\<rparr>)"

definition fold_eqv :: folder where
  "fold_eqv = or_else fold_const2_commutative (or_else (fold_xi_to_x (- 1))
     (or_else (fold_xi_to_not 0) both_smasks))"

definition fold_extract :: folder where
  "fold_extract c =
     (let pos = unat (oimm c 2); len = unat (oimm c 3)
      in if \<not> bitfield_ok 64 pos len then assert_fails c
         else if oconst c 1 then gen_movi (oarg c 0) (extract64 (oval c 1) pos len) c
         else
           let z_old = oz c 1;
               z = extract64 z_old pos len;
               c1 = (if pos = 0 then c\<lparr>a_mask := z_old XOR z\<rparr> else c)
           in fold_masks (c1\<lparr>z_mask := z, s_mask := smask_from_zmask z\<rparr>))"

definition fold_extract2 :: folder where
  "fold_extract2 c =
     (if oconst c 1 \<and> oconst c 2 then
        let shr = unat (oimm c 3); v1 = oval c 1; v2 = oval c 2
        in if opc (op c) = Op_extract2 I64
           then gen_movi (oarg c 0) (drop_bit shr v1 OR push_bit (64 - shr) v2) c
           else gen_movi (oarg c 0)
                  (zext32 (drop_bit shr (lo32 v1)) OR sext32 (push_bit (32 - shr) (lo32 v2))) c
      else (False, c))"

text \<open>The sign and the mask of a sign extension, and whether it changes the type.\<close>

fun exts_masks :: "tcg_opc \<Rightarrow> u64 \<Rightarrow> (u64 \<times> u64 \<times> bool) option" where
  "exts_masks (Tcg (Op_rr U_ext8s w)) z = Some (- (2 ^ 7), ucast (ucast z :: u8), False)"
| "exts_masks (Tcg (Op_rr U_ext16s w)) z = Some (- (2 ^ 15), ucast (ucast z :: u16), False)"
| "exts_masks (Tcg (Op_rr64 W_ext_i32_i64)) z = Some (- (2 ^ 31), zext32 (lo32 z), True)"
| "exts_masks (Tcg (Op_rr64 W_ext32s_i64)) z = Some (- (2 ^ 31), zext32 (lo32 z), False)"
| "exts_masks _ z = None"

definition exts_step :: folder where
  "exts_step c =
     (case exts_masks (opc (op c)) (oz c 1) of
        None \<Rightarrow> assert_fails c
      | Some (sign, z, type_change) \<Rightarrow>
          let s_old = os c 1;
              z' = (if z AND sign \<noteq> 0 then z OR sign else z);
              s = s_old OR push_bit 1 sign;
              c1 = c\<lparr>z_mask := z', s_mask := s\<rparr>
          in fold_masks (if \<not> type_change then c1\<lparr>a_mask := s AND NOT s_old\<rparr> else c1))"

definition fold_exts :: folder where
  "fold_exts = or_else fold_const1 exts_step"

fun extu_masks :: "tcg_opc \<Rightarrow> u64 \<Rightarrow> (u64 \<times> bool) option" where
  "extu_masks (Tcg (Op_rr U_ext8u w)) z = Some (ucast (ucast z :: u8), False)"
| "extu_masks (Tcg (Op_rr U_ext16u w)) z = Some (ucast (ucast z :: u16), False)"
| "extu_masks Op_extrl_i64_i32 z = Some (zext32 (lo32 z), True)"
| "extu_masks (Tcg (Op_rr64 W_extu_i32_i64)) z = Some (zext32 (lo32 z), True)"
| "extu_masks (Tcg (Op_rr64 W_ext32u_i64)) z = Some (zext32 (lo32 z), False)"
| "extu_masks Op_extrh_i64_i32 z = Some (drop_bit 32 z, True)"
| "extu_masks _ z = None"

definition extu_step :: folder where
  "extu_step c =
     (case extu_masks (opc (op c)) (oz c 1) of
        None \<Rightarrow> assert_fails c
      | Some (z, type_change) \<Rightarrow>
          let c1 = c\<lparr>z_mask := z, s_mask := smask_from_zmask z\<rparr>
          in fold_masks (if \<not> type_change then c1\<lparr>a_mask := oz c 1 XOR z\<rparr> else c1))"

definition fold_extu :: folder where
  "fold_extu = or_else fold_const1 extu_step"

definition fold_mb :: folder where
  "fold_mb c =
     (case prev_mb c of
        Some k \<Rightarrow>
          let o1 = out_ops c ! k;
              o2 = o1\<lparr>args := (args o1)[0 := Imm (arg_imm (args o1 ! 0) OR oimm c 0)]\<rparr>
          in (True, c\<lparr>out_ops := (out_ops c)[k := o2], op_removed := True\<rparr>)
      | None \<Rightarrow> (True, c\<lparr>prev_mb := Some (length (out_ops c))\<rparr>))"

definition fold_mov :: folder where
  "fold_mov c = gen_mov (oarg c 0) (oarg c 1) c"

text \<open>
  The constant arms of \<open>fold_movcond\<close>; the target has no \<open>negsetcond\<close>, so only 0 and 1 are used.
\<close>

definition movcond_consts :: "u32 \<Rightarrow> folder" where
  "movcond_consts cond c =
     (if oconst c 3 \<and> oconst c 4 then
        let tv = (if ctype c = I32 then sext32 (lo32 (oval c 3)) else oval c 3);
            fv = (if ctype c = I32 then sext32 (lo32 (oval c 4)) else oval c 4);
            setc = Tcg (Op_setcond (ctype c))
        in if tv = 1 \<and> fv = 0 then (False, set_oarg 3 (Imm (zext32 cond)) (set_opc setc c))
           else if fv = 1 \<and> tv = 0
           then (False, set_oarg 3 (Imm (zext32 (tcg_invert_cond cond))) (set_opc setc c))
           else (False, c)
      else (False, c))"

definition fold_movcond :: folder where
  "fold_movcond c =
     (let cond = lo32 (oimm c 5);
          (sw1, c1) = swap_commutative None 1 2 c;
          cond1 = (if sw1 then tcg_swap_cond cond else cond);
          c2 = (if sw1 then set_oarg 5 (Imm (zext32 cond1)) c1 else c1);
          (sw2, c3) = swap_commutative (Some (oarg c2 0)) 4 3 c2;
          cond2 = (if sw2 then tcg_invert_cond cond1 else cond1);
          c4 = (if sw2 then set_oarg 5 (Imm (zext32 cond2)) c3 else c3)
      in case do_constant_folding_cond c4 (ctype c4) (oarg c4 1) (oarg c4 2) cond2 of
           Bad \<Rightarrow> assert_fails c4
         | Known b \<Rightarrow> gen_mov (oarg c4 0) (oarg c4 (4 - of_bool b)) c4
         | Unknown \<Rightarrow>
             movcond_consts cond2 (c4\<lparr>z_mask := oz c4 3 OR oz c4 4, s_mask := os c4 3 AND os c4 4\<rparr>))"

definition fold_mul :: folder where
  "fold_mul = or_else fold_const2 (or_else (fold_xi_to_i 0) (fold_xi_to_x 1))"

definition fold_mul_highpart :: folder where
  "fold_mul_highpart = or_else fold_const2_commutative (fold_xi_to_i 0)"

fun multiply2_value :: "tcg_opc \<Rightarrow> u64 \<Rightarrow> u64 \<Rightarrow> (u64 \<times> u64) option" where
  "multiply2_value (Tcg Op_mulu2_i32) a b =
     (let l = zext32 (lo32 a) * zext32 (lo32 b)
      in Some (sext32 (lo32 l), sext32 (lo32 (drop_bit 32 l))))"
| "multiply2_value (Tcg Op_muls2_i32) a b =
     (let l = sext32 (lo32 a) * sext32 (lo32 b) in Some (sext32 (lo32 l), drop_bit 32 l))"
| "multiply2_value Op_mulu2_i64 a b = Some (mulu64 a b)"
| "multiply2_value Op_muls2_i64 a b = Some (muls64 a b)"
| "multiply2_value _ a b = None"

definition fold_multiply2 :: folder where
  "fold_multiply2 c =
     (let c1 = snd (swap_commutative (Some (oarg c 0)) 2 3 c)
      in if oconst c1 2 \<and> oconst c1 3 then
           case multiply2_value (opc (op c1)) (oval c1 2) (oval c1 3) of
             None \<Rightarrow> assert_fails c1
           | Some (l, h) \<Rightarrow> two_movis l h c1
         else (False, c1))"

definition fold_nand :: folder where
  "fold_nand = or_else fold_const2_commutative (or_else (fold_xi_to_not (- 1)) both_smasks)"

definition fold_neg :: folder where
  "fold_neg c =
     (let (b, c1) = fold_const1 c
      in if b then (True, c1)
         else let z = oz c1 1 in (True, finish_folding (c1\<lparr>z_mask := - (z AND - z)\<rparr>)))"

definition fold_nor :: folder where
  "fold_nor = or_else fold_const2_commutative (or_else (fold_xi_to_not 0) both_smasks)"

definition or_masks :: folder where
  "or_masks c = fold_masks (c\<lparr>z_mask := oz c 1 OR oz c 2, s_mask := os c 1 AND os c 2\<rparr>)"

definition fold_or :: folder where
  "fold_or = or_else fold_const2_commutative (or_else (fold_xi_to_x 0) (or_else fold_xx_to_x or_masks))"

definition fold_orc :: folder where
  "fold_orc = or_else fold_const2 (or_else (fold_xx_to_i (- 1)) (or_else (fold_xi_to_x (- 1))
     (or_else (fold_ix_to_not 0) both_smasks)))"

definition MO_SIGN :: u32 where "MO_SIGN = 8"

definition memop_size :: "u32 \<Rightarrow> nat" where
  "memop_size mop = 2 ^ unat (mop AND MO_SIZE)"

definition fold_qemu_ld :: folder where
  "fold_qemu_ld c =
     (let oc = opc (op c);
          oi = lo32 (oimm c (nb_oargs oc + nb_iargs oc));
          mop = get_memop oi;
          width = 8 * memop_size mop;
          c1 = (if width < 64 then
                  let s = MAKE_64BIT_MASK width (64 - width)
                  in if mop AND MO_SIGN = 0
                     then c\<lparr>z_mask := MAKE_64BIT_MASK 0 width, s_mask := push_bit 1 s\<rparr>
                     else c\<lparr>s_mask := s\<rparr>
                else c)
      in (False, c1\<lparr>prev_mb := None\<rparr>))"

definition fold_qemu_st :: folder where
  "fold_qemu_st c = (False, c\<lparr>prev_mb := None\<rparr>)"

definition fold_remainder :: folder where
  "fold_remainder = or_else fold_const2 (fold_xx_to_i 0)"

text \<open>The common part of \<open>fold_setcond\<close> and \<open>fold_negsetcond\<close>: the value is \<open>k\<close> times the condition.\<close>

definition setcond_const :: "u64 \<Rightarrow> folder \<Rightarrow> folder" where
  "setcond_const k rest c =
     (let cond = lo32 (oimm c 3);
          (sw, c1) = swap_commutative (Some (oarg c 0)) 1 2 c;
          cond1 = (if sw then tcg_swap_cond cond else cond);
          c2 = (if sw then set_oarg 3 (Imm (zext32 cond1)) c1 else c1)
      in case do_constant_folding_cond c2 (ctype c2) (oarg c2 1) (oarg c2 2) cond1 of
           Bad \<Rightarrow> assert_fails c2
         | Known b \<Rightarrow> gen_movi (oarg c2 0) (k * of_bool b) c2
         | Unknown \<Rightarrow> rest c2)"

definition setcond_masks :: folder where
  "setcond_masks c = (False, c\<lparr>z_mask := 1, s_mask := smask_from_zmask 1\<rparr>)"

definition fold_setcond :: folder where
  "fold_setcond = setcond_const 1 setcond_masks"

definition fold_negsetcond :: folder where
  "fold_negsetcond = setcond_const (- 1) (\<lambda>c. (False, c\<lparr>s_mask := - 1\<rparr>))"

definition setcond2_high :: "u32 \<Rightarrow> folder" where
  "setcond2_high cond c =
     (let c1 = set_oarg 1 (oarg c 2) c;
          c2 = set_oarg 2 (oarg c1 4) c1
      in setcond_masks (set_opc (Tcg (Op_setcond I32)) (set_oarg 3 (Imm (zext32 cond)) c2)))"

definition setcond2_low :: "u32 \<Rightarrow> folder" where
  "setcond2_low cond c =
     (let c1 = set_oarg 2 (oarg c 3) c
      in setcond_masks (set_opc (Tcg (Op_setcond I32)) (set_oarg 3 (Imm (zext32 cond)) c1)))"

definition fold_setcond2 :: folder where
  "fold_setcond2 c =
     (let cond0 = lo32 (oimm c 5);
          (sw, c1) = swap_commutative2 1 3 c;
          cond = (if sw then tcg_swap_cond cond0 else cond0);
          c2 = (if sw then set_oarg 5 (Imm (zext32 cond)) c1 else c1);
          inv = (cond = TCG_COND_NE)
      in case do_constant_folding_cond2 c2 (oarg c2 1) (oarg c2 2) (oarg c2 3) (oarg c2 4) cond of
           Bad \<Rightarrow> assert_fails c2
         | Known b \<Rightarrow> gen_movi (oarg c2 0) (of_bool b) c2
         | Unknown \<Rightarrow>
             if cond = TCG_COND_LT \<or> cond = TCG_COND_GE then
               if oconst c2 3 \<and> oval c2 3 = 0 \<and> oconst c2 4 \<and> oval c2 4 = 0
               then setcond2_high cond c2 else setcond_masks c2
             else if cond = TCG_COND_NE \<or> cond = TCG_COND_EQ then
               case do_constant_folding_cond c2 I32 (oarg c2 1) (oarg c2 3) cond of
                 Bad \<Rightarrow> assert_fails c2
               | Known b \<Rightarrow>
                   if b = inv then gen_movi (oarg c2 0) (of_bool b) c2 else setcond2_high cond c2
               | Unknown \<Rightarrow>
                   (case do_constant_folding_cond c2 I32 (oarg c2 2) (oarg c2 4) cond of
                      Bad \<Rightarrow> assert_fails c2
                    | Known b \<Rightarrow>
                        if b = inv then gen_movi (oarg c2 0) (of_bool b) c2 else setcond2_low cond c2
                    | Unknown \<Rightarrow> setcond_masks c2)
             else setcond_masks c2)"

definition fold_sextract :: folder where
  "fold_sextract c =
     (let pos = unat (oimm c 2); len = unat (oimm c 3)
      in if \<not> bitfield_ok 64 pos len then assert_fails c
         else if oconst c 1 then gen_movi (oarg c 0) (sextract64 (oval c 1) pos len) c
         else
           let z = sextract64 (oz c 1) pos len;
               s_old = os c 1;
               s = sextract64 s_old pos len OR MAKE_64BIT_MASK len (64 - len);
               c1 = c\<lparr>z_mask := z, s_mask := s\<rparr>
           in fold_masks (if pos = 0 then c1\<lparr>a_mask := s AND NOT s_old\<rparr> else c1))"

definition shift_masks :: folder where
  "shift_masks c =
     (let s = os c 1; z = oz c 1; sh = sext32 (lo32 (oval c 2))
      in if oconst c 2 then
           case (do_constant_folding (opc (op c)) (ctype c) z sh,
                 do_constant_folding (opc (op c)) (ctype c) s sh) of
             (Some z', Some s') \<Rightarrow> fold_masks (c\<lparr>z_mask := z', s_mask := smask_from_smask s'\<rparr>)
           | _ \<Rightarrow> assert_fails c
         else
           case opc (op c) of
             Tcg (Op_rrr R_sar w) \<Rightarrow> (False, c\<lparr>s_mask := s\<rparr>)
           | Tcg (Op_rrr R_shr w) \<Rightarrow>
               let sign = drop_bit 1 (s AND - s)
               in if z AND sign = 0 then (False, c\<lparr>s_mask := s\<rparr>) else (False, c)
           | _ \<Rightarrow> (False, c))"

definition fold_shift :: folder where
  "fold_shift = or_else fold_const2 (or_else (fold_ix_to_i 0) (or_else (fold_xi_to_x 0) shift_masks))"

definition fold_sub_to_neg :: folder where
  "fold_sub_to_neg c =
     (if \<not> oconst c 1 \<or> oval c 1 \<noteq> 0 then (False, c)
      else fold_neg (set_oarg 1 (oarg c 2) (set_opc (Tcg (Op_rr U_neg (ctype c))) c)))"

definition fold_sub_vec :: folder where
  "fold_sub_vec = or_else (fold_xx_to_i 0) (or_else (fold_xi_to_x 0) fold_sub_to_neg)"

definition sub_to_add :: folder where
  "sub_to_add c =
     (if oconst c 2 then
        let v = oval c 2;
            (k, c1) = arg_new_constant (- v) (set_opc (Tcg (Op_rrr R_add (ctype c))) c)
        in (False, set_oarg 2 k c1)
      else (False, c))"

definition fold_sub :: folder where
  "fold_sub = or_else (or_else fold_const2 fold_sub_vec) sub_to_add"

definition fold_sub2 :: folder where
  "fold_sub2 = fold_addsub2 False"

fun ld_masks :: "tcg_host \<Rightarrow> u64 \<Rightarrow> (u64 \<times> u64) option" where
  "ld_masks (H_ld8s w) z = Some (z, MAKE_64BIT_MASK 8 56)"
| "ld_masks (H_ld8u w) z = Some (MAKE_64BIT_MASK 0 8, MAKE_64BIT_MASK 9 55)"
| "ld_masks (H_ld16s w) z = Some (z, MAKE_64BIT_MASK 16 48)"
| "ld_masks (H_ld16u w) z = Some (MAKE_64BIT_MASK 0 16, MAKE_64BIT_MASK 17 47)"
| "ld_masks H_ld32s_i64 z = Some (z, MAKE_64BIT_MASK 32 32)"
| "ld_masks H_ld32u_i64 z = Some (MAKE_64BIT_MASK 0 32, MAKE_64BIT_MASK 33 31)"
| "ld_masks _ z = None"

definition fold_tcg_ld :: "tcg_host \<Rightarrow> folder" where
  "fold_tcg_ld h c =
     (case ld_masks h (z_mask c) of
        None \<Rightarrow> assert_fails c
      | Some (z, s) \<Rightarrow> (False, c\<lparr>z_mask := z, s_mask := s\<rparr>))"

definition tcg_type_size :: "tcg_width \<Rightarrow> u32" where
  "tcg_type_size w = (case w of I32 \<Rightarrow> 4 | I64 \<Rightarrow> 8)"

text \<open>Offsets are of type \<open>intptr_t\<close>, 32 bits here; the interval tree has 64-bit bounds.\<close>

definition fold_tcg_ld_memcopy :: folder where
  "fold_tcg_ld_memcopy c =
     (if oarg c 1 \<noteq> Arg (tcg_env c) then (False, c)
      else
        let type = ctype c;
            ofs = lo32 (oimm c 2);
            dst = arg_temp (oarg c 0);
            found = (case find_mem_copy_for c type (sext32 ofs) of
                       Some src \<Rightarrow> if temp_base_type c src = Some type then Some src else None
                     | None \<Rightarrow> None)
        in case found of
             Some src \<Rightarrow> gen_mov (Arg dst) (Arg src) c
           | None \<Rightarrow>
               (True, record_mem_copy type dst (sext32 ofs) (sext32 (ofs + tcg_type_size type - 1))
                        (reset_ts dst c)))"

fun st_lm1 :: "tcg_host \<Rightarrow> u32 option" where
  "st_lm1 (H_st8 w) = Some 0"
| "st_lm1 (H_st16 w) = Some 1"
| "st_lm1 H_st32_i64 = Some 3"
| "st_lm1 (H_st I32) = Some 3"
| "st_lm1 (H_st I64) = Some 7"
| "st_lm1 _ = None"

definition fold_tcg_st :: "tcg_host \<Rightarrow> folder" where
  "fold_tcg_st h c =
     (let ofs = lo32 (oimm c 2)
      in if oarg c 1 \<noteq> Arg (tcg_env c) then (False, remove_mem_copy_all c)
         else case st_lm1 h of
                None \<Rightarrow> assert_fails c
              | Some lm1 \<Rightarrow> (False, remove_mem_copy_in (sext32 ofs) (sext32 (ofs + lm1)) c))"

definition fold_tcg_st_memcopy :: "tcg_host \<Rightarrow> folder" where
  "fold_tcg_st_memcopy h c =
     (if oarg c 1 \<noteq> Arg (tcg_env c) then (False, snd (fold_tcg_st h c))
      else
        let src = arg_temp (oarg c 0);
            ofs = lo32 (oimm c 2);
            type = ctype c;
            s = sext32 ofs;
            l = sext32 (ofs + tcg_type_size type - 1)
        in if ts_is_const c src \<and> find_mem_copy_for c type s = Some src
           then (True, c\<lparr>op_removed := True\<rparr>)
           else (False, record_mem_copy type src s l (remove_mem_copy_in s l c)))"

definition xor_masks :: folder where
  "xor_masks = or_masks"

definition fold_xor :: folder where
  "fold_xor = or_else fold_const2_commutative (or_else (fold_xx_to_i 0) (or_else (fold_xi_to_x 0)
     (or_else (fold_xi_to_not (- 1)) xor_masks)))"

section \<open>The pass\<close>

definition not_folded :: folder where
  "not_folded c = (False, c)"

fun fold_rrr :: "tcg_rrr \<Rightarrow> folder" where
  "fold_rrr R_add = fold_add"
| "fold_rrr R_and = fold_and"
| "fold_rrr R_andc = fold_andc"
| "fold_rrr R_clz = fold_count_zeros"
| "fold_rrr R_ctz = fold_count_zeros"
| "fold_rrr R_div = fold_divide"
| "fold_rrr R_divu = fold_divide"
| "fold_rrr R_eqv = fold_eqv"
| "fold_rrr R_mul = fold_mul"
| "fold_rrr R_nand = fold_nand"
| "fold_rrr R_nor = fold_nor"
| "fold_rrr R_or = fold_or"
| "fold_rrr R_orc = fold_orc"
| "fold_rrr R_rem = fold_remainder"
| "fold_rrr R_remu = fold_remainder"
| "fold_rrr R_rotl = fold_shift"
| "fold_rrr R_rotr = fold_shift"
| "fold_rrr R_sar = fold_shift"
| "fold_rrr R_shl = fold_shift"
| "fold_rrr R_shr = fold_shift"
| "fold_rrr R_sub = fold_sub"
| "fold_rrr R_xor = fold_xor"

fun fold_rr :: "tcg_rr \<Rightarrow> folder" where
  "fold_rr U_bswap16 = fold_bswap"
| "fold_rr U_bswap32 = fold_bswap"
| "fold_rr U_ctpop = fold_ctpop"
| "fold_rr U_ext8s = fold_exts"
| "fold_rr U_ext16s = fold_exts"
| "fold_rr U_ext8u = fold_extu"
| "fold_rr U_ext16u = fold_extu"
| "fold_rr U_mov = fold_mov"
| "fold_rr U_neg = fold_neg"
| "fold_rr U_not = fold_not"

fun fold_rr64 :: "tcg_rr64 \<Rightarrow> folder" where
  "fold_rr64 W_bswap64_i64 = fold_bswap"
| "fold_rr64 W_ext32s_i64 = fold_exts"
| "fold_rr64 W_ext_i32_i64 = fold_exts"
| "fold_rr64 W_ext32u_i64 = fold_extu"
| "fold_rr64 W_extu_i32_i64 = fold_extu"

fun fold_host :: "tcg_host \<Rightarrow> folder" where
  "fold_host (H_ld w) = fold_tcg_ld_memcopy"
| "fold_host (H_st w) = fold_tcg_st_memcopy (H_st w)"
| "fold_host (H_st8 w) = fold_tcg_st (H_st8 w)"
| "fold_host (H_st16 w) = fold_tcg_st (H_st16 w)"
| "fold_host H_st32_i64 = fold_tcg_st H_st32_i64"
| "fold_host h = fold_tcg_ld h"

fun fold_opc :: "tcg_opc \<Rightarrow> folder" where
  "fold_opc (Tcg (Op_rrr r w)) = fold_rrr r"
| "fold_opc (Tcg (Op_rr u w)) = fold_rr u"
| "fold_opc (Tcg (Op_rr64 u)) = fold_rr64 u"
| "fold_opc (Tcg (Op_host h)) = fold_host h"
| "fold_opc (Tcg (Op_add2 w)) = fold_add2"
| "fold_opc (Tcg (Op_sub2 w)) = fold_sub2"
| "fold_opc (Tcg (Op_brcond w)) = fold_brcond"
| "fold_opc (Tcg (Op_deposit w)) = fold_deposit"
| "fold_opc (Tcg (Op_extract w)) = fold_extract"
| "fold_opc (Tcg (Op_sextract w)) = fold_sextract"
| "fold_opc (Tcg (Op_setcond w)) = fold_setcond"
| "fold_opc (Tcg (Op_movcond w)) = fold_movcond"
| "fold_opc (Tcg Op_mulu2_i32) = fold_multiply2"
| "fold_opc (Tcg Op_muls2_i32) = fold_multiply2"
| "fold_opc (Tcg (Op_qemu_ld_a32 w)) = fold_qemu_ld"
| "fold_opc (Tcg (Op_qemu_ld_a64 w)) = fold_qemu_ld"
| "fold_opc (Tcg (Op_qemu_st_a32 w)) = fold_qemu_st"
| "fold_opc (Tcg (Op_qemu_st_a64 w)) = fold_qemu_st"
| "fold_opc (Tcg Op_mb) = fold_mb"
| "fold_opc Op_brcond2_i32 = fold_brcond2"
| "fold_opc Op_setcond2_i32 = fold_setcond2"
| "fold_opc (Op_negsetcond w) = fold_negsetcond"
| "fold_opc (Op_extract2 w) = fold_extract2"
| "fold_opc Op_extrl_i64_i32 = fold_extu"
| "fold_opc Op_extrh_i64_i32 = fold_extu"
| "fold_opc (Op_muluh w) = fold_mul_highpart"
| "fold_opc (Op_mulsh w) = fold_mul_highpart"
| "fold_opc Op_mulu2_i64 = fold_multiply2"
| "fold_opc Op_muls2_i64 = fold_multiply2"
| "fold_opc _ = not_folded"

text \<open>One turn of the loop over the operations.\<close>

definition begin_op :: "tcgop \<Rightarrow> opt_context \<Rightarrow> opt_context" where
  "begin_op o1 c = c\<lparr>op := o1, op_removed := False, op2 := []\<rparr>"

definition end_op :: "opt_context \<Rightarrow> opt_context" where
  "end_op c = c\<lparr>out_ops := out_ops c @ op2 c @ (if op_removed c then [] else [op c])\<rparr>"

definition fold_op :: "opt_context \<Rightarrow> opt_context" where
  "fold_op c =
     (let oc = opc (op c);
          c1 = copy_propagate (nb_oargs oc) (nb_iargs oc) (init_arguments (nb_oargs oc + nb_iargs oc) c);
          (fin, c2) = fold_opc oc (c1\<lparr>ctype := op_type oc, a_mask := - 1, z_mask := - 1, s_mask := 0\<rparr>)
      in if fin then c2 else finish_folding c2)"

definition optimize_op :: "tcgop \<Rightarrow> opt_context \<Rightarrow> opt_context" where
  "optimize_op o1 c =
     (let c1 = begin_op o1 c
      in end_op (if opc o1 = Tcg Op_call then snd (fold_call c1) else fold_op c1))"

definition optimize_ops :: "tcgop list \<Rightarrow> opt_context \<Rightarrow> opt_context" where
  "optimize_ops ops c = fold optimize_op ops c"

text \<open>The context at the start of the pass.\<close>

definition opt_init :: "(nat \<Rightarrow> temp_desc) \<Rightarrow> nat \<Rightarrow> tcgtemp \<Rightarrow> opt_context" where
  "opt_init ds globals env =
     \<lparr>tdesc = ds, nb_globals = globals, tcg_env = env, out_ops = [], op2 = [],
      op = \<lparr>opc = Op_discard, args = [], callo = 0, calli = 0, call_flags = 0\<rparr>, op_removed = False,
      prev_mb = None, temps_used = [],
      info = (\<lambda>ts. \<lparr>is_const = False, prev_copy = ts, next_copy = ts, ti_val = 0, ti_z_mask = - 1,
                     ti_s_mask = 0\<rparr>),
      mem_copy = [], a_mask = - 1, z_mask = - 1, s_mask = 0, ctype = I32, trap = False\<rparr>"

text \<open>The pass: the optimized operations, or \<^const>\<open>None\<close> when an assertion failed.\<close>

definition tcg_optimize :: "(nat \<Rightarrow> temp_desc) \<Rightarrow> nat \<Rightarrow> tcgtemp \<Rightarrow> tcgop list \<Rightarrow> tcgop list option" where
  "tcg_optimize ds globals env ops =
     (let c = optimize_ops ops (opt_init ds globals env)
      in if trap c then None else Some (out_ops c))"

end
