(* ===== verification/Opt_Sem.thy ===== *)
theory Opt_Sem
  imports Opt_Fold
begin

text \<open>
  The meaning of the intermediate code the optimizer works on, given by the interpreter's value functions
  (\<open>TCI_Full\<close>).  A state assigns a value to every variable; 32-bit variables hold sign-extended
  values, the form of the optimizer's constants.  Guest accesses and helpers are parameters: they are not
  part of the optimizer, and a helper changes what its call flags allow.
\<close>

section \<open>Values of operations\<close>

fun bswap_flags :: "u64 \<Rightarrow> bool" where
  "bswap_flags k \<longleftrightarrow> k AND TCG_BSWAP_OS \<noteq> 0"

text \<open>
  Byte swaps have a flag for the extension of the result; without one the backend's instruction
  zero-extends.
\<close>

fun rr_value :: "tcg_rr \<Rightarrow> tcg_width \<Rightarrow> u64 \<Rightarrow> u64 \<Rightarrow> u64" where
  "rr_value U_bswap16 w k a = (if bswap_flags k then scast (bswap16 (ucast a)) else alu_rr U_bswap16 w a)"
| "rr_value U_bswap32 w k a = (if bswap_flags k then scast (bswap32 (ucast a)) else alu_rr U_bswap32 w a)"
| "rr_value u w k a = alu_rr u w a"

definition extract2_value :: "tcg_width \<Rightarrow> u64 \<Rightarrow> u64 \<Rightarrow> nat \<Rightarrow> u64 option" where
  "extract2_value w a b pos =
     (if 0 < pos \<and> pos < width_bits w
      then Some (case w of
             I32 \<Rightarrow> zext32 (drop_bit pos (lo32 a) OR push_bit (32 - pos) (lo32 b))
           | I64 \<Rightarrow> drop_bit pos a OR push_bit (64 - pos) b)
      else None)"

definition mulh_value :: "bool \<Rightarrow> tcg_width \<Rightarrow> u64 \<Rightarrow> u64 \<Rightarrow> u64" where
  "mulh_value sg w a b =
     (case w of
        I32 \<Rightarrow> (if sg then drop_bit 32 (sext32 (lo32 a) * sext32 (lo32 b))
                else drop_bit 32 (zext32 (lo32 a) * zext32 (lo32 b)))
      | I64 \<Rightarrow> (if sg then snd (muls64 a b) else snd (mulu64 a b)))"

definition compare2_value :: "u64 \<Rightarrow> u64 \<Rightarrow> u64 \<Rightarrow> u64 \<Rightarrow> u32 \<Rightarrow> bool option" where
  "compare2_value al ah bl bh c =
     tci_compare64 (tci_uint64 (lo32 ah) (lo32 al)) (tci_uint64 (lo32 bh) (lo32 bl)) c"

text \<open>Operations with one result, on their inputs \<open>v\<close> and immediates \<open>k\<close>.\<close>

fun op_value :: "tcg_opc \<Rightarrow> (nat \<Rightarrow> u64) \<Rightarrow> (nat \<Rightarrow> u64) \<Rightarrow> u64 option" where
  "op_value (Tcg (Op_rrr r w)) v k = alu_rrr r w (v 0) (v 1)"
| "op_value (Tcg (Op_rr u w)) v k = Some (rr_value u w (k 0) (v 0))"
| "op_value (Tcg (Op_rr64 u)) v k = Some (alu_rr64 u (v 0))"
| "op_value (Tcg (Op_setcond w)) v k = map_option of_bool (compare_value w (v 0) (v 1) (lo32 (k 0)))"
| "op_value (Tcg (Op_movcond w)) v k =
     map_option (\<lambda>b. if b then v 2 else v 3) (compare_value w (v 0) (v 1) (lo32 (k 0)))"
| "op_value (Tcg (Op_deposit w)) v k = deposit_value w (v 0) (unat (k 0)) (unat (k 1)) (v 1)"
| "op_value (Tcg (Op_extract w)) v k = extract_value w (v 0) (unat (k 0)) (unat (k 1))"
| "op_value (Tcg (Op_sextract w)) v k = sextract_value w (v 0) (unat (k 0)) (unat (k 1))"
| "op_value (Op_negsetcond w) v k =
     map_option (\<lambda>b. - of_bool b) (compare_value w (v 0) (v 1) (lo32 (k 0)))"
| "op_value (Op_extract2 w) v k = extract2_value w (v 0) (v 1) (unat (k 0))"
| "op_value Op_extrl_i64_i32 v k = Some (zext32 (lo32 (v 0)))"
| "op_value Op_extrh_i64_i32 v k = Some (drop_bit 32 (v 0))"
| "op_value (Op_muluh w) v k = Some (mulh_value False w (v 0) (v 1))"
| "op_value (Op_mulsh w) v k = Some (mulh_value True w (v 0) (v 1))"
| "op_value Op_setcond2_i32 v k =
     map_option of_bool (compare2_value (v 0) (v 1) (v 2) (v 3) (lo32 (k 0)))"
| "op_value _ v k = None"

definition is_op1 :: "tcg_opc \<Rightarrow> bool" where
  "is_op1 oc \<longleftrightarrow>
     (case oc of
        Tcg (Op_rrr r w) \<Rightarrow> True | Tcg (Op_rr u w) \<Rightarrow> True | Tcg (Op_rr64 u) \<Rightarrow> True
      | Tcg (Op_setcond w) \<Rightarrow> True | Tcg (Op_movcond w) \<Rightarrow> True | Tcg (Op_deposit w) \<Rightarrow> True
      | Tcg (Op_extract w) \<Rightarrow> True | Tcg (Op_sextract w) \<Rightarrow> True | Op_negsetcond w \<Rightarrow> True
      | Op_extract2 w \<Rightarrow> True | Op_extrl_i64_i32 \<Rightarrow> True | Op_extrh_i64_i32 \<Rightarrow> True
      | Op_muluh w \<Rightarrow> True | Op_mulsh w \<Rightarrow> True | Op_setcond2_i32 \<Rightarrow> True | _ \<Rightarrow> False)"

text \<open>Operations with two results, low half first: sums and products of double width.\<close>

definition add2_value :: "tcg_width \<Rightarrow> bool \<Rightarrow> u64 \<Rightarrow> u64 \<Rightarrow> u64 \<Rightarrow> u64 \<Rightarrow> u64 \<times> u64" where
  "add2_value w add al ah bl bh =
     (case w of
        I32 \<Rightarrow> let a = tci_uint64 (lo32 ah) (lo32 al); b = tci_uint64 (lo32 bh) (lo32 bl);
                   r = (if add then a + b else a - b)
               in (r, drop_bit 32 r)
      | I64 \<Rightarrow> let lo = (if add then al + bl else al - bl);
                   carry = (if add then of_bool (lo < al) else of_bool (al < bl))
               in (lo, if add then ah + bh + carry else ah - bh - carry))"

fun op_value2 :: "tcg_opc \<Rightarrow> (nat \<Rightarrow> u64) \<Rightarrow> (u64 \<times> u64) option" where
  "op_value2 (Tcg (Op_add2 w)) v = Some (add2_value w True (v 0) (v 1) (v 2) (v 3))"
| "op_value2 (Tcg (Op_sub2 w)) v = Some (add2_value w False (v 0) (v 1) (v 2) (v 3))"
| "op_value2 (Tcg Op_mulu2_i32) v =
     (let r = zext32 (lo32 (v 0)) * zext32 (lo32 (v 1)) in Some (r, drop_bit 32 r))"
| "op_value2 (Tcg Op_muls2_i32) v =
     (let r = sext32 (lo32 (v 0)) * sext32 (lo32 (v 1)) in Some (r, drop_bit 32 r))"
| "op_value2 Op_mulu2_i64 v = Some (mulu64 (v 0) (v 1))"
| "op_value2 Op_muls2_i64 v = Some (muls64 (v 0) (v 1))"
| "op_value2 _ v = None"

definition is_op2 :: "tcg_opc \<Rightarrow> bool" where
  "is_op2 oc \<longleftrightarrow>
     (case oc of
        Tcg (Op_add2 w) \<Rightarrow> True | Tcg (Op_sub2 w) \<Rightarrow> True | Tcg Op_mulu2_i32 \<Rightarrow> True
      | Tcg Op_muls2_i32 \<Rightarrow> True | Op_mulu2_i64 \<Rightarrow> True | Op_muls2_i64 \<Rightarrow> True | _ \<Rightarrow> False)"

section \<open>States and outcomes\<close>

record 'w ir =
  ivals :: "nat \<Rightarrow> u64"
  imem :: memory
  iworld :: 'w

text \<open>
  What the code relies on: the descriptions of the variables, guest loads and stores (\<^const>\<open>None\<close> is
  an exception), helpers, and whether a block is linked to its successor.
\<close>

record 'w ir_env =
  descs :: "nat \<Rightarrow> temp_desc"
  globals :: nat
  guest_ld :: "u32 \<Rightarrow> u64 \<Rightarrow> 'w ir \<Rightarrow> (u64 \<times> 'w) option"
  guest_st :: "u32 \<Rightarrow> u64 \<Rightarrow> u64 \<Rightarrow> 'w ir \<Rightarrow> 'w option"
  helper :: "u64 list \<Rightarrow> u64 list \<Rightarrow> 'w ir \<Rightarrow> (u64 list \<times> 'w ir) option"
  linked :: "u64 \<Rightarrow> 'w ir \<Rightarrow> bool"

datatype 'w ir_out =
    Fall "'w ir"
  | Goto u64 "'w ir"
  | Exit tcg_opc "u64 list" "'w ir"
  | Fault "'w ir"
  | Undef

fun tval :: "'w ir \<Rightarrow> tcgtemp \<Rightarrow> u64" where
  "tval \<sigma> (Tmp n) = ivals \<sigma> n"
| "tval \<sigma> (Const w v) = v"

definition aval :: "'w ir \<Rightarrow> tcgarg \<Rightarrow> u64" where
  "aval \<sigma> a = tval \<sigma> (arg_temp a)"

fun set_temp :: "tcgtemp \<Rightarrow> u64 \<Rightarrow> 'w ir \<Rightarrow> 'w ir" where
  "set_temp (Tmp n) v \<sigma> = \<sigma>\<lparr>ivals := (ivals \<sigma>)(n := v)\<rparr>"
| "set_temp (Const w x) v \<sigma> = \<sigma>"

definition in_val :: "tcgop \<Rightarrow> 'w ir \<Rightarrow> nat \<Rightarrow> u64" where
  "in_val o1 \<sigma> i = aval \<sigma> (args o1 ! (nb_oargs (opc o1) + i))"

definition imm_val :: "tcgop \<Rightarrow> nat \<Rightarrow> u64" where
  "imm_val o1 j = arg_imm (args o1 ! (nb_oargs (opc o1) + nb_iargs (opc o1) + j))"

section \<open>Execution\<close>

text \<open>Accesses to the host's memory, at a pointer plus a signed offset.\<close>

fun host_load :: "tcg_host \<Rightarrow> memory \<Rightarrow> u32 \<Rightarrow> u64 option" where
  "host_load (H_ld8u w) m a = Some (ucast (load8 m a))"
| "host_load (H_ld8s w) m a = Some (scast (load8 m a))"
| "host_load (H_ld16u w) m a = Some (ucast (load16 m a))"
| "host_load (H_ld16s w) m a = Some (scast (load16 m a))"
| "host_load (H_ld I32) m a = Some (ucast (load32 m a))"
| "host_load (H_ld I64) m a = Some (load64 m a)"
| "host_load H_ld32u_i64 m a = Some (ucast (load32 m a))"
| "host_load H_ld32s_i64 m a = Some (scast (load32 m a))"
| "host_load _ m a = None"

fun host_store :: "tcg_host \<Rightarrow> memory \<Rightarrow> u32 \<Rightarrow> u64 \<Rightarrow> memory" where
  "host_store (H_st8 w) m a v = store8 m a (ucast v)"
| "host_store (H_st16 w) m a v = store16 m a (ucast v)"
| "host_store (H_st I32) m a v = store32 m a (lo32 v)"
| "host_store (H_st I64) m a v = store64 m a v"
| "host_store H_st32_i64 m a v = store32 m a (lo32 v)"
| "host_store _ m a v = m"

definition ir_addr :: "'w ir \<Rightarrow> tcgarg \<Rightarrow> tcgarg \<Rightarrow> u32" where
  "ir_addr \<sigma> base ofs = lo32 (aval \<sigma> base) + lo32 (arg_imm ofs)"

definition exec_host :: "tcg_host \<Rightarrow> tcgop \<Rightarrow> 'w ir \<Rightarrow> 'w ir_out" where
  "exec_host h o1 \<sigma> =
     (let a = ir_addr \<sigma> (args o1 ! 1) (args o1 ! 2)
      in case host_load h (imem \<sigma>) a of
           Some v \<Rightarrow> Fall (set_temp (arg_temp (args o1 ! 0)) (canon (host_width h) v) \<sigma>)
         | None \<Rightarrow> Fall (\<sigma>\<lparr>imem := host_store h (imem \<sigma>) a (aval \<sigma> (args o1 ! 0))\<rparr>))"

definition branch_out :: "bool option \<Rightarrow> u64 \<Rightarrow> 'w ir \<Rightarrow> 'w ir_out" where
  "branch_out r label \<sigma> =
     (case r of None \<Rightarrow> Undef | Some b \<Rightarrow> if b then Goto label \<sigma> else Fall \<sigma>)"

fun desc_type :: "(nat \<Rightarrow> temp_desc) \<Rightarrow> tcgtemp \<Rightarrow> tcg_width" where
  "desc_type ds (Tmp n) = ttype (ds n)"
| "desc_type ds (Const w v) = w"

fun set_outs :: "(nat \<Rightarrow> temp_desc) \<Rightarrow> tcgarg list \<Rightarrow> u64 list \<Rightarrow> 'w ir \<Rightarrow> 'w ir" where
  "set_outs ds (a # as) (v # vs) \<sigma> =
     set_outs ds as vs (set_temp (arg_temp a) (canon (desc_type ds (arg_temp a)) v) \<sigma>)"
| "set_outs ds _ _ \<sigma> = \<sigma>"

definition fixed_temp :: "temp_desc \<Rightarrow> bool" where
  "fixed_temp d \<longleftrightarrow> kind_num (tkind d) \<ge> kind_num TEMP_FIXED"

text \<open>What a helper may have changed: globals and memory, as its flags allow.\<close>

definition call_frame :: "'w ir_env \<Rightarrow> u32 \<Rightarrow> 'w ir \<Rightarrow> 'w ir \<Rightarrow> 'w ir" where
  "call_frame E flags \<sigma> \<sigma>' =
     \<sigma>\<lparr>ivals := (\<lambda>n. if n < globals E \<and> \<not> fixed_temp (descs E n)
                      \<and> flags AND (TCG_CALL_NO_READ_GLOBALS OR TCG_CALL_NO_WRITE_GLOBALS) = 0
                   then canon (ttype (descs E n)) (ivals \<sigma>' n) else ivals \<sigma> n),
       imem := (if flags AND TCG_CALL_NO_SIDE_EFFECTS = 0 then imem \<sigma>' else imem \<sigma>),
       iworld := iworld \<sigma>'\<rparr>"

definition exec_call :: "'w ir_env \<Rightarrow> tcgop \<Rightarrow> 'w ir \<Rightarrow> 'w ir_out" where
  "exec_call E o1 \<sigma> =
     (case helper E (map arg_imm (drop (callo o1 + calli o1) (args o1)))
             (map (aval \<sigma>) (take (calli o1) (drop (callo o1) (args o1)))) \<sigma> of
        None \<Rightarrow> Fault \<sigma>
      | Some (vs, \<sigma>') \<Rightarrow>
          if length vs = callo o1
          then Fall (set_outs (descs E) (take (callo o1) (args o1)) vs (call_frame E (call_flags o1) \<sigma> \<sigma>'))
          else Undef)"

definition exec_ld :: "'w ir_env \<Rightarrow> bool \<Rightarrow> tcg_width \<Rightarrow> tcgop \<Rightarrow> 'w ir \<Rightarrow> 'w ir_out" where
  "exec_ld E a64 w o1 \<sigma> =
     (let addr = (if a64 then in_val o1 \<sigma> 0 else zext32 (lo32 (in_val o1 \<sigma> 0)))
      in case guest_ld E (lo32 (imm_val o1 0)) addr \<sigma> of
           None \<Rightarrow> Fault \<sigma>
         | Some (v, w') \<Rightarrow> Fall (set_temp (arg_temp (args o1 ! 0)) (canon w v) (\<sigma>\<lparr>iworld := w'\<rparr>)))"

definition exec_st :: "'w ir_env \<Rightarrow> bool \<Rightarrow> tcgop \<Rightarrow> 'w ir \<Rightarrow> 'w ir_out" where
  "exec_st E a64 o1 \<sigma> =
     (let addr = (if a64 then in_val o1 \<sigma> 1 else zext32 (lo32 (in_val o1 \<sigma> 1)))
      in case guest_st E (lo32 (imm_val o1 0)) addr (in_val o1 \<sigma> 0) \<sigma> of
           None \<Rightarrow> Fault \<sigma>
         | Some w' \<Rightarrow> Fall (\<sigma>\<lparr>iworld := w'\<rparr>))"

fun exec_control :: "'w ir_env \<Rightarrow> tcg_opc \<Rightarrow> tcgop \<Rightarrow> 'w ir \<Rightarrow> 'w ir_out" where
  "exec_control E (Tcg (Op_host h)) o1 \<sigma> = exec_host h o1 \<sigma>"
| "exec_control E (Tcg (Op_brcond w)) o1 \<sigma> =
     branch_out (compare_value w (in_val o1 \<sigma> 0) (in_val o1 \<sigma> 1) (lo32 (imm_val o1 0))) (imm_val o1 1) \<sigma>"
| "exec_control E Op_brcond2_i32 o1 \<sigma> =
     branch_out (compare2_value (in_val o1 \<sigma> 0) (in_val o1 \<sigma> 1) (in_val o1 \<sigma> 2) (in_val o1 \<sigma> 3)
       (lo32 (imm_val o1 0))) (imm_val o1 1) \<sigma>"
| "exec_control E (Tcg Op_br) o1 \<sigma> = Goto (imm_val o1 0) \<sigma>"
| "exec_control E (Tcg (Op_qemu_ld_a32 w)) o1 \<sigma> = exec_ld E False w o1 \<sigma>"
| "exec_control E (Tcg (Op_qemu_ld_a64 w)) o1 \<sigma> = exec_ld E True w o1 \<sigma>"
| "exec_control E (Tcg (Op_qemu_st_a32 w)) o1 \<sigma> = exec_st E False o1 \<sigma>"
| "exec_control E (Tcg (Op_qemu_st_a64 w)) o1 \<sigma> = exec_st E True o1 \<sigma>"
| "exec_control E (Tcg Op_call) o1 \<sigma> = exec_call E o1 \<sigma>"
| "exec_control E (Tcg Op_exit_tb) o1 \<sigma> = Exit (Tcg Op_exit_tb) [imm_val o1 0] \<sigma>"
| "exec_control E (Tcg Op_goto_tb) o1 \<sigma> =
     (if linked E (imm_val o1 0) \<sigma> then Exit (Tcg Op_goto_tb) [imm_val o1 0] \<sigma> else Fall \<sigma>)"
| "exec_control E (Tcg Op_goto_ptr) o1 \<sigma> = Exit (Tcg Op_goto_ptr) [in_val o1 \<sigma> 0] \<sigma>"
| "exec_control E (Tcg Op_mb) o1 \<sigma> = Fall \<sigma>"
| "exec_control E Op_set_label o1 \<sigma> = Fall \<sigma>"
| "exec_control E Op_discard o1 \<sigma> = Fall \<sigma>"
| "exec_control E Op_insn_start o1 \<sigma> = Fall \<sigma>"
| "exec_control E _ o1 \<sigma> = Undef"

definition exec_op :: "'w ir_env \<Rightarrow> tcgop \<Rightarrow> 'w ir \<Rightarrow> 'w ir_out" where
  "exec_op E o1 \<sigma> =
     (let w = op_type (opc o1)
      in if is_op1 (opc o1) then
           case op_value (opc o1) (in_val o1 \<sigma>) (imm_val o1) of
             None \<Rightarrow> Undef
           | Some v \<Rightarrow> Fall (set_temp (arg_temp (args o1 ! 0)) (canon w v) \<sigma>)
         else if is_op2 (opc o1) then
           case op_value2 (opc o1) (in_val o1 \<sigma>) of
             None \<Rightarrow> Undef
           | Some (lo, hi) \<Rightarrow>
               Fall (set_temp (arg_temp (args o1 ! 0)) (canon w lo)
                      (set_temp (arg_temp (args o1 ! 1)) (canon w hi) \<sigma>))
         else exec_control E (opc o1) o1 \<sigma>)"

fun exec_ops :: "'w ir_env \<Rightarrow> tcgop list \<Rightarrow> 'w ir \<Rightarrow> 'w ir_out" where
  "exec_ops E [] \<sigma> = Fall \<sigma>"
| "exec_ops E (o1 # ops) \<sigma> =
     (case exec_op E o1 \<sigma> of Fall \<sigma>' \<Rightarrow> exec_ops E ops \<sigma>' | r \<Rightarrow> r)"

end
