(* ===== verification/Opt_Inv.thy ===== *)
theory Opt_Inv
  imports Opt_Sem
begin

text \<open>
  The invariant of the optimizer's state.  \<open>ring\<close>: the pointers of the temporaries in use form rings.
  \<open>opt_ok c \<sigma>\<close>: everything the context records holds in the state \<open>\<sigma>\<close> of the code: members of a ring have
  the same value and type, constants and masks are right, and the recorded copies of memory are in memory.
  The operations on the state (\<open>init_ts_info\<close>, \<open>reset_ts\<close>, \<open>tcg_opt_gen_mov\<close>) keep it.
\<close>

section \<open>Rings\<close>

definition ring :: "'a set \<Rightarrow> ('a \<Rightarrow> 'a) \<Rightarrow> ('a \<Rightarrow> 'a) \<Rightarrow> bool" where
  "ring U n p \<longleftrightarrow> (\<forall>t\<in>U. n t \<in> U \<and> p t \<in> U \<and> p (n t) = t \<and> n (p t) = t)"

lemma ringD: "ring U n p \<Longrightarrow> t \<in> U \<Longrightarrow> n t \<in> U \<and> p t \<in> U \<and> p (n t) = t \<and> n (p t) = t"
  by (simp add: ring_def)

lemma ring_unlink:
  assumes "ring U n p" "t \<in> U"
  shows "ring U (\<lambda>u. if u = t then t else if u = p t then n t else n u)
                (\<lambda>u. if u = t then t else if u = n t then p t else p u)"
  unfolding ring_def
proof (intro ballI conjI)
  fix u assume u: "u \<in> U"
  note r = ringD [OF assms] ringD [OF assms(1) u]
  show "(if u = t then t else if u = p t then n t else n u) \<in> U"
    and "(if u = t then t else if u = n t then p t else p u) \<in> U"
    using r assms(2) by auto
  let ?n = "\<lambda>u. if u = t then t else if u = p t then n t else n u"
  let ?p = "\<lambda>u. if u = t then t else if u = n t then p t else p u"
  show "?p (?n u) = u"
  proof (cases "u = t \<or> u = p t")
    case True
    moreover have "n t = t \<longleftrightarrow> p t = t" using r by metis
    ultimately show ?thesis by (elim disjE) simp_all
  next
    case False
    then have "n u \<noteq> t" "n u \<noteq> n t" using r by metis+
    with False r show ?thesis by simp
  qed
  show "?n (?p u) = u"
  proof (cases "u = t \<or> u = n t")
    case True
    moreover have "n t = t \<longleftrightarrow> p t = t" using r by metis
    ultimately show ?thesis by (elim disjE) (simp_all, metis)
  next
    case False
    then have "p u \<noteq> t" "p u \<noteq> p t" using r by metis+
    with False r show ?thesis by simp
  qed
qed

lemma ring_link:
  assumes "ring U n p" "d \<in> U" "s \<in> U" "n d = d" "s \<noteq> d"
  shows "ring U (\<lambda>u. if u = d then n s else if u = s then d else n u)
                (\<lambda>u. if u = d then s else if u = n s then d else p u)"
  unfolding ring_def
proof (intro ballI conjI)
  fix u assume u: "u \<in> U"
  note r = ringD [OF assms(1,2)] ringD [OF assms(1,3)] ringD [OF assms(1) u] assms(4,5)
  let ?n = "\<lambda>u. if u = d then n s else if u = s then d else n u"
  let ?p = "\<lambda>u. if u = d then s else if u = n s then d else p u"
  show "?n u \<in> U" "?p u \<in> U" using r assms(2,3) by auto
  have ns: "n s \<noteq> d" using r by metis
  show "?p (?n u) = u"
  proof (cases "u = d \<or> u = s")
    case True
    with ns show ?thesis by (elim disjE) simp_all
  next
    case False
    then have "n u \<noteq> d" "n u \<noteq> n s" using r by metis+
    with False r show ?thesis by simp
  qed
  show "?n (?p u) = u"
  proof (cases "u = d \<or> u = n s")
    case True
    with ns assms(5) show ?thesis by (elim disjE) simp_all
  next
    case False
    then have "p u \<noteq> d" "p u \<noteq> s" using r by metis+
    with False r show ?thesis by simp
  qed
qed

lemma ring_funpow: "ring U n p \<Longrightarrow> t \<in> U \<Longrightarrow> (n ^^ k) t \<in> U"
  by (induction k) (auto simp: ring_def)

lemma ring_funpow_cancel:
  assumes "ring U n p" "x \<in> U" "y \<in> U" "(n ^^ k) x = (n ^^ k) y"
  shows "x = y"
  using assms(4)
proof (induction k)
  case (Suc k)
  then have "p (n ((n ^^ k) x)) = p (n ((n ^^ k) y))" by simp
  then have "(n ^^ k) x = (n ^^ k) y"
    using ringD [OF assms(1) ring_funpow [OF assms(1,2)], of k]
      ringD [OF assms(1) ring_funpow [OF assms(1,3)], of k] by simp
  then show ?case by (rule Suc.IH)
qed simp

text \<open>A walk along a ring comes back to its start within as many steps as there are elements.\<close>

lemma ring_cycle:
  assumes "ring U n p" "finite U" "t \<in> U"
  shows "\<exists>k < card U. (n ^^ Suc k) t = t"
proof -
  let ?f = "\<lambda>k. (n ^^ k) t"
  have "?f ` {0..card U} \<subseteq> U" using ring_funpow [OF assms(1,3)] by auto
  then have "card (?f ` {0..card U}) \<le> card U" by (rule card_mono [OF assms(2)])
  then have "\<not> inj_on ?f {0..card U}"
    by (metis card_atLeastAtMost card_image diff_zero not_less_eq_eq order_refl)
  then obtain i j where ij: "i < j" "j \<le> card U" "?f i = ?f j"
    unfolding inj_on_def by (metis atLeastAtMost_iff linorder_neqE_nat)
  have "?f j = (n ^^ i) ((n ^^ (j - i)) t)"
    using ij(1) funpow_add [of i "j - i" n] by simp
  with ij(3) have "t = (n ^^ (j - i)) t"
    using ring_funpow_cancel [OF assms(1,3) ring_funpow [OF assms(1,3)]] by simp
  moreover obtain k where "j - i = Suc k" using ij(1) by (metis Suc_diff_Suc)
  ultimately show ?thesis using ij(2) by (metis Suc_le_lessD diff_le_self order.trans)
qed

section \<open>The invariant\<close>

abbreviation used :: "opt_context \<Rightarrow> tcgtemp set" where
  "used c \<equiv> set (temps_used c)"

abbreviation nxt :: "opt_context \<Rightarrow> tcgtemp \<Rightarrow> tcgtemp" where
  "nxt c t \<equiv> next_copy (info c t)"

abbreviation prv :: "opt_context \<Rightarrow> tcgtemp \<Rightarrow> tcgtemp" where
  "prv c t \<equiv> prev_copy (info c t)"

definition ring_ok :: "opt_context \<Rightarrow> bool" where
  "ring_ok c \<longleftrightarrow> ring (used c) (nxt c) (prv c)"

text \<open>What is known of one temporary, and that its successor in the ring is a copy.\<close>

definition known_ok :: "opt_context \<Rightarrow> 'w ir \<Rightarrow> tcgtemp \<Rightarrow> bool" where
  "known_ok c \<sigma> t \<longleftrightarrow>
     tval \<sigma> (nxt c t) = tval \<sigma> t
     \<and> temp_type c (nxt c t) = temp_type c t
     \<and> (is_const (info c t) \<longrightarrow> tval \<sigma> t = ti_val (info c t) \<and> ti_z_mask (info c t) = ti_val (info c t))
     \<and> zmask_ok (temp_type c t) (tval \<sigma> t) (ti_z_mask (info c t))
     \<and> smask_ok (tval \<sigma> t) (ti_s_mask (info c t))"

definition load_type :: "tcg_width \<Rightarrow> memory \<Rightarrow> u32 \<Rightarrow> u64" where
  "load_type w m a = (case w of I32 \<Rightarrow> sext32 (load32 m a) | I64 \<Rightarrow> load64 m a)"

text \<open>
  A recorded copy of the field of the CPU state at an offset.  The offsets of a field do not wrap around, and
  no field lies across the pointer to the CPU state: then the intervals of fields are intervals of 64-bit
  numbers.
\<close>

definition span_ok :: "u32 \<Rightarrow> u32 \<Rightarrow> bool" where
  "span_ok ofs n \<longleftrightarrow> s32 ofs + sint n \<le> 2 ^ 31 \<and> (0 \<le> s32 ofs \<or> s32 ofs + sint n \<le> 0)"

definition mc_span :: "mem_copy_info \<Rightarrow> u32 \<Rightarrow> bool" where
  "mc_span mc ofs \<longleftrightarrow>
     mc_start mc = sext32 ofs \<and> mc_last mc = sext32 (ofs + tcg_type_size (mc_type mc) - 1)
     \<and> span_ok ofs (tcg_type_size (mc_type mc))"

definition mc_ok :: "opt_context \<Rightarrow> 'w ir \<Rightarrow> mem_copy_info \<Rightarrow> bool" where
  "mc_ok c \<sigma> mc \<longleftrightarrow>
     mc_ts mc \<in> used c \<and> temp_type c (mc_ts mc) = mc_type mc
     \<and> (\<exists>ofs. mc_span mc ofs
          \<and> tval \<sigma> (mc_ts mc) = load_type (mc_type mc) (imem \<sigma>) (lo32 (tval \<sigma> (tcg_env c)) + ofs))"

definition canon_state :: "(nat \<Rightarrow> temp_desc) \<Rightarrow> 'w ir \<Rightarrow> bool" where
  "canon_state ds \<sigma> \<longleftrightarrow> (\<forall>n. canon (ttype (ds n)) (ivals \<sigma> n) = ivals \<sigma> n)"

fun const_canon :: "tcgtemp \<Rightarrow> bool" where
  "const_canon (Const w v) = (canon w v = v)"
| "const_canon (Tmp n) = True"

definition env_ok :: "opt_context \<Rightarrow> bool" where
  "env_ok c \<longleftrightarrow> (\<exists>n. tcg_env c = Tmp n \<and> fixed_temp (tdesc c n))"

definition opt_ok :: "opt_context \<Rightarrow> 'w ir \<Rightarrow> bool" where
  "opt_ok c \<sigma> \<longleftrightarrow>
     ring_ok c \<and> (\<forall>t\<in>used c. known_ok c \<sigma> t \<and> const_canon t)
     \<and> (\<forall>mc\<in>set (mem_copy c). mc_ok c \<sigma> mc) \<and> canon_state (tdesc c) \<sigma> \<and> env_ok c"

lemma opt_okD:
  assumes "opt_ok c \<sigma>"
  shows "ring_ok c" "t \<in> used c \<Longrightarrow> known_ok c \<sigma> t" "t \<in> used c \<Longrightarrow> const_canon t"
    "mc \<in> set (mem_copy c) \<Longrightarrow> mc_ok c \<sigma> mc" "canon_state (tdesc c) \<sigma>" "env_ok c"
  using assms by (auto simp: opt_ok_def)

lemma opt_okI:
  assumes "ring_ok c" "\<And>t. t \<in> used c \<Longrightarrow> known_ok c \<sigma> t" "\<And>t. t \<in> used c \<Longrightarrow> const_canon t"
    "\<And>mc. mc \<in> set (mem_copy c) \<Longrightarrow> mc_ok c \<sigma> mc" "canon_state (tdesc c) \<sigma>" "env_ok c"
  shows "opt_ok c \<sigma>"
  using assms by (auto simp: opt_ok_def)

text \<open>The parts of the context the invariant does not look at.\<close>

lemma temp_type_cong: "tdesc c' = tdesc c \<Longrightarrow> temp_type c' t = temp_type c t"
  by (cases t) auto

lemma temp_kind_cong: "tdesc c' = tdesc c \<Longrightarrow> temp_kind c' t = temp_kind c t"
  by (cases t) auto

lemma opt_ok_cong:
  assumes "info c' = info c" "temps_used c' = temps_used c" "mem_copy c' = mem_copy c"
    "tdesc c' = tdesc c" "tcg_env c' = tcg_env c"
  shows "opt_ok c' \<sigma> = opt_ok c \<sigma>"
  using assms
  by (simp add: opt_ok_def ring_ok_def known_ok_def mc_ok_def env_ok_def temp_type_cong [OF assms(4)])

lemma opt_ok_frame [simp]:
  "opt_ok (c\<lparr>op := o1\<rparr>) \<sigma> = opt_ok c \<sigma>"
  "opt_ok (c\<lparr>op2 := os2\<rparr>) \<sigma> = opt_ok c \<sigma>"
  "opt_ok (c\<lparr>op_removed := b\<rparr>) \<sigma> = opt_ok c \<sigma>"
  "opt_ok (c\<lparr>out_ops := os2\<rparr>) \<sigma> = opt_ok c \<sigma>"
  "opt_ok (c\<lparr>prev_mb := p\<rparr>) \<sigma> = opt_ok c \<sigma>"
  "opt_ok (c\<lparr>a_mask := x\<rparr>) \<sigma> = opt_ok c \<sigma>"
  "opt_ok (c\<lparr>z_mask := x\<rparr>) \<sigma> = opt_ok c \<sigma>"
  "opt_ok (c\<lparr>s_mask := x\<rparr>) \<sigma> = opt_ok c \<sigma>"
  "opt_ok (c\<lparr>ctype := w\<rparr>) \<sigma> = opt_ok c \<sigma>"
  "opt_ok (c\<lparr>trap := b\<rparr>) \<sigma> = opt_ok c \<sigma>"
  by (rule opt_ok_cong; simp)+

section \<open>Reading the knowledge\<close>

lemma tval_canon:
  assumes "opt_ok c \<sigma>" "t \<in> used c"
  shows "canon (temp_type c t) (tval \<sigma> t) = tval \<sigma> t"
  using opt_okD(3) [OF assms] opt_okD(5) [OF assms(1)] by (cases t) (auto simp: canon_state_def)

lemma nxt_used: "opt_ok c \<sigma> \<Longrightarrow> t \<in> used c \<Longrightarrow> nxt c t \<in> used c"
  using opt_okD(1) ringD unfolding ring_ok_def by metis

lemma const_val: "opt_ok c \<sigma> \<Longrightarrow> t \<in> used c \<Longrightarrow> is_const (info c t) \<Longrightarrow> ti_val (info c t) = tval \<sigma> t"
  using opt_okD(2) [of c \<sigma> t] by (simp add: known_ok_def)

lemma const_zmask: "opt_ok c \<sigma> \<Longrightarrow> t \<in> used c \<Longrightarrow> is_const (info c t) \<Longrightarrow> ti_z_mask (info c t) = tval \<sigma> t"
  using opt_okD(2) [of c \<sigma> t] by (simp add: known_ok_def)

lemma known_zmask:
  "opt_ok c \<sigma> \<Longrightarrow> t \<in> used c \<Longrightarrow> zmask_ok (temp_type c t) (tval \<sigma> t) (ti_z_mask (info c t))"
  using opt_okD(2) [of c \<sigma> t] by (simp add: known_ok_def)

lemma known_smask: "opt_ok c \<sigma> \<Longrightarrow> t \<in> used c \<Longrightarrow> smask_ok (tval \<sigma> t) (ti_s_mask (info c t))"
  using opt_okD(2) [of c \<sigma> t] by (simp add: known_ok_def)

text \<open>A walk along a ring stays among elements with a property the step keeps.\<close>

lemma better_loop_pres:
  assumes "better_loop c n ts i ret = Some r" "P ret" "P i" "\<And>t. P t \<Longrightarrow> P (nxt c t)"
  shows "P r"
  using assms
  by (induction n arbitrary: i ret)
    (auto simp: cmp_better_copy_def ts_info_def split: if_splits)

lemma copies_loop_pres:
  assumes "copies_loop c n t1 t2 i = Some True" "P i" "\<And>t. P t \<Longrightarrow> P (nxt c t)"
  shows "P t2"
  using assms by (induction n arbitrary: i) (auto simp: ts_info_def split: if_splits)

lemma find_better_copy_pres:
  assumes "P t" "\<And>t. P t \<Longrightarrow> P (nxt c t)"
  shows "P (find_better_copy c t)"
  using assms better_loop_pres [of c _ t "nxt c t" t _ P]
  by (auto simp: find_better_copy_def ts_info_def split: option.split)

lemma same_value_step:
  assumes "opt_ok c \<sigma>" "t \<in> used c \<and> tval \<sigma> t = v \<and> temp_type c t = w"
  shows "nxt c t \<in> used c \<and> tval \<sigma> (nxt c t) = v \<and> temp_type c (nxt c t) = w"
  using assms nxt_used [OF assms(1)] opt_okD(2) [OF assms(1), of t] by (simp add: known_ok_def)

lemma find_better_copy_ok:
  assumes "opt_ok c \<sigma>" "t \<in> used c"
  shows "find_better_copy c t \<in> used c \<and> tval \<sigma> (find_better_copy c t) = tval \<sigma> t
    \<and> temp_type c (find_better_copy c t) = temp_type c t"
  by (rule find_better_copy_pres [of "\<lambda>u. u \<in> used c \<and> tval \<sigma> u = tval \<sigma> t \<and> temp_type c u = temp_type c t"])
    (use assms(2) same_value_step [OF assms(1)] in auto)

lemma ts_are_copies_ok:
  assumes "opt_ok c \<sigma>" "t1 \<in> used c" "ts_are_copies c t1 t2"
  shows "tval \<sigma> t2 = tval \<sigma> t1 \<and> temp_type c t2 = temp_type c t1"
proof (cases "t1 = t2")
  case False
  with assms(3) have l: "copies_loop c (length (temps_used c)) t1 t2 (nxt c t1) = Some True"
    by (simp add: ts_are_copies_def ts_info_def split: if_splits)
  have "t2 \<in> used c \<and> tval \<sigma> t2 = tval \<sigma> t1 \<and> temp_type c t2 = temp_type c t1"
    by (rule copies_loop_pres [OF l, of "\<lambda>u. u \<in> used c \<and> tval \<sigma> u = tval \<sigma> t1 \<and> temp_type c u = temp_type c t1"])
      (use same_value_step [OF assms(1)] assms(2) in auto)
  then show ?thesis by simp
qed simp

section \<open>Walks come to an end\<close>

lemma better_loop_returns:
  assumes "(nxt c ^^ k) i = ts" "k \<le> n"
  shows "\<exists>r. better_loop c n ts i ret = Some r"
  using assms
proof (induction n arbitrary: i k ret)
  case (Suc n)
  show ?case
  proof (cases "i = ts")
    case False
    with Suc.prems(1) obtain k' where "k = Suc k'" by (cases k) auto
    with Suc.prems have "(nxt c ^^ k') (nxt c i) = ts" "k' \<le> n" by (auto simp: funpow_swap1 [of "nxt c"])
    with False show ?thesis using Suc.IH by (simp add: ts_info_def)
  qed simp
qed simp

lemma copies_loop_returns:
  assumes "(nxt c ^^ k) i = t1" "k \<le> n"
  shows "\<exists>r. copies_loop c n t1 t2 i = Some r"
  using assms
proof (induction n arbitrary: i k)
  case (Suc n)
  show ?case
  proof (cases "i = t1")
    case False
    with Suc.prems(1) obtain k' where "k = Suc k'" by (cases k) auto
    with Suc.prems have "(nxt c ^^ k') (nxt c i) = t1" "k' \<le> n" by (auto simp: funpow_swap1 [of "nxt c"])
    with False show ?thesis using Suc.IH by (cases "i = t2") (auto simp: ts_info_def)
  qed auto
qed auto

lemma ring_walk_length:
  assumes "ring_ok c" "t \<in> used c"
  shows "\<exists>k \<le> length (temps_used c). (nxt c ^^ k) (nxt c t) = t"
proof -
  obtain k where "k < card (used c)" "(nxt c ^^ Suc k) t = t"
    using ring_cycle [OF assms(1) [unfolded ring_ok_def] _ assms(2)] by auto
  then show ?thesis
    using card_length [of "temps_used c"] by (intro exI [of _ k]) (auto simp: funpow_swap1 [of "nxt c"])
qed

section \<open>Activating a temporary\<close>

lemma upd_info_simps [simp]:
  "info (upd_info t f c) = (info c)(t := f (info c t))"
  "temps_used (upd_info t f c) = temps_used c"
  "mem_copy (upd_info t f c) = mem_copy c"
  "tdesc (upd_info t f c) = tdesc c"
  "nb_globals (upd_info t f c) = nb_globals c"
  "tcg_env (upd_info t f c) = tcg_env c"
  "op (upd_info t f c) = op c"
  "op2 (upd_info t f c) = op2 c"
  "op_removed (upd_info t f c) = op_removed c"
  "out_ops (upd_info t f c) = out_ops c"
  "prev_mb (upd_info t f c) = prev_mb c"
  "a_mask (upd_info t f c) = a_mask c"
  "z_mask (upd_info t f c) = z_mask c"
  "s_mask (upd_info t f c) = s_mask c"
  "ctype (upd_info t f c) = ctype c"
  "trap (upd_info t f c) = trap c"
  by (simp_all add: upd_info_def)

text \<open>Everything but the knowledge of temporaries and memory is as before.\<close>

definition same_frame :: "opt_context \<Rightarrow> opt_context \<Rightarrow> bool" where
  "same_frame c c' \<longleftrightarrow>
     tdesc c' = tdesc c \<and> nb_globals c' = nb_globals c \<and> tcg_env c' = tcg_env c \<and> out_ops c' = out_ops c
     \<and> op2 c' = op2 c \<and> op c' = op c \<and> op_removed c' = op_removed c \<and> prev_mb c' = prev_mb c
     \<and> a_mask c' = a_mask c \<and> z_mask c' = z_mask c \<and> s_mask c' = s_mask c \<and> ctype c' = ctype c
     \<and> trap c' = trap c"

lemma same_frame_refl [simp]: "same_frame c c"
  by (simp add: same_frame_def)

lemma same_frame_trans: "same_frame a b \<Longrightarrow> same_frame b c \<Longrightarrow> same_frame a c"
  by (simp add: same_frame_def)

lemma same_frame_upd_info [simp]: "same_frame c (upd_info t f c)"
  by (simp add: same_frame_def)

lemma same_frame_mem_copy [simp]: "same_frame c (c\<lparr>mem_copy := m\<rparr>)"
  by (simp add: same_frame_def)

lemma same_frame_type: "same_frame c c' \<Longrightarrow> temp_type c' t = temp_type c t"
  by (rule temp_type_cong) (simp add: same_frame_def)

lemma init_ts_info_frame [simp]: "same_frame c (init_ts_info t c)"
  by (cases t) (simp_all add: same_frame_def init_ts_info_def Let_def)

lemma init_ts_info_used: "used (init_ts_info t c) = insert t (used c)"
  by (cases t) (auto simp: init_ts_info_def Let_def)

lemma init_ts_info_mem [simp]: "mem_copy (init_ts_info t c) = mem_copy c"
  by (cases t) (simp_all add: init_ts_info_def Let_def)

lemma init_ts_info_other: "u \<noteq> t \<or> t \<in> used c \<Longrightarrow> info (init_ts_info t c) u = info c u"
  by (cases t) (auto simp: init_ts_info_def Let_def)

lemma init_ts_info_new:
  assumes "t \<notin> used c"
  shows "nxt (init_ts_info t c) t = t" "prv (init_ts_info t c) t = t"
    "is_const (info (init_ts_info t c) t) \<Longrightarrow> \<exists>w. t = Const w (ti_val (info (init_ts_info t c) t))"
    "\<not> is_const (info (init_ts_info t c) t) \<Longrightarrow>
       ti_z_mask (info (init_ts_info t c) t) = - 1 \<and> ti_s_mask (info (init_ts_info t c) t) = 0"
    "t = Const w v \<Longrightarrow>
       ti_z_mask (info (init_ts_info t c) t) = v \<and> ti_s_mask (info (init_ts_info t c) t) = smask_from_value v
       \<and> is_const (info (init_ts_info t c) t) \<and> ti_val (info (init_ts_info t c) t) = v"
  using assms by (cases t; simp add: init_ts_info_def Let_def)+

lemma mc_ok_frame:
  assumes "mc_ok c \<sigma> mc" "used c \<subseteq> used c'" "tdesc c' = tdesc c" "tcg_env c' = tcg_env c"
  shows "mc_ok c' \<sigma> mc"
  using assms temp_type_cong [OF assms(3)] by (auto simp: mc_ok_def)

lemma env_ok_frame: "same_frame c c' \<Longrightarrow> env_ok c' = env_ok c"
  by (simp add: env_ok_def same_frame_def)

lemma init_ts_info_ok:
  assumes ok: "opt_ok c \<sigma>" and const: "const_canon t"
  shows "opt_ok (init_ts_info t c) \<sigma>"
proof (cases "t \<in> used c")
  case True
  then show ?thesis using ok by (simp add: init_ts_info_def)
next
  case False
  let ?c = "init_ts_info t c"
  note fr = init_ts_info_frame [of c t]
  have ty: "temp_type ?c u = temp_type c u" for u by (rule same_frame_type [OF fr])
  have old: "info ?c u = info c u" if "u \<noteq> t" for u using that by (simp add: init_ts_info_other)
  have ne: "nxt c u \<noteq> t" "prv c u \<noteq> t" if "u \<in> used c" for u
    using that False ringD [OF opt_okD(1) [OF ok, unfolded ring_ok_def] that] by metis+
  show ?thesis
  proof (rule opt_okI)
    show "ring_ok ?c" unfolding ring_ok_def ring_def init_ts_info_used
    proof (intro ballI)
      fix u assume u: "u \<in> insert t (used c)"
      show "nxt ?c u \<in> insert t (used c) \<and> prv ?c u \<in> insert t (used c) \<and> prv ?c (nxt ?c u) = u
        \<and> nxt ?c (prv ?c u) = u"
      proof (cases "u = t")
        case True
        then show ?thesis using init_ts_info_new(1,2) [OF False] by simp
      next
        case d: False
        with u have u': "u \<in> used c" by simp
        show ?thesis
          using ringD [OF opt_okD(1) [OF ok, unfolded ring_ok_def] u'] ne [OF u'] d by (simp add: old)
      qed
    qed
    show "known_ok ?c \<sigma> u" if "u \<in> used ?c" for u
    proof (cases "u = t")
      case True
      then show ?thesis
      proof (cases t)
        case (Const w v)
        then show ?thesis
          using True init_ts_info_new(1) [OF False] init_ts_info_new(5) [OF False Const] smask_from_value_ok
          by (simp add: known_ok_def)
      next
        case (Tmp n)
        then have nc: "\<not> is_const (info ?c t)" using init_ts_info_new(3) [OF False] by blast
        show ?thesis
          using True nc init_ts_info_new(1) [OF False] init_ts_info_new(4) [OF False nc]
          by (simp add: known_ok_def)
      qed
    next
      case d: False
      with that have "u \<in> used c" by (simp add: init_ts_info_used)
      then show ?thesis using opt_okD(2) [OF ok, of u] by (simp add: known_ok_def old [OF d] ty)
    qed
    show "const_canon u" if "u \<in> used ?c" for u
      using that const opt_okD(3) [OF ok, of u] by (auto simp: init_ts_info_used)
    show "mc_ok ?c \<sigma> mc" if "mc \<in> set (mem_copy ?c)" for mc
      using mc_ok_frame [OF opt_okD(4) [OF ok, of mc], of ?c] that fr
      by (auto simp: init_ts_info_used same_frame_def)
    show "canon_state (tdesc ?c) \<sigma>" using opt_okD(5) [OF ok] fr by (simp add: same_frame_def)
    show "env_ok ?c" using opt_okD(6) [OF ok] env_ok_frame [OF fr] by simp
  qed
qed

section \<open>Forgetting a temporary\<close>

lemma tval_set_temp [simp]: "tval (set_temp (Tmp n) v \<sigma>) t = (if t = Tmp n then v else tval \<sigma> t)"
  by (cases t) auto

lemma ivals_set_temp [simp]: "ivals (set_temp (Tmp n) v \<sigma>) = (ivals \<sigma>)(n := v)"
  by simp

lemma iworld_set_temp [simp]: "iworld (set_temp t v \<sigma>) = iworld \<sigma>"
  by (cases t) auto

lemma imem_set_temp [simp]: "imem (set_temp t v \<sigma>) = imem \<sigma>"
  by (cases t) auto

lemma canon_state_set_temp:
  "canon_state ds \<sigma> \<Longrightarrow> canon (ttype (ds n)) v = v \<Longrightarrow> canon_state ds (set_temp (Tmp n) v \<sigma>)"
  by (simp add: canon_state_def)

declare set_temp.simps [simp del]

text \<open>The context after unlinking, before the copies in memory are moved.\<close>

definition unlink_ts :: "tcgtemp \<Rightarrow> opt_context \<Rightarrow> opt_context" where
  "unlink_ts t c =
     upd_info t (\<lambda>ti. ti\<lparr>next_copy := t, prev_copy := t, is_const := False, ti_z_mask := - 1, ti_s_mask := 0\<rparr>)
       (upd_info (prv c t) (\<lambda>pi. pi\<lparr>next_copy := nxt c t\<rparr>)
         (upd_info (nxt c t) (\<lambda>ni. ni\<lparr>prev_copy := prv c t\<rparr>) c))"

lemma reset_ts_unlink:
  "reset_ts t c =
     (let c3 = unlink_ts t c
      in if list_ex (\<lambda>mc. mc_ts mc = t) (mem_copy c3) then
           if t = nxt c t then c3\<lparr>mem_copy := filter (\<lambda>mc. mc_ts mc \<noteq> t) (mem_copy c3)\<rparr>
           else move_mem_copies (find_better_copy c3 (nxt c t)) t c3
         else c3)"
  by (simp add: reset_ts_def unlink_ts_def ts_info_def Let_def)

lemma unlink_frame [simp]: "same_frame c (unlink_ts t c)"
  by (simp add: same_frame_def unlink_ts_def)

lemma unlink_used [simp]: "temps_used (unlink_ts t c) = temps_used c"
  by (simp add: unlink_ts_def)

lemma unlink_mem [simp]: "mem_copy (unlink_ts t c) = mem_copy c"
  by (simp add: unlink_ts_def)

lemma unlink_nxt: "nxt (unlink_ts t c) u = (if u = t then t else if u = prv c t then nxt c t else nxt c u)"
  by (auto simp: unlink_ts_def)

lemma unlink_prv: "prv (unlink_ts t c) u = (if u = t then t else if u = nxt c t then prv c t else prv c u)"
  by (auto simp: unlink_ts_def)

lemma unlink_self:
  "is_const (info (unlink_ts t c) t) = False"
  "ti_z_mask (info (unlink_ts t c) t) = - 1"
  "ti_s_mask (info (unlink_ts t c) t) = 0"
  by (auto simp: unlink_ts_def)

lemma unlink_other:
  assumes "u \<noteq> t"
  shows "is_const (info (unlink_ts t c) u) = is_const (info c u)"
    "ti_val (info (unlink_ts t c) u) = ti_val (info c u)"
    "ti_z_mask (info (unlink_ts t c) u) = ti_z_mask (info c u)"
    "ti_s_mask (info (unlink_ts t c) u) = ti_s_mask (info c u)"
  using assms by (auto simp: unlink_ts_def)

lemma unlink_ring:
  assumes "ring_ok c" "t \<in> used c"
  shows "ring_ok (unlink_ts t c)"
  using ring_unlink [OF assms(1) [unfolded ring_ok_def] assms(2)]
  by (simp add: ring_ok_def unlink_nxt unlink_prv cong: if_cong)

text \<open>The ring the temporary leaves does not lead back to it.\<close>

lemma unlink_nxt_other:
  assumes "ring_ok c" "t \<in> used c" "u \<in> used c" "u \<noteq> t"
  shows "nxt (unlink_ts t c) u \<noteq> t"
  using ringD [OF assms(1) [unfolded ring_ok_def] assms(2)] ringD [OF assms(1) [unfolded ring_ok_def] assms(3)]
    assms(4) unfolding unlink_nxt by metis

lemma unlink_same_value:
  assumes ok: "opt_ok c \<sigma>" and t: "t \<in> used c"
    and u: "u \<in> used c \<and> u \<noteq> t \<and> tval \<sigma> u = v \<and> temp_type c u = w"
  shows "nxt (unlink_ts t c) u \<in> used c \<and> nxt (unlink_ts t c) u \<noteq> t
    \<and> tval \<sigma> (nxt (unlink_ts t c) u) = v \<and> temp_type c (nxt (unlink_ts t c) u) = w"
proof -
  have s: "nxt c x \<in> used c \<and> tval \<sigma> (nxt c x) = tval \<sigma> x \<and> temp_type c (nxt c x) = temp_type c x"
    if "x \<in> used c" for x
    using same_value_step [OF ok] that by blast
  have "nxt c (prv c t) = t"
    using ringD [OF opt_okD(1) [OF ok, unfolded ring_ok_def] t] by simp
  then show ?thesis
    using s [of u] s [of t] u t unlink_nxt_other [OF opt_okD(1) [OF ok] t, of u]
    by (auto simp: unlink_nxt)
qed

lemma unlink_known:
  assumes ok: "opt_ok c \<sigma>" and t: "Tmp n \<in> used c" and u: "u \<in> used c"
  shows "known_ok (unlink_ts (Tmp n) c) (set_temp (Tmp n) v \<sigma>) u"
proof -
  have ty: "temp_type (unlink_ts (Tmp n) c) x = temp_type c x" for x
    by (rule same_frame_type [OF unlink_frame])
  show ?thesis
  proof (cases "u = Tmp n")
    case True
    then show ?thesis by (simp add: known_ok_def unlink_nxt unlink_self)
  next
    case False
    then show ?thesis
      using unlink_same_value [OF ok t, of u] opt_okD(2) [OF ok u] u
      by (simp add: known_ok_def ty unlink_other)
  qed
qed

lemma reset_ts_frame [simp]: "same_frame c (reset_ts t c)"
proof -
  have "same_frame (unlink_ts t c) (reset_ts t c)"
    by (simp add: reset_ts_unlink Let_def move_mem_copies_def)
  then show ?thesis by (rule same_frame_trans [OF unlink_frame])
qed

lemma reset_ts_info: "info (reset_ts t c) = info (unlink_ts t c)"
  by (simp add: reset_ts_unlink Let_def move_mem_copies_def)

lemma reset_ts_used [simp]: "temps_used (reset_ts t c) = temps_used c"
  by (simp add: reset_ts_unlink Let_def move_mem_copies_def)

text \<open>The copies in memory of a forgotten temporary become copies of another one of its ring.\<close>

lemma reset_ts_mem:
  assumes ok: "opt_ok c \<sigma>" and t: "t \<in> used c" and mc: "mc \<in> set (mem_copy (reset_ts t c))"
  shows "\<exists>mc0 \<in> set (mem_copy c). mc_start mc = mc_start mc0 \<and> mc_last mc = mc_last mc0
    \<and> mc_type mc = mc_type mc0 \<and> mc_ts mc \<in> used c \<and> mc_ts mc \<noteq> t
    \<and> tval \<sigma> (mc_ts mc) = tval \<sigma> (mc_ts mc0) \<and> temp_type c (mc_ts mc) = temp_type c (mc_ts mc0)"
proof -
  let ?c = "unlink_ts t c"
  have u: "mc_ts m \<in> used c" if "m \<in> set (mem_copy c)" for m
    using opt_okD(4) [OF ok that] by (simp add: mc_ok_def)
  show ?thesis
  proof (cases "list_ex (\<lambda>mc. mc_ts mc = t) (mem_copy c) \<and> t \<noteq> nxt c t")
    case False
    then have "mc \<in> set (mem_copy c) \<and> mc_ts mc \<noteq> t"
      using mc by (auto simp: reset_ts_unlink Let_def list_ex_iff split: if_splits)
    then show ?thesis using u by blast
  next
    case True
    let ?b = "find_better_copy ?c (nxt c t)"
    have n: "nxt c t \<in> used c \<and> nxt c t \<noteq> t \<and> tval \<sigma> (nxt c t) = tval \<sigma> t \<and> temp_type c (nxt c t) = temp_type c t"
      using same_value_step [OF ok, of t] t True by auto
    have b: "?b \<in> used c \<and> ?b \<noteq> t \<and> tval \<sigma> ?b = tval \<sigma> t \<and> temp_type c ?b = temp_type c t"
      by (rule find_better_copy_pres [of "\<lambda>x. x \<in> used c \<and> x \<noteq> t \<and> tval \<sigma> x = tval \<sigma> t
            \<and> temp_type c x = temp_type c t"])
        (use n unlink_same_value [OF ok t] in auto)
    from True mc obtain m where m: "m \<in> set (mem_copy c)"
        "mc = (if mc_ts m = t then m\<lparr>mc_ts := ?b\<rparr> else m)"
      by (auto simp: reset_ts_unlink Let_def move_mem_copies_def)
    then show ?thesis using b u [OF m(1)] by (intro bexI [of _ m]) auto
  qed
qed

lemma reset_ts_gen:
  assumes ok: "opt_ok c \<sigma>" and t: "Tmp n \<in> used c" and e: "tcg_env c = Tmp n \<longrightarrow> v = ivals \<sigma> n"
    and v: "canon (ttype (tdesc c n)) v = v"
  shows "opt_ok (reset_ts (Tmp n) c) (set_temp (Tmp n) v \<sigma>)"
proof -
  let ?c = "reset_ts (Tmp n) c" and ?s = "set_temp (Tmp n) v \<sigma>"
  note fr = reset_ts_frame [of c "Tmp n"]
  have ty: "temp_type ?c x = temp_type c x" "temp_type (unlink_ts (Tmp n) c) x = temp_type c x" for x
    by (rule same_frame_type; simp)+
  show ?thesis
  proof (rule opt_okI)
    show "ring_ok ?c"
      using unlink_ring [OF opt_okD(1) [OF ok] t] by (simp add: ring_ok_def reset_ts_info)
    show "known_ok ?c ?s u" if "u \<in> used ?c" for u
      using unlink_known [OF ok t, of u v] that by (simp add: known_ok_def reset_ts_info ty)
    show "const_canon u" if "u \<in> used ?c" for u
      using that opt_okD(3) [OF ok, of u] by simp
    show "mc_ok ?c ?s mc" if mc: "mc \<in> set (mem_copy ?c)" for mc
    proof -
      obtain mc0 where m: "mc0 \<in> set (mem_copy c)" "mc_start mc = mc_start mc0" "mc_last mc = mc_last mc0"
          "mc_type mc = mc_type mc0" "mc_ts mc \<in> used c" "mc_ts mc \<noteq> Tmp n"
          "tval \<sigma> (mc_ts mc) = tval \<sigma> (mc_ts mc0)" "temp_type c (mc_ts mc) = temp_type c (mc_ts mc0)"
        using reset_ts_mem [OF ok t mc] by blast
      obtain ofs where o: "mc_span mc0 ofs" "temp_type c (mc_ts mc0) = mc_type mc0"
          "tval \<sigma> (mc_ts mc0) = load_type (mc_type mc0) (imem \<sigma>) (lo32 (tval \<sigma> (tcg_env c)) + ofs)"
        using opt_okD(4) [OF ok m(1)] by (auto simp: mc_ok_def)
      have "tcg_env ?c = tcg_env c" using fr by (simp add: same_frame_def)
      moreover have "mc_span mc ofs" using o(1) m by (simp add: mc_span_def)
      ultimately show ?thesis unfolding mc_ok_def using m o e by (auto simp: ty)
    qed
    show "canon_state (tdesc ?c) ?s"
      using canon_state_set_temp [OF opt_okD(5) [OF ok] v] fr by (simp add: same_frame_def)
    show "env_ok ?c" using opt_okD(6) [OF ok] env_ok_frame [OF fr] by simp
  qed
qed

lemma reset_ts_ok:
  assumes "opt_ok c \<sigma>" "Tmp n \<in> used c" "tcg_env c \<noteq> Tmp n" "canon (ttype (tdesc c n)) v = v"
  shows "opt_ok (reset_ts (Tmp n) c) (set_temp (Tmp n) v \<sigma>)"
  by (rule reset_ts_gen [OF assms(1,2) _ assms(4)]) (use assms(3) in simp)

section \<open>Moves\<close>

lemma zmask_ok_narrow: "zmask_ok w v z \<Longrightarrow> zmask_ok I32 (canon I32 v) z"
  by (cases w) (auto simp: zmask_ok_def bit_canon min_def)

lemma smask_ok_narrow:
  assumes "smask_ok v s"
  shows "smask_ok (canon I32 v) s"
proof (rule smask_okI)
  fix i j :: nat
  assume a: "bit s i" "i < 64" "j < 64" "i \<le> Suc j"
  have "bit v (min j 31) = bit v 31"
  proof (cases "j < 31")
    case True
    then show ?thesis using smask_okD [OF assms a(1,4,3)] smask_okD [OF assms a(1), of 31] a(4) by simp
  qed (simp add: min_def)
  then show "bit (canon I32 v) j = bit (canon I32 v) 63" using a(3) by (simp add: bit_canon)
qed

text \<open>A variable the code may assign: not the pointer to the CPU state.\<close>

definition writable :: "opt_context \<Rightarrow> tcgtemp \<Rightarrow> bool" where
  "writable c t \<longleftrightarrow> (\<exists>n. t = Tmp n) \<and> t \<in> used c \<and> t \<noteq> tcg_env c"

lemma writable_frame: "same_frame c c' \<Longrightarrow> used c \<subseteq> used c' \<Longrightarrow> writable c t \<Longrightarrow> writable c' t"
  by (auto simp: writable_def same_frame_def)

text \<open>The context after the destination has joined the ring of the source.\<close>

definition link_ts :: "tcgtemp \<Rightarrow> tcgtemp \<Rightarrow> opt_context \<Rightarrow> opt_context" where
  "link_ts d s c =
     upd_info d (\<lambda>di. di\<lparr>is_const := is_const (info c s), ti_val := ti_val (info c s)\<rparr>)
       (upd_info s (\<lambda>i. i\<lparr>next_copy := d\<rparr>)
         (upd_info (nxt c s) (\<lambda>i. i\<lparr>prev_copy := d\<rparr>)
           (upd_info d (\<lambda>di. di\<lparr>next_copy := nxt c s, prev_copy := s\<rparr>) c)))"

definition copy_masks :: "tcgtemp \<Rightarrow> tcgtemp \<Rightarrow> opt_context \<Rightarrow> opt_context" where
  "copy_masks d s c =
     upd_info d (\<lambda>di. di\<lparr>ti_z_mask := ti_z_mask (info c s), ti_s_mask := ti_s_mask (info c s)\<rparr>) c"

lemma link_ts_simps:
  assumes "s \<noteq> d" "nxt c s \<noteq> d"
  shows "nxt (link_ts d s c) u = (if u = d then nxt c s else if u = s then d else nxt c u)"
    "prv (link_ts d s c) u = (if u = d then s else if u = nxt c s then d else prv c u)"
    "is_const (info (link_ts d s c) u) = (if u = d then is_const (info c s) else is_const (info c u))"
    "ti_val (info (link_ts d s c) u) = (if u = d then ti_val (info c s) else ti_val (info c u))"
    "ti_z_mask (info (link_ts d s c) u) = ti_z_mask (info c u)"
    "ti_s_mask (info (link_ts d s c) u) = ti_s_mask (info c u)"
    "temps_used (link_ts d s c) = temps_used c"
    "mem_copy (link_ts d s c) = mem_copy c"
    "same_frame c (link_ts d s c)"
  using assms by (auto simp: link_ts_def same_frame_def)

lemma copy_masks_ok:
  assumes ok: "opt_ok c \<sigma>" and d: "d \<in> used c" and s: "s \<in> used c"
    and nc: "\<not> is_const (info c d)" and eq: "tval \<sigma> d = canon (temp_type c d) (tval \<sigma> s)"
    and ty: "temp_type c s = temp_type c d \<or> temp_type c d = I32"
  shows "opt_ok (copy_masks d s c) \<sigma>"
proof -
  let ?c = "copy_masks d s c"
  have fr: "same_frame c ?c" by (simp add: copy_masks_def)
  have [simp]: "temp_type ?c x = temp_type c x" for x by (rule same_frame_type [OF fr])
  have f: "nxt ?c = nxt c" "prv ?c = prv c" "temps_used ?c = temps_used c" "mem_copy ?c = mem_copy c"
    "is_const (info ?c u) = is_const (info c u)" "ti_val (info ?c u) = ti_val (info c u)"
    "ti_z_mask (info ?c u) = (if u = d then ti_z_mask (info c s) else ti_z_mask (info c u))"
    "ti_s_mask (info ?c u) = (if u = d then ti_s_mask (info c s) else ti_s_mask (info c u))" for u
    by (auto simp: copy_masks_def fun_eq_iff)
  have z: "zmask_ok (temp_type c d) (tval \<sigma> d) (ti_z_mask (info c s))"
    and sm: "smask_ok (tval \<sigma> d) (ti_s_mask (info c s))"
    using known_zmask [OF ok s] known_smask [OF ok s] tval_canon [OF ok s] zmask_ok_narrow smask_ok_narrow ty
    by (cases "temp_type c d"; force simp: eq)+
  show ?thesis
  proof (rule opt_okI)
    show "ring_ok ?c" using opt_okD(1) [OF ok] by (simp add: ring_ok_def f)
    show "known_ok ?c \<sigma> u" if "u \<in> used ?c" for u
      using opt_okD(2) [OF ok, of u] z sm that f(1) [THEN fun_cong, of u] nc
      by (cases "u = d") (auto simp: known_ok_def f)
    show "const_canon u" if "u \<in> used ?c" for u using that opt_okD(3) [OF ok, of u] by (simp add: f)
    show "mc_ok ?c \<sigma> mc" if "mc \<in> set (mem_copy ?c)" for mc
      using mc_ok_frame [OF opt_okD(4) [OF ok, of mc], of ?c] that fr by (simp add: f same_frame_def)
    show "canon_state (tdesc ?c) \<sigma>" using opt_okD(5) [OF ok] fr by (simp add: same_frame_def)
    show "env_ok ?c" using opt_okD(6) [OF ok] env_ok_frame [OF fr] by simp
  qed
qed

lemma link_ts_ok:
  assumes ok: "opt_ok c \<sigma>" and d: "d \<in> used c" and s: "s \<in> used c" "s \<noteq> d" "nxt c d = d"
    and eq: "tval \<sigma> d = tval \<sigma> s" and ty: "temp_type c s = temp_type c d"
    and z: "ti_z_mask (info c d) = ti_z_mask (info c s)"
  shows "opt_ok (link_ts d s c) \<sigma>"
proof -
  let ?c = "link_ts d s c"
  note rg = opt_okD(1) [OF ok, unfolded ring_ok_def]
  have nd: "nxt c s \<noteq> d" using ringD [OF rg s(1)] ringD [OF rg d] s(2,3) by metis
  note f = link_ts_simps [OF s(2) nd]
  have [simp]: "temp_type ?c x = temp_type c x" for x by (rule same_frame_type [OF f(9)])
  show ?thesis
  proof (rule opt_okI)
    show "ring_ok ?c" unfolding ring_ok_def f(7)
      using ring_link [OF rg d s(1,3,2)] by (simp add: f(1,2) cong: if_cong)
    show "known_ok ?c \<sigma> u" if "u \<in> used ?c" for u
      using opt_okD(2) [OF ok, of u] opt_okD(2) [OF ok s(1)] that eq ty z
      by (auto simp: known_ok_def f)
    show "const_canon u" if "u \<in> used ?c" for u using that opt_okD(3) [OF ok, of u] by (simp add: f)
    show "mc_ok ?c \<sigma> mc" if "mc \<in> set (mem_copy ?c)" for mc
      using mc_ok_frame [OF opt_okD(4) [OF ok, of mc], of ?c] that f(9) by (simp add: f same_frame_def)
    show "canon_state (tdesc ?c) \<sigma>" using opt_okD(5) [OF ok] f(9) by (simp add: same_frame_def)
    show "env_ok ?c" using opt_okD(6) [OF ok] env_ok_frame [OF f(9)] by simp
  qed
qed

lemma move_mem_copies_ok:
  assumes ok: "opt_ok c \<sigma>" and d: "d \<in> used c"
    and eq: "tval \<sigma> d = tval \<sigma> s" and ty: "temp_type c d = temp_type c s"
  shows "opt_ok (move_mem_copies d s c) \<sigma>"
proof -
  let ?c = "move_mem_copies d s c"
  have fr: "same_frame c ?c" by (simp add: move_mem_copies_def)
  have [simp]: "temp_type ?c x = temp_type c x" for x by (rule same_frame_type [OF fr])
  have [simp]: "info ?c = info c" "temps_used ?c = temps_used c" by (simp_all add: move_mem_copies_def)
  have mcs: "mc_ok ?c \<sigma> mc" if "mc \<in> set (mem_copy ?c)" for mc
  proof -
    note h = that
    obtain m where m: "m \<in> set (mem_copy c)" "mc = (if mc_ts m = s then m\<lparr>mc_ts := d\<rparr> else m)"
      using h by (auto simp: move_mem_copies_def)
    have "mc_ok c \<sigma> mc" using opt_okD(4) [OF ok m(1)] m(2) d eq ty by (auto simp: mc_ok_def mc_span_def)
    then show ?thesis using fr by (simp add: mc_ok_def same_frame_def)
  qed
  show ?thesis
    by (rule opt_okI)
      (use ok mcs fr in \<open>simp_all add: opt_ok_def ring_ok_def known_ok_def same_frame_def env_ok_def\<close>)
qed

definition mov_op :: "tcg_width \<Rightarrow> tcgarg \<Rightarrow> tcgarg \<Rightarrow> tcgop \<Rightarrow> tcgop" where
  "mov_op w dst src o1 = o1\<lparr>opc := Tcg (Op_rr U_mov w), args := (args o1)[0 := dst, 1 := src]\<rparr>"

lemma tcg_opt_gen_mov_alt:
  assumes "\<not> ts_are_copies c (arg_temp dst) (arg_temp src)"
  defines "d \<equiv> arg_temp dst" and "s \<equiv> arg_temp src"
  defines "c2 \<equiv> copy_masks d s (reset_ts d c)"
  shows "tcg_opt_gen_mov o1 dst src c =
    (Some (mov_op (ctype c) dst src o1),
     if temp_type c s = temp_type c d then
       if list_ex (\<lambda>mc. mc_ts mc = s) (mem_copy (link_ts d s c2))
          \<and> cmp_better_copy (link_ts d s c2) s d = d
       then move_mem_copies d s (link_ts d s c2) else link_ts d s c2
     else c2)"
proof -
  have "s \<noteq> d" using assms(1) by (auto simp: ts_are_copies_def d_def s_def)
  then have i: "info c2 s = info (reset_ts d c) s" by (simp add: c2_def copy_masks_def)
  show ?thesis
    using assms(1) unfolding tcg_opt_gen_mov_def Let_def link_ts_def i
    unfolding c2_def copy_masks_def d_def s_def mov_op_def ts_info_def by simp
qed

lemma tcg_opt_gen_mov_ok:
  assumes ok: "opt_ok c \<sigma>" and d: "writable c (arg_temp dst)" and s: "arg_temp src \<in> used c"
    and w: "temp_type c (arg_temp dst) = w"
    and ty: "temp_type c (arg_temp src) = w \<or> w = I32"
    and g: "tcg_opt_gen_mov o1 dst src c = (r, c')"
  defines "\<sigma>' \<equiv> set_temp (arg_temp dst) (canon w (tval \<sigma> (arg_temp src))) \<sigma>"
  shows "opt_ok c' \<sigma>'" "same_frame c c'" "temps_used c' = temps_used c" "r = None \<Longrightarrow> \<sigma>' = \<sigma>"
    "\<And>o2. r = Some o2 \<Longrightarrow> o2 = mov_op (ctype c) dst src o1"
proof -
  let ?d = "arg_temp dst" and ?s = "arg_temp src"
  obtain n where n: "?d = Tmp n" "Tmp n \<in> used c" "tcg_env c \<noteq> Tmp n"
    using d by (auto simp: writable_def)
  have "opt_ok c' \<sigma>' \<and> same_frame c c' \<and> temps_used c' = temps_used c \<and> (r = None \<longrightarrow> \<sigma>' = \<sigma>)
    \<and> (\<forall>o2. r = Some o2 \<longrightarrow> o2 = mov_op (ctype c) dst src o1)"
  proof (cases "ts_are_copies c ?d ?s")
    case True
    then have "r = None" "c' = c" using g by (simp_all add: tcg_opt_gen_mov_def Let_def)
    moreover have "tval \<sigma> ?s = tval \<sigma> ?d \<and> temp_type c ?s = temp_type c ?d"
      using ts_are_copies_ok [OF ok _ True] n by simp
    then have "canon w (tval \<sigma> ?s) = ivals \<sigma> n"
      using tval_canon [OF ok n(2)] w n(1) by simp
    then have "\<sigma>' = \<sigma>" by (simp add: \<sigma>'_def n(1) set_temp.simps)
    ultimately show ?thesis using ok by simp
  next
    case False
    have sd: "?s \<noteq> ?d" using False by (auto simp: ts_are_copies_def)
    define c1 where "c1 = reset_ts ?d c"
    define c2 where "c2 = copy_masks ?d ?s c1"
    have fr: "same_frame c c2" unfolding c2_def c1_def copy_masks_def
      by (rule same_frame_trans [OF reset_ts_frame same_frame_upd_info])
    have ty2: "temp_type c1 x = temp_type c x" "temp_type c2 x = temp_type c x" for x
      using same_frame_type [OF fr] same_frame_type [OF reset_ts_frame] by (simp_all add: c1_def)
    have td: "tdesc c1 = tdesc c" "tdesc c2 = tdesc c"
      using fr reset_ts_frame [of c ?d] by (simp_all add: c1_def same_frame_def)
    have us: "temps_used c1 = temps_used c" "temps_used c2 = temps_used c"
      by (simp_all add: c1_def c2_def copy_masks_def)
    have tv: "tval \<sigma>' ?s = tval \<sigma> ?s" "tval \<sigma>' ?d = canon w (tval \<sigma> ?s)"
      using sd by (simp_all add: \<sigma>'_def n(1))
    have "canon (ttype (tdesc c n)) (canon w (tval \<sigma> ?s)) = canon w (tval \<sigma> ?s)"
      using w n(1) by simp
    then have ok1: "opt_ok c1 \<sigma>'"
      using reset_ts_ok [OF ok n(2,3)] by (simp add: c1_def \<sigma>'_def n(1))
    have nc: "\<not> is_const (info c1 ?d)" by (simp add: c1_def reset_ts_info unlink_self)
    have zs: "ti_z_mask (info c2 ?d) = ti_z_mask (info c2 ?s)" using sd by (simp add: c2_def copy_masks_def)
    have ok2: "opt_ok c2 \<sigma>'" unfolding c2_def
      by (rule copy_masks_ok [OF ok1 _ _ nc]) (use s n us tv ty w in \<open>auto simp: ty2 td\<close>)
    have nd: "nxt c2 ?d = ?d"
      by (simp add: c2_def copy_masks_def c1_def reset_ts_info unlink_nxt)
    note g2 = g [unfolded tcg_opt_gen_mov_alt [OF False], folded c1_def, folded c2_def]
    show ?thesis
    proof (cases "temp_type c ?s = temp_type c ?d")
      case False
      with g2 ok2 fr us show ?thesis by auto
    next
      case True
      have eq: "tval \<sigma>' ?d = tval \<sigma>' ?s"
        using tval_canon [OF ok s] True w by (simp add: tv)
      let ?c = "link_ts ?d ?s c2"
      have rg: "nxt c2 ?s \<noteq> ?d"
        using ringD [OF opt_okD(1) [OF ok2, unfolded ring_ok_def]] nd sd s n us by metis
      note l = link_ts_simps [OF sd rg]
      have ok3: "opt_ok ?c \<sigma>'"
        by (rule link_ts_ok [OF ok2 _ _ sd nd eq _ zs]) (use s n us True in \<open>auto simp: ty2 td\<close>)
      moreover have "opt_ok (move_mem_copies ?d ?s ?c) \<sigma>'"
      proof (rule move_mem_copies_ok [OF ok3 _ eq])
        show "?d \<in> used ?c" unfolding l(7) us(2) using n by simp
        show "temp_type ?c ?d = temp_type ?c ?s"
          unfolding same_frame_type [OF l(9)] ty2(2) using True by simp
      qed
      ultimately show ?thesis
        using g2 True same_frame_trans [OF fr l(9)] same_frame_trans [OF _ same_frame_mem_copy] us
        by (auto simp: l move_mem_copies_def split: if_splits)
    qed
  qed
  then show "opt_ok c' \<sigma>'" "same_frame c c'" "temps_used c' = temps_used c" "r = None \<Longrightarrow> \<sigma>' = \<sigma>"
    "\<And>o2. r = Some o2 \<Longrightarrow> o2 = mov_op (ctype c) dst src o1"
    by auto
qed

end
