(* ===== verification/Opt_Sound.thy ===== *)
theory Opt_Sound
  imports Opt_Inv
begin

text \<open>
  How the folders are proved right.  \<open>core E \<sigma> c0 r oc c\<close>: in the middle of folding an operation with one
  result \<open>r\<close>, the context is right for the state \<open>\<sigma>\<close> before the operation, and the current form of the
  operation still computes \<open>r\<close>.  \<open>folded E \<sigma> c0 r c\<close>: the operation has been replaced, and what replaced it
  has the same effect.  \<open>folder_ok P f Q\<close> is the contract of a folder, closed under \<open>or_else\<close>.
\<close>

section \<open>Well-formed operations\<close>

text \<open>The type of an input; \<^const>\<open>None\<close> where either type may stand.\<close>

definition in_type :: "tcg_opc \<Rightarrow> nat \<Rightarrow> tcg_width option" where
  "in_type oc i =
     (case oc of
        Tcg (Op_rr u w) \<Rightarrow> if u = U_mov \<and> w = I32 then None else Some w
      | Tcg (Op_rr64 u) \<Rightarrow> if u = W_ext_i32_i64 \<or> u = W_extu_i32_i64 then Some I32 else Some I64
      | Tcg (Op_host h) \<Rightarrow> if i = 0 \<and> nb_oargs oc = 0 then Some (host_width h) else None
      | Tcg (Op_qemu_ld_a32 w) \<Rightarrow> None
      | Tcg (Op_qemu_ld_a64 w) \<Rightarrow> None
      | Tcg (Op_qemu_st_a32 w) \<Rightarrow> if i = 0 then Some w else None
      | Tcg (Op_qemu_st_a64 w) \<Rightarrow> if i = 0 then Some w else None
      | Tcg Op_goto_ptr \<Rightarrow> None
      | Op_extrl_i64_i32 \<Rightarrow> Some I64
      | Op_extrh_i64_i32 \<Rightarrow> Some I64
      | _ \<Rightarrow> Some (op_type oc))"

lemma in_type_simps [simp]:
  "in_type (Tcg (Op_rrr r w)) i = Some w"
  "in_type (Tcg (Op_rr u w)) i = (if u = U_mov \<and> w = I32 then None else Some w)"
  "in_type (Tcg (Op_rr64 x)) i = (if x = W_ext_i32_i64 \<or> x = W_extu_i32_i64 then Some I32 else Some I64)"
  "in_type (Tcg (Op_setcond w)) i = Some w"
  "in_type (Tcg (Op_movcond w)) i = Some w"
  "in_type (Tcg (Op_deposit w)) i = Some w"
  "in_type (Tcg (Op_extract w)) i = Some w"
  "in_type (Tcg (Op_sextract w)) i = Some w"
  "in_type (Tcg (Op_brcond w)) i = Some w"
  "in_type (Tcg (Op_add2 w)) i = Some w"
  "in_type (Tcg (Op_sub2 w)) i = Some w"
  "in_type (Tcg Op_mulu2_i32) i = Some I32"
  "in_type (Tcg Op_muls2_i32) i = Some I32"
  "in_type (Op_negsetcond w) i = Some w"
  "in_type (Op_extract2 w) i = Some w"
  "in_type Op_extrl_i64_i32 i = Some I64"
  "in_type Op_extrh_i64_i32 i = Some I64"
  "in_type (Op_muluh w) i = Some w"
  "in_type (Op_mulsh w) i = Some w"
  "in_type Op_mulu2_i64 i = Some I64"
  "in_type Op_muls2_i64 i = Some I64"
  "in_type Op_setcond2_i32 i = Some I32"
  "in_type Op_brcond2_i32 i = Some I32"
  by (simp_all add: in_type_def)

definition nb_args :: "tcg_opc \<Rightarrow> nat" where
  "nb_args oc = fst (op_args oc) + fst (snd (op_args oc)) + snd (snd (op_args oc))"

definition type_fits :: "tcg_width option \<Rightarrow> tcg_width \<Rightarrow> bool" where
  "type_fits r w \<longleftrightarrow> (case r of None \<Rightarrow> True | Some w' \<Rightarrow> w = w')"

definition input_ok :: "opt_context \<Rightarrow> tcgop \<Rightarrow> nat \<Rightarrow> bool" where
  "input_ok c o1 i \<longleftrightarrow>
     (\<exists>t. args o1 ! (nb_oargs (opc o1) + i) = Arg t \<and> t \<in> used c
        \<and> type_fits (in_type (opc o1) i) (temp_type c t))"

definition output_ok :: "opt_context \<Rightarrow> tcgop \<Rightarrow> nat \<Rightarrow> bool" where
  "output_ok c o1 i \<longleftrightarrow>
     (\<exists>t. args o1 ! i = Arg t \<and> writable c t \<and> temp_type c t = op_type (opc o1))"

definition op_ok :: "opt_context \<Rightarrow> tcgop \<Rightarrow> bool" where
  "op_ok c o1 \<longleftrightarrow>
     nb_args (opc o1) \<le> length (args o1)
     \<and> (\<forall>i < nb_iargs (opc o1). input_ok c o1 i) \<and> (\<forall>i < nb_oargs (opc o1). output_ok c o1 i)"

lemma op1_shape: "is_op1 oc \<Longrightarrow> nb_oargs oc = 1"
  unfolding is_op1_def nb_oargs_def by (simp split: tcg_opc.splits tcg_op.splits)

section \<open>The contract of a folder\<close>

definition static_frame :: "opt_context \<Rightarrow> opt_context \<Rightarrow> bool" where
  "static_frame c0 c \<longleftrightarrow>
     tdesc c = tdesc c0 \<and> nb_globals c = nb_globals c0 \<and> tcg_env c = tcg_env c0 \<and> out_ops c = out_ops c0
     \<and> prev_mb c = prev_mb c0 \<and> ctype c = ctype c0 \<and> \<not> trap c \<and> used c0 \<subseteq> used c"

definition emitted :: "opt_context \<Rightarrow> tcgop list" where
  "emitted c = op2 c @ (if op_removed c then [] else [op c])"

definition core :: "'w ir \<Rightarrow> opt_context \<Rightarrow> u64 \<Rightarrow> tcg_opc \<Rightarrow> opt_context \<Rightarrow> bool" where
  "core \<sigma> c0 r oc c \<longleftrightarrow>
     opt_ok c \<sigma> \<and> static_frame c0 c \<and> op2 c = [] \<and> \<not> op_removed c \<and> opc (op c) = oc \<and> is_op1 oc
     \<and> op_type oc = ctype c \<and> op_ok c (op c) \<and> oarg c 0 = oarg c0 0
     \<and> (\<exists>v. op_value oc (in_val (op c) \<sigma>) (imm_val (op c)) = Some v \<and> canon (ctype c) v = r)"

definition no_masks :: "opt_context \<Rightarrow> bool" where
  "no_masks c \<longleftrightarrow> a_mask c = - 1 \<and> z_mask c = - 1 \<and> s_mask c = 0"

definition pending :: "'w ir \<Rightarrow> opt_context \<Rightarrow> u64 \<Rightarrow> tcg_opc \<Rightarrow> opt_context \<Rightarrow> bool" where
  "pending \<sigma> c0 r oc c \<longleftrightarrow> core \<sigma> c0 r oc c \<and> no_masks c"

definition unfolded :: "'w ir \<Rightarrow> opt_context \<Rightarrow> u64 \<Rightarrow> opt_context \<Rightarrow> bool" where
  "unfolded \<sigma> c0 r c \<longleftrightarrow>
     (\<exists>oc. core \<sigma> c0 r oc c) \<and> zmask_ok (ctype c) r (z_mask c) \<and> smask_ok r (s_mask c)"

definition folded :: "'w ir_env \<Rightarrow> 'w ir \<Rightarrow> opt_context \<Rightarrow> u64 \<Rightarrow> opt_context \<Rightarrow> bool" where
  "folded E \<sigma> c0 r c \<longleftrightarrow>
     static_frame c0 c \<and> list_all (op_ok c) (emitted c)
     \<and> opt_ok c (set_temp (arg_temp (oarg c0 0)) r \<sigma>)
     \<and> exec_ops E (emitted c) \<sigma> = Fall (set_temp (arg_temp (oarg c0 0)) r \<sigma>)"

definition folder_ok ::
    "'w ir_env \<Rightarrow> 'w ir \<Rightarrow> opt_context \<Rightarrow> u64 \<Rightarrow> (opt_context \<Rightarrow> bool) \<Rightarrow> folder \<Rightarrow> (opt_context \<Rightarrow> bool) \<Rightarrow> bool" where
  "folder_ok E \<sigma> c0 r P f Q \<longleftrightarrow>
     (\<forall>c. P c \<longrightarrow> (case f c of (b, c') \<Rightarrow> if b then folded E \<sigma> c0 r c' else Q c'))"

lemma folder_okI:
  assumes "\<And>c. P c \<Longrightarrow> (case f c of (b, c') \<Rightarrow> if b then folded E \<sigma> c0 r c' else Q c')"
  shows "folder_ok E \<sigma> c0 r P f Q"
  using assms by (simp add: folder_ok_def)

lemma folder_okD: "folder_ok E \<sigma> c0 r P f Q \<Longrightarrow> P c \<Longrightarrow> f c = (b, c') \<Longrightarrow> if b then folded E \<sigma> c0 r c' else Q c'"
  by (fastforce simp: folder_ok_def)

lemma or_else_ok:
  assumes "folder_ok E \<sigma> c0 r P f P'" "folder_ok E \<sigma> c0 r P' g Q"
  shows "folder_ok E \<sigma> c0 r P (or_else f g) Q"
proof (rule folder_okI)
  fix c assume "P c"
  obtain b c1 where f: "f c = (b, c1)" by (rule prod.exhaust)
  obtain b2 c2 where g: "g c1 = (b2, c2)" by (rule prod.exhaust)
  show "case or_else f g c of (b, c') \<Rightarrow> if b then folded E \<sigma> c0 r c' else Q c'"
    using folder_okD [OF assms(1) \<open>P c\<close> f] folder_okD [OF assms(2) _ g] f g
    by (simp add: or_else_def split: if_splits)
qed

lemma folder_ok_weaken:
  "folder_ok E \<sigma> c0 r P f Q \<Longrightarrow> (\<And>c. Q c \<Longrightarrow> Q' c) \<Longrightarrow> folder_ok E \<sigma> c0 r P f Q'"
  by (fastforce simp: folder_ok_def split: prod.splits if_splits)

lemma pending_unfolded: "pending \<sigma> c0 r oc c \<Longrightarrow> unfolded \<sigma> c0 r c"
  by (auto simp: pending_def unfolded_def no_masks_def)

section \<open>The inputs of the current operation\<close>

lemma op1_args: "is_op1 oc \<Longrightarrow> nb_iargs oc \<noteq> 0 \<and> nb_args oc \<ge> Suc (nb_iargs oc)"
  unfolding is_op1_def nb_iargs_def nb_args_def by (simp split: tcg_opc.splits tcg_op.splits)

lemma coreD:
  assumes "core \<sigma> c0 r oc c"
  shows "opt_ok c \<sigma>" "static_frame c0 c" "op2 c = []" "\<not> op_removed c" "opc (op c) = oc" "is_op1 oc"
    "op_type oc = ctype c" "op_ok c (op c)" "oarg c 0 = oarg c0 0" "nb_oargs oc = 1"
    "Suc (nb_iargs oc) \<le> length (args (op c))" "1 < length (args (op c))"
proof -
  show "is_op1 oc" "op_ok c (op c)" "opc (op c) = oc" using assms by (auto simp: core_def)
  then show "Suc (nb_iargs oc) \<le> length (args (op c))" "1 < length (args (op c))"
    using op1_args [of oc] by (auto simp: op_ok_def)
qed (use assms op1_shape in \<open>auto simp: core_def\<close>)

lemma core_value:
  assumes "core \<sigma> c0 r oc c"
  obtains v where "op_value oc (in_val (op c) \<sigma>) (imm_val (op c)) = Some v" "canon (ctype c) v = r"
  using assms by (auto simp: core_def)

lemma core_canon: "core \<sigma> c0 r oc c \<Longrightarrow> canon (ctype c) r = r"
  by (auto simp: core_def)

lemma core_in_val: "core \<sigma> c0 r oc c \<Longrightarrow> in_val (op c) \<sigma> i = aval \<sigma> (oarg c (Suc i))"
  using coreD(5,10) [of \<sigma> c0 r oc c] by (simp add: in_val_def oarg_def)

lemma core_imm_val: "core \<sigma> c0 r oc c \<Longrightarrow> imm_val (op c) j = oimm c (Suc (nb_iargs oc + j))"
  using coreD(5,10) [of \<sigma> c0 r oc c] by (simp add: imm_val_def oimm_def oarg_def)

lemma core_input:
  assumes "core \<sigma> c0 r oc c" "i < nb_iargs oc"
  obtains t where "oarg c (Suc i) = Arg t" "t \<in> used c" "type_fits (in_type oc i) (temp_type c t)"
    "in_val (op c) \<sigma> i = tval \<sigma> t"
proof -
  have "input_ok c (op c) i" using coreD(5,8) [OF assms(1)] assms(2) by (simp add: op_ok_def)
  then obtain t where "oarg c (Suc i) = Arg t" "t \<in> used c" "type_fits (in_type oc i) (temp_type c t)"
    using coreD(5,10) [OF assms(1)] by (auto simp: input_ok_def oarg_def)
  moreover from this(1) have "in_val (op c) \<sigma> i = tval \<sigma> t"
    using core_in_val [OF assms(1), of i] by (simp add: aval_def)
  ultimately show ?thesis by (rule that)
qed

lemma core_const:
  assumes "core \<sigma> c0 r oc c" "i < nb_iargs oc" "oconst c (Suc i)"
  shows "oval c (Suc i) = in_val (op c) \<sigma> i"
proof -
  obtain t where "oarg c (Suc i) = Arg t" "t \<in> used c" "in_val (op c) \<sigma> i = tval \<sigma> t"
    by (rule core_input [OF assms(1,2)]) blast
  then show ?thesis
    using const_val [OF coreD(1) [OF assms(1)], of t] assms(3)
    by (simp add: oval_def oconst_def arg_is_const_def ts_is_const_def arg_info_def ts_info_def)
qed

lemma core_const_zmask:
  assumes "core \<sigma> c0 r oc c" "i < nb_iargs oc" "oconst c (Suc i)"
  shows "oz c (Suc i) = in_val (op c) \<sigma> i"
proof -
  obtain t where "oarg c (Suc i) = Arg t" "t \<in> used c" "in_val (op c) \<sigma> i = tval \<sigma> t"
    by (rule core_input [OF assms(1,2)]) blast
  then show ?thesis
    using const_zmask [OF coreD(1) [OF assms(1)], of t] assms(3)
    by (simp add: oz_def oconst_def arg_is_const_def ts_is_const_def arg_info_def ts_info_def)
qed

lemma core_masks:
  assumes "core \<sigma> c0 r oc c" "i < nb_iargs oc" "in_type oc i = Some w"
  shows "zmask_ok w (in_val (op c) \<sigma> i) (oz c (Suc i))" "smask_ok (in_val (op c) \<sigma> i) (os c (Suc i))"
    "canon w (in_val (op c) \<sigma> i) = in_val (op c) \<sigma> i"
proof -
  obtain t where t: "oarg c (Suc i) = Arg t" "t \<in> used c" "type_fits (in_type oc i) (temp_type c t)"
      "in_val (op c) \<sigma> i = tval \<sigma> t"
    by (rule core_input [OF assms(1,2)]) blast
  then have "temp_type c t = w" using assms(3) by (simp add: type_fits_def)
  then show "zmask_ok w (in_val (op c) \<sigma> i) (oz c (Suc i))" "smask_ok (in_val (op c) \<sigma> i) (os c (Suc i))"
    "canon w (in_val (op c) \<sigma> i) = in_val (op c) \<sigma> i"
    using known_zmask [OF coreD(1) [OF assms(1)] t(2)] known_smask [OF coreD(1) [OF assms(1)] t(2)]
      tval_canon [OF coreD(1) [OF assms(1)] t(2)] t(1,4)
    by (simp_all add: oz_def os_def arg_info_def ts_info_def)
qed

lemma core_copies:
  assumes "core \<sigma> c0 r oc c" "i < nb_iargs oc" "j < nb_iargs oc"
    "args_are_copies c (oarg c (Suc i)) (oarg c (Suc j))"
  shows "in_val (op c) \<sigma> j = in_val (op c) \<sigma> i"
proof -
  obtain t where t: "oarg c (Suc i) = Arg t" "t \<in> used c" "in_val (op c) \<sigma> i = tval \<sigma> t"
    by (rule core_input [OF assms(1,2)]) blast
  obtain u where u: "oarg c (Suc j) = Arg u" "in_val (op c) \<sigma> j = tval \<sigma> u"
    by (rule core_input [OF assms(1,3)]) blast
  show ?thesis
    using ts_are_copies_ok [OF coreD(1) [OF assms(1)] t(2), of u] assms(4) t u
    by (simp add: args_are_copies_def)
qed

lemma core_dest:
  assumes "core \<sigma> c0 r oc c"
  obtains d where "oarg c 0 = Arg d" "oarg c0 0 = Arg d" "writable c d" "temp_type c d = ctype c"
proof -
  have "output_ok c (op c) 0" using coreD(5,8,10) [OF assms] by (simp add: op_ok_def)
  then show ?thesis
    using that coreD(5,7,9) [OF assms] by (auto simp: output_ok_def oarg_def)
qed

section \<open>Folding to a move\<close>

lemma used_mono_op_ok:
  assumes "op_ok c o1" "used c \<subseteq> used c'" "tdesc c' = tdesc c" "tcg_env c' = tcg_env c"
  shows "op_ok c' o1"
proof -
  have ty: "temp_type c' t = temp_type c t" for t by (rule temp_type_cong [OF assms(3)])
  have "input_ok c' o1 i" if "input_ok c o1 i" for i
    using that assms(2) by (auto simp: input_ok_def ty)
  moreover have "output_ok c' o1 i" if "output_ok c o1 i" for i
    using that assms(2,4) by (auto simp: output_ok_def writable_def ty)
  ultimately show ?thesis using assms(1) by (simp add: op_ok_def)
qed

lemma nth_first_two:
  assumes "1 < length xs"
  shows "xs[0 := a, Suc 0 := b] ! 0 = a" "xs[0 := a, Suc 0 := b] ! Suc 0 = b" "xs[0 := a] ! 0 = a"
  using assms by (cases xs; simp)+

lemma exec_mov_op:
  assumes "1 < length (args o1)"
  shows "exec_op E (mov_op w dst src o1) \<sigma> = Fall (set_temp (arg_temp dst) (canon w (aval \<sigma> src)) \<sigma>)"
  using assms by (simp add: exec_op_def mov_op_def is_op1_def in_val_def nb_oargs_def Let_def nth_first_two)

lemma mov_op_ok:
  assumes "1 < length (args o1)" "writable c d" "temp_type c d = w" "t \<in> used c" "temp_type c t = w \<or> w = I32"
  shows "op_ok c (mov_op w (Arg d) (Arg t) o1)"
  using assms
  by (cases w) (auto simp: op_ok_def mov_op_def nb_args_def nb_iargs_def nb_oargs_def input_ok_def
      output_ok_def type_fits_def nth_first_two)

lemma gen_mov_folded:
  assumes core: "core \<sigma> c0 r oc c" and t: "t \<in> used c1"
    and ty: "temp_type c t = ctype c \<or> ctype c = I32" and r: "canon (ctype c) (tval \<sigma> t) = r"
    and c1: "opt_ok c1 \<sigma>" "same_frame c c1" "used c \<subseteq> used c1"
    and g: "tcg_opt_gen_mov (op c) (oarg c 0) (Arg t) c1 = (x, c2)"
  shows "folded E \<sigma> c0 r (set_op x c2)"
proof -
  obtain d where d: "oarg c 0 = Arg d" "oarg c0 0 = Arg d" "writable c d" "temp_type c d = ctype c"
    by (rule core_dest [OF core])
  have sf: "static_frame c0 c" by (rule coreD(2) [OF core])
  have ty1: "temp_type c1 u = temp_type c u" for u by (rule same_frame_type [OF c1(2)])
  have g': "tcg_opt_gen_mov (op c) (Arg d) (Arg t) c1 = (x, c2)" using g d(1) by simp
  have ct: "ctype c1 = ctype c" using c1(2) by (simp add: same_frame_def)
  have w1: "writable c1 d" by (rule writable_frame [OF c1(2,3) d(3)])
  note m = tcg_opt_gen_mov_ok [where dst = "Arg d" and src = "Arg t", simplified, OF c1(1) w1 t _ _ g',
      where w = "ctype c", unfolded ty1, OF d(4) ty]
  note fr = same_frame_trans [OF c1(2) m(2)]
  have us: "used c \<subseteq> used c2" using c1(3) m(3) by simp
  have \<sigma>: "set_temp (arg_temp (oarg c0 0)) r \<sigma> = set_temp d (canon (ctype c) (tval \<sigma> t)) \<sigma>"
    using d(2) r by simp
  have e: "op2 c2 = []" "op_removed c2 = False" "op c2 = op c" "trap c2 = trap c"
    using fr coreD(3,4) [OF core] by (simp_all add: same_frame_def)
  have sf2: "static_frame c0 (set_op x c2)"
    using sf fr us unfolding static_frame_def same_frame_def set_op_def by (auto split: option.splits)
  have mo: "op_ok c2 (mov_op (ctype c) (Arg d) (Arg t) (op c))"
    by (rule mov_op_ok [OF coreD(12) [OF core]])
      (use w1 d m ty t ty1 us same_frame_type [OF fr] in \<open>auto simp: writable_def same_frame_def\<close>)
  show ?thesis
  proof (cases x)
    case None
    then show ?thesis
      using sf2 m(1) m(4) e by (simp add: folded_def emitted_def set_op_def \<sigma>)
  next
    case (Some o2)
    then have o2: "o2 = mov_op (ctype c) (Arg d) (Arg t) (op c)" using m(5) ct by simp
    have "op_ok (set_op x c2) o2"
      by (rule used_mono_op_ok [OF mo [folded o2]]) (simp_all add: set_op_def Some)
    then show ?thesis
      using sf2 m(1) e exec_mov_op [OF coreD(12) [OF core], of E "ctype c" "Arg d" "Arg t" \<sigma>] Some o2
      by (simp add: folded_def emitted_def set_op_def \<sigma> aval_def)
  qed
qed

lemma arg_new_constant_ok:
  assumes ok: "opt_ok c \<sigma>" and k: "arg_new_constant v c = (k, c1)"
  obtains t where "k = Arg t" "t \<in> used c1" "temp_type c t = ctype c" "tval \<sigma> t = canon (ctype c) v"
    "opt_ok c1 \<sigma>" "same_frame c c1" "used c \<subseteq> used c1" "\<And>u. u \<in> used c \<Longrightarrow> info c1 u = info c u"
proof -
  let ?t = "Const (ctype c) (canon (ctype c) v)"
  have k': "k = Arg ?t" "c1 = init_ts_info ?t c"
    using k by (auto simp: arg_new_constant_def Let_def canon_def split: if_splits tcg_width.splits)
  show ?thesis
  proof (rule that [of ?t])
    show "opt_ok c1 \<sigma>" unfolding k' by (rule init_ts_info_ok [OF ok]) simp
    show "info c1 u = info c u" if "u \<in> used c" for u
      using that init_ts_info_other [of u ?t c] unfolding k' by (cases "u = ?t") auto
  qed (use k' in \<open>auto simp: init_ts_info_used\<close>)
qed

lemma gen_mov_ok:
  assumes "core \<sigma> c0 r oc c" "i < nb_iargs oc"
    "in_type oc i = Some (ctype c) \<or> ctype c = I32" "canon (ctype c) (in_val (op c) \<sigma> i) = r"
  shows "case gen_mov (oarg c 0) (oarg c (Suc i)) c of (b, c') \<Rightarrow> if b then folded E \<sigma> c0 r c' else Q c'"
proof -
  obtain t where t: "oarg c (Suc i) = Arg t" "t \<in> used c" "type_fits (in_type oc i) (temp_type c t)"
      "in_val (op c) \<sigma> i = tval \<sigma> t"
    by (rule core_input [OF assms(1,2)]) blast
  obtain x c2 where g: "tcg_opt_gen_mov (op c) (oarg c 0) (Arg t) c = (x, c2)" by (rule prod.exhaust)
  have "temp_type c t = ctype c \<or> ctype c = I32" using t(3) assms(3) by (auto simp: type_fits_def)
  from gen_mov_folded [OF assms(1) t(2) this _ coreD(1) [OF assms(1)] same_frame_refl order.refl g]
  show ?thesis using assms(4) t(1,4) g by (simp add: gen_mov_def)
qed

lemma gen_movi_ok:
  assumes "core \<sigma> c0 r oc c" "canon (ctype c) v = r"
  shows "case gen_movi (oarg c 0) v c of (b, c') \<Rightarrow> if b then folded E \<sigma> c0 r c' else Q c'"
proof -
  obtain k c1 where k: "arg_new_constant v c = (k, c1)" by (rule prod.exhaust)
  obtain t where t: "k = Arg t" "t \<in> used c1" "temp_type c t = ctype c" "tval \<sigma> t = canon (ctype c) v"
    "opt_ok c1 \<sigma>" "same_frame c c1" "used c \<subseteq> used c1"
    by (rule arg_new_constant_ok [OF coreD(1) [OF assms(1)] k]) blast
  obtain x c2 where g: "tcg_opt_gen_mov (op c) (oarg c 0) (Arg t) c1 = (x, c2)" by (rule prod.exhaust)
  have "canon (ctype c) (tval \<sigma> t) = r" using t(4) assms(2) core_canon [OF assms(1)] by simp
  from gen_mov_folded [OF assms(1) t(2) _ this t(5-7) g] t(1,3)
  show ?thesis using k g by (simp add: gen_movi_def tcg_opt_gen_movi_def)
qed

section \<open>Finishing an operation\<close>

lemma op1_flags: "is_op1 oc \<Longrightarrow> \<not> opf_bb_end oc"
  unfolding is_op1_def opf_bb_end_def by (simp split: tcg_opc.splits tcg_op.splits)

text \<open>A variable that got a value: only the given masks are known of it.\<close>

lemma set_masks_ok:
  assumes ok: "opt_ok c \<sigma>" and t: "t \<in> used c"
    and nc: "\<not> is_const (info c t)"
    and z: "zmask_ok (temp_type c t) (tval \<sigma> t) z" and s: "smask_ok (tval \<sigma> t) s"
  shows "opt_ok (upd_info t (\<lambda>ti. ti\<lparr>ti_z_mask := z, ti_s_mask := s\<rparr>) c) \<sigma>"
proof -
  let ?c = "upd_info t (\<lambda>ti. ti\<lparr>ti_z_mask := z, ti_s_mask := s\<rparr>) c"
  have [simp]: "temp_type ?c x = temp_type c x" for x by (rule same_frame_type [OF same_frame_upd_info])
  have f: "nxt ?c = nxt c" "prv ?c = prv c" by (auto simp: fun_eq_iff)
  have k: "known_ok ?c \<sigma> u" if "u \<in> used c" for u
    using opt_okD(2) [OF ok that] z s f(1) [THEN fun_cong, of u] nc
    by (cases "u = t") (auto simp: known_ok_def)
  show ?thesis
    using k opt_okD [OF ok] unfolding opt_ok_def ring_ok_def f by (auto simp: mc_ok_def env_ok_def)
qed

lemma finish_folding_ok:
  assumes "unfolded \<sigma> c0 r c"
  shows "folded E \<sigma> c0 r (finish_folding c)"
proof -
  obtain oc where core: "core \<sigma> c0 r oc c" using assms by (auto simp: unfolded_def)
  note d' = coreD [OF core]
  obtain d where d: "oarg c 0 = Arg d" "oarg c0 0 = Arg d" "writable c d" "temp_type c d = ctype c"
    by (rule core_dest [OF core])
  obtain n where n: "d = Tmp n" "Tmp n \<in> used c" "tcg_env c \<noteq> Tmp n" using d(3) by (auto simp: writable_def)
  obtain v where v: "op_value oc (in_val (op c) \<sigma>) (imm_val (op c)) = Some v" "canon (ctype c) v = r"
    by (rule core_value [OF core])
  let ?c1 = "reset_ts d c" and ?s = "set_temp d r \<sigma>"
  let ?f = "\<lambda>ti. ti\<lparr>ti_z_mask := z_mask c, ti_s_mask := s_mask c\<rparr>"
  have fin: "finish_folding c = upd_info d ?f ?c1"
    using op1_flags [OF d'(6)] d'(5,10) d(1) by (simp add: finish_folding_def finish_out_def Let_def)
  have ok1: "opt_ok ?c1 ?s"
    using reset_ts_ok [OF d'(1) n(2,3), of r] core_canon [OF core] d(4) n(1) by simp
  have "temp_type ?c1 d = ctype c" using same_frame_type [OF reset_ts_frame] d(4) by metis
  then have ok2: "opt_ok (upd_info d ?f ?c1) ?s"
    by (intro set_masks_ok [OF ok1]) (use assms n in \<open>simp_all add: unfolded_def reset_ts_info unlink_self\<close>)
  have fr: "same_frame c (finish_folding c)"
    unfolding fin by (rule same_frame_trans [OF reset_ts_frame same_frame_upd_info])
  have us: "temps_used (finish_folding c) = temps_used c" by (simp add: fin)
  have em: "emitted (finish_folding c) = [op c]" using fr d'(3,4) by (simp add: emitted_def same_frame_def)
  have "op_ok (finish_folding c) (op c)"
    by (rule used_mono_op_ok [OF d'(8)]) (use fr us in \<open>simp_all add: same_frame_def\<close>)
  moreover have "exec_op E (op c) \<sigma> = Fall ?s"
    using v d(1) d'(5-7) by (simp add: exec_op_def Let_def oarg_def)
  moreover have "static_frame c0 (finish_folding c)"
    using d'(2) fr us by (simp add: static_frame_def same_frame_def)
  moreover have "opt_ok (finish_folding c) ?s" using ok2 fin by simp
  ultimately show ?thesis using d(2) by (simp add: folded_def em)
qed

end
