(* ===== verification/Opt_Rules.thy ===== *)
theory Opt_Rules
  imports Opt_Sound
begin

text \<open>
  The contracts of the helpers the folders are made of: folding to a constant, to one of the inputs, to a
  negation, by known bits, and the exchange of commutative inputs.  The side conditions are laws of the
  operation's value.
\<close>

section \<open>Rewriting the current operation\<close>

lemma core_replace:
  assumes "core \<sigma> c0 r oc c" "opc o1 = oc'" "is_op1 oc'" "op_type oc' = ctype c" "op_ok c o1"
    "args o1 ! 0 = oarg c 0" "op_value oc' (in_val o1 \<sigma>) (imm_val o1) = Some v" "canon (ctype c) v = r"
  shows "core \<sigma> c0 r oc' (c\<lparr>op := o1\<rparr>)"
proof -
  have "op_ok (c\<lparr>op := o1\<rparr>) o1" by (rule used_mono_op_ok [OF assms(5)]) simp_all
  then show ?thesis
    using assms coreD(1-4,9) [OF assms(1)] by (simp add: core_def static_frame_def oarg_def)
qed

lemma no_masks_op [simp]: "no_masks (c\<lparr>op := o1\<rparr>) = no_masks c"
  by (simp add: no_masks_def)

lemma core_masks_upd [simp]:
  "core \<sigma> c0 r oc (c\<lparr>a_mask := x\<rparr>) = core \<sigma> c0 r oc c"
  "core \<sigma> c0 r oc (c\<lparr>z_mask := x\<rparr>) = core \<sigma> c0 r oc c"
  "core \<sigma> c0 r oc (c\<lparr>s_mask := x\<rparr>) = core \<sigma> c0 r oc c"
proof -
  have "op_ok (c\<lparr>a_mask := x\<rparr>) o1 = op_ok c o1" "op_ok (c\<lparr>z_mask := x\<rparr>) o1 = op_ok c o1"
    "op_ok (c\<lparr>s_mask := x\<rparr>) o1 = op_ok c o1" for o1
    by (auto elim!: used_mono_op_ok)
  then show "core \<sigma> c0 r oc (c\<lparr>a_mask := x\<rparr>) = core \<sigma> c0 r oc c"
    "core \<sigma> c0 r oc (c\<lparr>z_mask := x\<rparr>) = core \<sigma> c0 r oc c"
    "core \<sigma> c0 r oc (c\<lparr>s_mask := x\<rparr>) = core \<sigma> c0 r oc c"
    by (simp_all add: core_def static_frame_def oarg_def)
qed

text \<open>Reading a context with other masks.\<close>

lemma read_masks_upd [simp]:
  "oarg (c\<lparr>a_mask := x\<rparr>) i = oarg c i" "oarg (c\<lparr>z_mask := x\<rparr>) i = oarg c i" "oarg (c\<lparr>s_mask := x\<rparr>) i = oarg c i"
  "oimm (c\<lparr>a_mask := x\<rparr>) i = oimm c i" "oimm (c\<lparr>z_mask := x\<rparr>) i = oimm c i" "oimm (c\<lparr>s_mask := x\<rparr>) i = oimm c i"
  by (simp_all add: oarg_def oimm_def)

lemma oarg_set_oarg:
  "oarg (set_oarg i a c) j = (if i = j \<and> j < length (args (op c)) then a else oarg c j)"
  by (cases "i < length (args (op c))") (auto simp: oarg_def set_oarg_def nth_list_update list_update_beyond not_less)

lemma oarg_set_opc [simp]: "oarg (set_opc oc c) j = oarg c j"
  by (simp add: oarg_def set_opc_def)

section \<open>Laws of an operation\<close>

text \<open>On inputs with a property the value is that of another expression.\<close>

definition value_law :: "tcg_opc \<Rightarrow> ((nat \<Rightarrow> u64) \<Rightarrow> bool) \<Rightarrow> ((nat \<Rightarrow> u64) \<Rightarrow> u64) \<Rightarrow> bool" where
  "value_law oc P f \<longleftrightarrow>
     (\<forall>v k y. op_value oc v k = Some y \<longrightarrow> P v \<longrightarrow> canon (op_type oc) y = canon (op_type oc) (f v))"

text \<open>Constant folding of the operation is right, with one or two inputs.\<close>

definition const1_law :: "tcg_opc \<Rightarrow> bool" where
  "const1_law oc \<longleftrightarrow>
     (\<forall>v k y. op_value oc v k = Some y \<longrightarrow>
        do_constant_folding oc (op_type oc) (v 0) 0 = Some (canon (op_type oc) y))"

definition const2_law :: "tcg_opc \<Rightarrow> bool" where
  "const2_law oc \<longleftrightarrow>
     1 < nb_iargs oc
     \<and> (\<forall>v k y. op_value oc v k = Some y \<longrightarrow>
          do_constant_folding oc (op_type oc) (v 0) (v 1) = Some (canon (op_type oc) y))"

text \<open>The first two inputs can be exchanged.\<close>

definition swap01 :: "(nat \<Rightarrow> u64) \<Rightarrow> nat \<Rightarrow> u64" where
  "swap01 v = v(0 := v 1, 1 := v 0)"

definition comm_law :: "tcg_opc \<Rightarrow> bool" where
  "comm_law oc \<longleftrightarrow>
     1 < nb_iargs oc \<and> in_type oc 1 = in_type oc 0
     \<and> (\<forall>v k. op_value oc (swap01 v) k = op_value oc v k)"

lemma law_value:
  assumes "value_law oc P f" "core \<sigma> c0 r oc c" "P (in_val (op c) \<sigma>)"
  shows "canon (ctype c) (f (in_val (op c) \<sigma>)) = r"
proof -
  obtain v where "op_value oc (in_val (op c) \<sigma>) (imm_val (op c)) = Some v" "canon (ctype c) v = r"
    by (rule core_value [OF assms(2)])
  then show ?thesis using assms(1,3) coreD(7) [OF assms(2)] unfolding value_law_def by metis
qed

lemma pending_core: "pending \<sigma> c0 r oc c \<Longrightarrow> core \<sigma> c0 r oc c"
  by (simp add: pending_def)

text \<open>A folder that acts under a condition and leaves the operation alone otherwise.\<close>

lemma guarded_ok:
  assumes "\<And>c. pending \<sigma> c0 r oc c \<Longrightarrow> core \<sigma> c0 r oc c \<Longrightarrow> P c \<Longrightarrow>
      case f c of (b, c') \<Rightarrow> if b then folded E \<sigma> c0 r c' else pending \<sigma> c0 r oc c'"
  shows "folder_ok E \<sigma> c0 r (pending \<sigma> c0 r oc) (\<lambda>c. if P c then f c else (False, c)) (pending \<sigma> c0 r oc)"
proof (rule folder_okI)
  fix c assume "pending \<sigma> c0 r oc c"
  then show "case if P c then f c else (False, c) of
      (b, c') \<Rightarrow> if b then folded E \<sigma> c0 r c' else pending \<sigma> c0 r oc c'"
    using assms [OF _ pending_core] by (cases "P c") simp_all
qed

lemma guarded_movi_ok:
  assumes "\<And>c. core \<sigma> c0 r oc c \<Longrightarrow> P c \<Longrightarrow> canon (ctype c) i = r"
  shows "folder_ok E \<sigma> c0 r (pending \<sigma> c0 r oc)
    (\<lambda>c. if P c then gen_movi (oarg c 0) i c else (False, c)) (pending \<sigma> c0 r oc)"
  by (rule guarded_ok, rule gen_movi_ok, assumption, rule assms)

lemma guarded_mov_ok:
  assumes "\<And>c. core \<sigma> c0 r oc c \<Longrightarrow> P c \<Longrightarrow> canon (ctype c) (in_val (op c) \<sigma> 0) = r"
    and "in_type oc 0 = Some (op_type oc)"
  shows "folder_ok E \<sigma> c0 r (pending \<sigma> c0 r oc)
    (\<lambda>c. if P c then gen_mov (oarg c 0) (oarg c 1) c else (False, c)) (pending \<sigma> c0 r oc)"
proof (rule guarded_ok)
  fix c assume core: "core \<sigma> c0 r oc c" and "P c"
  then show "case gen_mov (oarg c 0) (oarg c 1) c of
      (b, c') \<Rightarrow> if b then folded E \<sigma> c0 r c' else pending \<sigma> c0 r oc c'"
    using gen_mov_ok [OF core, of 0] op1_args [OF coreD(6) [OF core]] coreD(7) [OF core] assms by simp
qed

section \<open>Folding to a constant\<close>

lemma fold_const1_ok:
  assumes "const1_law oc"
  shows "folder_ok E \<sigma> c0 r (pending \<sigma> c0 r oc) fold_const1 (pending \<sigma> c0 r oc)"
proof (rule folder_okI)
  fix c assume "pending \<sigma> c0 r oc c"
  then have core: "core \<sigma> c0 r oc c" by (simp add: pending_def)
  obtain v where v: "op_value oc (in_val (op c) \<sigma>) (imm_val (op c)) = Some v" "canon (ctype c) v = r"
    by (rule core_value [OF core])
  have n: "0 < nb_iargs oc" using op1_args [OF coreD(6) [OF core]] by simp
  show "case fold_const1 c of (b, c') \<Rightarrow> if b then folded E \<sigma> c0 r c' else pending \<sigma> c0 r oc c'"
  proof (cases "oconst c 1")
    case True
    then have "oval c 1 = in_val (op c) \<sigma> 0" using core_const [OF core n] by simp
    with True assms v show ?thesis
      using gen_movi_ok [OF core core_canon [OF core]] coreD(5,7) [OF core]
      by (simp add: fold_const1_def movi_result_def const1_law_def)
  qed (use \<open>pending \<sigma> c0 r oc c\<close> in \<open>simp add: fold_const1_def\<close>)
qed

lemma fold_const2_core:
  assumes law: "const2_law oc" and p: "pending \<sigma> c0 r oc c"
  shows "case fold_const2 c of (b, c') \<Rightarrow> if b then folded E \<sigma> c0 r c' else pending \<sigma> c0 r oc c'"
proof -
  have core: "core \<sigma> c0 r oc c" using p by (simp add: pending_def)
  obtain v where v: "op_value oc (in_val (op c) \<sigma>) (imm_val (op c)) = Some v" "canon (ctype c) v = r"
    by (rule core_value [OF core])
  show ?thesis
  proof (cases "oconst c 1 \<and> oconst c 2")
    case True
    then have "oval c 1 = in_val (op c) \<sigma> 0" "oval c 2 = in_val (op c) \<sigma> 1"
      using core_const [OF core, of 0] core_const [OF core, of 1] law
      by (simp_all add: numeral_2_eq_2 const2_law_def)
    with True law v show ?thesis
      using gen_movi_ok [OF core core_canon [OF core]] coreD(5,7) [OF core]
      by (simp add: fold_const2_def movi_result_def const2_law_def)
  qed (use p in \<open>auto simp: fold_const2_def\<close>)
qed

lemma fold_const2_ok:
  assumes "const2_law oc"
  shows "folder_ok E \<sigma> c0 r (pending \<sigma> c0 r oc) fold_const2 (pending \<sigma> c0 r oc)"
  by (rule folder_okI, rule fold_const2_core [OF assms])

section \<open>Commutative operations\<close>

definition swap_args :: "nat \<Rightarrow> nat \<Rightarrow> tcgop \<Rightarrow> tcgop" where
  "swap_args p q o1 = o1\<lparr>args := (args o1)[p := args o1 ! q, q := args o1 ! p]\<rparr>"

lemma swap_commutative_cases:
  "swap_commutative dest p q c = (True, c\<lparr>op := swap_args p q (op c)\<rparr>) \<or> swap_commutative dest p q c = (False, c)"
  by (simp add: swap_commutative_def Let_def set_oarg_def swap_args_def oarg_def)

lemma swap_args_op_ok:
  assumes "op_ok c o1" "nb_oargs (opc o1) = 1" "1 < nb_iargs (opc o1)"
    "in_type (opc o1) 1 = in_type (opc o1) 0"
  shows "op_ok c (swap_args 1 2 o1)"
proof -
  have len: "2 < length (args o1)"
    using assms(1-3) by (auto simp: op_ok_def nb_args_def nb_oargs_def nb_iargs_def)
  have o: "opc (swap_args 1 2 o1) = opc o1" by (simp add: swap_args_def)
  have "input_ok c (swap_args 1 2 o1) i" if i: "i < nb_iargs (opc o1)" for i
  proof -
    have "input_ok c o1 0" "input_ok c o1 1" "input_ok c o1 i"
      using assms(1,3) i by (auto simp: op_ok_def)
    then show ?thesis
      using len assms(2,4)
      by (cases "i = 0"; cases "i = 1")
        (auto simp: input_ok_def swap_args_def nth_list_update numeral_2_eq_2)
  qed
  moreover have "output_ok c (swap_args 1 2 o1) 0"
    using assms(1,2) by (simp add: op_ok_def output_ok_def swap_args_def)
  ultimately show ?thesis using assms(1,2) by (simp add: op_ok_def o) (simp add: swap_args_def)
qed

lemma swap_args_values:
  assumes "nb_oargs (opc o1) = 1" "1 < nb_iargs (opc o1)" "2 < length (args o1)"
  shows "in_val (swap_args 1 2 o1) \<sigma> = swap01 (in_val o1 \<sigma>)" "imm_val (swap_args 1 2 o1) = imm_val o1"
  using assms
  by (auto simp: fun_eq_iff in_val_def imm_val_def swap_args_def swap01_def nth_list_update numeral_2_eq_2)

lemma swap_pending:
  assumes "comm_law oc" and p: "pending \<sigma> c0 r oc c"
  shows "pending \<sigma> c0 r oc (snd (swap_commutative dest 1 2 c))"
proof -
  have law: "op_value oc (swap01 v) k = op_value oc v k" and n: "1 < nb_iargs oc"
    and ty: "in_type oc 1 = in_type oc 0" for v k using assms(1) by (simp_all add: comm_law_def)
  have core: "core \<sigma> c0 r oc c" using p by (simp add: pending_def)
  obtain v where v: "op_value oc (in_val (op c) \<sigma>) (imm_val (op c)) = Some v" "canon (ctype c) v = r"
    by (rule core_value [OF core])
  note d = coreD [OF core]
  have len: "2 < length (args (op c))" using d(11) n by simp
  have "core \<sigma> c0 r oc (c\<lparr>op := swap_args 1 2 (op c)\<rparr>)"
  proof (rule core_replace [OF core _ d(6,7) _ _ _ v(2)])
    show "op_ok c (swap_args 1 2 (op c))" using swap_args_op_ok d n ty by simp
    show "op_value oc (in_val (swap_args 1 2 (op c)) \<sigma>) (imm_val (swap_args 1 2 (op c))) = Some v"
      using swap_args_values(1) [of "op c" \<sigma>] swap_args_values(2) [of "op c"] d(5,10) n len law v(1) by simp
  qed (use d in \<open>simp_all add: swap_args_def oarg_def\<close>)
  then show ?thesis
    using swap_commutative_cases [of dest 1 2 c] p by (auto simp: pending_def)
qed

lemma fold_const2_commutative_ok:
  assumes "const2_law oc" "comm_law oc"
  shows "folder_ok E \<sigma> c0 r (pending \<sigma> c0 r oc) fold_const2_commutative (pending \<sigma> c0 r oc)"
  unfolding fold_const2_commutative_def
  by (rule folder_okI, rule fold_const2_core [OF assms(1)]) (rule swap_pending [OF assms(2)])

section \<open>Folding on one constant input or on equal inputs\<close>

lemma xi_eq:
  assumes "core \<sigma> c0 r oc c" "1 < nb_iargs oc" "oconst c 2" "oval c 2 = i"
  shows "in_val (op c) \<sigma> 1 = i"
  using core_const [OF assms(1,2)] assms(3,4) by (simp add: numeral_2_eq_2)

lemma ix_eq:
  assumes "core \<sigma> c0 r oc c" "oconst c 1" "oval c 1 = i"
  shows "in_val (op c) \<sigma> 0 = i"
  using core_const [OF assms(1), of 0] op1_args [OF coreD(6) [OF assms(1)]] assms(2,3) by simp

lemma xx_eq:
  assumes "core \<sigma> c0 r oc c" "1 < nb_iargs oc" "args_are_copies c (oarg c 1) (oarg c 2)"
  shows "in_val (op c) \<sigma> 1 = in_val (op c) \<sigma> 0"
  using core_copies [OF assms(1), of 0 1] assms(2,3) by (simp add: numeral_2_eq_2)

lemma fold_xi_to_i_ok:
  assumes "value_law oc (\<lambda>v. v 1 = i) (\<lambda>v. i)" "1 < nb_iargs oc"
  shows "folder_ok E \<sigma> c0 r (pending \<sigma> c0 r oc) (fold_xi_to_i i) (pending \<sigma> c0 r oc)"
  unfolding fold_xi_to_i_def
  by (rule guarded_movi_ok, rule law_value [OF assms(1)], assumption) (rule xi_eq [OF _ assms(2)]; simp)

lemma fold_ix_to_i_ok:
  assumes "value_law oc (\<lambda>v. v 0 = i) (\<lambda>v. i)"
  shows "folder_ok E \<sigma> c0 r (pending \<sigma> c0 r oc) (fold_ix_to_i i) (pending \<sigma> c0 r oc)"
  unfolding fold_ix_to_i_def
  by (rule guarded_movi_ok, rule law_value [OF assms(1)], assumption) (rule ix_eq; simp)

lemma fold_xx_to_i_ok:
  assumes "value_law oc (\<lambda>v. v 1 = v 0) (\<lambda>v. i)" "1 < nb_iargs oc"
  shows "folder_ok E \<sigma> c0 r (pending \<sigma> c0 r oc) (fold_xx_to_i i) (pending \<sigma> c0 r oc)"
  unfolding fold_xx_to_i_def
  by (rule guarded_movi_ok, rule law_value [OF assms(1)], assumption) (rule xx_eq [OF _ assms(2)]; simp)

lemma fold_xi_to_x_ok:
  assumes "value_law oc (\<lambda>v. v 1 = i) (\<lambda>v. v 0)" "1 < nb_iargs oc" "in_type oc 0 = Some (op_type oc)"
  shows "folder_ok E \<sigma> c0 r (pending \<sigma> c0 r oc) (fold_xi_to_x i) (pending \<sigma> c0 r oc)"
  unfolding fold_xi_to_x_def
  by (rule guarded_mov_ok [OF _ assms(3)], rule law_value [OF assms(1)], assumption) (rule xi_eq [OF _ assms(2)]; simp)

lemma fold_xx_to_x_ok:
  assumes "value_law oc (\<lambda>v. v 1 = v 0) (\<lambda>v. v 0)" "1 < nb_iargs oc" "in_type oc 0 = Some (op_type oc)"
  shows "folder_ok E \<sigma> c0 r (pending \<sigma> c0 r oc) fold_xx_to_x (pending \<sigma> c0 r oc)"
  unfolding fold_xx_to_x_def
  by (rule guarded_mov_ok [OF _ assms(3)], rule law_value [OF assms(1)], assumption) (rule xx_eq [OF _ assms(2)]; simp)

section \<open>Folding to a negation\<close>

lemma canon_not: "canon w (NOT v) = NOT (canon w v)"
  by (rule bit_word_eqI) (cases w; auto simp: bit_canon bit_not_iff min_def)

lemma smask_ok_not: "smask_ok v s \<Longrightarrow> smask_ok (NOT v) s"
  by (rule smask_okI) (auto simp: bit_not_iff dest: smask_okD)

lemma fold_not_const: "const1_law (Tcg (Op_rr U_not w))"
  by (simp add: const1_law_def do_constant_folding_canon)

lemma fold_not_folded:
  assumes p: "pending \<sigma> c0 r (Tcg (Op_rr U_not w)) c"
  shows "case fold_not c of (b, c') \<Rightarrow> if b then folded E \<sigma> c0 r c' else Q c'"
proof -
  let ?oc = "Tcg (Op_rr U_not w)"
  obtain b c1 where f: "fold_const1 c = (b, c1)" by (rule prod.exhaust)
  note g = folder_okD [OF fold_const1_ok [OF fold_not_const] p f]
  show ?thesis
  proof (cases b)
    case False
    then have core: "core \<sigma> c0 r ?oc c1" and nm: "no_masks c1" using g by (simp_all add: pending_def)
    obtain v where v: "op_value ?oc (in_val (op c1) \<sigma>) (imm_val (op c1)) = Some v" "canon (ctype c1) v = r"
      by (rule core_value [OF core])
    have w: "ctype c1 = w" using coreD(7) [OF core] by simp
    note m = core_masks [OF core, of 0 w]
    have "v = NOT (in_val (op c1) \<sigma> 0)" using v(1) by simp
    then have "r = NOT (in_val (op c1) \<sigma> 0)"
      using v(2) m(3) w by (simp add: canon_not nb_iargs_def)
    then have "smask_ok r (os c1 1)" using m(2) smask_ok_not by (simp add: nb_iargs_def)
    then have "unfolded \<sigma> c0 r (c1\<lparr>s_mask := os c1 1\<rparr>)"
      using core nm by (auto simp: unfolded_def no_masks_def)
    from finish_folding_ok [OF this] False f show ?thesis
      by (simp add: fold_not_def os_def arg_info_def)
  qed (use f g in \<open>simp add: fold_not_def\<close>)
qed

text \<open>The operation with its second input, or its first, as the input of a unary operation.\<close>

definition unary_op :: "tcg_opc \<Rightarrow> nat \<Rightarrow> tcgop \<Rightarrow> tcgop" where
  "unary_op oc idx o1 = o1\<lparr>opc := oc, args := (args o1)[1 := args o1 ! idx]\<rparr>"

lemma unary_pending:
  assumes p: "pending \<sigma> c0 r oc c" and i: "idx < nb_iargs oc" "in_type oc idx = Some (ctype c)"
    and u: "u = U_not \<or> u = U_neg" and r: "canon (ctype c) (alu_rr u (ctype c) (in_val (op c) \<sigma> idx)) = r"
  shows "pending \<sigma> c0 r (Tcg (Op_rr u (ctype c)))
    (set_oarg 1 (oarg c (Suc idx)) (set_opc (Tcg (Op_rr u (ctype c))) c))"
proof -
  let ?oc = "Tcg (Op_rr u (ctype c))"
  let ?o = "unary_op ?oc (Suc idx) (op c)"
  have core: "core \<sigma> c0 r oc c" using p by (simp add: pending_def)
  note d = coreD [OF core]
  have len: "1 < length (args (op c))" by (rule d(12))
  have iv: "in_val ?o \<sigma> 0 = in_val (op c) \<sigma> idx"
    using d(5,10) len by (simp add: in_val_def unary_op_def nb_oargs_def)
  have "input_ok c (op c) idx" "output_ok c (op c) 0"
    using d(5,8,10) i(1) by (auto simp: op_ok_def)
  then have ok: "op_ok c ?o"
    using len d(5,7,10) i(2) u
    by (auto simp: op_ok_def unary_op_def nb_args_def nb_oargs_def nb_iargs_def input_ok_def output_ok_def
        type_fits_def)
  have "core \<sigma> c0 r ?oc (c\<lparr>op := ?o\<rparr>)"
    by (rule core_replace [OF core, where v = "alu_rr u (ctype c) (in_val (op c) \<sigma> idx)"])
      (use ok iv r u d len in \<open>auto simp: unary_op_def is_op1_def oarg_def\<close>)
  moreover have "set_oarg 1 (oarg c (Suc idx)) (set_opc ?oc c) = c\<lparr>op := ?o\<rparr>"
    by (simp add: set_oarg_def set_opc_def unary_op_def oarg_def)
  ultimately show ?thesis using p by (simp add: pending_def)
qed

lemma fold_to_not_ok:
  assumes p: "pending \<sigma> c0 r oc c" and i: "idx < nb_iargs oc" "in_type oc idx = Some (ctype c)"
    and r: "canon (ctype c) (NOT (in_val (op c) \<sigma> idx)) = r"
  shows "case fold_to_not (Suc idx) c of (b, c') \<Rightarrow> if b then folded E \<sigma> c0 r c' else Q c'"
  unfolding fold_to_not_def by (rule fold_not_folded [OF unary_pending [OF p i]]) (simp_all add: r)

lemma fold_xi_to_not_ok:
  assumes "value_law oc (\<lambda>v. v 1 = i) (\<lambda>v. NOT (v 0))" "1 < nb_iargs oc" "in_type oc 0 = Some (op_type oc)"
  shows "folder_ok E \<sigma> c0 r (pending \<sigma> c0 r oc) (fold_xi_to_not i) (pending \<sigma> c0 r oc)"
  unfolding fold_xi_to_not_def
proof (rule guarded_ok)
  fix c assume p: "pending \<sigma> c0 r oc c" and core: "core \<sigma> c0 r oc c" and "oconst c 2 \<and> oval c 2 = i"
  then show "case fold_to_not 1 c of (b, c') \<Rightarrow> if b then folded E \<sigma> c0 r c' else pending \<sigma> c0 r oc c'"
    using fold_to_not_ok [OF p, of 0 E] law_value [OF assms(1) core] xi_eq [OF core assms(2)] assms(2,3)
      coreD(7) [OF core] by simp
qed

lemma fold_ix_to_not_ok:
  assumes "value_law oc (\<lambda>v. v 0 = i) (\<lambda>v. NOT (v 1))" "1 < nb_iargs oc" "in_type oc 1 = Some (op_type oc)"
  shows "folder_ok E \<sigma> c0 r (pending \<sigma> c0 r oc) (fold_ix_to_not i) (pending \<sigma> c0 r oc)"
  unfolding fold_ix_to_not_def
proof (rule guarded_ok)
  fix c assume p: "pending \<sigma> c0 r oc c" and core: "core \<sigma> c0 r oc c" and "oconst c 1 \<and> oval c 1 = i"
  then show "case fold_to_not 2 c of (b, c') \<Rightarrow> if b then folded E \<sigma> c0 r c' else pending \<sigma> c0 r oc c'"
    using fold_to_not_ok [OF p, of 1 E] law_value [OF assms(1) core] ix_eq [OF core] assms(2,3)
      coreD(7) [OF core] by (simp add: numeral_2_eq_2)
qed

section \<open>Folding by known bits\<close>

text \<open>An empty mask of affected bits: the result is the first input.\<close>

definition amask_ok :: "tcg_opc \<Rightarrow> u64 \<Rightarrow> u64 \<Rightarrow> u64 \<Rightarrow> bool" where
  "amask_ok oc a r x \<longleftrightarrow>
     (canon (op_type oc) a = 0 \<longrightarrow>
        in_type oc 0 = Some (op_type oc) \<and> canon (op_type oc) x = canon (op_type oc) r)"

lemma amask_okI:
  assumes "in_type oc 0 = Some (op_type oc)"
    "\<And>i. i < width_bits (op_type oc) \<Longrightarrow> \<not> bit a i \<Longrightarrow> bit r i = bit x i"
  shows "amask_ok oc a r x"
proof -
  have "canon (op_type oc) x = canon (op_type oc) r" if z: "canon (op_type oc) a = 0"
  proof (rule canon_eqI)
    fix i assume i: "i < width_bits (op_type oc)"
    then have "\<not> bit a i" using canon_bit_eq [of "op_type oc" a 0 i] z by simp
    with assms(2) i show "bit x i = bit r i" by simp
  qed
  with assms(1) show ?thesis by (simp add: amask_ok_def)
qed

lemma amask_ok_none [simp]: "amask_ok oc (- 1) r x"
  by (simp add: amask_ok_def)

lemma canon_zmask:
  assumes "zmask_ok w r z"
  shows "zmask_ok w r (canon w z)"
  using assms by (cases w) (auto simp: zmask_ok_def bit_canon min_def)

lemma zmask_ok_0:
  assumes "zmask_ok w r 0" "canon w r = r"
  shows "r = 0"
proof -
  have "canon w r = canon w 0" by (rule canon_eqI) (use assms(1) in \<open>simp add: zmask_ok_def\<close>)
  then show ?thesis using assms(2) by simp
qed

lemma bit_MAKE_64BIT_MASK:
  "len \<le> 64 \<Longrightarrow> bit (MAKE_64BIT_MASK s len) i \<longleftrightarrow> s \<le> i \<and> i < s + len \<and> i < 64"
  by (auto simp: MAKE_64BIT_MASK_def bit_simps)

lemma smask_ok_or_high:
  assumes "smask_ok r s" "canon I32 r = r"
  shows "smask_ok r (s OR MAKE_64BIT_MASK 32 32)"
proof (rule smask_okI)
  fix i j :: nat
  assume a: "bit (s OR MAKE_64BIT_MASK 32 32) i" "i < 64" "j < 64" "i \<le> Suc j"
  have hi: "bit r j = bit r 63" if "31 \<le> j"
    using bit_canon [of I32 r j] bit_canon [of I32 r 63] assms(2) a(3) that by (simp add: min_def)
  show "bit r j = bit r 63"
  proof (cases "bit s i")
    case False
    then have "31 \<le> j" using a(1,4) by (simp add: bit_or_iff bit_MAKE_64BIT_MASK)
    then show ?thesis by (rule hi)
  qed (use smask_okD [OF assms(1)] a in blast)
qed

lemma fold_masks_ok:
  assumes core: "core \<sigma> c0 r oc c"
    and z: "zmask_ok (ctype c) r (z_mask c)" and s: "smask_ok r (s_mask c)"
    and a: "amask_ok oc (a_mask c) r (in_val (op c) \<sigma> 0)"
  shows "case fold_masks c of (b, c') \<Rightarrow> if b then folded E \<sigma> c0 r c' else unfolded \<sigma> c0 r c'"
proof -
  let ?w = "ctype c"
  let ?s = "if ?w = I32 then s_mask c OR MAKE_64BIT_MASK 32 32 else s_mask c"
  define c1 where "c1 = c\<lparr>z_mask := canon ?w (z_mask c), s_mask := ?s\<rparr>"
  have core1: "core \<sigma> c0 r oc c1" using core by (simp add: c1_def)
  have w1: "ctype c1 = ?w" "op c1 = op c" by (simp_all add: c1_def)
  have cr: "canon ?w r = r" by (rule core_canon [OF core])
  have un: "unfolded \<sigma> c0 r c1"
    using core1 canon_zmask [OF z] s smask_ok_or_high [OF s] cr
    by (auto simp: unfolded_def c1_def)
  have eq: "fold_masks c =
    (if canon ?w (z_mask c) = 0 then gen_movi (oarg c1 0) 0 c1
     else if canon ?w (a_mask c) = 0 then gen_mov (oarg c1 0) (oarg c1 1) c1 else (False, c1))"
    by (simp add: fold_masks_def Let_def c1_def canon_def split: tcg_width.split)
  show ?thesis
  proof (cases "canon ?w (z_mask c) = 0")
    case True
    then have "r = 0" using zmask_ok_0 [OF _ cr] canon_zmask [OF z] by simp
    then show ?thesis using gen_movi_ok [OF core1, of 0 E] eq True by simp
  next
    case nz: False
    show ?thesis
    proof (cases "canon ?w (a_mask c) = 0")
      case True
      then have "in_type oc 0 = Some ?w" "canon ?w (in_val (op c) \<sigma> 0) = canon ?w r"
        using a coreD(7) [OF core] by (simp_all add: amask_ok_def)
      then show ?thesis
        using gen_mov_ok [OF core1, of 0 E] op1_args [OF coreD(6) [OF core]] eq nz True cr w1 by simp
    qed (use eq nz un in simp)
  qed
qed

end
