(* ===== verification/Opt_Ops.thy ===== *)
theory Opt_Ops
  imports Opt_Rules
begin

text \<open>
  The folders of the operations with one result are right: for each opcode the laws the folder uses hold
  of its value, and the masks it computes describe the result.
\<close>

definition op_folder_ok :: "'w itself \<Rightarrow> tcg_opc \<Rightarrow> folder \<Rightarrow> bool" where
  "op_folder_ok w oc f \<longleftrightarrow>
     (\<forall>(E :: 'w ir_env) \<sigma> c0 r. folder_ok E \<sigma> c0 r (pending \<sigma> c0 r oc) f (unfolded \<sigma> c0 r))"

lemma op_folder_okI:
  assumes "\<And>(E :: 'w ir_env) \<sigma> c0 r. folder_ok E \<sigma> c0 r (pending \<sigma> c0 r oc) f (unfolded \<sigma> c0 r)"
  shows "op_folder_ok TYPE('w) oc f"
  using assms by (simp add: op_folder_ok_def)

lemma lo32_zext32 [simp]: "lo32 (zext32 v) = v"
  by (rule bit_word_eqI) (simp add: bit_simps)

section \<open>Constant folding\<close>

lemma fold2_rrr_alu: "alu_rrr r w a b = Some y \<Longrightarrow> fold2_rrr r w a b = Some y"
  by (cases r; cases w)
    (auto simp: sdiv_word_def smod_word_def udiv_word_def umod_word_def div_ok_def split: if_splits)

lemma const2_rrr [simp]: "const2_law (Tcg (Op_rrr r w))"
  by (auto simp: const2_law_def nb_iargs_def do_constant_folding_canon dest: fold2_rrr_alu)

lemma const1_rr: "u \<notin> {U_mov, U_bswap16, U_bswap32} \<Longrightarrow> const1_law (Tcg (Op_rr u w))"
  by (cases u; cases w; simp add: const1_law_def do_constant_folding_canon)

lemma const1_rr64: "const1_law (Tcg (Op_rr64 u))"
  by (cases u; simp add: const1_law_def do_constant_folding_canon)

lemma const1_extr: "const1_law Op_extrl_i64_i32" "const1_law Op_extrh_i64_i32"
  by (simp_all add: const1_law_def do_constant_folding_canon)

lemma lo32_signed_drop_32: "lo32 (signed_drop_bit 32 v) = lo32 (drop_bit 32 v)"
  by (rule bit_word_eqI) (auto simp: bit_simps)

lemma const2_mulh: "const2_law (Op_muluh w)" "const2_law (Op_mulsh w)"
  by (cases w; simp add: const2_law_def nb_iargs_def do_constant_folding_canon mulh_value_def
      canon_eq_iff_lo32 lo32_signed_drop_32)+

section \<open>Laws of the binary operations\<close>

lemma nb_iargs_rrr [simp]: "nb_iargs (Tcg (Op_rrr r w)) = 2"
  by (simp add: nb_iargs_def)

lemma comm_rrr: "r \<in> {R_add, R_and, R_or, R_xor, R_eqv, R_nand, R_nor} \<Longrightarrow> comm_law (Tcg (Op_rrr r w))"
  by (auto simp: comm_law_def swap01_def ac_simps)

lemma value_rrr:
  "value_law (Tcg (Op_rrr r w)) P f \<longleftrightarrow>
     (\<forall>v y. alu_rrr r w (v 0) (v 1) = Some y \<longrightarrow> P v \<longrightarrow> canon w y = canon w (f v))"
  by (simp add: value_law_def)

lemma laws_zero:
  "value_law (Tcg (Op_rrr R_add w)) (\<lambda>v. v 1 = 0) (\<lambda>v. v 0)"
  "value_law (Tcg (Op_rrr R_sub w)) (\<lambda>v. v 1 = 0) (\<lambda>v. v 0)"
  "value_law (Tcg (Op_rrr R_sub w)) (\<lambda>v. v 1 = v 0) (\<lambda>v. 0)"
  "value_law (Tcg (Op_rrr R_and w)) (\<lambda>v. v 1 = 0) (\<lambda>v. 0)"
  "value_law (Tcg (Op_rrr R_and w)) (\<lambda>v. v 1 = - 1) (\<lambda>v. v 0)"
  "value_law (Tcg (Op_rrr R_and w)) (\<lambda>v. v 1 = v 0) (\<lambda>v. v 0)"
  "value_law (Tcg (Op_rrr R_andc w)) (\<lambda>v. v 1 = v 0) (\<lambda>v. 0)"
  "value_law (Tcg (Op_rrr R_andc w)) (\<lambda>v. v 1 = 0) (\<lambda>v. v 0)"
  "value_law (Tcg (Op_rrr R_andc w)) (\<lambda>v. v 0 = - 1) (\<lambda>v. NOT (v 1))"
  "value_law (Tcg (Op_rrr R_mul w)) (\<lambda>v. v 1 = 0) (\<lambda>v. 0)"
  "value_law (Tcg (Op_rrr R_mul w)) (\<lambda>v. v 1 = 1) (\<lambda>v. v 0)"
  "value_law (Tcg (Op_rrr R_eqv w)) (\<lambda>v. v 1 = - 1) (\<lambda>v. v 0)"
  "value_law (Tcg (Op_rrr R_eqv w)) (\<lambda>v. v 1 = 0) (\<lambda>v. NOT (v 0))"
  "value_law (Tcg (Op_rrr R_nand w)) (\<lambda>v. v 1 = - 1) (\<lambda>v. NOT (v 0))"
  "value_law (Tcg (Op_rrr R_nor w)) (\<lambda>v. v 1 = 0) (\<lambda>v. NOT (v 0))"
  "value_law (Tcg (Op_rrr R_or w)) (\<lambda>v. v 1 = 0) (\<lambda>v. v 0)"
  "value_law (Tcg (Op_rrr R_or w)) (\<lambda>v. v 1 = v 0) (\<lambda>v. v 0)"
  "value_law (Tcg (Op_rrr R_orc w)) (\<lambda>v. v 1 = v 0) (\<lambda>v. - 1)"
  "value_law (Tcg (Op_rrr R_orc w)) (\<lambda>v. v 1 = - 1) (\<lambda>v. v 0)"
  "value_law (Tcg (Op_rrr R_orc w)) (\<lambda>v. v 0 = 0) (\<lambda>v. NOT (v 1))"
  "value_law (Tcg (Op_rrr R_xor w)) (\<lambda>v. v 1 = v 0) (\<lambda>v. 0)"
  "value_law (Tcg (Op_rrr R_xor w)) (\<lambda>v. v 1 = 0) (\<lambda>v. v 0)"
  "value_law (Tcg (Op_rrr R_xor w)) (\<lambda>v. v 1 = - 1) (\<lambda>v. NOT (v 0))"
  by (auto simp: value_rrr)

lemma div_by_one:
  "sdiv_word a 1 = Some y \<Longrightarrow> y = a" "udiv_word a 1 = Some y \<Longrightarrow> y = a"
  "smod_word a a = Some y \<Longrightarrow> y = 0" "umod_word a a = Some y \<Longrightarrow> y = 0"
  "sdiv_word b 1 = Some z \<Longrightarrow> z = b" "udiv_word b 1 = Some z \<Longrightarrow> z = b"
  "smod_word b b = Some z \<Longrightarrow> z = 0" "umod_word b b = Some z \<Longrightarrow> z = 0"
  for a y :: u32 and b z :: u64
  by (auto simp: sdiv_word_def udiv_word_def smod_word_def umod_word_def signed_modulo_int_def split: if_splits)

lemma laws_div:
  "value_law (Tcg (Op_rrr R_div w)) (\<lambda>v. v 1 = 1) (\<lambda>v. v 0)"
  "value_law (Tcg (Op_rrr R_divu w)) (\<lambda>v. v 1 = 1) (\<lambda>v. v 0)"
  "value_law (Tcg (Op_rrr R_rem w)) (\<lambda>v. v 1 = v 0) (\<lambda>v. 0)"
  "value_law (Tcg (Op_rrr R_remu w)) (\<lambda>v. v 1 = v 0) (\<lambda>v. 0)"
proof -
  show "value_law (Tcg (Op_rrr R_div w)) (\<lambda>v. v 1 = 1) (\<lambda>v. v 0)"
    unfolding value_rrr by (cases w) (use div_by_one(1,5) in \<open>fastforce simp: canon_eq_iff_lo32\<close>)+
  show "value_law (Tcg (Op_rrr R_divu w)) (\<lambda>v. v 1 = 1) (\<lambda>v. v 0)"
    unfolding value_rrr by (cases w) (simp_all add: udiv_word_def canon_eq_iff_lo32)
  show "value_law (Tcg (Op_rrr R_rem w)) (\<lambda>v. v 1 = v 0) (\<lambda>v. 0)"
    unfolding value_rrr by (cases w) (use div_by_one(3,7) in \<open>fastforce simp: canon_eq_iff_lo32\<close>)+
  show "value_law (Tcg (Op_rrr R_remu w)) (\<lambda>v. v 1 = v 0) (\<lambda>v. 0)"
    unfolding value_rrr by (cases w) (use div_by_one(4,8) in \<open>fastforce simp: canon_eq_iff_lo32\<close>)+
qed

lemma rotate_zero [simp]:
  "rol32 0 s = 0" "ror32 0 s = 0" "rol64 0 s = 0" "ror64 0 s = 0"
  "rol32 a 0 = a" "ror32 a 0 = a" "rol64 b 0 = b" "ror64 b 0 = b"
  by (simp_all add: rol32_def ror32_def rol64_def ror64_def)

lemma laws_shift_zero:
  assumes "sh \<in> {R_shl, R_shr, R_sar, R_rotl, R_rotr}"
  shows "value_law (Tcg (Op_rrr sh w)) (\<lambda>v. v 0 = 0) (\<lambda>v. 0)"
  unfolding value_rrr using assms by (cases w) (elim insertE; simp)+

lemma laws_shift_by_zero:
  assumes "sh \<in> {R_shl, R_shr, R_sar, R_rotl, R_rotr}"
  shows "value_law (Tcg (Op_rrr sh w)) (\<lambda>v. v 1 = 0) (\<lambda>v. v 0)"
  unfolding value_rrr using assms by (cases w) (elim insertE; simp add: canon_eq_iff_lo32)+

section \<open>Masks of bitwise operations\<close>

lemma canon_bitwise [simp]:
  "canon w (a AND b) = canon w a AND canon w b"
  "canon w (a OR b) = canon w a OR canon w b"
  "canon w (a XOR b) = canon w a XOR canon w b"
  "canon w (NOT a) = NOT (canon w a)"
  by (rule bit_word_eqI; cases w; auto simp: bit_canon bit_simps min_def)+

lemma rrr_core:
  assumes "core \<sigma> c0 r (Tcg (Op_rrr rr w)) c"
  obtains x y v where "in_val (op c) \<sigma> 0 = x" "in_val (op c) \<sigma> 1 = y" "alu_rrr rr w x y = Some v"
    "canon w v = r" "canon w x = x" "canon w y = y" "zmask_ok w x (oz c 1)" "smask_ok x (os c 1)"
    "zmask_ok w y (oz c 2)" "smask_ok y (os c 2)" "ctype c = w" "oconst c 2 \<Longrightarrow> oz c 2 = y"
    "oconst c 2 \<Longrightarrow> oval c 2 = y"
proof -
  obtain v where v: "op_value (Tcg (Op_rrr rr w)) (in_val (op c) \<sigma>) (imm_val (op c)) = Some v"
      "canon (ctype c) v = r"
    by (rule core_value [OF assms])
  have w: "ctype c = w" using coreD(7) [OF assms] by simp
  note m0 = core_masks [OF assms, of 0 w, simplified] and m1 = core_masks [OF assms, of 1 w, simplified]
  show ?thesis
    by (rule that [of "in_val (op c) \<sigma> 0" "in_val (op c) \<sigma> 1" v])
      (use v w m0 m1 core_const [OF assms, of 1] core_const_zmask [OF assms, of 1]
        in \<open>simp_all add: numeral_2_eq_2\<close>)
qed

lemma smask_ok_bitwise:
  assumes "smask_ok x s1" "smask_ok y s2" "\<And>j. j < 64 \<Longrightarrow> bit r j = F (bit x j) (bit y j)"
  shows "smask_ok r (s1 AND s2)"
proof (rule smask_okI)
  fix i j :: nat
  assume a: "bit (s1 AND s2) i" "i < 64" "j < 64" "i \<le> Suc j"
  then have "bit x j = bit x 63" "bit y j = bit y 63"
    using smask_okD [OF assms(1), of i j] smask_okD [OF assms(2), of i j] by (simp_all add: bit_and_iff)
  then show "bit r j = bit r 63" using assms(3) [of j] assms(3) [of 63] a(3) by simp
qed

text \<open>The value is computed bit by bit.\<close>

definition bitwise :: "tcg_rrr \<Rightarrow> tcg_width \<Rightarrow> (bool \<Rightarrow> bool \<Rightarrow> bool) \<Rightarrow> bool" where
  "bitwise rr w F \<longleftrightarrow>
     (\<forall>x y v. alu_rrr rr w x y = Some v \<longrightarrow> (\<forall>j < 64. bit v j = F (bit x j) (bit y j)))"

lemma bitwise_smask:
  assumes core: "core \<sigma> c0 r (Tcg (Op_rrr rr w)) c" and F: "bitwise rr w F"
  shows "smask_ok r (os c 1 AND os c 2)"
proof -
  obtain x y v where f: "alu_rrr rr w x y = Some v" "canon w v = r" "canon w x = x" "canon w y = y"
      "smask_ok x (os c 1)" "smask_ok y (os c 2)"
    by (rule rrr_core [OF core]) blast
  have "bit r j = F (bit x j) (bit y j)" if "j < 64" for j
  proof -
    have m: "min j (width_bits w - 1) < 64" using that by simp
    have "bit x j = bit x (min j (width_bits w - 1))" "bit y j = bit y (min j (width_bits w - 1))"
      using bit_canon [of w x j] bit_canon [of w y j] f(3,4) that by simp_all
    then show ?thesis using F f(1) m bit_canon [of w v j] f(2) that by (simp add: bitwise_def)
  qed
  then show ?thesis by (rule smask_ok_bitwise [OF f(5,6)])
qed

lemma both_smasks_ok:
  assumes "bitwise rr w F"
  shows "folder_ok E \<sigma> c0 r (pending \<sigma> c0 r (Tcg (Op_rrr rr w))) both_smasks (unfolded \<sigma> c0 r)"
proof (rule folder_okI)
  fix c assume p: "pending \<sigma> c0 r (Tcg (Op_rrr rr w)) c"
  then have "smask_ok r (os c 1 AND os c 2)"
    using bitwise_smask [OF pending_core assms] by blast
  then show "case both_smasks c of (b, c') \<Rightarrow> if b then folded E \<sigma> c0 r c' else unfolded \<sigma> c0 r c'"
    using p by (auto simp: both_smasks_def pending_def unfolded_def no_masks_def)
qed

lemma canon_bit: "canon w v = r \<Longrightarrow> i < width_bits w \<Longrightarrow> bit r i = bit v i"
  by (cases w) (auto simp: bit_canon min_def)

lemma masks_step:
  assumes "pending \<sigma> c0 r oc c" "zmask_ok (ctype c) r z" "smask_ok r s" "amask_ok oc a r (in_val (op c) \<sigma> 0)"
    "c' = c\<lparr>a_mask := a, z_mask := z, s_mask := s\<rparr>"
  shows "case fold_masks c' of (b, c') \<Rightarrow> if b then folded E \<sigma> c0 r c' else unfolded \<sigma> c0 r c'"
  unfolding assms(5) by (rule fold_masks_ok) (use assms(1-4) in \<open>simp_all add: pending_def\<close>)

lemma no_masks_a: "no_masks c \<Longrightarrow> c\<lparr>a_mask := - 1\<rparr> = c"
  by (cases c) (simp add: no_masks_def)

lemma and_masks_ok:
  "folder_ok E \<sigma> c0 r (pending \<sigma> c0 r (Tcg (Op_rrr R_and w))) and_masks (unfolded \<sigma> c0 r)"
proof (rule folder_okI)
  fix c assume p: "pending \<sigma> c0 r (Tcg (Op_rrr R_and w)) c"
  then have core: "core \<sigma> c0 r (Tcg (Op_rrr R_and w)) c" and nm: "no_masks c" by (simp_all add: pending_def)
  obtain x y v where f: "in_val (op c) \<sigma> 0 = x" "alu_rrr R_and w x y = Some v" "canon w v = r"
      "canon w x = x" "canon w y = y" "zmask_ok w x (oz c 1)" "zmask_ok w y (oz c 2)" "ctype c = w"
      "oconst c 2 \<Longrightarrow> oz c 2 = y"
    by (rule rrr_core [OF core]) blast
  have r: "r = x AND y" using f(2-5) by auto
  let ?a = "if oconst c 2 then oz c 1 AND NOT (oz c 2) else - 1"
  have S: "smask_ok r (os c 1 AND os c 2)"
    by (rule bitwise_smask [OF core, of "(\<and>)"]) (auto simp: bitwise_def bit_and_iff)
  have Z: "zmask_ok w r (oz c 1 AND oz c 2)"
    using f(6,7) by (simp add: r zmask_ok_def bit_and_iff)
  have A: "amask_ok (Tcg (Op_rrr R_and w)) ?a r (in_val (op c) \<sigma> 0)"
  proof (cases "oconst c 2")
    case True
    then show ?thesis using f(1,6,9) by (intro amask_okI) (cases w; auto simp: r bit_simps zmask_ok_def)+
  qed simp
  note st = masks_step [OF p, unfolded f(8), OF Z S A]
  show "case and_masks c of (b, c') \<Rightarrow> if b then folded E \<sigma> c0 r c' else unfolded \<sigma> c0 r c'"
    unfolding and_masks_def Let_def by (rule st) (cases "oconst c 2"; simp add: no_masks_a [OF nm])
qed

lemma andc_masks_ok:
  "folder_ok E \<sigma> c0 r (pending \<sigma> c0 r (Tcg (Op_rrr R_andc w))) andc_masks (unfolded \<sigma> c0 r)"
proof (rule folder_okI)
  fix c assume p: "pending \<sigma> c0 r (Tcg (Op_rrr R_andc w)) c"
  then have core: "core \<sigma> c0 r (Tcg (Op_rrr R_andc w)) c" and nm: "no_masks c" by (simp_all add: pending_def)
  obtain x y v where f: "in_val (op c) \<sigma> 0 = x" "alu_rrr R_andc w x y = Some v" "canon w v = r"
      "canon w x = x" "canon w y = y" "zmask_ok w x (oz c 1)" "zmask_ok w y (oz c 2)" "ctype c = w"
      "oconst c 2 \<Longrightarrow> oz c 2 = y"
    by (rule rrr_core [OF core]) blast
  have r: "r = x AND NOT y" using f(2-5) by auto
  let ?a = "if oconst c 2 then oz c 1 AND oz c 2 else - 1"
  let ?z = "if oconst c 2 then oz c 1 AND NOT (oz c 2) else oz c 1"
  have S: "smask_ok r (os c 1 AND os c 2)"
    by (rule bitwise_smask [OF core, of "\<lambda>a b. a \<and> \<not> b"]) (auto simp: bitwise_def bit_simps)
  have Z: "zmask_ok w r ?z"
    using f(6,9) by (cases w) (auto simp: r zmask_ok_def bit_simps)
  have A: "amask_ok (Tcg (Op_rrr R_andc w)) ?a r (in_val (op c) \<sigma> 0)"
  proof (cases "oconst c 2")
    case True
    then show ?thesis using f(1,6,9) by (intro amask_okI) (cases w; auto simp: r bit_simps zmask_ok_def)+
  qed simp
  note st = masks_step [OF p, unfolded f(8), OF Z S A]
  show "case andc_masks c of (b, c') \<Rightarrow> if b then folded E \<sigma> c0 r c' else unfolded \<sigma> c0 r c'"
    unfolding andc_masks_def Let_def by (rule st) (cases "oconst c 2"; simp add: no_masks_a [OF nm])
qed

lemma or_masks_ok:
  assumes "rr = R_or \<or> rr = R_xor"
  shows "folder_ok E \<sigma> c0 r (pending \<sigma> c0 r (Tcg (Op_rrr rr w))) or_masks (unfolded \<sigma> c0 r)"
proof (rule folder_okI)
  fix c assume p: "pending \<sigma> c0 r (Tcg (Op_rrr rr w)) c"
  then have core: "core \<sigma> c0 r (Tcg (Op_rrr rr w)) c" and nm: "no_masks c" by (simp_all add: pending_def)
  obtain x y v where f: "alu_rrr rr w x y = Some v" "canon w v = r"
      "canon w x = x" "canon w y = y" "zmask_ok w x (oz c 1)" "zmask_ok w y (oz c 2)" "ctype c = w"
    by (rule rrr_core [OF core]) blast
  have r: "r = (if rr = R_or then x OR y else x XOR y)" using f(1-4) assms by auto
  have S: "smask_ok r (os c 1 AND os c 2)"
    by (rule bitwise_smask [OF core, of "\<lambda>a b. if rr = R_or then a \<or> b else a \<noteq> b"])
      (use assms in \<open>auto simp: bitwise_def bit_simps\<close>)
  have Z: "zmask_ok w r (oz c 1 OR oz c 2)"
    using f(5,6) by (cases w) (auto simp: r zmask_ok_def bit_simps)
  note st = masks_step [OF p, unfolded f(7), OF Z S amask_ok_none]
  show "case or_masks c of (b, c') \<Rightarrow> if b then folded E \<sigma> c0 r c' else unfolded \<sigma> c0 r c'"
    unfolding or_masks_def Let_def by (rule st) (simp add: no_masks_a [OF nm])
qed

section \<open>Arithmetic and logic\<close>

lemma rrr_shape [simp]:
  "in_type (Tcg (Op_rrr r w)) i = Some (op_type (Tcg (Op_rrr r w)))" "1 < nb_iargs (Tcg (Op_rrr r w))"
  by simp_all

lemma chain_end:
  assumes "folder_ok E \<sigma> c0 r (pending \<sigma> c0 r oc) f (pending \<sigma> c0 r oc)"
  shows "folder_ok E \<sigma> c0 r (pending \<sigma> c0 r oc) f (unfolded \<sigma> c0 r)"
  by (rule folder_ok_weaken [OF assms]) (rule pending_unfolded)

lemma chain:
  assumes "folder_ok E \<sigma> c0 r (pending \<sigma> c0 r oc) f (pending \<sigma> c0 r oc)"
    "folder_ok E \<sigma> c0 r (pending \<sigma> c0 r oc) g Q"
  shows "folder_ok E \<sigma> c0 r (pending \<sigma> c0 r oc) (or_else f g) Q"
  by (rule or_else_ok [OF assms])

lemmas rrr_rules =
  fold_const2_ok [OF const2_rrr] fold_const2_commutative_ok [OF const2_rrr comm_rrr]
  fold_xi_to_i_ok [OF _ rrr_shape(2)] fold_xx_to_i_ok [OF _ rrr_shape(2)]
  fold_xi_to_x_ok [OF _ rrr_shape(2,1)] fold_xx_to_x_ok [OF _ rrr_shape(2,1)]
  fold_xi_to_not_ok [OF _ rrr_shape(2,1)] fold_ix_to_not_ok [OF _ rrr_shape(2,1)]

lemma bitwise_rrr:
  "bitwise R_eqv w (\<lambda>a b. a = b)" "bitwise R_nand w (\<lambda>a b. \<not> (a \<and> b))"
  "bitwise R_nor w (\<lambda>a b. \<not> (a \<or> b))" "bitwise R_orc w (\<lambda>a b. a \<or> \<not> b)"
  by (auto simp: bitwise_def bit_simps)

lemma fold_add_ok: "op_folder_ok TYPE('w) (Tcg (Op_rrr R_add w)) fold_add"
  unfolding fold_add_def
  by (intro op_folder_okI chain chain_end rrr_rules laws_zero) simp

lemma fold_and_ok: "op_folder_ok TYPE('w) (Tcg (Op_rrr R_and w)) fold_and"
  unfolding fold_and_def
  by (intro op_folder_okI chain and_masks_ok rrr_rules laws_zero) simp

lemma fold_andc_ok: "op_folder_ok TYPE('w) (Tcg (Op_rrr R_andc w)) fold_andc"
  unfolding fold_andc_def
  by (intro op_folder_okI chain andc_masks_ok rrr_rules laws_zero)

lemma fold_divide_ok:
  "op_folder_ok TYPE('w) (Tcg (Op_rrr R_div w)) fold_divide"
  "op_folder_ok TYPE('w) (Tcg (Op_rrr R_divu w)) fold_divide"
  unfolding fold_divide_def
  by (intro op_folder_okI chain chain_end rrr_rules laws_div)+

lemma fold_eqv_ok: "op_folder_ok TYPE('w) (Tcg (Op_rrr R_eqv w)) fold_eqv"
  unfolding fold_eqv_def
  by (intro op_folder_okI chain bitwise_rrr [THEN both_smasks_ok] rrr_rules laws_zero) simp

lemma fold_mul_ok: "op_folder_ok TYPE('w) (Tcg (Op_rrr R_mul w)) fold_mul"
  unfolding fold_mul_def
  by (intro op_folder_okI chain chain_end rrr_rules laws_zero)

lemma fold_nand_ok: "op_folder_ok TYPE('w) (Tcg (Op_rrr R_nand w)) fold_nand"
  unfolding fold_nand_def
  by (intro op_folder_okI chain bitwise_rrr [THEN both_smasks_ok] rrr_rules laws_zero) simp

lemma fold_nor_ok: "op_folder_ok TYPE('w) (Tcg (Op_rrr R_nor w)) fold_nor"
  unfolding fold_nor_def
  by (intro op_folder_okI chain bitwise_rrr [THEN both_smasks_ok] rrr_rules laws_zero) simp

lemma fold_or_ok: "op_folder_ok TYPE('w) (Tcg (Op_rrr R_or w)) fold_or"
  unfolding fold_or_def
  by (intro op_folder_okI chain or_masks_ok rrr_rules laws_zero) simp_all

lemma fold_orc_ok: "op_folder_ok TYPE('w) (Tcg (Op_rrr R_orc w)) fold_orc"
  unfolding fold_orc_def
  by (intro op_folder_okI chain bitwise_rrr [THEN both_smasks_ok] rrr_rules laws_zero)

lemma fold_remainder_ok:
  "op_folder_ok TYPE('w) (Tcg (Op_rrr R_rem w)) fold_remainder"
  "op_folder_ok TYPE('w) (Tcg (Op_rrr R_remu w)) fold_remainder"
  unfolding fold_remainder_def
  by (intro op_folder_okI chain chain_end rrr_rules laws_div)+

lemma fold_xor_ok: "op_folder_ok TYPE('w) (Tcg (Op_rrr R_xor w)) fold_xor"
  unfolding fold_xor_def xor_masks_def
  by (intro op_folder_okI chain or_masks_ok rrr_rules laws_zero) simp_all

lemma fold_mul_highpart_ok:
  "op_folder_ok TYPE('w) (Op_muluh w) fold_mul_highpart"
  "op_folder_ok TYPE('w) (Op_mulsh w) fold_mul_highpart"
proof -
  have l: "comm_law (Op_muluh w)" "comm_law (Op_mulsh w)"
    by (cases w; simp add: comm_law_def nb_iargs_def swap01_def mulh_value_def mulu64_def muls64_def mult.commute)+
  have z: "value_law (Op_muluh w) (\<lambda>v. v 1 = 0) (\<lambda>v. 0)" "value_law (Op_mulsh w) (\<lambda>v. v 1 = 0) (\<lambda>v. 0)"
    by (cases w; simp add: value_law_def mulh_value_def mulu64_def muls64_def)+
  have n: "1 < nb_iargs (Op_muluh w)" "1 < nb_iargs (Op_mulsh w)" by (simp_all add: nb_iargs_def)
  show "op_folder_ok TYPE('w) (Op_muluh w) fold_mul_highpart"
    unfolding fold_mul_highpart_def
    by (intro op_folder_okI chain chain_end fold_const2_commutative_ok const2_mulh l fold_xi_to_i_ok z n)
  show "op_folder_ok TYPE('w) (Op_mulsh w) fold_mul_highpart"
    unfolding fold_mul_highpart_def
    by (intro op_folder_okI chain chain_end fold_const2_commutative_ok const2_mulh l fold_xi_to_i_ok z n)
qed

end
