(* ===== verification/Opt_Bits.thy ===== *)
theory Opt_Bits
  imports Opt_Ops
begin

text \<open>
  Why the folders of negation, subtraction, extensions, byte swaps, counts, bit fields and shifts are right:
  the known bits they compute describe the result.
\<close>

section \<open>Inputs of an operation\<close>

lemma core_input1:
  assumes "core \<sigma> c0 r oc c" "in_type oc 0 = Some w"
  obtains x v where "in_val (op c) \<sigma> 0 = x" "op_value oc (in_val (op c) \<sigma>) (imm_val (op c)) = Some v"
    "canon (op_type oc) v = r" "canon w x = x" "zmask_ok w x (oz c 1)" "smask_ok x (os c 1)"
    "ctype c = op_type oc" "oconst c 1 \<Longrightarrow> oval c 1 = x"
proof -
  obtain v where v: "op_value oc (in_val (op c) \<sigma>) (imm_val (op c)) = Some v" "canon (ctype c) v = r"
    by (rule core_value [OF assms(1)])
  have n: "0 < nb_iargs oc" using op1_args [OF coreD(6) [OF assms(1)]] by simp
  show ?thesis
    by (rule that [of "in_val (op c) \<sigma> 0" v])
      (use v coreD(7) [OF assms(1)] core_masks [OF assms(1) n assms(2)] core_const [OF assms(1) n] in simp_all)
qed

text \<open>The last step of a folder: masks of the result.\<close>

lemma masks_unfolded:
  assumes "pending \<sigma> c0 r oc c" "zmask_ok (ctype c) r z" "smask_ok r s"
  shows "unfolded \<sigma> c0 r (c\<lparr>z_mask := z, s_mask := s\<rparr>)"
  using assms by (auto simp: pending_def unfolded_def)

lemma masks_unfolded_z:
  assumes "pending \<sigma> c0 r oc c" "zmask_ok (ctype c) r z"
  shows "unfolded \<sigma> c0 r (c\<lparr>z_mask := z\<rparr>)"
  using assms by (auto simp: pending_def unfolded_def no_masks_def)

lemma masks_unfolded_s:
  assumes "pending \<sigma> c0 r oc c" "smask_ok r s"
  shows "unfolded \<sigma> c0 r (c\<lparr>s_mask := s\<rparr>)"
  using assms by (auto simp: pending_def unfolded_def no_masks_def)

section \<open>Moves and negation\<close>

lemma fold_mov_ok: "op_folder_ok TYPE('w) (Tcg (Op_rr U_mov w)) fold_mov"
proof (intro op_folder_okI folder_okI)
  fix E :: "'w ir_env" and \<sigma> :: "'w ir" and c0 r c
  assume "pending \<sigma> c0 r (Tcg (Op_rr U_mov w)) c"
  then have core: "core \<sigma> c0 r (Tcg (Op_rr U_mov w)) c" by (rule pending_core)
  obtain v where "op_value (Tcg (Op_rr U_mov w)) (in_val (op c) \<sigma>) (imm_val (op c)) = Some v"
      "canon (ctype c) v = r"
    by (rule core_value [OF core])
  then show "case fold_mov c of (b, c') \<Rightarrow> if b then folded E \<sigma> c0 r c' else unfolded \<sigma> c0 r c'"
    using gen_mov_ok [OF core, of 0 E] coreD(7) [OF core] by (cases w) (simp_all add: fold_mov_def nb_iargs_def)
qed

lemma fold_not_ok: "op_folder_ok TYPE('w) (Tcg (Op_rr U_not w)) fold_not"
  by (intro op_folder_okI folder_okI fold_not_folded)

text \<open>The negation of a number keeps its trailing zeros and inverts the bits after its lowest 1.\<close>

lemma bit_minus_int: "bit (- k :: int) n \<longleftrightarrow> bit k n \<noteq> (\<exists>j < n. bit k j)"
proof (induction n arbitrary: k)
  case (Suc n)
  have ex: "(\<exists>j < Suc n. bit k j) \<longleftrightarrow> odd k \<or> (\<exists>j < n. bit (k div 2) j)"
    by (auto simp: less_Suc_eq_0_disj bit_0 bit_Suc)
  show ?case
  proof (cases "even k")
    case True
    then have "(- k) div 2 = - (k div 2)" by auto
    then show ?thesis using Suc.IH [of "k div 2"] ex True by (simp add: bit_Suc)
  next
    case False
    then have "(- k) div 2 = NOT (k div 2)" by (simp add: not_int_def) presburger
    then show ?thesis using ex False by (simp add: bit_Suc bit_not_iff)
  qed
qed (simp add: bit_0)

lemma bit_minus_word:
  "bit (- v :: 'a::len word) n \<longleftrightarrow> n < LENGTH('a) \<and> bit v n \<noteq> (\<exists>j < n. bit v j)"
proof (cases "n < LENGTH('a)")
  case True
  have b: "bit (uint v) j = bit v j" for j using bit_imp_le_length [of v j] by (auto simp: bit_uint_iff)
  have "bit (- v) n = bit (- uint v) n"
    using True by (metis bit_word_of_int_iff wi_hom_neg word_of_int_uint)
  then show ?thesis unfolding bit_minus_int b using True by simp
qed (use bit_imp_le_length in blast)

lemma minus_low_bit: "- (z AND - z) = z OR (- z :: u64)"
proof (rule bit_word_eqI)
  fix n assume "n < LENGTH(64)"
  have low: "bit (z AND - z) j \<longleftrightarrow> bit z j \<and> \<not> (\<exists>k < j. bit z k)" for j
    using bit_imp_le_length [of z j] by (auto simp: bit_and_iff bit_minus_word)
  have "(\<exists>j < n. bit z j \<and> \<not> (\<exists>k < j. bit z k)) \<longleftrightarrow> (\<exists>j < n. bit z j)"
  proof
    assume "\<exists>j < n. bit z j"
    then have "bit z (LEAST j. bit z j)" "(LEAST j. bit z j) < n"
      by (auto intro: LeastI Least_le [THEN order.strict_trans1])
    moreover have "\<not> (\<exists>k < (LEAST j. bit z j). bit z k)" using not_less_Least by blast
    ultimately show "\<exists>j < n. bit z j \<and> \<not> (\<exists>k < j. bit z k)" by blast
  qed blast
  then show "bit (- (z AND - z)) n = bit (z OR - z) n"
    unfolding bit_minus_word [of "z AND - z"] low bit_or_iff bit_minus_word [of z]
    using \<open>n < LENGTH(64)\<close> by auto
qed

lemma neg_zmask:
  assumes "zmask_ok w x z"
  shows "zmask_ok w (canon w (- x)) (- (z AND - z))"
proof -
  have "bit (z OR - z) i" if i: "i < width_bits w" and b: "bit (- x) i" for i
  proof -
    have i64: "i < 64" using i by (cases w) simp_all
    obtain j where "j \<le> i" "bit x j"
      using b unfolding bit_minus_word by (cases "bit x i") (auto intro: less_imp_le)
    then have "bit z j" using zmask_okD [OF assms, of j] i by simp
    then show ?thesis
      using \<open>j \<le> i\<close> i64 by (cases "j = i") (auto simp: bit_or_iff bit_minus_word)
  qed
  then show ?thesis
    unfolding minus_low_bit using canon_bit [of w "- x"] by (simp add: zmask_ok_def)
qed

lemma fold_neg_folded:
  assumes p: "pending \<sigma> c0 r (Tcg (Op_rr U_neg w)) c"
  shows "case fold_neg c of (b, c') \<Rightarrow> if b then folded E \<sigma> c0 r c' else Q c'"
proof -
  let ?oc = "Tcg (Op_rr U_neg w)"
  obtain b c1 where f: "fold_const1 c = (b, c1)" by (rule prod.exhaust)
  note g = folder_okD [OF fold_const1_ok [OF const1_rr] p f]
  show ?thesis
  proof (cases b)
    case False
    then have p1: "pending \<sigma> c0 r ?oc c1" using g by simp
    obtain x v where x: "op_value ?oc (in_val (op c1) \<sigma>) (imm_val (op c1)) = Some v" "in_val (op c1) \<sigma> 0 = x"
        "canon (op_type ?oc) v = r" "zmask_ok w x (oz c1 1)" "ctype c1 = op_type ?oc"
      by (rule core_input1 [OF pending_core [OF p1], of w]) simp_all
    have "unfolded \<sigma> c0 r (c1\<lparr>z_mask := - (oz c1 1 AND - oz c1 1)\<rparr>)"
      by (rule masks_unfolded_z [OF p1]) (use x neg_zmask [OF x(4)] in simp)
    from finish_folding_ok [OF this] False f show ?thesis by (simp add: fold_neg_def Let_def)
  qed (use f g in \<open>simp add: fold_neg_def\<close>)
qed

lemma fold_neg_ok: "op_folder_ok TYPE('w) (Tcg (Op_rr U_neg w)) fold_neg"
  by (intro op_folder_okI folder_okI fold_neg_folded)

section \<open>Subtraction\<close>

lemma fold_sub_to_neg_ok:
  "folder_ok E \<sigma> c0 r (pending \<sigma> c0 r (Tcg (Op_rrr R_sub w))) fold_sub_to_neg
     (pending \<sigma> c0 r (Tcg (Op_rrr R_sub w)))"
proof (rule folder_okI)
  let ?oc = "Tcg (Op_rrr R_sub w)"
  fix c assume p: "pending \<sigma> c0 r ?oc c"
  then have core: "core \<sigma> c0 r ?oc c" by (rule pending_core)
  show "case fold_sub_to_neg c of (b, c') \<Rightarrow> if b then folded E \<sigma> c0 r c' else pending \<sigma> c0 r ?oc c'"
  proof (cases "oconst c 1 \<and> oval c 1 = 0")
    case True
    obtain v where v: "op_value ?oc (in_val (op c) \<sigma>) (imm_val (op c)) = Some v" "canon (ctype c) v = r"
      by (rule core_value [OF core])
    have "in_val (op c) \<sigma> 0 = 0" using core_const [OF core, of 0] True by (simp add: nb_iargs_def)
    then have "canon (ctype c) (alu_rr U_neg (ctype c) (in_val (op c) \<sigma> 1)) = r" using v by simp
    then have "pending \<sigma> c0 r (Tcg (Op_rr U_neg (ctype c)))
        (set_oarg 1 (oarg c 2) (set_opc (Tcg (Op_rr U_neg (ctype c))) c))"
      using unary_pending [OF p, of 1 U_neg] coreD(7) [OF core] by (simp add: nb_iargs_def numeral_2_eq_2)
    from fold_neg_folded [OF this] True show ?thesis by (simp add: fold_sub_to_neg_def)
  qed (use p in \<open>auto simp: fold_sub_to_neg_def\<close>)
qed

text \<open>Another operation with the same result and first input, and a constant as its second.\<close>

definition const_op :: "tcg_opc \<Rightarrow> tcgarg \<Rightarrow> tcgarg \<Rightarrow> tcgop \<Rightarrow> tcgop" where
  "const_op oc a k o1 = o1\<lparr>opc := oc, args := (args o1)[1 := a, 2 := k]\<rparr>"

lemma used_mono_core:
  assumes core: "core \<sigma> c0 r oc c" and c1: "opt_ok c1 \<sigma>" "same_frame c c1" "used c \<subseteq> used c1"
  shows "core \<sigma> c0 r oc c1"
proof -
  have "op_ok c1 (op c1)"
    using used_mono_op_ok [OF coreD(8) [OF core] c1(3)] c1(2) by (simp add: same_frame_def)
  then show ?thesis using core c1 by (auto simp: core_def static_frame_def same_frame_def oarg_def)
qed

lemma const_op_pending:
  assumes p: "pending \<sigma> c0 r oc c" and i: "i < nb_iargs oc" "in_type oc i = Some w" and w: "ctype c = w"
    and len: "2 < length (args (op c))"
    and k: "arg_new_constant n c = (k, c1)"
    and r: "\<exists>v. alu_rrr rr w (in_val (op c) \<sigma> i) (canon w n) = Some v \<and> canon w v = r"
  shows "pending \<sigma> c0 r (Tcg (Op_rrr rr w)) (c1\<lparr>op := const_op (Tcg (Op_rrr rr w)) (oarg c (Suc i)) k (op c)\<rparr>)"
proof -
  let ?oc = "Tcg (Op_rrr rr w)"
  let ?o = "const_op ?oc (oarg c (Suc i)) k (op c)"
  have core: "core \<sigma> c0 r oc c" using p by (rule pending_core)
  obtain t where t: "k = Arg t" "t \<in> used c1" "temp_type c t = ctype c" "tval \<sigma> t = canon (ctype c) n"
      "opt_ok c1 \<sigma>" "same_frame c c1" "used c \<subseteq> used c1"
    by (rule arg_new_constant_ok [OF coreD(1) [OF core] k]) blast
  have core1: "core \<sigma> c0 r oc c1" by (rule used_mono_core [OF core t(5-7)])
  have o1: "op c1 = op c" "ctype c1 = w" "no_masks c1"
    using t(6) w p by (simp_all add: same_frame_def pending_def no_masks_def)
  note d = coreD [OF core1]
  obtain u where u: "oarg c (Suc i) = Arg u" "u \<in> used c" "temp_type c u = w" "in_val (op c) \<sigma> i = tval \<sigma> u"
    by (rule core_input [OF core i(1)]) (use i(2) in \<open>simp add: type_fits_def\<close>)
  have ty: "temp_type c1 u' = temp_type c u'" for u' by (rule same_frame_type [OF t(6)])
  have n0: "args ?o ! Suc 0 = Arg u" "args ?o ! 2 = k" "args ?o ! 0 = args (op c) ! 0"
    using len u(1) by (simp_all add: const_op_def nth_list_update)
  have iv: "in_val ?o \<sigma> 0 = in_val (op c) \<sigma> i" "in_val ?o \<sigma> 1 = canon w n"
    using n0 u(4) t(1,4) w by (simp_all add: in_val_def const_op_def nb_oargs_def aval_def numeral_2_eq_2)
  have "output_ok c1 (op c) 0" using d(5,8,10) o1 by (simp add: op_ok_def)
  then have "output_ok c1 ?o 0" using n0(3) d(5,7) o1 by (simp add: output_ok_def const_op_def)
  moreover have "input_ok c1 ?o j" if "j < 2" for j
    using that n0 u t ty w by (cases j) (auto simp: input_ok_def const_op_def nb_oargs_def type_fits_def numeral_2_eq_2)
  ultimately have ok: "op_ok c1 ?o"
    using len by (simp add: op_ok_def nb_args_def nb_oargs_def nb_iargs_def const_op_def numeral_2_eq_2 less_Suc_eq)
  obtain v where v: "alu_rrr rr w (in_val (op c) \<sigma> i) (canon w n) = Some v" "canon w v = r" using r by blast
  have "core \<sigma> c0 r ?oc (c1\<lparr>op := ?o\<rparr>)"
    by (rule core_replace [OF core1 _ _ _ ok, where v = v])
      (use iv v n0(3) o1 in \<open>simp_all add: const_op_def is_op1_def oarg_def\<close>)
  then show ?thesis using o1(3) by (simp add: pending_def)
qed

lemma canon_add_canon [simp]: "canon w (a + canon w b) = canon w (a + b)"
  by (cases w) (simp_all only: canon_eq_iff_lo32 ucast_add_64_32 lo32_canon_I32 canon_I64)

lemma sub_to_add_ok:
  "folder_ok E \<sigma> c0 r (pending \<sigma> c0 r (Tcg (Op_rrr R_sub w))) sub_to_add (unfolded \<sigma> c0 r)"
proof (rule folder_okI)
  let ?oc = "Tcg (Op_rrr R_sub w)" and ?add = "Tcg (Op_rrr R_add w)"
  fix c assume p: "pending \<sigma> c0 r ?oc c"
  then have core: "core \<sigma> c0 r ?oc c" by (rule pending_core)
  obtain x y v where f: "in_val (op c) \<sigma> 0 = x" "alu_rrr R_sub w x y = Some v" "canon w v = r"
      "ctype c = w" "oconst c 2 \<Longrightarrow> oval c 2 = y"
    by (rule rrr_core [OF core]) blast
  show "case sub_to_add c of (b, c') \<Rightarrow> if b then folded E \<sigma> c0 r c' else unfolded \<sigma> c0 r c'"
  proof (cases "oconst c 2")
    case True
    obtain k c1 where k: "arg_new_constant (- y) c = (k, c1)" by (rule prod.exhaust)
    have s: "sub_to_add c = (False, c1\<lparr>op := const_op ?add (oarg c 1) k (op c)\<rparr>)"
      using True f(4,5) k
      by (auto simp: sub_to_add_def Let_def arg_new_constant_def set_opc_def set_oarg_def const_op_def
          init_ts_info_def upd_info_def oarg_def split: tcg_width.splits)
    have "pending \<sigma> c0 r ?add (c1\<lparr>op := const_op ?add (oarg c (Suc 0)) k (op c)\<rparr>)"
      by (rule const_op_pending [OF p, where i = 0 and w = w and n = "- y"])
        (use f k coreD(11) [OF core] in \<open>auto simp: nb_iargs_def\<close>)
    then show ?thesis using pending_unfolded s by simp
  qed (use p pending_unfolded in \<open>auto simp: sub_to_add_def\<close>)
qed

lemma fold_sub_ok: "op_folder_ok TYPE('w) (Tcg (Op_rrr R_sub w)) fold_sub"
  unfolding fold_sub_def fold_sub_vec_def
  by (intro op_folder_okI chain sub_to_add_ok fold_sub_to_neg_ok rrr_rules laws_zero)

section \<open>Extensions\<close>

definition exts_bit :: "tcg_opc \<Rightarrow> nat option" where
  "exts_bit oc =
     (case oc of
        Tcg (Op_rr U_ext8s w) \<Rightarrow> Some 7
      | Tcg (Op_rr U_ext16s w) \<Rightarrow> Some 15
      | Tcg (Op_rr64 W_ext32s_i64) \<Rightarrow> Some 31
      | Tcg (Op_rr64 W_ext_i32_i64) \<Rightarrow> Some 31
      | _ \<Rightarrow> None)"

lemma exts_cases:
  assumes "exts_bit oc = Some k"
  obtains w where "oc = Tcg (Op_rr U_ext8s w)" "k = 7" | w where "oc = Tcg (Op_rr U_ext16s w)" "k = 15"
    | "oc = Tcg (Op_rr64 W_ext32s_i64)" "k = 31" | "oc = Tcg (Op_rr64 W_ext_i32_i64)" "k = 31"
  using assms unfolding exts_bit_def
  by (auto split: tcg_opc.splits tcg_op.splits tcg_rr.splits tcg_rr64.splits)

lemma exts_result:
  assumes "exts_bit oc = Some k" "op_value oc v n = Some y"
  shows "bit (canon (op_type oc) y) i \<longleftrightarrow> i < 64 \<and> bit (v 0) (min i k)"
  using assms(1)
proof (cases rule: exts_cases)
  case (1 w)
  then show ?thesis using assms(2) by (cases w) (auto simp: bit_canon bit_simps min_def)
next
  case (2 w)
  then show ?thesis using assms(2) by (cases w) (auto simp: bit_canon bit_simps min_def)
qed (use assms(2) in \<open>auto simp: bit_simps min_def\<close>)

lemma bit_minus_exp: "bit (- (2 ^ k) :: u64) i \<longleftrightarrow> k \<le> i \<and> i < 64"
  by (auto simp: bit_minus_exp_iff)

lemma ucast_take_bit:
  "ucast (ucast z :: u8) = (take_bit 8 z :: u64)" "ucast (ucast z :: u16) = (take_bit 16 z :: u64)"
  "zext32 (lo32 z) = take_bit 32 z"
  by (auto intro!: bit_word_eqI simp: bit_simps)

lemma exts_masks_bits:
  assumes "exts_bit oc = Some k"
  obtains tc w where "\<forall>z. exts_masks oc z = Some (- (2 ^ k), take_bit (Suc k) z, tc)" "in_type oc 0 = Some w"
    "k < width_bits w" "Suc k < width_bits (op_type oc)" "\<not> tc \<Longrightarrow> w = op_type oc" "const1_law oc"
    "nb_iargs oc = 1"
proof -
  have e: "Suc 7 = 8" "Suc 15 = 16" "Suc 31 = 32" by simp_all
  from assms show ?thesis
  proof (cases rule: exts_cases)
    case (1 w)
    show ?thesis
      by (rule that [of False w]) (use 1 e in \<open>cases w; simp add: ucast_take_bit const1_rr nb_iargs_def\<close>)+
  next
    case (2 w)
    show ?thesis
      by (rule that [of False w]) (use 2 e in \<open>cases w; simp add: ucast_take_bit const1_rr nb_iargs_def\<close>)+
  next
    case 3
    show ?thesis
      by (rule that [of False I64]) (use 3 e in \<open>simp_all add: ucast_take_bit const1_rr64 nb_iargs_def\<close>)
  next
    case 4
    show ?thesis
      by (rule that [of True I32]) (use 4 e in \<open>simp_all add: ucast_take_bit const1_rr64 nb_iargs_def\<close>)
  qed
qed

lemma exts_zmask:
  assumes r: "\<And>i. bit r i \<longleftrightarrow> i < 64 \<and> bit x (min i k)" and z: "zmask_ok w x z" and k: "k < width_bits w"
    and z': "z' = take_bit (Suc k) z"
  shows "zmask_ok w' r (if z' AND - (2 ^ k) \<noteq> 0 then z' OR - (2 ^ k) else z')"
proof -
  have "bit (if z' AND - (2 ^ k) \<noteq> 0 then z' OR - (2 ^ k) else z') i" if "bit r i" for i
  proof -
    have "i < 64" "bit x (min i k)" using that r [of i] by auto
    moreover from this(2) have b: "bit z' (min i k)"
      using zmask_okD [OF z] k by (simp add: z' bit_take_bit_iff)
    moreover have "z' AND - (2 ^ k) \<noteq> 0" if "k \<le> i"
    proof
      assume "z' AND - (2 ^ k) = 0"
      then have "\<not> bit (z' AND - (2 ^ k)) k" by simp
      then show False using b that k by (cases w) (simp_all add: bit_and_iff bit_minus_exp)
    qed
    ultimately show ?thesis
      by (cases "k \<le> i") (auto simp: bit_or_iff bit_minus_exp)
  qed
  then show ?thesis by (simp add: zmask_ok_def)
qed

lemma bit_push_minus_exp: "bit (push_bit 1 (- (2 ^ k)) :: u64) i \<longleftrightarrow> Suc k \<le> i \<and> i < 64"
  unfolding bit_push_bit_iff bit_minus_exp by auto

lemma exts_smask:
  assumes h: "\<And>i. bit h i \<longleftrightarrow> Suc k \<le> i \<and> i < 64"
    and r: "\<And>i. bit r i \<longleftrightarrow> i < 64 \<and> bit x (min i k)" and s: "smask_ok x s" and k: "k < 64"
  shows "smask_ok r (s OR h)"
proof (rule smask_okI)
  fix i j :: nat
  assume a: "bit (s OR h) i" "i < 64" "j < 64" "i \<le> Suc j"
  show "bit r j = bit r 63"
  proof (cases "k \<le> j")
    case True
    then have "min j k = k" "min 63 k = k" using k by auto
    then show ?thesis using r [of j] r [of 63] a(3) by simp
  next
    case False
    then have "bit s i" using a(1,4) by (auto simp: bit_or_iff h)
    then have "bit x j = bit x 63" "bit x k = bit x 63"
      using smask_okD [OF s, of i j] smask_okD [OF s, of i k] a False k by simp_all
    moreover have "min j k = j" "min 63 k = k" using False k by auto
    ultimately show ?thesis using r [of j] r [of 63] a(3) by simp
  qed
qed

lemma exts_amask:
  assumes h: "\<And>i. bit h i \<longleftrightarrow> Suc k \<le> i \<and> i < 64"
    and r: "\<And>i. bit r i \<longleftrightarrow> i < 64 \<and> bit x (min i k)" and s: "smask_ok x s"
    and k: "Suc k < width_bits (op_type oc)"
    and ty: "in_type oc 0 = Some (op_type oc)"
  shows "amask_ok oc ((s OR h) AND NOT s) r x"
proof -
  have k64: "Suc k < 64" using k by (cases "op_type oc") simp_all
  have "x = r" if "canon (op_type oc) ((s OR h) AND NOT s) = 0"
  proof -
    have "\<not> bit ((s OR h) AND NOT s) (Suc k)"
      using canon_bit_eq [of "op_type oc" _ 0, OF _ k] that by fastforce
    then have "bit s (Suc k)" using k64 by (simp add: bit_and_iff bit_or_iff bit_not_iff h)
    then have sb: "bit x j = bit x 63" if "k \<le> j" "j < 64" for j
      using smask_okD [OF s, of "Suc k" j] that by simp
    show ?thesis
    proof (rule bit_word_eqI)
      fix i assume "i < LENGTH(64)"
      then have i: "i < 64" by simp
      show "bit x i = bit r i"
      proof (cases "k \<le> i")
        case True
        then have "min i k = k" by simp
        then show ?thesis using sb [OF True i] sb [of k] r [of i] i k64 by simp
      next
        case False
        then have "min i k = i" by simp
        then show ?thesis using r [of i] i by simp
      qed
    qed
  qed
  then show ?thesis by (simp add: amask_ok_def ty)
qed

lemma exts_step_ok:
  assumes "exts_bit oc = Some k"
  shows "folder_ok E \<sigma> c0 r (pending \<sigma> c0 r oc) exts_step (unfolded \<sigma> c0 r)"
proof (rule folder_okI)
  fix c assume p: "pending \<sigma> c0 r oc c"
  then have core: "core \<sigma> c0 r oc c" and nm: "no_masks c" by (simp_all add: pending_def)
  obtain tc w where m: "\<forall>z. exts_masks oc z = Some (- (2 ^ k), take_bit (Suc k) z, tc)" "in_type oc 0 = Some w"
      "k < width_bits w" "Suc k < width_bits (op_type oc)" "\<not> tc \<Longrightarrow> w = op_type oc"
    by (rule exts_masks_bits [OF assms]) blast
  obtain x v where x: "in_val (op c) \<sigma> 0 = x" "op_value oc (in_val (op c) \<sigma>) (imm_val (op c)) = Some v"
      "canon (op_type oc) v = r" "zmask_ok w x (oz c 1)" "smask_ok x (os c 1)"
    by (rule core_input1 [OF core m(2)]) blast
  have rb: "bit r i \<longleftrightarrow> i < 64 \<and> bit x (min i k)" for i
    using exts_result [OF assms x(2)] x(1,3) by simp
  have k: "k < 64" using m(3) by (cases w) simp_all
  let ?s = "os c 1 OR push_bit 1 (- (2 ^ k))"
  let ?a = "if \<not> tc then ?s AND NOT (os c 1) else - 1"
  have A: "amask_ok oc ?a r (in_val (op c) \<sigma> 0)"
    using exts_amask [OF bit_push_minus_exp rb x(5) m(4)] m(2,5) x(1) by simp
  note st = masks_step [OF p exts_zmask [OF rb x(4) m(3) refl] exts_smask [OF bit_push_minus_exp rb x(5) k] A]
  show "case exts_step c of (b, c') \<Rightarrow> if b then folded E \<sigma> c0 r c' else unfolded \<sigma> c0 r c'"
    unfolding exts_step_def coreD(5) [OF core] m(1) [rule_format] option.case prod.case Let_def
    by (rule st) (cases tc; simp add: no_masks_a [OF nm])
qed

lemma fold_exts_ok:
  assumes "exts_bit oc = Some k"
  shows "op_folder_ok TYPE('w) oc fold_exts"
proof -
  have "const1_law oc" by (rule exts_masks_bits [OF assms])
  then show ?thesis
    unfolding fold_exts_def by (intro op_folder_okI chain fold_const1_ok exts_step_ok [OF assms])
qed

text \<open>Zero extensions and the halves of a 64-bit value.\<close>

definition is_extu :: "tcg_opc \<Rightarrow> bool" where
  "is_extu oc \<longleftrightarrow>
     (\<exists>w. oc = Tcg (Op_rr U_ext8u w) \<or> oc = Tcg (Op_rr U_ext16u w)) \<or> oc = Tcg (Op_rr64 W_ext32u_i64)
     \<or> oc = Tcg (Op_rr64 W_extu_i32_i64) \<or> oc = Op_extrl_i64_i32 \<or> oc = Op_extrh_i64_i32"

lemma extu_law: "is_extu oc \<Longrightarrow> const1_law oc"
  by (auto simp: is_extu_def const1_rr const1_rr64 const1_extr)

lemma extu_facts:
  assumes "is_extu oc" "op_value oc v n = Some y" "canon (op_type oc) y = r"
    "in_type oc 0 = Some w" "zmask_ok w (v 0) z"
  shows "\<exists>z' tc. extu_masks oc z = Some (z', tc) \<and> zmask_ok (op_type oc) r z'
    \<and> amask_ok oc (if \<not> tc then z XOR z' else - 1) r (v 0)"
proof -
  have b: "bit r i = bit y i" if "i < width_bits (op_type oc)" for i
    using canon_bit [OF assms(3) that] .
  have low: "zmask_ok (op_type oc) r (take_bit k z) \<and> amask_ok oc (z XOR take_bit k z) r (v 0)"
    if "w = op_type oc" "y = take_bit k (v 0)" for k
  proof -
    have "bit r i = bit (v 0) i" if "i < width_bits (op_type oc)" "\<not> bit (z XOR take_bit k z) i" for i
      using that b [of i] zmask_okD [OF assms(5), of i] \<open>w = op_type oc\<close> \<open>y = _\<close>
      by (auto simp: bit_xor_iff bit_take_bit_iff)
    then have "amask_ok oc (z XOR take_bit k z) r (v 0)" using assms(4) that(1) by (intro amask_okI) simp_all
    moreover have "zmask_ok (op_type oc) r (take_bit k z)"
      using that b assms(5) by (simp add: zmask_ok_def bit_take_bit_iff)
    ultimately show ?thesis by simp
  qed
  consider w' where "oc = Tcg (Op_rr U_ext8u w')" | w' where "oc = Tcg (Op_rr U_ext16u w')"
    | "oc = Tcg (Op_rr64 W_ext32u_i64)" | "oc = Tcg (Op_rr64 W_extu_i32_i64) \<or> oc = Op_extrl_i64_i32"
    | "oc = Op_extrh_i64_i32"
    using assms(1) by (auto simp: is_extu_def)
  then show ?thesis
  proof cases
    case (1 w')
    then show ?thesis using low [of 8] assms(2,4) by (auto simp: ucast_take_bit)
  next
    case (2 w')
    then show ?thesis using low [of 16] assms(2,4) by (auto simp: ucast_take_bit)
  next
    case 3
    then show ?thesis using low [of 32] assms(2,4) by (auto simp: ucast_take_bit)
  next
    case 4
    have "y = zext32 (lo32 (v 0))" using 4 assms(2) by auto
    then have "zmask_ok (op_type oc) r (zext32 (lo32 z))"
      using 4 b assms(4,5) by (auto simp: zmask_ok_def bit_simps)
    moreover have "extu_masks oc z = Some (zext32 (lo32 z), True)" using 4 by auto
    ultimately show ?thesis by (intro exI [of _ "zext32 (lo32 z)"] exI [of _ True]) simp
  next
    case 5
    have "y = drop_bit 32 (v 0)" using 5 assms(2) by simp
    then have "zmask_ok (op_type oc) r (drop_bit 32 z)"
      using 5 b assms(4,5) by (simp add: zmask_ok_def bit_simps)
    then show ?thesis using 5 by (intro exI [of _ "drop_bit 32 z"] exI [of _ True]) simp
  qed
qed

lemma extu_step_ok:
  assumes "is_extu oc"
  shows "folder_ok E \<sigma> c0 r (pending \<sigma> c0 r oc) extu_step (unfolded \<sigma> c0 r)"
proof (rule folder_okI)
  fix c assume p: "pending \<sigma> c0 r oc c"
  then have core: "core \<sigma> c0 r oc c" and nm: "no_masks c" by (simp_all add: pending_def)
  obtain w where w: "in_type oc 0 = Some w" using assms by (auto simp: is_extu_def)
  obtain x v where x: "in_val (op c) \<sigma> 0 = x" "op_value oc (in_val (op c) \<sigma>) (imm_val (op c)) = Some v"
      "canon (op_type oc) v = r" "zmask_ok w x (oz c 1)" "ctype c = op_type oc"
    by (rule core_input1 [OF core w]) blast
  obtain z tc where z: "extu_masks oc (oz c 1) = Some (z, tc)" "zmask_ok (op_type oc) r z"
      "amask_ok oc (if \<not> tc then oz c 1 XOR z else - 1) r (in_val (op c) \<sigma> 0)"
    using extu_facts [OF assms x(2,3) w x(4) [folded x(1)]] by blast
  have "smask_ok r (smask_from_zmask z)"
    by (rule smask_from_zmask_ok [OF z(2)]) (use core_canon [OF core] x(5) in simp)
  note st = masks_step [OF p z(2) [folded x(5)] this z(3)]
  show "case extu_step c of (b, c') \<Rightarrow> if b then folded E \<sigma> c0 r c' else unfolded \<sigma> c0 r c'"
    unfolding extu_step_def coreD(5) [OF core] z(1) option.case prod.case Let_def
    by (rule st) (cases tc; simp add: no_masks_a [OF nm])
qed

lemma fold_extu_ok: "is_extu oc \<Longrightarrow> op_folder_ok TYPE('w) oc fold_extu"
  unfolding fold_extu_def by (intro op_folder_okI chain fold_const1_ok extu_step_ok extu_law)

section \<open>Byte swaps\<close>

lemma bit_bswap32:
  "bit (bswap32 v) i \<longleftrightarrow>
     i < 32 \<and> bit v (if i < 8 then i + 24 else if i < 16 then i + 8 else if i < 24 then i - 8 else i - 24)"
proof -
  have e: "(0xFF0000 :: u32) = push_bit 16 (mask 8)" "(0xFF00 :: u32) = push_bit 8 (mask 8)"
    by (simp_all add: mask_eq_exp_minus_1)
  have m: "bit (0xFF0000 :: u32) i \<longleftrightarrow> 16 \<le> i \<and> i < 24" "bit (0xFF00 :: u32) i \<longleftrightarrow> 8 \<le> i \<and> i < 16"
    unfolding e by (auto simp: bit_push_bit_iff bit_mask_iff)
  show ?thesis
    unfolding bswap32_def bit_or_iff bit_and_iff m bit_push_bit_iff bit_drop_bit_eq
    by (auto simp: ac_simps dest: bit_imp_le_length)
qed

lemma bit_bswap64:
  "bit (bswap64 v) i \<longleftrightarrow>
     i < 64 \<and> bit v (let j = i mod 32; k = (if j < 8 then j + 24 else if j < 16 then j + 8 else if j < 24 then j - 8
       else j - 24) in if i < 32 then k + 32 else k)"
proof (cases "i < 32")
  case True
  then show ?thesis
    by (auto simp: bswap64_def bit_simps bit_bswap32 Let_def ac_simps)
next
  case False
  then have "i < 64 \<Longrightarrow> i mod 32 = i - 32" by (simp add: mod_if)
  with False show ?thesis
    by (auto simp: bswap64_def bit_simps bit_bswap32 Let_def dest: bit_imp_le_length)
qed

text \<open>A byte swap of \<open>N\<close> bits as a permutation of bits.\<close>

definition bswap_shape :: "tcg_opc \<Rightarrow> nat \<Rightarrow> (nat \<Rightarrow> nat) \<Rightarrow> bool" where
  "bswap_shape oc N pm \<longleftrightarrow>
     in_type oc 0 = Some (op_type oc) \<and> nb_iargs oc = 1 \<and> 0 < N \<and> N \<le> width_bits (op_type oc) \<and> (\<forall>i. pm i < N)
     \<and> (\<forall>z. \<exists>z'. bswap_masks oc z = Some (z', - (2 ^ (N - 1))) \<and> (\<forall>i. bit z' i \<longleftrightarrow> i < N \<and> bit z (pm i)))
     \<and> (\<forall>v k. \<exists>y. op_value oc v k = Some y
          \<and> do_constant_folding oc (op_type oc) (v 0) (k 0) = Some (canon (op_type oc) y)
          \<and> (\<forall>i < 64. bit y i \<longleftrightarrow>
               (if bswap_flags (k 0) then bit (v 0) (pm (min i (N - 1))) else i < N \<and> bit (v 0) (pm i))))"

lemma bswap16_shape:
  "bswap_shape (Tcg (Op_rr U_bswap16 w)) 16 (\<lambda>i. if i < 8 then i + 8 else min i 15 - 8)"
  unfolding bswap_shape_def
  by (cases w) (auto simp: nb_iargs_def bit_simps bit_bswap16 do_constant_folding_canon min_def split: if_splits)

lemma bswap32_shape:
  "bswap_shape (Tcg (Op_rr U_bswap32 w)) 32
     (\<lambda>i. if i < 8 then i + 24 else if i < 16 then i + 8 else if i < 24 then i - 8 else min i 31 - 24)"
  unfolding bswap_shape_def
  by (cases w) (auto simp: nb_iargs_def bit_simps bit_bswap32 do_constant_folding_canon min_def split: if_splits)

lemma bswap64_shape:
  "bswap_shape (Tcg (Op_rr64 W_bswap64_i64)) 64
     (\<lambda>i. let j = i mod 32; k = (if j < 8 then j + 24 else if j < 16 then j + 8 else if j < 24 then j - 8
       else j - 24) in if i < 32 then k + 32 else k)"
proof -
  have "(let j = i mod 32; k = (if j < 8 then j + 24 else if j < 16 then j + 8 else if j < 24 then j - 8
       else j - 24) in if i < 32 then k + 32 else k) < (64 :: nat)" for i :: nat
    using mod_less_divisor [of 32 i] unfolding Let_def by (simp split: if_splits) linarith
  then show ?thesis
    unfolding bswap_shape_def
    by (simp add: nb_iargs_def bit_bswap64 do_constant_folding_canon min_def)
qed

lemma bswap_masks_ok:
  assumes y: "\<forall>i < 64. bit y i \<longleftrightarrow>
      (if sx then bit x (pm (min i (N - 1))) else i < N \<and> bit x (pm i))"
    and z': "\<And>i. bit z' i \<longleftrightarrow> i < N \<and> bit z (pm i)" and sg: "\<And>i. bit sg i \<longleftrightarrow> N - 1 \<le> i \<and> i < 64"
   
    and h: "\<And>i. bit h i \<longleftrightarrow> N \<le> i \<and> i < 64" and N: "0 < N" "N \<le> width_bits w" "\<And>i. pm i < N" and z: "zmask_ok w x z"
  shows "\<not> sx \<Longrightarrow> zmask_ok w (canon w y) z'"
    "sx \<Longrightarrow> z' AND sg \<noteq> 0 \<Longrightarrow> zmask_ok w (canon w y) (z' OR sg) \<and> smask_ok (canon w y) (h)"
    "sx \<Longrightarrow> z' AND sg = 0 \<Longrightarrow> zmask_ok w (canon w y) z'"
    "zmask_ok w (canon w y) (z' OR h)"
proof -
  have W: "width_bits w \<le> 64" by (cases w) simp_all
  have r: "bit (canon w y) i = bit y i" if "i < width_bits w" for i by (rule canon_bit [OF refl that])
  have xz: "bit z (pm i)" if "bit x (pm i)" for i
    using zmask_okD [OF z _ that] N(3) [of i] N(2) by simp
  have low: "bit z' i" if "bit y i" "i < N" for i
    using that y [rule_format, of i] xz [of i] z' [of i] N(2) W by (auto split: if_splits)
  have top: "bit z' (N - 1)" if "bit y i" "N \<le> i" "i < 64" sx for i
    using that y [rule_format, of i] xz [of "N - 1"] z' [of "N - 1"] N(1) by (simp add: min_absorb2)
  have hi: "\<not> bit y i" if "N \<le> i" "i < 64" "\<not> sx" for i using y [rule_format, OF that(2)] that by simp
  show "\<not> sx \<Longrightarrow> zmask_ok w (canon w y) z'"
    using low hi r W unfolding zmask_ok_def by (meson linorder_not_le order.strict_trans2)
  show "zmask_ok w (canon w y) (z' OR h)"
    unfolding zmask_ok_def
  proof (intro allI impI)
    fix i assume "i < width_bits w" "bit (canon w y) i"
    then show "bit (z' OR h) i"
      using low [of i] r [of i] W N(1) by (cases "i < N") (auto simp: bit_or_iff h)
  qed
  have "zmask_ok w (canon w y) (z' OR sg)" if sx
    unfolding zmask_ok_def
  proof (intro allI impI)
    fix i assume "i < width_bits w" "bit (canon w y) i"
    then show "bit (z' OR sg) i"
      using low [of i] r [of i] W N(1) by (cases "i < N") (auto simp: bit_or_iff sg)
  qed
  moreover have "smask_ok (canon w y) (h)" if sx
  proof (rule smask_okI)
    fix i j :: nat
    assume "bit (h) i" "i < 64" "j < 64" "i \<le> Suc j"
    then have j: "N - 1 \<le> j" using N(1) by (auto simp: h)
    have e: "bit y k = bit x (pm (N - 1))" if "N - 1 \<le> k" "k < 64" for k
      using y [rule_format, OF that(2)] that \<open>sx\<close> by (simp add: min_absorb2)
    have "N - 1 \<le> min k (width_bits w - 1)" "min k (width_bits w - 1) < 64" if "N - 1 \<le> k" "k < 64" for k
      using that N W by auto
    then have "bit (canon w y) k = bit x (pm (N - 1))" if "N - 1 \<le> k" "k < 64" for k
      using e that by (simp add: bit_canon)
    then show "bit (canon w y) j = bit (canon w y) 63" using j \<open>j < 64\<close> N W by simp
  qed
  ultimately show "sx \<Longrightarrow> z' AND sg \<noteq> 0 \<Longrightarrow>
      zmask_ok w (canon w y) (z' OR sg) \<and> smask_ok (canon w y) (h)" by simp
  show "zmask_ok w (canon w y) z'" if sx "z' AND sg = 0"
  proof -
    have "\<not> bit (z' AND sg) (N - 1)" using that(2) by simp
    then have "\<not> bit z' (N - 1)" using N W by (auto simp: bit_and_iff sg)
    then show ?thesis
      using low top [OF _ _ _ that(1)] r W unfolding zmask_ok_def
      by (metis linorder_not_le order.strict_trans2)
  qed
qed

lemma bswap_flag_cases:
  "k AND (TCG_BSWAP_OZ OR TCG_BSWAP_OS) = TCG_BSWAP_OZ \<Longrightarrow> \<not> bswap_flags k"
  "k AND (TCG_BSWAP_OZ OR TCG_BSWAP_OS) = TCG_BSWAP_OS \<Longrightarrow> bswap_flags k"
proof -
  have e: "k AND TCG_BSWAP_OS = (k AND (TCG_BSWAP_OZ OR TCG_BSWAP_OS)) AND TCG_BSWAP_OS"
    by (simp add: TCG_BSWAP_OZ_def TCG_BSWAP_OS_def and.assoc)
  show "\<not> bswap_flags k" if "k AND (TCG_BSWAP_OZ OR TCG_BSWAP_OS) = TCG_BSWAP_OZ"
    unfolding bswap_flags.simps e that by (simp add: TCG_BSWAP_OZ_def TCG_BSWAP_OS_def)
  show "bswap_flags k" if "k AND (TCG_BSWAP_OZ OR TCG_BSWAP_OS) = TCG_BSWAP_OS"
    unfolding bswap_flags.simps e that by (simp add: TCG_BSWAP_OS_def)
qed

lemma fold_bswap_ok:
  assumes sh: "bswap_shape oc N pm"
  shows "op_folder_ok TYPE('w) oc fold_bswap"
proof (intro op_folder_okI folder_okI)
  fix E :: "'w ir_env" and \<sigma> :: "'w ir" and c0 r c
  let ?Q = "case fold_bswap c of (b, c') \<Rightarrow> if b then folded E \<sigma> c0 r c' else unfolded \<sigma> c0 r c'"
  let ?w = "op_type oc"
  assume p: "pending \<sigma> c0 r oc c"
  then have core: "core \<sigma> c0 r oc c" and nm: "no_masks c" by (simp_all add: pending_def)
  have ty: "in_type oc 0 = Some ?w" and ni: "nb_iargs oc = 1" and N: "0 < N" "N \<le> width_bits ?w" "\<And>i. pm i < N"
    using sh by (auto simp: bswap_shape_def)
  obtain x v where x: "in_val (op c) \<sigma> 0 = x" "op_value oc (in_val (op c) \<sigma>) (imm_val (op c)) = Some v"
      "canon ?w v = r" "zmask_ok ?w x (oz c 1)" "ctype c = ?w" "oconst c 1 \<Longrightarrow> oval c 1 = x"
    by (rule core_input1 [OF core ty]) blast
  define k where "k = oimm c 2"
  have k: "imm_val (op c) 0 = k" using core_imm_val [OF core, of 0] ni by (simp add: k_def numeral_2_eq_2)
  have y: "do_constant_folding oc ?w x k = Some r"
    "\<forall>i < 64. bit v i \<longleftrightarrow>
      (if bswap_flags k then bit x (pm (min i (N - 1))) else i < N \<and> bit x (pm i))"
  proof -
    obtain y where y: "op_value oc (in_val (op c) \<sigma>) (imm_val (op c)) = Some y"
        "do_constant_folding oc ?w (in_val (op c) \<sigma> 0) (imm_val (op c) 0) = Some (canon ?w y)"
        "\<forall>i < 64. bit y i \<longleftrightarrow> (if bswap_flags (imm_val (op c) 0)
           then bit (in_val (op c) \<sigma> 0) (pm (min i (N - 1))) else i < N \<and> bit (in_val (op c) \<sigma> 0) (pm i))"
      using sh unfolding bswap_shape_def by blast
    then have "v = y" using x(2) by simp
    then show "do_constant_folding oc ?w x k = Some r"
      "\<forall>i < 64. bit v i \<longleftrightarrow>
        (if bswap_flags k then bit x (pm (min i (N - 1))) else i < N \<and> bit x (pm i))"
      using y(2,3) x(1,3) k by (simp_all del: bswap_flags.simps)
  qed
  show ?Q
  proof (cases "oconst c 1")
    case True
    then show ?thesis
      using gen_movi_ok [OF core core_canon [OF core]] x(5,6) y(1) coreD(5) [OF core]
      by (simp add: fold_bswap_def movi_result_def k_def)
  next
    case False
    obtain z where z: "bswap_masks oc (oz c 1) = Some (z, - (2 ^ (N - 1)))" "\<And>i. bit z i \<longleftrightarrow> i < N \<and> bit (oz c 1) (pm i)"
      using sh unfolding bswap_shape_def by blast
    let ?sg = "- (2 ^ (N - 1)) :: u64"
    define h :: u64 where "h = push_bit 1 ?sg"
    have h: "bit h i \<longleftrightarrow> N \<le> i \<and> i < 64" for i
      using bit_push_minus_exp [of "N - 1" i] N(1) by (simp only: h_def) simp
    note m = bswap_masks_ok [OF y(2) z(2) bit_minus_exp h N x(4), unfolded x(3)]
    let ?f = "k AND (TCG_BSWAP_OZ OR TCG_BSWAP_OS)"
    define zs where "zs = (if ?f = TCG_BSWAP_OZ then (z, smask_from_zmask z)
      else if ?f = TCG_BSWAP_OS then if z AND ?sg \<noteq> 0 then (z OR ?sg, h) else (z, smask_from_zmask z)
      else (z OR h, 0))"
    have f: "fold_bswap c = fold_masks (c\<lparr>z_mask := fst zs, s_mask := snd zs\<rparr>)"
      using False z(1) coreD(5) [OF core]
      by (simp only: fold_bswap_def zs_def k_def h_def Let_def case_prod_unfold if_False option.case fst_conv snd_conv)
    have c: "canon ?w r = r" using core_canon [OF core] x(5) by simp
    have zs: "zmask_ok ?w r (fst zs) \<and> smask_ok r (snd zs)"
    proof (cases "?f = TCG_BSWAP_OZ")
      case True
      then show ?thesis
        using m(1) [OF bswap_flag_cases(1)] smask_from_zmask_ok [OF _ c] by (simp add: zs_def)
    next
      case nz: False
      show ?thesis
      proof (cases "?f = TCG_BSWAP_OS")
        case True
        then show ?thesis
          using nz m(2,3) [OF bswap_flag_cases(2) [OF True]] smask_from_zmask_ok [OF _ c]
          by (cases "z AND ?sg = 0") (simp_all add: zs_def)
      qed (use nz m(4) in \<open>simp add: zs_def\<close>)
    qed
    have S: "smask_ok r (snd zs)" and Z: "zmask_ok (ctype c) r (fst zs)" using zs x(5) by simp_all
    note st = masks_step [OF p Z S amask_ok_none]
    show ?thesis unfolding f by (rule st) (simp add: no_masks_a [OF nm])
  qed
qed

end
