(* ===== verification/Opt_Fields.thy ===== *)
theory Opt_Fields
  imports Opt_Bits
begin

text \<open>
  Counts of bits, bit fields and shifts: why the constants and the known bits their folders compute are those
  of the result.
\<close>

section \<open>Counts\<close>

lemma of_nat_zmask:
  assumes "n < 2 ^ k" "k \<le> width_bits w"
  shows "zmask_ok w (canon w (of_nat n)) (mask k OR z)"
proof -
  have "bit (mask k OR z) i" if "i < width_bits w" "bit (of_nat n :: u64) i" for i
  proof -
    have "bit n i" using that(2) by (simp add: bit_word_of_nat)
    moreover have "take_bit k n = n" using assms(1) by (simp add: take_bit_nat_eq_self)
    ultimately have "i < k" using bit_take_bit_iff [of k n i] by simp
    then show ?thesis using assms(2) that(1) by (cases w) (auto simp: bit_or_iff bit_mask_iff)
  qed
  then show ?thesis using canon_bit [of w "of_nat n"] by (simp add: zmask_ok_def)
qed

lemma ctpop_value:
  "op_value (Tcg (Op_rr U_ctpop w)) v k = Some y \<Longrightarrow>
     \<exists>n. y = of_nat n \<and> n < 2 ^ (case w of I32 \<Rightarrow> 6 | I64 \<Rightarrow> 7)"
  using ctpop_word_le [of "lo32 (v 0)"] ctpop_word_le [of "v 0"]
  by (cases w) (auto intro!: exI)

lemma ctpop_masks_ok:
  "folder_ok E \<sigma> c0 r (pending \<sigma> c0 r (Tcg (Op_rr U_ctpop w))) ctpop_masks (unfolded \<sigma> c0 r)"
proof (rule folder_okI)
  let ?oc = "Tcg (Op_rr U_ctpop w)"
  fix c assume p: "pending \<sigma> c0 r ?oc c"
  note core = pending_core [OF p]
  obtain v where v: "op_value ?oc (in_val (op c) \<sigma>) (imm_val (op c)) = Some v" "canon (ctype c) v = r"
    by (rule core_value [OF core])
  have w: "ctype c = w" using coreD(7) [OF core] by simp
  obtain n where n: "v = of_nat n" "n < 2 ^ (case w of I32 \<Rightarrow> 6 | I64 \<Rightarrow> 7)" using ctpop_value [OF v(1)] by blast
  let ?z = "(case w of I32 \<Rightarrow> 32 OR 31 | I64 \<Rightarrow> 64 OR 63) :: u64"
  have m: "?z = mask (case w of I32 \<Rightarrow> 6 | I64 \<Rightarrow> 7)" by (cases w) (simp_all add: mask_eq_exp_minus_1)
  have Z: "zmask_ok w r ?z"
    using of_nat_zmask [OF n(2), of w 0] v(2) n(1) w unfolding m by (cases w) simp_all
  have S: "smask_ok r (smask_from_zmask ?z)"
    by (rule smask_from_zmask_ok [OF Z]) (use core_canon [OF core] w in simp)
  show "case ctpop_masks c of (b, c') \<Rightarrow> if b then folded E \<sigma> c0 r c' else unfolded \<sigma> c0 r c'"
    using masks_unfolded [OF p _ S] Z by (simp add: ctpop_masks_def Let_def w)
qed

lemma fold_ctpop_ok: "op_folder_ok TYPE('w) (Tcg (Op_rr U_ctpop w)) fold_ctpop"
  unfolding fold_ctpop_def
  by (intro op_folder_okI chain fold_const1_ok const1_rr ctpop_masks_ok) simp

text \<open>Counting zeros: the count, or the second input when the first is zero.\<close>

lemma count_value:
  assumes "rr = R_clz \<or> rr = R_ctz" "canon w x = x" "alu_rrr rr w x y = Some v"
  shows "x \<noteq> 0 \<Longrightarrow> fold2_rrr rr w x 0 = Some v \<and> (\<exists>n. v = of_nat n \<and> n < width_bits w)"
    "x = 0 \<Longrightarrow> v = y"
proof -
  have z: "lo32 x = 0 \<longleftrightarrow> x = 0" if "w = I32"
    using canon_eq_iff_lo32 [of x 0] assms(2) that by simp
  show "x \<noteq> 0 \<Longrightarrow> fold2_rrr rr w x 0 = Some v \<and> (\<exists>n. v = of_nat n \<and> n < width_bits w)"
    using assms(1,3) z clz_word_less [of "lo32 x"] clz_word_less [of x] ctz_word_less [of "lo32 x"]
      ctz_word_less [of x]
    by (cases w) auto
  show "x = 0 \<Longrightarrow> v = y" using assms(1,3) by (cases w) auto
qed

lemma fold_count_zeros_ok:
  assumes "rr = R_clz \<or> rr = R_ctz"
  shows "op_folder_ok TYPE('w) (Tcg (Op_rrr rr w)) fold_count_zeros"
proof (intro op_folder_okI folder_okI)
  fix E :: "'w ir_env" and \<sigma> :: "'w ir" and c0 r c
  let ?oc = "Tcg (Op_rrr rr w)"
  assume p: "pending \<sigma> c0 r ?oc c"
  note core = pending_core [OF p]
  obtain x y v where f: "in_val (op c) \<sigma> 0 = x" "in_val (op c) \<sigma> 1 = y" "alu_rrr rr w x y = Some v"
      "canon w v = r" "canon w x = x" "zmask_ok w y (oz c 2)" "ctype c = w"
    by (rule rrr_core [OF core]) blast
  note cv = count_value [OF assms f(5,3)]
  have k: "oval c 1 = x" if "oconst c 1" using core_const [OF core, of 0] that f(1) by (simp add: nb_iargs_def)
  let ?m = "(case w of I32 \<Rightarrow> 31 | I64 \<Rightarrow> 63) :: u64"
  have m: "?m = mask (case w of I32 \<Rightarrow> 5 | I64 \<Rightarrow> 6)" by (cases w) (simp_all add: mask_eq_exp_minus_1)
  have Z: "zmask_ok w r (oz c 2 OR ?m)"
  proof (cases "x = 0")
    case True
    then show ?thesis
      using cv(2) f(4,6) canon_bit [OF f(4)] by (auto simp: zmask_ok_def bit_or_iff)
  next
    case False
    then obtain n where "v = of_nat n" "n < 2 ^ (case w of I32 \<Rightarrow> 5 | I64 \<Rightarrow> 6)" using cv(1) by (cases w) auto
    then show ?thesis
      using of_nat_zmask [of n _ w "oz c 2"] f(4) unfolding m by (cases w) (simp_all add: or.commute)
  qed
  have S: "smask_ok r (smask_from_zmask (oz c 2 OR ?m))"
    by (rule smask_from_zmask_ok [OF Z]) (use core_canon [OF core] f(7) in simp)
  show "case fold_count_zeros c of (b, c') \<Rightarrow> if b then folded E \<sigma> c0 r c' else unfolded \<sigma> c0 r c'"
  proof (cases "oconst c 1")
    case True
    show ?thesis
    proof (cases "x = 0")
      case True
      then show ?thesis
        using gen_mov_ok [OF core, of 1 E] f k \<open>oconst c 1\<close> cv(2)
        by (simp add: fold_count_zeros_def nb_iargs_def numeral_2_eq_2)
    next
      case False
      then show ?thesis
        using gen_movi_ok [OF core core_canon [OF core]] f k \<open>oconst c 1\<close> cv(1) coreD(5) [OF core]
        by (simp add: fold_count_zeros_def movi_result_def do_constant_folding_canon)
    qed
  next
    case False
    then show ?thesis
      using masks_unfolded [OF p _ S] Z f(7) by (simp add: fold_count_zeros_def Let_def)
  qed
qed

section \<open>Bit fields\<close>

lemma bitfield_64: "bitfield_ok (width_bits w) pos len \<Longrightarrow> bitfield_ok 64 pos len"
  by (cases w) (auto simp: bitfield_ok_def)

lemma extract_bits:
  assumes "extract_value w x pos len = Some v"
  shows "bitfield_ok (width_bits w) pos len" "\<And>i. i < width_bits w \<Longrightarrow> bit v i \<longleftrightarrow> i < len \<and> bit x (pos + i)"
proof -
  show b: "bitfield_ok (width_bits w) pos len"
    using assms by (auto simp: extract_value_def split: tcg_width.splits if_splits)
  fix i assume "i < width_bits w"
  then show "bit v i \<longleftrightarrow> i < len \<and> bit x (pos + i)"
    using assms b
    by (cases w) (auto simp: extract_value_def bit_extract32 bit_extract64 bitfield_ok_def bit_simps split: if_splits)
qed

lemma core_imm2:
  assumes "core \<sigma> c0 r oc c" "nb_iargs oc = n"
  shows "imm_val (op c) 0 = oimm c (Suc n)" "imm_val (op c) 1 = oimm c (Suc (Suc n))"
  using core_imm_val [OF assms(1)] assms(2) by simp_all

lemma fold_extract_ok: "op_folder_ok TYPE('w) (Tcg (Op_extract w)) fold_extract"
proof (intro op_folder_okI folder_okI)
  fix E :: "'w ir_env" and \<sigma> :: "'w ir" and c0 r c
  let ?oc = "Tcg (Op_extract w)"
  assume p: "pending \<sigma> c0 r ?oc c"
  then have core: "core \<sigma> c0 r ?oc c" and nm: "no_masks c" by (simp_all add: pending_def)
  obtain x v where x: "in_val (op c) \<sigma> 0 = x" "op_value ?oc (in_val (op c) \<sigma>) (imm_val (op c)) = Some v"
      "canon (op_type ?oc) v = r" "canon w x = x" "zmask_ok w x (oz c 1)" "ctype c = op_type ?oc"
      "oconst c 1 \<Longrightarrow> oval c 1 = x"
    by (rule core_input1 [OF core, of w]) (simp, blast)
  define pos len where "pos = unat (oimm c 2)" and "len = unat (oimm c 3)"
  have w: "ctype c = w" "canon w v = r" using x(3,6) by simp_all
  have v: "extract_value w x pos len = Some v"
    using x(1,2) core_imm2 [OF core, of 1] by (simp add: pos_def len_def nb_iargs_def numeral_2_eq_2 numeral_3_eq_3)
  note b = extract_bits [OF v]
  have b64: "bitfield_ok 64 pos len" by (rule bitfield_64 [OF b(1)])
  have len: "len \<le> 64" "pos + len \<le> width_bits w" using b(1) b64 by (auto simp: bitfield_ok_def)
  have r: "bit r i \<longleftrightarrow> i < len \<and> bit x (pos + i)" if "i < width_bits w" for i
    using canon_bit [OF w(2) that] b(2) [OF that] by simp
  let ?z = "extract64 (oz c 1) pos len"
  have c: "canon w r = r" using core_canon [OF core] w(1) by simp
  have Z: "zmask_ok w r ?z"
    using r zmask_okD [OF x(5)] len by (auto simp: zmask_ok_def bit_extract64)
  let ?a = "if pos = 0 then oz c 1 XOR ?z else - 1"
  have A: "amask_ok ?oc ?a r (in_val (op c) \<sigma> 0)"
  proof (cases "pos = 0")
    case True
    have "bit r i = bit x i" if "i < width_bits w" "\<not> bit (oz c 1 XOR ?z) i" for i
      using that r [of i] zmask_okD [OF x(5), of i] True len(1) by (auto simp: bit_xor_iff bit_extract64)
    then have "amask_ok ?oc (oz c 1 XOR ?z) r x" by (intro amask_okI) simp_all
    then show ?thesis using True x(1) by simp
  qed simp
  note st = masks_step [OF p Z [folded w(1)] smask_from_zmask_ok [OF Z c] A]
  show "case fold_extract c of (b, c') \<Rightarrow> if b then folded E \<sigma> c0 r c' else unfolded \<sigma> c0 r c'"
  proof (cases "oconst c 1")
    case True
    have "canon w (extract64 x pos len) = canon w r"
      by (rule canon_eqI) (use r len in \<open>simp add: bit_extract64\<close>)
    then show ?thesis
      using gen_movi_ok [OF core, of "extract64 x pos len"] True x(7) b64 c w(1)
      by (simp add: fold_extract_def pos_def [symmetric] len_def [symmetric])
  next
    case False
    then have "fold_extract c = fold_masks ((if pos = 0 then c\<lparr>a_mask := oz c 1 XOR ?z\<rparr> else c)
        \<lparr>z_mask := ?z, s_mask := smask_from_zmask ?z\<rparr>)"
      using b64 by (simp add: fold_extract_def Let_def pos_def len_def)
    then show ?thesis by (simp only:) (rule st, cases "pos = 0"; simp add: no_masks_a [OF nm])
  qed
qed

lemma sextract_bits:
  assumes "sextract_value w x pos len = Some v"
  shows "bitfield_ok (width_bits w) pos len" "\<And>i. bit v i \<longleftrightarrow> i < 64 \<and> bit x (pos + min i (len - 1))"
proof -
  show b: "bitfield_ok (width_bits w) pos len"
    using assms by (auto simp: sextract_value_def split: tcg_width.splits if_splits)
  fix i
  show "bit v i \<longleftrightarrow> i < 64 \<and> bit x (pos + min i (len - 1))"
  proof (cases w)
    case I32
    then have b32: "bitfield_ok 32 pos len" and v: "v = sext32 (sextract32 (lo32 x) pos len)"
      using b assms by (auto simp: sextract_value_def)
    have m: "min (min i 31) (len - 1) = min i (len - 1)" "pos + min i (len - 1) < 32"
      using b32 by (auto simp: bitfield_ok_def)
    show ?thesis
      unfolding v bit_sext32 bit_sextract32 [OF b32] m(1) using m(2) by (auto simp: bit_ucast_iff)
  next
    case I64
    then show ?thesis using assms b by (auto simp: sextract_value_def bit_sextract64 split: if_splits)
  qed
qed

lemma sextract_smask:
  assumes r: "\<And>i. bit r i \<longleftrightarrow> i < 64 \<and> bit x (pos + min i (len - 1))" and s: "smask_ok x s"
    and b: "bitfield_ok 64 pos len"
    and s': "\<And>i. bit s' i \<Longrightarrow> bit s (pos + min i (len - 1)) \<or> len \<le> i"
  shows "smask_ok r s'"
proof (rule smask_okI)
  fix i j :: nat
  assume a: "bit s' i" "i < 64" "j < 64" "i \<le> Suc j"
  have m63: "min 63 (len - 1) = len - 1" using b by (auto simp: bitfield_ok_def)
  show "bit r j = bit r 63"
  proof (cases "len - 1 \<le> j")
    case True
    then show ?thesis using r [of j] r [of 63] a(3) m63 by (simp add: min_absorb2)
  next
    case False
    then have "bit s (pos + i)" using s' [OF a(1)] a(4) b by (auto simp: bitfield_ok_def min_def split: if_splits)
    moreover have "pos + i \<le> Suc (pos + j)" "pos + i \<le> Suc (pos + (len - 1))" "pos + j < 64" "pos + (len - 1) < 64"
      using a(4) False b by (auto simp: bitfield_ok_def)
    ultimately have "bit x (pos + j) = bit x (pos + (len - 1))"
      using smask_okD [OF s] by blast
    then show ?thesis using r [of j] r [of 63] a(3) m63 False by (simp add: min_absorb1)
  qed
qed

lemma sextract_same:
  assumes r: "\<And>i. bit r i \<longleftrightarrow> i < 64 \<and> bit x (min i (len - 1))" and s: "smask_ok x s" and x: "canon w x = x"
    and b: "bitfield_ok (width_bits w) 0 len"
    and s': "\<And>i. len \<le> i \<Longrightarrow> i < 64 \<Longrightarrow> bit s' i" and a: "canon w (s' AND NOT s) = 0"
  shows "x = r"
proof -
  have W: "width_bits w \<le> 64" "0 < len" "len \<le> width_bits w" using b by (cases w; simp add: bitfield_ok_def)+
  have top: "bit x k = bit x (len - 1)" if "len - 1 \<le> k" "k < 64" for k
  proof (cases "len = width_bits w")
    case True
    then show ?thesis
      using bit_canon [of w x k] bit_canon [of w x "len - 1"] x that W by (simp add: min_absorb2)
  next
    case False
    then have l: "len < width_bits w" using W by simp
    then have "\<not> bit (s' AND NOT s) len" using canon_bit_eq [of w "s' AND NOT s" 0 len] a by simp
    then have "bit s len" using s' [of len] l W by (simp add: bit_and_iff bit_not_iff)
    then show ?thesis
      using smask_okD [OF s, of len k] smask_okD [OF s, of len "len - 1"] that W by simp
  qed
  show ?thesis
  proof (rule bit_word_eqI)
    fix i assume "i < LENGTH(64)"
    then have i: "i < 64" by simp
    show "bit x i = bit r i"
    proof (cases "len - 1 \<le> i")
      case True
      then have "min i (len - 1) = len - 1" by simp
      then show ?thesis using top [OF True i] r [of i] i by simp
    next
      case False
      then have "min i (len - 1) = i" by simp
      then show ?thesis using r [of i] i by simp
    qed
  qed
qed

lemma fold_sextract_ok: "op_folder_ok TYPE('w) (Tcg (Op_sextract w)) fold_sextract"
proof (intro op_folder_okI folder_okI)
  fix E :: "'w ir_env" and \<sigma> :: "'w ir" and c0 r c
  let ?oc = "Tcg (Op_sextract w)"
  assume p: "pending \<sigma> c0 r ?oc c"
  then have core: "core \<sigma> c0 r ?oc c" and nm: "no_masks c" by (simp_all add: pending_def)
  obtain x v where x: "in_val (op c) \<sigma> 0 = x" "op_value ?oc (in_val (op c) \<sigma>) (imm_val (op c)) = Some v"
      "canon (op_type ?oc) v = r" "canon w x = x" "zmask_ok w x (oz c 1)" "ctype c = op_type ?oc"
      "oconst c 1 \<Longrightarrow> oval c 1 = x" "smask_ok x (os c 1)"
    by (rule core_input1 [OF core, of w]) (simp, blast)
  define pos len where "pos = unat (oimm c 2)" and "len = unat (oimm c 3)"
  have w: "ctype c = w" "canon w v = r" using x(3,6) by simp_all
  have v: "sextract_value w x pos len = Some v"
    using x(1,2) core_imm2 [OF core, of 1] by (simp add: pos_def len_def nb_iargs_def numeral_2_eq_2 numeral_3_eq_3)
  note b = sextract_bits [OF v]
  have b64: "bitfield_ok 64 pos len" by (rule bitfield_64 [OF b(1)])
  have len: "0 < len" "len \<le> 64" "pos + (len - 1) < width_bits w" "width_bits w \<le> 64"
    using b(1) b64 by (cases w; auto simp: bitfield_ok_def)+
  have r: "bit r i \<longleftrightarrow> i < 64 \<and> bit x (pos + min i (len - 1))" for i
  proof -
    have "min (min i (width_bits w - 1)) (len - 1) = min i (len - 1)" using len by auto
    then show ?thesis using b(2) [of "min i (width_bits w - 1)"] bit_canon [of w v i] w(2) len by auto
  qed
  let ?z = "sextract64 (oz c 1) pos len"
  let ?s = "sextract64 (os c 1) pos len OR MAKE_64BIT_MASK len (64 - len)"
  have c: "canon w r = r" using core_canon [OF core] w(1) by simp
  have Z: "zmask_ok w r ?z"
  proof -
    have "pos + min i (len - 1) < width_bits w" for i using len by auto
    then show ?thesis
      using r zmask_okD [OF x(5)] by (simp add: zmask_ok_def bit_sextract64 [OF b64])
  qed
  have S: "smask_ok r ?s"
    by (rule sextract_smask [OF r x(8) b64])
      (auto simp: bit_or_iff bit_sextract64 [OF b64] bit_MAKE_64BIT_MASK)
  have hi: "bit ?s i" if "len \<le> i" "i < 64" for i using that by (simp add: bit_or_iff bit_MAKE_64BIT_MASK)
  let ?a = "if pos = 0 then ?s AND NOT (os c 1) else - 1"
  have A: "amask_ok ?oc ?a r (in_val (op c) \<sigma> 0)"
  proof (cases "pos = 0")
    case True
    then have r0: "bit r i \<longleftrightarrow> i < 64 \<and> bit x (min i (len - 1))" for i using r by simp
    have "x = r" if "canon w (?s AND NOT (os c 1)) = 0"
      by (rule sextract_same [OF r0 x(8,4) _ hi that]) (use b(1) True in simp_all)
    then have "amask_ok ?oc (?s AND NOT (os c 1)) r x" unfolding amask_ok_def by simp
    then show ?thesis using True x(1) by simp
  qed simp
  note st = masks_step [OF p Z [folded w(1)] S A]
  show "case fold_sextract c of (b, c') \<Rightarrow> if b then folded E \<sigma> c0 r c' else unfolded \<sigma> c0 r c'"
  proof (cases "oconst c 1")
    case True
    have "sextract64 x pos len = r"
      by (rule bit_word_eqI) (simp add: bit_sextract64 [OF b64] r)
    then show ?thesis
      using gen_movi_ok [OF core, of "sextract64 x pos len"] True x(7) b64 c w(1)
      by (simp add: fold_sextract_def pos_def [symmetric] len_def [symmetric])
  next
    case False
    then have "fold_sextract c = fold_masks (if pos = 0
        then c\<lparr>z_mask := ?z, s_mask := ?s, a_mask := ?s AND NOT (os c 1)\<rparr> else c\<lparr>z_mask := ?z, s_mask := ?s\<rparr>)"
      using b64 by (simp add: fold_sextract_def Let_def pos_def len_def)
    then show ?thesis by (simp only:) (rule st, cases "pos = 0"; simp add: no_masks_a [OF nm])
  qed
qed

text \<open>Two inputs of the operation's type.\<close>

lemma core_input2:
  assumes "core \<sigma> c0 r oc c" "nb_iargs oc = 2" "in_type oc 0 = Some (op_type oc)" "in_type oc 1 = Some (op_type oc)"
  obtains x y v where "in_val (op c) \<sigma> 0 = x" "in_val (op c) \<sigma> 1 = y"
    "op_value oc (in_val (op c) \<sigma>) (imm_val (op c)) = Some v" "canon (op_type oc) v = r"
    "canon (op_type oc) x = x" "canon (op_type oc) y = y" "zmask_ok (op_type oc) x (oz c 1)"
    "zmask_ok (op_type oc) y (oz c 2)" "ctype c = op_type oc" "oconst c 1 \<Longrightarrow> oval c 1 = x"
    "oconst c 2 \<Longrightarrow> oval c 2 = y"
proof -
  obtain v where v: "op_value oc (in_val (op c) \<sigma>) (imm_val (op c)) = Some v" "canon (ctype c) v = r"
    by (rule core_value [OF assms(1)])
  have n: "0 < nb_iargs oc" "1 < nb_iargs oc" using assms(2) by simp_all
  show ?thesis
    by (rule that [of "in_val (op c) \<sigma> 0" "in_val (op c) \<sigma> 1" v])
      (use v coreD(7) [OF assms(1)] core_masks [OF assms(1) n(1) assms(3)] core_masks [OF assms(1) n(2) assms(4)]
        core_const [OF assms(1) n(1)] core_const [OF assms(1) n(2)] in \<open>simp_all add: numeral_2_eq_2\<close>)
qed

lemma sext32_or: "sext32 a OR sext32 b = sext32 (a OR b)"
  by (rule bit_word_eqI) (simp add: bit_or_iff bit_sext32)

lemma fold_extract2_ok: "op_folder_ok TYPE('w) (Op_extract2 w) fold_extract2"
proof (intro op_folder_okI folder_okI)
  fix E :: "'w ir_env" and \<sigma> :: "'w ir" and c0 r c
  let ?oc = "Op_extract2 w"
  assume p: "pending \<sigma> c0 r ?oc c"
  note core = pending_core [OF p]
  obtain x y v where x: "in_val (op c) \<sigma> 0 = x" "in_val (op c) \<sigma> 1 = y"
      "op_value ?oc (in_val (op c) \<sigma>) (imm_val (op c)) = Some v" "canon (op_type ?oc) v = r"
      "ctype c = op_type ?oc" "oconst c 1 \<Longrightarrow> oval c 1 = x" "oconst c 2 \<Longrightarrow> oval c 2 = y"
    by (rule core_input2 [OF core]) (simp_all add: nb_iargs_def)
  have "extract2_value w x y (unat (oimm c 3)) = Some v"
    using x(1-3) core_imm2(1) [OF core, of 2] by (simp add: nb_iargs_def numeral_3_eq_3)
  then have "canon w (case w of I64 \<Rightarrow> drop_bit (unat (oimm c 3)) x OR push_bit (64 - unat (oimm c 3)) y
      | I32 \<Rightarrow> zext32 (drop_bit (unat (oimm c 3)) (lo32 x)) OR sext32 (push_bit (32 - unat (oimm c 3)) (lo32 y))) = r"
    using x(4) by (cases w) (auto simp: extract2_value_def canon_I32 sext32_or split: if_splits)
  then show "case fold_extract2 c of (b, c') \<Rightarrow> if b then folded E \<sigma> c0 r c' else unfolded \<sigma> c0 r c'"
    using gen_movi_ok [OF core] x(5-7) coreD(5) [OF core] pending_unfolded [OF p]
    by (cases w) (auto simp: fold_extract2_def Let_def)
qed

lemma deposit_bits:
  assumes "deposit_value w x pos len y = Some v"
  shows "bitfield_ok (width_bits w) pos len"
    "\<forall>i < width_bits w. bit v i \<longleftrightarrow> (if pos \<le> i \<and> i < pos + len then bit y (i - pos) else bit x i)"
proof -
  show b: "bitfield_ok (width_bits w) pos len"
    using assms by (auto simp: deposit_value_def split: tcg_width.splits if_splits)
  have "bit v i \<longleftrightarrow> (if pos \<le> i \<and> i < pos + len then bit y (i - pos) else bit x i)" if "i < width_bits w" for i
    using that assms b
    by (cases w) (auto simp: deposit_value_def bit_deposit32 bit_deposit64 bit_simps)
  then show "\<forall>i < width_bits w. bit v i \<longleftrightarrow> (if pos \<le> i \<and> i < pos + len then bit y (i - pos) else bit x i)"
    by blast
qed

lemma deposit_mask:
  assumes "bitfield_ok 64 pos len"
  shows "bit (deposit64 (- 1) pos len 0) i \<longleftrightarrow> i < 64 \<and> \<not> (pos \<le> i \<and> i < pos + len)"
  using bit_deposit64 [OF assms, of "- 1" 0 i] by (auto simp: bit_simps)

lemma deposit_as_and:
  assumes b: "bitfield_ok (width_bits w) pos len"
    and v: "\<forall>i < width_bits w. bit v i \<longleftrightarrow> (if pos \<le> i \<and> i < pos + len then bit y (i - pos) else bit x i)"
  shows "x = 0 \<Longrightarrow> pos = 0 \<Longrightarrow> canon w (y AND canon w (MAKE_64BIT_MASK 0 len)) = canon w v"
    "y = 0 \<Longrightarrow> canon w (x AND canon w (deposit64 (- 1) pos len 0)) = canon w v"
proof -
  have len: "len \<le> 64" "bitfield_ok 64 pos len" using b bitfield_64 [OF b] by (auto simp: bitfield_ok_def)
  show "canon w (y AND canon w (MAKE_64BIT_MASK 0 len)) = canon w v" if "x = 0" "pos = 0"
    by (rule canon_eqI, cases w)
      (use that v len in \<open>auto simp: bit_and_iff bit_canon bit_MAKE_64BIT_MASK min_def\<close>)
  show "canon w (x AND canon w (deposit64 (- 1) pos len 0)) = canon w v" if "y = 0"
    by (rule canon_eqI, cases w)
      (use that v len in \<open>auto simp: bit_and_iff bit_canon deposit_mask min_def\<close>)
qed

lemma deposit_zmask:
  assumes b: "bitfield_ok (width_bits w) pos len"
    and v: "\<forall>i < width_bits w. bit v i \<longleftrightarrow> (if pos \<le> i \<and> i < pos + len then bit y (i - pos) else bit x i)"
    and z: "zmask_ok w x z1" "zmask_ok w y z2"
  shows "zmask_ok w (canon w v) (deposit64 z1 pos len z2)"
    "x = 0 \<Longrightarrow> pos = 0 \<Longrightarrow> zmask_ok w (canon w v) (MAKE_64BIT_MASK 0 len AND z2)"
    "y = 0 \<Longrightarrow> zmask_ok w (canon w v) (deposit64 (- 1) pos len 0 AND z1)"
proof -
  have len: "len \<le> 64" "bitfield_ok 64 pos len" "width_bits w \<le> 64"
    using b bitfield_64 [OF b] by (cases w; auto simp: bitfield_ok_def)+
  have z': "bit x i \<Longrightarrow> i < width_bits w \<Longrightarrow> bit z1 i" "bit y i \<Longrightarrow> i < width_bits w \<Longrightarrow> bit z2 i" for i
    using z by (auto simp: zmask_ok_def)
  have r: "bit (canon w v) i = bit v i" if "i < width_bits w" for i by (rule canon_bit [OF refl that])
  show "zmask_ok w (canon w v) (deposit64 z1 pos len z2)"
    unfolding zmask_ok_def using r v z' by (simp add: bit_deposit64 [OF len(2)])
  show "zmask_ok w (canon w v) (MAKE_64BIT_MASK 0 len AND z2)" if "x = 0" "pos = 0"
    unfolding zmask_ok_def using r v z' that len by (auto simp: bit_and_iff bit_MAKE_64BIT_MASK split: if_splits)
  show "zmask_ok w (canon w v) (deposit64 (- 1) pos len 0 AND z1)" if "y = 0"
    unfolding zmask_ok_def using r v z' that len by (auto simp: bit_and_iff deposit_mask split: if_splits)
qed

text \<open>Rewriting to a conjunction with a constant.\<close>

lemma arg_new_constant_op:
  "arg_new_constant n (c\<lparr>op := o1\<rparr>) = (fst (arg_new_constant n c), (snd (arg_new_constant n c))\<lparr>op := o1\<rparr>)"
  by (simp add: arg_new_constant_def Let_def init_ts_info_def upd_info_def split: tcg_width.split)

lemma to_and_ok:
  assumes p: "pending \<sigma> c0 r oc c" and i: "i < nb_iargs oc" "in_type oc i = Some w" "nb_iargs oc = 2" and w: "ctype c = w"
    and k: "arg_new_constant n c = (k, c1)"
    and r: "canon w (in_val (op c) \<sigma> i AND canon w n) = r"
    and z: "zmask_ok w r (n AND oz c (Suc i))"
    and c2: "c2 = c1\<lparr>op := const_op (Tcg (Op_rrr R_and w)) (oarg c (Suc i)) k (op c)\<rparr>"
  shows "unfolded \<sigma> c0 r (c2\<lparr>z_mask := n AND oz c2 1\<rparr>)"
proof -
  have core: "core \<sigma> c0 r oc c" using p by (rule pending_core)
  have len: "2 < length (args (op c))" using coreD(11) [OF core] i(3) by simp
  have "\<exists>v. alu_rrr R_and w (in_val (op c) \<sigma> i) (canon w n) = Some v \<and> canon w v = r" using r by simp
  then have p2: "pending \<sigma> c0 r (Tcg (Op_rrr R_and w)) c2"
    unfolding c2 by (rule const_op_pending [OF p i(1,2) w len k])
  have t: "same_frame c c1" "\<And>u. u \<in> used c \<Longrightarrow> info c1 u = info c u"
    by (rule arg_new_constant_ok [OF coreD(1) [OF core] k], assumption)+
  obtain u where u: "oarg c (Suc i) = Arg u" "u \<in> used c"
    by (rule core_input [OF core i(1)])
  have "oz c2 1 = oz c (Suc i)"
    using len u t(2) by (simp add: c2 oz_def oarg_def const_op_def arg_info_def ts_info_def)
  moreover have "ctype c2 = w" using t(1) w by (simp add: c2 same_frame_def)
  ultimately show ?thesis by (intro masks_unfolded_z [OF p2]) (simp add: z)
qed

lemma fold_deposit_ok: "op_folder_ok TYPE('w) (Tcg (Op_deposit w)) fold_deposit"
proof (intro op_folder_okI folder_okI)
  fix E :: "'w ir_env" and \<sigma> :: "'w ir" and c0 r c
  let ?oc = "Tcg (Op_deposit w)"
  assume p: "pending \<sigma> c0 r ?oc c"
  note core = pending_core [OF p]
  obtain x y v where x: "in_val (op c) \<sigma> 0 = x" "in_val (op c) \<sigma> 1 = y"
      "op_value ?oc (in_val (op c) \<sigma>) (imm_val (op c)) = Some v" "canon (op_type ?oc) v = r"
      "canon (op_type ?oc) x = x" "canon (op_type ?oc) y = y" "zmask_ok (op_type ?oc) x (oz c 1)"
      "zmask_ok (op_type ?oc) y (oz c 2)" "ctype c = op_type ?oc"
      "oconst c 1 \<Longrightarrow> oval c 1 = x" "oconst c 2 \<Longrightarrow> oval c 2 = y"
    by (rule core_input2 [OF core]) (simp_all add: nb_iargs_def)
  define pos len where "pos = unat (oimm c 3)" and "len = unat (oimm c 4)"
  have w: "ctype c = w" "canon w v = r" "zmask_ok w x (oz c 1)" "zmask_ok w y (oz c 2)" using x(4,7-9) by simp_all
  have v: "deposit_value w x pos len y = Some v"
    using x(1-3) core_imm2 [OF core, of 2] by (simp add: pos_def len_def nb_iargs_def eval_nat_numeral)
  note b = deposit_bits [OF v]
  have b64: "bitfield_ok 64 pos len" by (rule bitfield_64 [OF b(1)])
  note an = deposit_as_and [OF b, unfolded w(2)] and zm = deposit_zmask [OF b w(3,4), unfolded w(2)]
  have shape: "0 < nb_iargs ?oc" "1 < nb_iargs ?oc" "in_type ?oc i = Some w" "nb_iargs ?oc = 2" for i
    by (simp_all add: nb_iargs_def)
  have d: "fold_deposit c =
    (if oconst c 1 \<and> oconst c 2 then gen_movi (oarg c 0) (deposit64 (oval c 1) pos len (oval c 2)) c
     else if oconst c 1 \<and> oval c 1 = 0 \<and> pos = 0 then
       let (k, c1) = arg_new_constant (MAKE_64BIT_MASK 0 len) c;
           c2 = c1\<lparr>op := const_op (Tcg (Op_rrr R_and w)) (oarg c (Suc 1)) k (op c)\<rparr>
       in (False, c2\<lparr>z_mask := MAKE_64BIT_MASK 0 len AND oz c2 1\<rparr>)
     else if oconst c 2 \<and> oval c 2 = 0 then
       let (k, c1) = arg_new_constant (deposit64 (- 1) pos len 0) c;
           c2 = c1\<lparr>op := const_op (Tcg (Op_rrr R_and w)) (oarg c (Suc 0)) k (op c)\<rparr>
       in (False, c2\<lparr>z_mask := deposit64 (- 1) pos len 0 AND oz c2 1\<rparr>)
     else (False, c\<lparr>z_mask := deposit64 (oz c 1) pos len (oz c 2)\<rparr>))"
    using b64
    by (simp add: fold_deposit_def pos_def [symmetric] len_def [symmetric] w(1) set_opc_def set_oarg_def Let_def
        arg_new_constant_op case_prod_unfold const_op_def oarg_def numeral_2_eq_2)
  show "case fold_deposit c of (b, c') \<Rightarrow> if b then folded E \<sigma> c0 r c' else unfolded \<sigma> c0 r c'"
  proof (cases "oconst c 1 \<and> oconst c 2")
    case True
    have "canon w (deposit64 x pos len y) = r"
      unfolding w(2) [symmetric] by (rule canon_eqI) (use b(2) in \<open>simp add: bit_deposit64 [OF b64]\<close>)
    then show ?thesis using gen_movi_ok [OF core] True x(10,11) w(1) by (simp add: d)
  next
    case nc: False
    show ?thesis
    proof (cases "oconst c 1 \<and> oval c 1 = 0 \<and> pos = 0")
      case True
      obtain k c1 where k: "arg_new_constant (MAKE_64BIT_MASK 0 len) c = (k, c1)" by (rule prod.exhaust)
      have "x = 0" "pos = 0" using True x(10) by simp_all
      with an(1) zm(2) have "canon w (y AND canon w (MAKE_64BIT_MASK 0 len)) = r"
        "zmask_ok w r (MAKE_64BIT_MASK 0 len AND oz c (Suc 1))" by (simp_all add: numeral_2_eq_2)
      note to_and_ok [OF p shape(2,3,4) w(1) k _ _ refl, unfolded x(2), OF this]
      then show ?thesis unfolding d k Let_def using nc True by simp
    next
      case n0: False
      show ?thesis
      proof (cases "oconst c 2 \<and> oval c 2 = 0")
        case True
        obtain k c1 where k: "arg_new_constant (deposit64 (- 1) pos len 0) c = (k, c1)" by (rule prod.exhaust)
        have "y = 0" using True x(11) by simp
        with an(2) zm(3) have "canon w (x AND canon w (deposit64 (- 1) pos len 0)) = r"
          "zmask_ok w r (deposit64 (- 1) pos len 0 AND oz c (Suc 0))" by simp_all
        note to_and_ok [OF p shape(1,3,4) w(1) k _ _ refl, unfolded x(1), OF this]
        then show ?thesis unfolding d k Let_def using nc n0 True by simp
      next
        case False
        show ?thesis
          unfolding d if_not_P [OF nc] if_not_P [OF n0] if_not_P [OF False]
          using masks_unfolded_z [OF p, of "deposit64 (oz c 1) pos len (oz c 2)"] zm(1) w(1) by simp
      qed
    qed
  qed
qed

section \<open>Shifts\<close>

lemma unat_and_mask: "unat (s AND 31 :: u32) = unat s mod 32" "unat (s AND 63 :: u32) = unat s mod 64"
proof -
  show "unat (s AND 31) = unat s mod 32" by (rule unat_and_31)
  have "n AND 63 = n mod (64 :: nat)" for n
    using take_bit_eq_mask [of 6 n] by (simp add: take_bit_eq_mod mask_eq_exp_minus_1)
  then show "unat (s AND 63) = unat s mod 64" by (simp add: unsigned_and_eq)
qed

lemma mod_complement:
  fixes u M K :: nat
  assumes "K dvd M" "u \<le> M" "0 < K"
  shows "u mod K + (M - u) mod K \<in> {0, K}"
proof -
  have "(u mod K + (M - u) mod K) mod K = 0" using assms by (simp add: mod_add_eq)
  moreover have "u mod K + (M - u) mod K < 2 * K"
    using mod_less_divisor [OF assms(3), of u] mod_less_divisor [OF assms(3), of "M - u"] by linarith
  ultimately obtain k where "u mod K + (M - u) mod K = K * k" "k < 2"
    using assms(3) by (auto simp: mod_eq_0_iff_dvd elim!: dvdE)
  then show ?thesis by (cases k) (simp_all add: less_Suc_eq numeral_2_eq_2)
qed

lemma rotate_counts:
  fixes s :: u32
  shows "unat (s AND 31) + unat (- s AND 31) \<in> {0, 32}" "unat (s AND 63) + unat (- s AND 63) \<in> {0, 64}"
proof -
  have l: "unat s < 2 ^ 32" using unsigned_less [of s] by simp
  have u: "unat (- s) = (if unat s = 0 then 0 else 2 ^ 32 - unat s)"
    using unat_plus_if' [of s "- s"] l by (auto simp: unat_eq_0 split: if_splits)
  show "unat (s AND 31) + unat (- s AND 31) \<in> {0, 32}"
    unfolding unat_and_mask u using l mod_complement [of 32 "2 ^ 32" "unat s"] by simp
  show "unat (s AND 63) + unat (- s AND 63) \<in> {0, 64}"
    unfolding unat_and_mask u using l mod_complement [of 64 "2 ^ 32" "unat s"] by simp
qed

lemma rotate_bits:
  assumes "a + b = 0 \<or> a + b = LENGTH('a::len)" "j < LENGTH('a)"
  shows "bit (push_bit a w OR drop_bit b w :: 'a word) j = bit w (if j < a then j + b else j - a)"
  using assms by (auto simp: bit_simps add.commute dest: bit_imp_le_length)

text \<open>A shift by a given amount takes every bit of the result from one bit of the input, or clears it.\<close>

definition routed :: "tcg_width \<Rightarrow> (nat \<Rightarrow> nat option) \<Rightarrow> (u64 \<Rightarrow> u64) \<Rightarrow> bool" where
  "routed w sel f \<longleftrightarrow>
     (\<forall>j i. sel j = Some i \<longrightarrow> j < width_bits w \<longrightarrow> i < width_bits w)
     \<and> (\<forall>x. \<forall>j < width_bits w. bit (f x) j \<longleftrightarrow> (\<exists>i. sel j = Some i \<and> bit x i))"

definition is_shift :: "tcg_rrr \<Rightarrow> bool" where
  "is_shift rr \<longleftrightarrow> rr \<in> {R_shl, R_shr, R_sar, R_rotl, R_rotr}"

lemma routed_shl:
  "routed I32 (\<lambda>j. if n \<le> j then Some (j - n) else None) (\<lambda>x. zext32 (push_bit n (lo32 x)))"
  "routed I64 (\<lambda>j. if n \<le> j then Some (j - n) else None) (push_bit n)"
  by (auto simp: routed_def bit_simps split: if_splits)

lemma routed_shr:
  "routed I32 (\<lambda>j. if j + n < 32 then Some (j + n) else None) (\<lambda>x. zext32 (drop_bit n (lo32 x)))"
  "routed I64 (\<lambda>j. if j + n < 64 then Some (j + n) else None) (drop_bit n)"
  by (auto simp: routed_def bit_simps add.commute dest: bit_imp_le_length split: if_splits)

lemma bit_sar:
  "j < LENGTH('a) \<Longrightarrow> bit (signed_drop_bit n w :: 'a::len word) j = bit w (min (j + n) (LENGTH('a) - 1))"
  by (cases "LENGTH('a) - n \<le> j") (auto simp: bit_signed_drop_bit_iff min_def add.commute intro!: arg_cong [of _ _ "bit w"])

lemma routed_sar:
  "routed I32 (\<lambda>j. Some (min (j + n) 31)) (\<lambda>x. sext32 (signed_drop_bit n (lo32 x)))"
  "routed I64 (\<lambda>j. Some (min (j + n) 63)) (signed_drop_bit n)"
  by (auto simp: routed_def bit_sext32 bit_sar bit_ucast_iff)

lemma routed_rot:
  assumes "a + b = 0 \<or> a + b = 32"
  shows "routed I32 (\<lambda>j. Some (if j < a then j + b else j - a)) (\<lambda>x. zext32 (push_bit a (lo32 x) OR drop_bit b (lo32 x)))"
  using assms rotate_bits [of a b, where 'a = 32]
  by (auto simp: routed_def bit_ucast_iff)

lemma routed_rot64:
  assumes "a + b = 0 \<or> a + b = 64"
  shows "routed I64 (\<lambda>j. Some (if j < a then j + b else j - a)) (\<lambda>x. push_bit a x OR drop_bit b x)"
  using assms rotate_bits [of a b, where 'a = 64] by (auto simp: routed_def)

lemma shift_routed32:
  assumes "is_shift rr"
  shows "\<exists>sel f. routed I32 sel f \<and> (\<forall>x. alu_rrr rr I32 x y = Some (f x) \<and> fold2_rrr rr I32 x y = Some (f x))"
proof -
  define a b where "a = unat (lo32 (y AND 31) AND 31)" and "b = unat (- lo32 (y AND 31) AND 31)"
  have ab: "a + b = 0 \<or> a + b = 32" "b + a = 0 \<or> b + a = 32"
    using rotate_counts [of "lo32 (y AND 31)"] by (auto simp: a_def b_def)
  consider "rr = R_shl" | "rr = R_shr" | "rr = R_sar" | "rr = R_rotl" | "rr = R_rotr"
    using assms by (auto simp: is_shift_def)
  then show ?thesis
  proof cases
    case 1
    show ?thesis unfolding 1 by (intro exI conjI, rule routed_shl(1) [of "unat (y AND 31)"]) simp
  next
    case 2
    show ?thesis unfolding 2 by (intro exI conjI, rule routed_shr(1) [of "unat (y AND 31)"]) simp
  next
    case 3
    show ?thesis unfolding 3 by (intro exI conjI, rule routed_sar(1) [of "unat (y AND 31)"]) simp
  next
    case 4
    show ?thesis unfolding 4
      by (intro exI conjI, rule routed_rot [OF ab(1)]) (simp add: rol32_def a_def b_def)
  next
    case 5
    show ?thesis unfolding 5
      by (intro exI conjI, rule routed_rot [OF ab(2)]) (simp add: ror32_def a_def b_def or.commute)
  qed
qed

lemma shift_routed64:
  assumes "is_shift rr"
  shows "\<exists>sel f. routed I64 sel f \<and> (\<forall>x. alu_rrr rr I64 x y = Some (f x) \<and> fold2_rrr rr I64 x y = Some (f x))"
proof -
  define a b where "a = unat (lo32 (y AND 63) AND 63)" and "b = unat (- lo32 (y AND 63) AND 63)"
  have ab: "a + b = 0 \<or> a + b = 64" "b + a = 0 \<or> b + a = 64"
    using rotate_counts [of "lo32 (y AND 63)"] by (auto simp: a_def b_def)
  consider "rr = R_shl" | "rr = R_shr" | "rr = R_sar" | "rr = R_rotl" | "rr = R_rotr"
    using assms by (auto simp: is_shift_def)
  then show ?thesis
  proof cases
    case 1
    show ?thesis unfolding 1 by (intro exI conjI, rule routed_shl(2) [of "unat (y AND 63)"]) simp
  next
    case 2
    show ?thesis unfolding 2 by (intro exI conjI, rule routed_shr(2) [of "unat (y AND 63)"]) simp
  next
    case 3
    show ?thesis unfolding 3 by (intro exI conjI, rule routed_sar(2) [of "unat (y AND 63)"]) simp
  next
    case 4
    show ?thesis unfolding 4
      by (intro exI conjI, rule routed_rot64 [OF ab(1)]) (simp add: rol64_def a_def b_def)
  next
    case 5
    show ?thesis unfolding 5
      by (intro exI conjI, rule routed_rot64 [OF ab(2)]) (simp add: ror64_def a_def b_def or.commute)
  qed
qed

lemma shift_routed:
  assumes "is_shift rr"
  obtains sel f where "routed w sel f" "\<forall>x. alu_rrr rr w x y = Some (f x) \<and> fold2_rrr rr w x y = Some (f x)"
  using that shift_routed32 [OF assms] shift_routed64 [OF assms] by (cases w) blast+

text \<open>The amount is read as an \<open>int\<close>; only its low bits count.\<close>

lemma sext32_and_small: "sext32 (lo32 y) AND 31 = y AND 31" "sext32 (lo32 y) AND 63 = y AND 63"
proof -
  have m: "(31 :: u64) = mask 5" "(63 :: u64) = mask 6" by (simp_all add: mask_eq_exp_minus_1)
  show "sext32 (lo32 y) AND 31 = y AND 31" "sext32 (lo32 y) AND 63 = y AND 63"
    unfolding m by (auto intro!: bit_word_eqI simp: bit_and_iff bit_mask_iff bit_sext32 bit_ucast_iff min_def)
qed

lemma shift_amount: "is_shift rr \<Longrightarrow> fold2_rrr rr w x (sext32 (lo32 y)) = fold2_rrr rr w x y"
  by (cases w) (auto simp: is_shift_def sext32_and_small)

lemma routed_masks:
  assumes "routed w sel f"
  shows "zmask_ok w x z \<Longrightarrow> zmask_ok w (canon w (f x)) (canon w (f z))"
    "smask_ok x s \<Longrightarrow> smask_ok (canon w (f x)) (smask_from_smask (canon w (f s)))"
proof -
  have sel: "sel j = Some i \<Longrightarrow> j < width_bits w \<Longrightarrow> i < width_bits w"
    and f: "j < width_bits w \<Longrightarrow> bit (f x) j \<longleftrightarrow> (\<exists>i. sel j = Some i \<and> bit x i)" for i j x
    using assms by (auto simp: routed_def)
  have W: "width_bits w \<le> 64" "0 < width_bits w" by (cases w; simp)+
  show "zmask_ok w (canon w (f x)) (canon w (f z))" if "zmask_ok w x z"
    unfolding zmask_ok_def
    using canon_bit [of w "f x", OF refl] canon_bit [of w "f z", OF refl] f sel zmask_okD [OF that] by blast
  show "smask_ok (canon w (f x)) (smask_from_smask (canon w (f s)))" if s: "smask_ok x s"
  proof (rule smask_from_smask_ok)
    fix j :: nat assume j: "j < 64" "bit (canon w (f s)) j"
    let ?j = "min j (width_bits w - 1)"
    have jw: "?j < width_bits w" using W by auto
    obtain i where i: "sel ?j = Some i" "bit s i" using j f [OF jw, of s] bit_canon [of w "f s" j] by blast
    have "i < 64" using sel [OF i(1) jw] W by simp
    then have "bit x i = bit x 63" using smask_okD [OF s i(2), of i] by simp
    then show "bit (canon w (f x)) j = bit x 63"
      using j f [OF jw, of x] bit_canon [of w "f x" j] i(1) by auto
  qed
qed

text \<open>A right shift by an unknown amount keeps sign repetitions, a logical one only of a positive number.\<close>

lemma sar_smask:
  assumes x: "canon w x = x" "smask_ok x s" and v: "alu_rrr R_sar w x y = Some v"
  shows "smask_ok (canon w v) s"
proof (rule smask_okI)
  fix i j :: nat
  assume a: "bit s i" "i < 64" "j < 64" "i \<le> Suc j"
  obtain n where n: "bit (canon w v) k = bit x (min (min k (width_bits w - 1) + n) (width_bits w - 1))" if "k < 64" for k
  proof (cases w)
    case I32
    then show ?thesis
      using v by (intro that [of "unat (y AND 31)"]) (auto simp: bit_canon bit_sar bit_sext32 bit_ucast_iff)
  next
    case I64
    then show ?thesis
      using v by (intro that [of "unat (y AND 63)"]) (auto simp: bit_sar)
  qed
  have W: "0 < width_bits w" "width_bits w \<le> 64" by (cases w; simp)+
  have hi: "bit x (min k (width_bits w - 1)) = bit x 63" if "i \<le> Suc k" "k < 64" for k
    using smask_okD [OF x(2) a(1) that] bit_canon [of w x k] x(1) that(2) by simp
  have "min (min j (width_bits w - 1) + n) (width_bits w - 1) = min (min (j + n) 63) (width_bits w - 1)"
    "min (min 63 (width_bits w - 1) + n) (width_bits w - 1) = min 63 (width_bits w - 1)" using W by auto
  moreover have "i \<le> Suc (min (j + n) 63)" "min (j + n) 63 < 64" using a by auto
  ultimately show "bit (canon w v) j = bit (canon w v) 63"
    using n [OF a(3)] n [of 63] hi [of "min (j + n) 63"] hi [of 63] a(2) by simp
qed

lemma bit_low_bit: "bit (s AND - s :: u64) i \<longleftrightarrow> bit s i \<and> \<not> (\<exists>k < i. bit s k)"
  using bit_imp_le_length [of s i] by (auto simp: bit_and_iff bit_minus_word)

lemma shr_smask:
  assumes x: "canon w x = x" "smask_ok x s" "zmask_ok w x z" and v: "alu_rrr R_shr w x y = Some v"
    and s0: "\<not> bit s 0" and t_def: "t = drop_bit 1 (s AND - s)" and sg: "z AND t = 0"
  shows "smask_ok (canon w v) s"
proof (rule smask_okI)
  fix i j :: nat
  assume a: "bit s i" "i < 64" "j < 64" "i \<le> Suc j"
  have W: "0 < width_bits w" "width_bits w \<le> 64" by (cases w; simp)+
  have top: "bit (canon w v) k = bit (canon w v) 63" if "width_bits w - 1 \<le> k" "k < 64" for k
    using bit_canon [of w v k] bit_canon [of w v 63] that W by (simp add: min_absorb2)
  define m where "m = (LEAST k. bit s k)"
  have m: "bit s m" "m \<le> i" using LeastI [of "bit s", OF a(1)] Least_le [of "bit s", OF a(1)] by (simp_all add: m_def)
  have "m \<noteq> 0" using m(1) s0 by (cases m) auto
  then obtain m' where m': "m = Suc m'" by (cases m) auto
  have "\<not> (\<exists>k < m. bit s k)" unfolding m_def using not_less_Least by blast
  then have "bit (s AND - s) m" unfolding bit_low_bit using m(1) by simp
  then have t: "bit t m'" unfolding t_def bit_drop_bit_eq using m' by simp
  have "\<not> bit (z AND t) m'" using sg by simp
  then have nz: "\<not> bit z m'" unfolding bit_and_iff using t by simp
  show "bit (canon w v) j = bit (canon w v) 63"
  proof (cases "width_bits w \<le> m'")
    case True
    then show ?thesis using top [of j] a(3,4) m(2) m' by simp
  next
    case False
    then have "\<not> bit x m'" using zmask_okD [OF x(3), of m'] nz by auto
    moreover have "bit x m' = bit x 63" using smask_okD [OF x(2) m(1), of m'] m' False W by simp
    ultimately have zero: "\<not> bit x k" if "m' \<le> k" for k
      using smask_okD [OF x(2) m(1), of k] that m' bit_imp_le_length [of x k] by (cases "k < 64") auto
    have "\<not> bit (canon w v) k" if k: "m' \<le> k" for k
    proof -
      have "\<not> bit v k'" if k': "m' \<le> k'" for k'
      proof (cases w)
        case I32
        then have "v = zext32 (drop_bit (unat (y AND 31)) (lo32 x))" using v by simp
        then show ?thesis using zero [of "unat (y AND 31) + k'"] k' by (simp add: bit_simps)
      next
        case I64
        then have "v = drop_bit (unat (y AND 63)) x" using v by simp
        then show ?thesis using zero [of "unat (y AND 63) + k'"] k' by (simp add: bit_simps)
      qed
      moreover have "m' \<le> min k (width_bits w - 1)" using k False by simp
      ultimately show ?thesis using bit_canon [of w v k] by blast
    qed
    moreover have "m' \<le> j" "m' \<le> 63" using a(2,4) m(2) m' by simp_all
    ultimately show ?thesis by blast
  qed
qed

end
