(* ===== verification/Opt_Shift.thy ===== *)
theory Opt_Shift
  imports Opt_Fields
begin

text \<open>
  The folders of shifts.  A logical right shift by an unknown amount is right only when the known sign
  repetitions of its input do not reach bit 0; \<open>Opt_Flaw\<close> has a counterexample for the other case.
\<close>

lemma shift_masks_result:
  assumes p: "pending \<sigma> c0 r (Tcg (Op_rrr rr w)) c" and sh: "is_shift rr"
    and low: "rr = R_shr \<Longrightarrow> \<not> bit (os c 1) 0"
  shows "case shift_masks c of (b, c') \<Rightarrow> if b then folded E \<sigma> c0 r c' else unfolded \<sigma> c0 r c'"
proof -
  let ?oc = "Tcg (Op_rrr rr w)"
  have core: "core \<sigma> c0 r ?oc c" and nm: "no_masks c" using p by (simp_all add: pending_def)
  obtain x y v where f: "alu_rrr rr w x y = Some v" "canon w v = r"
      "canon w x = x" "zmask_ok w x (oz c 1)" "smask_ok x (os c 1)" "ctype c = w" "oconst c 2 \<Longrightarrow> oval c 2 = y"
    by (rule rrr_core [OF core]) blast
  have o: "opc (op c) = ?oc" by (rule coreD(5) [OF core])
  show ?thesis
  proof (cases "oconst c 2")
    case True
    obtain sel g where g: "routed w sel g" "\<forall>x. alu_rrr rr w x y = Some (g x) \<and> fold2_rrr rr w x y = Some (g x)"
      by (rule shift_routed [OF sh])
    have r: "r = canon w (g x)" using f(1,2) g(2) by auto
    have k: "do_constant_folding ?oc w m (sext32 (lo32 (oval c 2))) = Some (canon w (g m))" for m
      using shift_amount [OF sh] g(2) f(7) True by (simp add: do_constant_folding_canon)
    have Z: "zmask_ok (ctype c) r (canon w (g (oz c 1)))"
      and S: "smask_ok r (smask_from_smask (canon w (g (os c 1))))"
      using routed_masks [OF g(1)] f(4-6) r by simp_all
    note st = masks_step [OF p Z S amask_ok_none]
    have "shift_masks c = fold_masks (c\<lparr>z_mask := canon w (g (oz c 1)), s_mask := smask_from_smask (canon w (g (os c 1)))\<rparr>)"
      using True k by (simp add: shift_masks_def Let_def o f(6))
    then show ?thesis by (simp only:) (rule st, simp add: no_masks_a [OF nm])
  next
    case False
    have un: "unfolded \<sigma> c0 r c" by (rule pending_unfolded [OF p])
    define t :: u64 where "t = drop_bit 1 (os c 1 AND - os c 1)"
    have sar: "unfolded \<sigma> c0 r (c\<lparr>s_mask := os c 1\<rparr>)" if "rr = R_sar"
      by (rule masks_unfolded_s [OF p]) (use sar_smask [OF f(3,5)] f(1,2) that in auto)
    have shr: "unfolded \<sigma> c0 r (c\<lparr>s_mask := os c 1\<rparr>)" if "rr = R_shr" "oz c 1 AND t = 0"
      by (rule masks_unfolded_s [OF p])
        (use shr_smask [OF f(3,5,4) _ low t_def that(2)] f(1,2) that in auto)
    have "shift_masks c = (case rr of R_sar \<Rightarrow> (False, c\<lparr>s_mask := os c 1\<rparr>)
        | R_shr \<Rightarrow> if oz c 1 AND t = 0 then (False, c\<lparr>s_mask := os c 1\<rparr>) else (False, c) | _ \<Rightarrow> (False, c))"
      using False unfolding shift_masks_def Let_def o t_def by (cases rr) simp_all
    then show ?thesis using sar shr un by (cases rr) auto
  qed
qed

lemma fold_shift_ok:
  assumes "is_shift rr" "rr \<noteq> R_shr"
  shows "op_folder_ok TYPE('w) (Tcg (Op_rrr rr w)) fold_shift"
proof -
  have "folder_ok E \<sigma> c0 r (pending \<sigma> c0 r (Tcg (Op_rrr rr w))) shift_masks (unfolded \<sigma> c0 r)"
    for E :: "'w ir_env" and \<sigma> c0 r
    by (rule folder_okI, rule shift_masks_result) (use assms in auto)
  then show ?thesis
    unfolding fold_shift_def
    by (intro op_folder_okI chain rrr_rules fold_ix_to_i_ok laws_shift_zero laws_shift_by_zero)
      (use assms in \<open>simp_all add: is_shift_def\<close>)
qed

text \<open>A folder that leaves the context alone when it does not fold keeps any extra condition.\<close>

lemma folder_ok_extra:
  assumes "folder_ok E \<sigma> c0 r P f Q" "\<And>c c'. f c = (False, c') \<Longrightarrow> c' = c"
  shows "folder_ok E \<sigma> c0 r (\<lambda>c. P c \<and> R c) f (\<lambda>c. Q c \<and> R c)"
proof (rule folder_okI)
  fix c assume c: "P c \<and> R c"
  obtain b c' where f: "f c = (b, c')" by (rule prod.exhaust)
  show "case f c of (b, c') \<Rightarrow> if b then folded E \<sigma> c0 r c' else Q c' \<and> R c'"
    using folder_okD [OF assms(1) _ f] assms(2) [of c c'] c f by auto
qed

lemma gen_movi_done: "fst (gen_movi a v c)"
  by (simp add: gen_movi_def split: prod.split)

lemma gen_mov_done: "fst (gen_mov a b c)"
  by (simp add: gen_mov_def split: prod.split)

lemma unchanged_unless_folded:
  "fold_const2 c = (False, c') \<Longrightarrow> c' = c"
  "fold_ix_to_i i c = (False, c') \<Longrightarrow> c' = c"
  "fold_xi_to_x i c = (False, c') \<Longrightarrow> c' = c"
  using gen_movi_done gen_mov_done
  by (auto simp: fold_const2_def movi_result_def assert_fails_def fold_ix_to_i_def fold_xi_to_x_def
      split: if_splits option.splits dest: arg_cong [of _ _ fst])

lemma fold_shr_ok:
  "folder_ok E \<sigma> c0 r (\<lambda>c. pending \<sigma> c0 r (Tcg (Op_rrr R_shr w)) c \<and> \<not> bit (os c 1) 0) fold_shift (unfolded \<sigma> c0 r)"
proof -
  let ?P = "\<lambda>c. pending \<sigma> c0 r (Tcg (Op_rrr R_shr w)) c \<and> \<not> bit (os c 1) 0"
  have sh: "is_shift R_shr" by (simp add: is_shift_def)
  have l: "value_law (Tcg (Op_rrr R_shr w)) (\<lambda>v. v 0 = 0) (\<lambda>v. 0)"
    "value_law (Tcg (Op_rrr R_shr w)) (\<lambda>v. v 1 = 0) (\<lambda>v. v 0)"
    using laws_shift_zero [of R_shr w] laws_shift_by_zero [of R_shr w] by simp_all
  have "folder_ok E \<sigma> c0 r ?P fold_const2 ?P"
    by (intro folder_ok_extra rrr_rules unchanged_unless_folded)
  moreover have "folder_ok E \<sigma> c0 r ?P (fold_ix_to_i 0) ?P"
    using l(1) by (intro folder_ok_extra fold_ix_to_i_ok unchanged_unless_folded)
  moreover have "folder_ok E \<sigma> c0 r ?P (fold_xi_to_x 0) ?P"
    using l(2) by (intro folder_ok_extra rrr_rules unchanged_unless_folded)
  moreover have "folder_ok E \<sigma> c0 r ?P shift_masks (unfolded \<sigma> c0 r)"
    by (rule folder_okI, rule shift_masks_result) (use sh in auto)
  ultimately show ?thesis unfolding fold_shift_def by (intro or_else_ok)
qed

end
