(* ===== verification/Opt_Cond.thy ===== *)
theory Opt_Cond
  imports Opt_Shift
begin

text \<open>
  Folding of comparisons: what \<open>do_constant_folding_cond\<close> and its double-word variant find is the value the
  interpreter's comparison has, and the folders of \<open>setcond\<close>, \<open>movcond\<close> and \<open>setcond2\<close> use it rightly.
\<close>

section \<open>Comparisons with known result\<close>

lemma fold_cond_compare:
  "do_constant_folding_cond_32 x y c = tci_compare32 x y c"
  "do_constant_folding_cond_64 x' y' c = tci_compare64 x' y' c"
  by (simp_all add: do_constant_folding_cond_32_def tci_compare32_def do_constant_folding_cond_64_def
      tci_compare64_def Let_def)

lemma fold_cond_eq:
  "tci_compare32 x x c = Some b \<Longrightarrow> do_constant_folding_cond_eq c = Some b"
  "tci_compare64 x' x' c = Some b \<Longrightarrow> do_constant_folding_cond_eq c = Some b"
  by (auto simp: tci_compare32_def tci_compare64_def do_constant_folding_cond_eq_def TCG_COND_defs Let_def
      split: if_splits)

lemma unsigned_zero:
  "tci_compare32 x 0 TCG_COND_LTU = Some False" "tci_compare32 x 0 TCG_COND_GEU = Some True"
  "tci_compare64 x' 0 TCG_COND_LTU = Some False" "tci_compare64 x' 0 TCG_COND_GEU = Some True"
  by (simp_all add: tci_compare32_def tci_compare64_def TCG_COND_defs Let_def)

text \<open>An argument that holds a value of the type.\<close>

definition arg_ok :: "opt_context \<Rightarrow> 'w ir \<Rightarrow> tcg_width \<Rightarrow> tcgarg \<Rightarrow> u64 \<Rightarrow> bool" where
  "arg_ok c \<sigma> w a v \<longleftrightarrow> (\<exists>t. a = Arg t \<and> t \<in> used c \<and> temp_type c t = w \<and> tval \<sigma> t = v)"

lemma arg_ok_const:
  assumes "opt_ok c \<sigma>" "arg_ok c \<sigma> w a v" "arg_is_const c a"
  shows "ti_val (arg_info c a) = v"
  using assms const_val [OF assms(1)] by (auto simp: arg_ok_def arg_is_const_def ts_is_const_def arg_info_def ts_info_def)

lemma arg_ok_copies:
  assumes "opt_ok c \<sigma>" "arg_ok c \<sigma> w a v" "arg_ok c \<sigma> w b u" "args_are_copies c a b"
  shows "u = v"
  using assms ts_are_copies_ok [OF assms(1)] by (auto simp: arg_ok_def args_are_copies_def)

definition cond_sound :: "cond_fold \<Rightarrow> bool \<Rightarrow> bool" where
  "cond_sound k b \<longleftrightarrow> (case k of Unknown \<Rightarrow> True | Known b' \<Rightarrow> b' = b | Bad \<Rightarrow> False)"

lemma cond_sound_simps [simp]:
  "cond_sound Unknown b" "cond_sound (Known b') b \<longleftrightarrow> b' = b" "\<not> cond_sound Bad b"
  "cond_sound (known r) b \<longleftrightarrow> r = Some b"
  by (simp_all add: cond_sound_def known_def split: option.split)

lemma constant_folding_cond_sound:
  assumes ok: "opt_ok c \<sigma>" and x: "arg_ok c \<sigma> w x vx" and y: "arg_ok c \<sigma> w y vy"
    and b: "compare_value w vx vy cnd = Some b"
  shows "cond_sound (do_constant_folding_cond c w x y cnd) b"
proof (cases "arg_is_const c x \<and> arg_is_const c y")
  case True
  then show ?thesis
    using b arg_ok_const [OF ok x] arg_ok_const [OF ok y]
    by (cases w) (simp_all add: do_constant_folding_cond_def compare_value_def fold_cond_compare Let_def)
next
  case nc: False
  show ?thesis
  proof (cases "args_are_copies c x y")
    case True
    then have "vy = vx" by (rule arg_ok_copies [OF ok x y])
    then have "do_constant_folding_cond_eq cnd = Some b"
      using b fold_cond_eq by (cases w) (auto simp: compare_value_def)
    with nc True show ?thesis by (simp only: do_constant_folding_cond_def if_False if_True cond_sound_simps)
  next
    case ncp: False
    show ?thesis
    proof (cases "arg_is_const c y \<and> ti_val (arg_info c y) = 0 \<and> cnd \<in> {TCG_COND_LTU, TCG_COND_GEU}")
      case True
      then have "vy = 0" using arg_ok_const [OF ok y] by simp
      then have "b = (cnd = TCG_COND_GEU)"
        using b True unsigned_zero by (cases w) (auto simp: compare_value_def TCG_COND_defs)
      with nc ncp True show ?thesis by (auto simp: do_constant_folding_cond_def TCG_COND_defs)
    qed (use nc ncp in \<open>auto simp: do_constant_folding_cond_def\<close>)
  qed
qed

text \<open>The double word made of two halves.\<close>

lemma uint64_or: "tci_uint64 h l = push_bit 32 (zext32 h) OR zext32 l"
proof -
  have "push_bit 32 (zext32 h) AND zext32 l = 0" by (rule bit_word_eqI) (auto simp: bit_simps dest: bit_imp_le_length)
  then show ?thesis by (simp add: tci_uint64_def disjunctive_add_eq_or)
qed

lemma uint64_halves [simp]: "lo32 (tci_uint64 h l) = l" "lo32 (drop_bit 32 (tci_uint64 h l)) = h"
proof -
  have "\<not> bit l (32 + n)" for n using bit_imp_le_length [of l "32 + n"] by auto
  then show "lo32 (tci_uint64 h l) = l" "lo32 (drop_bit 32 (tci_uint64 h l)) = h"
    unfolding uint64_or by (auto intro!: bit_word_eqI simp: bit_simps)
qed

lemma deposit_uint64: "deposit64 l 32 32 h = tci_uint64 (lo32 h) (lo32 l)"
  unfolding uint64_or by (intro bit_word_eqI) (auto simp: bit_deposit64 bitfield_ok_def bit_simps)

lemma uint64_inject: "tci_uint64 h l = tci_uint64 h' l' \<longleftrightarrow> h = h' \<and> l = l'"
  by (metis uint64_halves)

lemma constant_folding_cond2_sound:
  assumes ok: "opt_ok c \<sigma>" and al: "arg_ok c \<sigma> I32 al val" and ah: "arg_ok c \<sigma> I32 ah vah"
    and bl: "arg_ok c \<sigma> I32 bl vbl" and bh: "arg_ok c \<sigma> I32 bh vbh"
    and b: "compare2_value val vah vbl vbh cnd = Some b"
  shows "cond_sound (do_constant_folding_cond2 c al ah bl bh cnd) b"
proof -
  have copies: "do_constant_folding_cond_eq cnd = Some b"
    if "args_are_copies c al bl" "args_are_copies c ah bh"
    using b arg_ok_copies [OF ok al bl that(1)] arg_ok_copies [OF ok ah bh that(2)] fold_cond_eq(2)
    by (simp add: compare2_value_def)
  have zero: "cnd = TCG_COND_LTU \<Longrightarrow> \<not> b" "cnd = TCG_COND_GEU \<Longrightarrow> b" if "tci_uint64 (lo32 vbh) (lo32 vbl) = 0"
    using b unsigned_zero(3,4) that by (auto simp: compare2_value_def)
  show ?thesis
    using copies zero b arg_ok_const [OF ok al] arg_ok_const [OF ok ah] arg_ok_const [OF ok bl] arg_ok_const [OF ok bh]
    by (auto simp: do_constant_folding_cond2_def Let_def deposit_uint64 fold_cond_compare compare2_value_def)
qed

section \<open>Rearranging the arguments of an operation\<close>

lemma op_value_cong:
  assumes "\<And>i. i < nb_iargs oc \<Longrightarrow> v i = v' i" "\<And>j. j < snd (snd (op_args oc)) \<Longrightarrow> k j = k' j"
  shows "op_value oc v k = op_value oc v' k'"
proof -
  have imm: "u \<noteq> U_bswap16 \<Longrightarrow> u \<noteq> U_bswap32 \<Longrightarrow> rr_value u w n a = rr_value u w n' a" for u w n n' a
    by (cases u) simp_all
  show ?thesis
  proof (cases oc)
    case (Tcg t)
    then show ?thesis
    proof (cases t)
      case (Op_rr u w)
      then show ?thesis
        using Tcg assms imm by (cases "u = U_bswap16 \<or> u = U_bswap32") (auto simp: nb_iargs_def)
    next
      case (Op_movcond w)
      then have "v 0 = v' 0" "v 1 = v' 1" "v 2 = v' 2" "v 3 = v' 3" "k 0 = k' 0"
        using Tcg assms by (simp_all add: nb_iargs_def)
      then show ?thesis using Tcg Op_movcond by (simp cong: if_cong)
    qed (use Tcg assms in \<open>simp_all add: nb_iargs_def\<close>)
  qed (use assms in \<open>simp_all add: nb_iargs_def\<close>)
qed

lemma core_rearrange:
  assumes core: "core \<sigma> c0 r oc c" and oc': "is_op1 oc'" "op_type oc' = ctype c" "nb_args oc' \<le> length as"
    and d: "as ! 0 = args (op c) ! 0"
    and pm: "\<And>i. i < nb_iargs oc' \<Longrightarrow>
      pm i < nb_iargs oc \<and> in_type oc' i = in_type oc (pm i) \<and> as ! Suc i = args (op c) ! Suc (pm i)"
    and v: "op_value oc' (\<lambda>i. in_val (op c) \<sigma> (pm i)) (\<lambda>j. arg_imm (as ! Suc (nb_iargs oc' + j))) = Some v"
      "canon (ctype c) v = r"
  shows "core \<sigma> c0 r oc' (c\<lparr>op := (op c)\<lparr>opc := oc', args := as\<rparr>\<rparr>)"
proof -
  let ?o = "(op c)\<lparr>opc := oc', args := as\<rparr>"
  note dd = coreD [OF core]
  have n1: "nb_oargs oc' = 1" by (rule op1_shape [OF oc'(1)])
  have inp: "input_ok c ?o i" if "i < nb_iargs oc'" for i
  proof -
    have "input_ok c (op c) (pm i)" using dd(5,8) pm [OF that] by (simp add: op_ok_def)
    then show ?thesis using pm [OF that] dd(5,10) n1 by (simp add: input_ok_def)
  qed
  have "output_ok c (op c) 0" using dd(5,8,10) by (simp add: op_ok_def)
  then have "output_ok c ?o 0" using d dd(5,7) oc'(2) by (simp add: output_ok_def)
  then have ok: "op_ok c ?o" using inp oc'(3) n1 by (simp add: op_ok_def)
  have "op_value oc' (in_val ?o \<sigma>) (imm_val ?o) = Some v"
    unfolding v(1) [symmetric]
    by (rule op_value_cong) (use pm dd(5,10) n1 in \<open>simp_all add: in_val_def imm_val_def\<close>)
  then show ?thesis
    by (intro core_replace [OF core _ oc'(1,2) ok]) (use d v(2) in \<open>simp_all add: oarg_def\<close>)
qed

text \<open>The inputs of the operation as arguments.\<close>

lemma core_arg_ok:
  assumes "core \<sigma> c0 r oc c" "i < nb_iargs oc" "in_type oc i = Some w"
  shows "arg_ok c \<sigma> w (oarg c (Suc i)) (in_val (op c) \<sigma> i)"
proof -
  obtain t where "oarg c (Suc i) = Arg t" "t \<in> used c" "type_fits (in_type oc i) (temp_type c t)"
      "in_val (op c) \<sigma> i = tval \<sigma> t"
    by (rule core_input [OF assms(1,2)])
  then show ?thesis using assms(3) by (simp add: arg_ok_def type_fits_def)
qed

section \<open>Setting a value by a condition\<close>

definition cond_op :: "tcg_opc \<Rightarrow> tcg_width \<Rightarrow> bool" where
  "cond_op oc w \<longleftrightarrow> oc = Tcg (Op_setcond w) \<or> oc = Op_negsetcond w \<or> oc = Tcg (Op_movcond w)"

lemma cond_op_shape:
  assumes "cond_op oc w"
  shows "is_op1 oc" "op_type oc = w" "1 < nb_iargs oc" "in_type oc i = Some w" "nb_args oc = Suc (Suc (nb_iargs oc))"
    "op_value oc v k = Some y \<Longrightarrow> \<exists>b. compare_value w (v 0) (v 1) (lo32 (k 0)) = Some b"
  using assms by (auto simp: cond_op_def is_op1_def nb_iargs_def nb_args_def)

lemma cond_op_swap:
  assumes "cond_op oc w" "op_value oc v k = Some y" "v' 0 = v 1" "v' 1 = v 0" "\<And>i. 1 < i \<Longrightarrow> v' i = v i"
    "lo32 (k' 0) = tcg_swap_cond (lo32 (k 0))"
  shows "op_value oc v' k' = Some y"
proof -
  have "compare_value w (v 1) (v 0) (tcg_swap_cond (lo32 (k 0))) = compare_value w (v 0) (v 1) (lo32 (k 0))"
    by (cases w) (simp_all add: compare_value_def compare_swap32 compare_swap64)
  moreover have "v' 2 = v 2" "v' 3 = v 3" using assms(5) by simp_all
  ultimately show ?thesis using assms(1-4,6) by (auto simp: cond_op_def simp del: map_option_eq_Some)
qed

lemma lo32_oimm_set: "i < length (args (op c)) \<Longrightarrow> lo32 (oimm (set_oarg i (Imm (zext32 k)) c) i) = k"
  by (simp add: oimm_def oarg_set_oarg)

lemma swap_cond_pending:
  assumes p: "pending \<sigma> c0 r oc c" and oc: "cond_op oc w" and n: "n = Suc (nb_iargs oc)"
    and sw: "swap_commutative dest 1 2 c = (sw, c1)" and k: "k = lo32 (oimm c n)"
    and k': "k' = (if sw then tcg_swap_cond k else k)"
    and c2: "c2 = (if sw then set_oarg n (Imm (zext32 k')) c1 else c1)"
  shows "pending \<sigma> c0 r oc c2 \<and> k' = lo32 (oimm c2 n)"
proof (cases sw)
  case True
  have core: "core \<sigma> c0 r oc c" by (rule pending_core [OF p])
  note d = coreD [OF core]
  note s = cond_op_shape [OF oc]
  have len: "n < length (args (op c))" "2 < n" using d(5,8) s(3,5) n by (auto simp: op_ok_def)
  have c1: "c1 = c\<lparr>op := swap_args 1 2 (op c)\<rparr>" using sw True swap_commutative_cases [of dest 1 2 c] by auto
  let ?as = "(args (op c))[1 := args (op c) ! 2, 2 := args (op c) ! 1, n := Imm (zext32 k')]"
  have c2': "c2 = c\<lparr>op := (op c)\<lparr>opc := oc, args := ?as\<rparr>\<rparr>"
    using True d(5) by (simp add: c2 c1 set_oarg_def swap_args_def)
  have imm: "imm_val (op c) 0 = oimm c n" using core_imm_val [OF core, of 0] n by simp
  obtain v where v: "op_value oc (in_val (op c) \<sigma>) (imm_val (op c)) = Some v" "canon (ctype c) v = r"
    by (rule core_value [OF core])
  let ?pm = "\<lambda>i :: nat. if i = 0 then 1 else if i = 1 then 0 else i"
  have "core \<sigma> c0 r oc c2"
    unfolding c2'
  proof (rule core_rearrange [OF core s(1) d(7), where pm = ?pm and v = v])
    show "op_value oc (\<lambda>i. in_val (op c) \<sigma> (?pm i)) (\<lambda>j. arg_imm (?as ! Suc (nb_iargs oc + j))) = Some v"
      by (rule cond_op_swap [OF oc v(1)]) (use len n k k' True imm in \<open>simp_all add: nth_list_update\<close>)
  qed (use len n s v(2) in \<open>auto simp: nth_list_update numeral_2_eq_2\<close>)
  then have "pending \<sigma> c0 r oc c2" using p by (simp add: pending_def c2')
  moreover have "k' = lo32 (oimm c2 n)" using len by (simp add: c2' oimm_def oarg_def)
  ultimately show ?thesis by blast
next
  case False
  then have "c1 = c" using sw swap_commutative_cases [of dest 1 2 c] by auto
  then show ?thesis using False p k k' c2 by simp
qed

lemma cond_fold_pending:
  assumes p: "pending \<sigma> c0 r oc c" and oc: "cond_op oc w" and k: "k = lo32 (oimm c (Suc (nb_iargs oc)))"
  obtains b where "compare_value w (in_val (op c) \<sigma> 0) (in_val (op c) \<sigma> 1) k = Some b"
    "cond_sound (do_constant_folding_cond c (ctype c) (oarg c 1) (oarg c 2) k) b" "ctype c = w"
proof -
  have core: "core \<sigma> c0 r oc c" by (rule pending_core [OF p])
  note s = cond_op_shape [OF oc]
  obtain v where "op_value oc (in_val (op c) \<sigma>) (imm_val (op c)) = Some v" by (rule core_value [OF core])
  from s(6) [OF this] obtain b where b: "compare_value w (in_val (op c) \<sigma> 0) (in_val (op c) \<sigma> 1) k = Some b"
    using core_imm_val [OF core, of 0] k by auto
  have w: "ctype c = w" using coreD(7) [OF core] s(2) by simp
  have "0 < nb_iargs oc" using s(3) by simp
  from constant_folding_cond_sound [OF coreD(1) [OF core] core_arg_ok [OF core this s(4)] core_arg_ok [OF core s(3,4)] b]
  have "cond_sound (do_constant_folding_cond c (ctype c) (oarg c 1) (oarg c 2) k) b"
    by (simp add: w numeral_2_eq_2)
  then show ?thesis by (rule that [OF b _ w])
qed

lemma setcond_zmask: "zmask_ok w (canon w (of_bool b)) 1" "smask_ok (canon w (of_bool b)) (smask_from_zmask 1)"
proof -
  show "zmask_ok w (canon w (of_bool b)) 1"
    using of_nat_zmask [of "of_bool b" 1 w 0] by (cases w) (simp_all add: mask_eq_exp_minus_1)
  then show "smask_ok (canon w (of_bool b)) (smask_from_zmask 1)"
    by (rule smask_from_zmask_ok) simp
qed

lemma negsetcond_smask: "smask_ok (canon w (- of_bool b)) (- 1)"
  by (cases b) (simp_all add: smask_ok_def)

lemma setcond_const_ok:
  assumes oc: "cond_op oc w" "nb_iargs oc = 2"
    and v: "\<And>v n y. op_value oc v n = Some y \<Longrightarrow>
      \<exists>b. compare_value w (v 0) (v 1) (lo32 (n 0)) = Some b \<and> y = k * of_bool b"
    and rest: "\<And>(E :: 'w ir_env) \<sigma> c0 r. folder_ok E \<sigma> c0 r (pending \<sigma> c0 r oc) rest (unfolded \<sigma> c0 r)"
  shows "op_folder_ok TYPE('w) oc (setcond_const k rest)"
proof (intro op_folder_okI folder_okI)
  fix E :: "'w ir_env" and \<sigma> :: "'w ir" and c0 r c
  assume p: "pending \<sigma> c0 r oc c"
  obtain sw c1 where sw: "swap_commutative (Some (oarg c 0)) 1 2 c = (sw, c1)" by (rule prod.exhaust)
  define k1 where "k1 = (if sw then tcg_swap_cond (lo32 (oimm c 3)) else lo32 (oimm c 3))"
  define c2 where "c2 = (if sw then set_oarg 3 (Imm (zext32 k1)) c1 else c1)"
  have p2: "pending \<sigma> c0 r oc c2" and k1: "k1 = lo32 (oimm c2 3)"
    using swap_cond_pending [OF p oc(1) _ sw refl k1_def c2_def] oc(2) by simp_all
  have core: "core \<sigma> c0 r oc c2" by (rule pending_core [OF p2])
  obtain b where b: "compare_value w (in_val (op c2) \<sigma> 0) (in_val (op c2) \<sigma> 1) k1 = Some b"
      "cond_sound (do_constant_folding_cond c2 (ctype c2) (oarg c2 1) (oarg c2 2) k1) b" "ctype c2 = w"
    by (rule cond_fold_pending [OF p2 oc(1)]) (use k1 oc(2) in auto)
  obtain y where y: "op_value oc (in_val (op c2) \<sigma>) (imm_val (op c2)) = Some y" "canon (ctype c2) y = r"
    by (rule core_value [OF core])
  have "canon (ctype c2) (k * of_bool b) = r"
    using v [OF y(1)] y(2) core_imm_val [OF core, of 0] b(1) k1 oc(2) by (auto simp: numeral_3_eq_3)
  note mv = gen_movi_ok [OF core this, of E]
  obtain b' c' where rc: "rest c2 = (b', c')" by (rule prod.exhaust)
  have d: "setcond_const k rest c =
    (case do_constant_folding_cond c2 (ctype c2) (oarg c2 1) (oarg c2 2) k1 of
       Bad \<Rightarrow> assert_fails c2 | Known b \<Rightarrow> gen_movi (oarg c2 0) (k * of_bool b) c2 | Unknown \<Rightarrow> rest c2)"
    by (simp only: setcond_const_def Let_def sw prod.case k1_def [symmetric] c2_def [symmetric])
  show "case setcond_const k rest c of (b, c') \<Rightarrow> if b then folded E \<sigma> c0 r c' else unfolded \<sigma> c0 r c'"
    unfolding d using mv folder_okD [OF rest p2 rc] rc b(2)
    by (cases "do_constant_folding_cond c2 (ctype c2) (oarg c2 1) (oarg c2 2) k1") simp_all
qed

lemma fold_setcond_ok: "op_folder_ok TYPE('w) (Tcg (Op_setcond w)) fold_setcond"
  unfolding fold_setcond_def
proof (rule setcond_const_ok [where w = w])
  fix E :: "'w ir_env" and \<sigma> :: "'w ir" and c0 r
  show "folder_ok E \<sigma> c0 r (pending \<sigma> c0 r (Tcg (Op_setcond w))) setcond_masks (unfolded \<sigma> c0 r)"
  proof (rule folder_okI)
    fix c assume p: "pending \<sigma> c0 r (Tcg (Op_setcond w)) c"
    note core = pending_core [OF p]
    obtain y where "op_value (Tcg (Op_setcond w)) (in_val (op c) \<sigma>) (imm_val (op c)) = Some y" "canon (ctype c) y = r"
      by (rule core_value [OF core])
    then obtain b where b: "canon (ctype c) (of_bool b) = r" by auto
    show "case setcond_masks c of (b, c') \<Rightarrow> if b then folded E \<sigma> c0 r c' else unfolded \<sigma> c0 r c'"
      using masks_unfolded [OF p setcond_zmask [of "ctype c" b, unfolded b]] by (simp add: setcond_masks_def)
  qed
next
  fix v n :: "nat \<Rightarrow> u64" and y
  assume "op_value (Tcg (Op_setcond w)) v n = Some y"
  then show "\<exists>b. compare_value w (v 0) (v 1) (lo32 (n 0)) = Some b \<and> y = 1 * of_bool b"
    by (cases "compare_value w (v 0) (v 1) (lo32 (n 0))") simp_all
qed (simp_all add: cond_op_def nb_iargs_def)

lemma fold_negsetcond_ok: "op_folder_ok TYPE('w) (Op_negsetcond w) fold_negsetcond"
  unfolding fold_negsetcond_def
proof (rule setcond_const_ok [where w = w])
  fix E :: "'w ir_env" and \<sigma> :: "'w ir" and c0 r
  show "folder_ok E \<sigma> c0 r (pending \<sigma> c0 r (Op_negsetcond w)) (\<lambda>c. (False, c\<lparr>s_mask := - 1\<rparr>)) (unfolded \<sigma> c0 r)"
  proof (rule folder_okI)
    fix c assume p: "pending \<sigma> c0 r (Op_negsetcond w) c"
    note core = pending_core [OF p]
    obtain y where "op_value (Op_negsetcond w) (in_val (op c) \<sigma>) (imm_val (op c)) = Some y" "canon (ctype c) y = r"
      by (rule core_value [OF core])
    then obtain b where b: "canon (ctype c) (- of_bool b) = r" by auto
    show "case (False, c\<lparr>s_mask := - 1\<rparr>) of (b, c') \<Rightarrow> if b then folded E \<sigma> c0 r c' else unfolded \<sigma> c0 r c'"
      using masks_unfolded_s [OF p negsetcond_smask [of "ctype c" b, unfolded b]] by simp
  qed
next
  fix v n :: "nat \<Rightarrow> u64" and y
  assume "op_value (Op_negsetcond w) v n = Some y"
  then show "\<exists>b. compare_value w (v 0) (v 1) (lo32 (n 0)) = Some b \<and> y = - 1 * of_bool b"
    by (cases "compare_value w (v 0) (v 1) (lo32 (n 0))") simp_all
qed (simp_all add: cond_op_def nb_iargs_def)

section \<open>Conditional moves\<close>

lemma swap_arms_pending:
  assumes p: "pending \<sigma> c0 r (Tcg (Op_movcond w)) c"
    and sw: "swap_commutative dest 4 3 c = (sw, c1)" and k: "k = lo32 (oimm c 5)"
    and k': "k' = (if sw then tcg_invert_cond k else k)"
    and c2: "c2 = (if sw then set_oarg 5 (Imm (zext32 k')) c1 else c1)"
  shows "pending \<sigma> c0 r (Tcg (Op_movcond w)) c2 \<and> k' = lo32 (oimm c2 5)"
proof (cases sw)
  case True
  let ?oc = "Tcg (Op_movcond w)"
  have core: "core \<sigma> c0 r ?oc c" by (rule pending_core [OF p])
  note d = coreD [OF core]
  have n: "nb_iargs ?oc = 4" "nb_args ?oc = 6" by (simp_all add: nb_iargs_def nb_args_def)
  have len: "5 < length (args (op c))" using d(5,8) n(2) by (auto simp: op_ok_def)
  have c1: "c1 = c\<lparr>op := swap_args 4 3 (op c)\<rparr>" using sw True swap_commutative_cases [of dest 4 3 c] by auto
  let ?as = "(args (op c))[4 := args (op c) ! 3, 3 := args (op c) ! 4, 5 := Imm (zext32 k')]"
  have c2': "c2 = c\<lparr>op := (op c)\<lparr>opc := ?oc, args := ?as\<rparr>\<rparr>"
    using True d(5) by (simp add: c2 c1 set_oarg_def swap_args_def)
  have imm: "imm_val (op c) 0 = oimm c 5" using core_imm_val [OF core, of 0] n by (simp add: eval_nat_numeral)
  obtain v where v: "op_value ?oc (in_val (op c) \<sigma>) (imm_val (op c)) = Some v" "canon (ctype c) v = r"
    by (rule core_value [OF core])
  let ?pm = "\<lambda>i :: nat. if i = 2 then 3 else if i = 3 then 2 else i"
  have "core \<sigma> c0 r ?oc c2"
    unfolding c2'
  proof (rule core_rearrange [OF core d(6,7), where pm = ?pm and v = v])
    have "compare_value w a b (tcg_invert_cond k) = map_option Not (compare_value w a b k)" for a b
      by (cases w) (simp_all add: compare_value_def compare_invert32 compare_invert64)
    then show "op_value ?oc (\<lambda>i. in_val (op c) \<sigma> (?pm i)) (\<lambda>j. arg_imm (?as ! Suc (nb_iargs ?oc + j))) = Some v"
      using v(1) len k k' True imm n by (auto simp: eval_nat_numeral)
    fix i assume i: "i < nb_iargs ?oc"
    consider "i = 0" | "i = 1" | "i = 2" | "i = 3" using i n(1) by fastforce
    then show "?pm i < nb_iargs ?oc \<and> in_type ?oc i = in_type ?oc (?pm i) \<and> ?as ! Suc i = args (op c) ! Suc (?pm i)"
      using n len by cases (simp_all add: nth_list_update eval_nat_numeral)
  qed (use len n v(2) in \<open>simp_all add: nth_list_update\<close>)
  then have "pending \<sigma> c0 r ?oc c2" using p by (simp add: pending_def c2')
  moreover have "k' = lo32 (oimm c2 5)" using len by (simp add: c2' oimm_def oarg_def)
  ultimately show ?thesis by blast
next
  case False
  then have "c1 = c" using sw swap_commutative_cases [of dest 4 3 c] by auto
  then show ?thesis using False p k k' c2 by simp
qed

lemma movcond_masks:
  assumes core: "core \<sigma> c0 r (Tcg (Op_movcond w)) c"
  shows "zmask_ok w r (oz c 3 OR oz c 4)" "smask_ok r (os c 3 AND os c 4)"
proof -
  let ?oc = "Tcg (Op_movcond w)"
  have n: "2 < nb_iargs ?oc" "3 < nb_iargs ?oc" by (simp_all add: nb_iargs_def)
  have w: "ctype c = w" using coreD(7) [OF core] by simp
  obtain v where v: "op_value ?oc (in_val (op c) \<sigma>) (imm_val (op c)) = Some v" "canon (ctype c) v = r"
    by (rule core_value [OF core])
  note m2 = core_masks [OF core n(1), of w, simplified, folded numeral_3_eq_3]
    and m3 = core_masks [OF core n(2), of w, simplified]
  have m: "zmask_ok w (in_val (op c) \<sigma> 2) (oz c 3)" "smask_ok (in_val (op c) \<sigma> 2) (os c 3)"
    "zmask_ok w (in_val (op c) \<sigma> 3) (oz c 4)" "smask_ok (in_val (op c) \<sigma> 3) (os c 4)"
    "canon w (in_val (op c) \<sigma> 2) = in_val (op c) \<sigma> 2" "canon w (in_val (op c) \<sigma> 3) = in_val (op c) \<sigma> 3"
    using m2 m3 by (simp_all add: eval_nat_numeral)
  have "v = in_val (op c) \<sigma> 2 \<or> v = in_val (op c) \<sigma> 3" using v(1) by auto
  then have r: "r = in_val (op c) \<sigma> 2 \<or> r = in_val (op c) \<sigma> 3" using v(2) w m(5,6) by auto
  show "zmask_ok w r (oz c 3 OR oz c 4)" using r m(1,3) by (auto simp: zmask_ok_def bit_or_iff)
  show "smask_ok r (os c 3 AND os c 4)" using r m(2,4) by (auto simp: smask_ok_def bit_and_iff)
qed

lemma movcond_consts_ok:
  assumes core: "core \<sigma> c0 r (Tcg (Op_movcond w)) c" and k: "k = lo32 (oimm c 5)"
    and z: "zmask_ok w r (z_mask c)" "smask_ok r (s_mask c)"
  shows "case movcond_consts k c of (b, c') \<Rightarrow> if b then folded E \<sigma> c0 r c' else unfolded \<sigma> c0 r c'"
proof -
  let ?oc = "Tcg (Op_movcond w)" and ?set = "Tcg (Op_setcond w)"
  have n: "nb_iargs ?oc = 4" "nb_args ?oc = 6" "nb_iargs ?set = 2" "nb_args ?set = 4" by (simp_all add: nb_iargs_def nb_args_def)
  note d = coreD [OF core]
  have len: "5 < length (args (op c))" using d(5,8) n(2) by (auto simp: op_ok_def)
  have w: "ctype c = w" using d(7) by simp
  have u: "unfolded \<sigma> c0 r c" using core z w by (auto simp: unfolded_def)
  have imm: "imm_val (op c) 0 = oimm c 5" using core_imm_val [OF core, of 0] n by (simp add: eval_nat_numeral)
  obtain v where v: "op_value ?oc (in_val (op c) \<sigma>) (imm_val (op c)) = Some v" "canon (ctype c) v = r"
    by (rule core_value [OF core])
  obtain b where b: "compare_value w (in_val (op c) \<sigma> 0) (in_val (op c) \<sigma> 1) k = Some b"
    using v(1) imm k by (auto split: option.splits)
  have vb: "v = (if b then in_val (op c) \<sigma> 2 else in_val (op c) \<sigma> 3)" using v(1) b imm k by simp
  have set: "unfolded \<sigma> c0 r (set_oarg 3 (Imm (zext32 k')) (set_opc ?set c))"
    if "compare_value w (in_val (op c) \<sigma> 0) (in_val (op c) \<sigma> 1) k' = Some b'" "canon w (of_bool b') = r" for k' b'
  proof -
    let ?as = "(args (op c))[3 := Imm (zext32 k')]"
    have e: "set_oarg 3 (Imm (zext32 k')) (set_opc ?set c) = c\<lparr>op := (op c)\<lparr>opc := ?set, args := ?as\<rparr>\<rparr>"
      by (simp add: set_oarg_def set_opc_def)
    have "core \<sigma> c0 r ?set (c\<lparr>op := (op c)\<lparr>opc := ?set, args := ?as\<rparr>\<rparr>)"
      by (rule core_rearrange [OF core, where pm = id and v = "of_bool b'"])
        (use len n w that in \<open>auto simp: is_op1_def eval_nat_numeral less_Suc_eq\<close>)
    then show ?thesis unfolding e using z w by (auto simp: unfolded_def)
  qed
  show ?thesis
  proof (cases "oconst c 3 \<and> oconst c 4")
    case True
    then have tv: "oval c 3 = in_val (op c) \<sigma> 2" "oval c 4 = in_val (op c) \<sigma> 3"
      using core_const [OF core, of 2] core_const [OF core, of 3] n by (simp_all add: eval_nat_numeral)
    have inv: "compare_value w a b' (tcg_invert_cond k) = map_option Not (compare_value w a b' k)" for a b'
      by (cases w) (simp_all add: compare_value_def compare_invert32 compare_invert64)
    let ?tv = "if w = I32 then sext32 (lo32 (oval c 3)) else oval c 3"
      and ?fv = "if w = I32 then sext32 (lo32 (oval c 4)) else oval c 4"
    have c: "?tv = canon w (in_val (op c) \<sigma> 2)" "?fv = canon w (in_val (op c) \<sigma> 3)" using tv by (cases w; simp add: canon_I32)+
    have one: "canon w 1 = 1" using of_bool_eq(2) by (cases w) (simp_all add: canon_I32)
    have 1: "canon w (of_bool b) = r" if "?tv = 1" "?fv = 0" using that c vb v(2) w one by (cases b) simp_all
    have 2: "canon w (of_bool (\<not> b)) = r" if "?fv = 1" "?tv = 0" using that c vb v(2) w one by (cases b) simp_all
    show ?thesis
      unfolding movcond_consts_def Let_def w if_P [OF True]
      using 1 2 set [OF b] set [of "tcg_invert_cond k" "\<not> b"] b u inv by auto
  qed (use u in \<open>auto simp: movcond_consts_def\<close>)
qed

lemma fold_movcond_ok: "op_folder_ok TYPE('w) (Tcg (Op_movcond w)) fold_movcond"
proof (intro op_folder_okI folder_okI)
  fix E :: "'w ir_env" and \<sigma> :: "'w ir" and c0 r c
  let ?oc = "Tcg (Op_movcond w)"
  assume p: "pending \<sigma> c0 r ?oc c"
  have oc: "cond_op ?oc w" "nb_iargs ?oc = 4" by (simp_all add: cond_op_def nb_iargs_def)
  obtain sw c1 where sw: "swap_commutative None 1 2 c = (sw, c1)" by (rule prod.exhaust)
  define k1 where "k1 = (if sw then tcg_swap_cond (lo32 (oimm c 5)) else lo32 (oimm c 5))"
  define c2 where "c2 = (if sw then set_oarg 5 (Imm (zext32 k1)) c1 else c1)"
  have p2: "pending \<sigma> c0 r ?oc c2" and k1: "k1 = lo32 (oimm c2 5)"
    using swap_cond_pending [OF p oc(1) _ sw refl k1_def c2_def] oc(2) by simp_all
  obtain sw' c3 where sw': "swap_commutative (Some (oarg c2 0)) 4 3 c2 = (sw', c3)" by (rule prod.exhaust)
  define k2 where "k2 = (if sw' then tcg_invert_cond k1 else k1)"
  define c4 where "c4 = (if sw' then set_oarg 5 (Imm (zext32 k2)) c3 else c3)"
  have p4: "pending \<sigma> c0 r ?oc c4" and k2: "k2 = lo32 (oimm c4 5)"
    using swap_arms_pending [OF p2 sw' k1 k2_def c4_def] by simp_all
  have core: "core \<sigma> c0 r ?oc c4" by (rule pending_core [OF p4])
  obtain b where b: "compare_value w (in_val (op c4) \<sigma> 0) (in_val (op c4) \<sigma> 1) k2 = Some b"
      "cond_sound (do_constant_folding_cond c4 (ctype c4) (oarg c4 1) (oarg c4 2) k2) b" "ctype c4 = w"
    by (rule cond_fold_pending [OF p4 oc(1)]) (use k2 oc(2) in auto)
  obtain v where v: "op_value ?oc (in_val (op c4) \<sigma>) (imm_val (op c4)) = Some v" "canon (ctype c4) v = r"
    by (rule core_value [OF core])
  have "imm_val (op c4) 0 = oimm c4 5" using core_imm_val [OF core, of 0] oc(2) by (simp add: eval_nat_numeral)
  then have "v = in_val (op c4) \<sigma> (3 - of_bool b)" using v(1) b(1) k2 by (cases b) auto
  then have mv: "case gen_mov (oarg c4 0) (oarg c4 (4 - of_bool b)) c4 of (b, c') \<Rightarrow> if b then folded E \<sigma> c0 r c' else unfolded \<sigma> c0 r c'"
    using gen_mov_ok [OF core, of "3 - of_bool b" E] v(2) oc(2) b(3) by (cases b) (simp_all add: eval_nat_numeral)
  let ?c = "c4\<lparr>z_mask := oz c4 3 OR oz c4 4, s_mask := os c4 3 AND os c4 4\<rparr>"
  have cn: "case movcond_consts k2 ?c of (b, c') \<Rightarrow> if b then folded E \<sigma> c0 r c' else unfolded \<sigma> c0 r c'"
    by (rule movcond_consts_ok [where w = w]) (use core movcond_masks [OF core] k2 in simp_all)
  have d: "fold_movcond c =
    (case do_constant_folding_cond c4 (ctype c4) (oarg c4 1) (oarg c4 2) k2 of
       Bad \<Rightarrow> assert_fails c4 | Known b \<Rightarrow> gen_mov (oarg c4 0) (oarg c4 (4 - of_bool b)) c4
     | Unknown \<Rightarrow> movcond_consts k2 ?c)"
    by (simp only: fold_movcond_def Let_def sw sw' prod.case k1_def [symmetric] c2_def [symmetric]
        k2_def [symmetric] c4_def [symmetric])
  show "case fold_movcond c of (b, c') \<Rightarrow> if b then folded E \<sigma> c0 r c' else unfolded \<sigma> c0 r c'"
    unfolding d using mv cn b(2)
    by (cases "do_constant_folding_cond c4 (ctype c4) (oarg c4 1) (oarg c4 2) k2") simp_all
qed

section \<open>Double-word comparisons\<close>

lemma swap_commutative2_cases:
  "swap_commutative2 p q c = (False, c)
   \<or> swap_commutative2 p q c = (True, c\<lparr>op := (op c)\<lparr>args := (args (op c))
        [p := args (op c) ! q, q := args (op c) ! p, p + 1 := args (op c) ! (q + 1), q + 1 := args (op c) ! (p + 1)]\<rparr>\<rparr>)"
  by (simp add: swap_commutative2_def Let_def set_oarg_def oarg_def)

text \<open>When the low or the high halves decide.\<close>

lemma compare2_halves:
  assumes "compare2_value al ah bl bh k = Some b"
  shows "k = TCG_COND_LT \<or> k = TCG_COND_GE \<Longrightarrow> bl = 0 \<Longrightarrow> bh = 0 \<Longrightarrow> tci_compare32 (lo32 ah) (lo32 bh) k = Some b"
    "k = TCG_COND_EQ \<Longrightarrow> b \<longleftrightarrow> lo32 ah = lo32 bh \<and> lo32 al = lo32 bl"
    "k = TCG_COND_NE \<Longrightarrow> b \<longleftrightarrow> \<not> (lo32 ah = lo32 bh \<and> lo32 al = lo32 bl)"
proof -
  show "b \<longleftrightarrow> lo32 ah = lo32 bh \<and> lo32 al = lo32 bl" if "k = TCG_COND_EQ"
    using assms that by (simp add: compare2_value_def tci_compare64_def uint64_inject Let_def)
  show "b \<longleftrightarrow> \<not> (lo32 ah = lo32 bh \<and> lo32 al = lo32 bl)" if "k = TCG_COND_NE"
    using assms that by (simp add: compare2_value_def tci_compare64_def uint64_inject TCG_COND_defs Let_def)
  have "h * 4294967296 + l < 0 \<longleftrightarrow> h < 0" if "0 \<le> l" "l < 4294967296" for h l :: int using that by auto
  then have "sint (tci_uint64 h l) < 0 \<longleftrightarrow> sint h < 0" for h l :: u32
    using uint_lt2p [of l] by (simp add: sint_tci_uint64)
  moreover have "tci_uint64 0 0 = 0" by (simp add: tci_uint64_def)
  ultimately show "tci_compare32 (lo32 ah) (lo32 bh) k = Some b" if "k = TCG_COND_LT \<or> k = TCG_COND_GE" "bl = 0" "bh = 0"
    using assms that by (auto simp: compare2_value_def tci_compare64_def tci_compare32_def TCG_COND_defs Let_def not_less [symmetric])
qed

lemma swap2_pending:
  assumes p: "pending \<sigma> c0 r Op_setcond2_i32 c" and sw: "swap_commutative2 1 3 c = (sw, c1)"
    and k: "k = lo32 (oimm c 5)" and k': "k' = (if sw then tcg_swap_cond k else k)"
    and c2: "c2 = (if sw then set_oarg 5 (Imm (zext32 k')) c1 else c1)"
  shows "pending \<sigma> c0 r Op_setcond2_i32 c2 \<and> k' = lo32 (oimm c2 5)"
proof (cases sw)
  case True
  let ?oc = Op_setcond2_i32
  have core: "core \<sigma> c0 r ?oc c" by (rule pending_core [OF p])
  note d = coreD [OF core]
  have n: "nb_iargs ?oc = 4" "nb_args ?oc = 6" by (simp_all add: nb_iargs_def nb_args_def)
  have len: "5 < length (args (op c))" using d(5,8) n(2) by (auto simp: op_ok_def)
  let ?as = "(args (op c))[1 := args (op c) ! 3, 3 := args (op c) ! 1, 2 := args (op c) ! 4, 4 := args (op c) ! 2,
    5 := Imm (zext32 k')]"
  have c2': "c2 = c\<lparr>op := (op c)\<lparr>opc := ?oc, args := ?as\<rparr>\<rparr>"
    using True d(5) sw swap_commutative2_cases [of 1 3 c] by (auto simp: c2 set_oarg_def numeral_2_eq_2)
  have imm: "imm_val (op c) 0 = oimm c 5" using core_imm_val [OF core, of 0] n by (simp add: eval_nat_numeral)
  obtain v where v: "op_value ?oc (in_val (op c) \<sigma>) (imm_val (op c)) = Some v" "canon (ctype c) v = r"
    by (rule core_value [OF core])
  let ?pm = "\<lambda>i :: nat. if i < 2 then i + 2 else i - 2"
  have "core \<sigma> c0 r ?oc c2"
    unfolding c2'
  proof (rule core_rearrange [OF core d(6,7), where pm = ?pm and v = v])
    have "compare2_value bl bh al ah (tcg_swap_cond k) = compare2_value al ah bl bh k" for al ah bl bh
      by (simp add: compare2_value_def compare_swap64)
    then show "op_value ?oc (\<lambda>i. in_val (op c) \<sigma> (?pm i)) (\<lambda>j. arg_imm (?as ! Suc (nb_iargs ?oc + j))) = Some v"
      using v(1) len k k' True imm n by (simp add: eval_nat_numeral)
    fix i assume i: "i < nb_iargs ?oc"
    consider "i = 0" | "i = 1" | "i = 2" | "i = 3" using i n(1) by fastforce
    then show "?pm i < nb_iargs ?oc \<and> in_type ?oc i = in_type ?oc (?pm i) \<and> ?as ! Suc i = args (op c) ! Suc (?pm i)"
      using n len by cases (simp_all add: nth_list_update eval_nat_numeral)
  qed (use len n v(2) in \<open>simp_all add: nth_list_update\<close>)
  then have "pending \<sigma> c0 r ?oc c2" using p by (simp add: pending_def c2')
  moreover have "k' = lo32 (oimm c2 5)" using len by (simp add: c2' oimm_def oarg_def)
  ultimately show ?thesis by blast
next
  case False
  then have "c1 = c" using sw swap_commutative2_cases [of 1 3 c] by auto
  then show ?thesis using False p k k' c2 by simp
qed

lemma setcond2_half_ok:
  assumes p: "pending \<sigma> c0 r Op_setcond2_i32 c"
    and b: "compare_value I32 (in_val (op c) \<sigma> i) (in_val (op c) \<sigma> j) k = Some b" "canon I32 (of_bool b) = r"
    and ij: "i < 4" "j < 4" and as: "as = (args (op c))[1 := args (op c) ! Suc i, 2 := args (op c) ! Suc j, 3 := Imm (zext32 k)]"
  shows "case setcond_masks (c\<lparr>op := (op c)\<lparr>opc := Tcg (Op_setcond I32), args := as\<rparr>\<rparr>) of
    (b, c') \<Rightarrow> if b then folded E \<sigma> c0 r c' else unfolded \<sigma> c0 r c'"
proof -
  let ?oc = "Op_setcond2_i32" and ?set = "Tcg (Op_setcond I32)"
  let ?c = "c\<lparr>op := (op c)\<lparr>opc := ?set, args := as\<rparr>\<rparr>"
  have core: "core \<sigma> c0 r ?oc c" by (rule pending_core [OF p])
  have n: "nb_iargs ?oc = 4" "nb_args ?oc = 6" "nb_iargs ?set = 2" "nb_args ?set = 4" by (simp_all add: nb_iargs_def nb_args_def)
  have len: "5 < length (args (op c))" using coreD(5,8) [OF core] n(2) by (auto simp: op_ok_def)
  have w: "ctype c = I32" using coreD(7) [OF core] by simp
  have "core \<sigma> c0 r ?set ?c"
    by (rule core_rearrange [OF core, where pm = "\<lambda>x. if x = 0 then i else j" and v = "of_bool b"])
      (use len n w b ij in \<open>auto simp: as is_op1_def eval_nat_numeral less_Suc_eq nth_list_update\<close>)
  then have "pending \<sigma> c0 r ?set ?c" using p by (simp add: pending_def)
  from masks_unfolded [OF this _ setcond_zmask(2) [of I32 b, unfolded b(2)], of 1] setcond_zmask(1) [of I32 b] b(2) w
  show ?thesis by (simp add: setcond_masks_def)
qed

lemma tcgop_update_order: "o1\<lparr>args := as, opc := oc\<rparr> = o1\<lparr>opc := oc, args := as\<rparr>"
  by simp

lemma compare_eq_ne:
  "compare_value I32 x y TCG_COND_EQ = Some (lo32 x = lo32 y)" "compare_value I32 x y TCG_COND_NE = Some (lo32 x \<noteq> lo32 y)"
  by (simp_all add: compare_value_def tci_compare32_def TCG_COND_defs)

text \<open>Equality of double words: a known half decides, or leaves the other half to be compared.\<close>

lemma compare2_eq_halves:
  assumes b: "compare2_value al ah bl bh k = Some b" and k: "k = TCG_COND_NE \<or> k = TCG_COND_EQ"
    and s: "\<And>x. compare_value I32 x1 y1 k = Some x \<Longrightarrow> cond_sound f x"
    and xy: "(x1, y1, x2, y2) = (al, bl, ah, bh) \<or> (x1, y1, x2, y2) = (ah, bh, al, bl)"
  shows "f \<noteq> Bad" "f = Known b' \<Longrightarrow> b' = (k = TCG_COND_NE) \<Longrightarrow> b' = b"
    "f = Known b' \<Longrightarrow> b' \<noteq> (k = TCG_COND_NE) \<Longrightarrow> compare_value I32 x2 y2 k = Some b"
proof -
  have ne: "TCG_COND_EQ \<noteq> TCG_COND_NE" by (simp add: TCG_COND_defs)
  have kb: "cond_sound f ((k = TCG_COND_NE) \<noteq> (lo32 x1 = lo32 y1))" using s k ne by (auto simp: compare_eq_ne)
  then show "f \<noteq> Bad" by auto
  note h = compare2_halves(2,3) [OF b]
  show "f = Known b' \<Longrightarrow> b' = (k = TCG_COND_NE) \<Longrightarrow> b' = b" using h k xy kb ne by auto
  show "f = Known b' \<Longrightarrow> b' \<noteq> (k = TCG_COND_NE) \<Longrightarrow> compare_value I32 x2 y2 k = Some b"
    using h k xy kb ne by (auto simp: compare_eq_ne)
qed

lemma fold_setcond2_ok: "op_folder_ok TYPE('w) Op_setcond2_i32 fold_setcond2"
proof (intro op_folder_okI folder_okI)
  fix E :: "'w ir_env" and \<sigma> :: "'w ir" and c0 r c
  let ?oc = Op_setcond2_i32
  assume p: "pending \<sigma> c0 r ?oc c"
  obtain sw c1 where sw: "swap_commutative2 1 3 c = (sw, c1)" by (rule prod.exhaust)
  define k where "k = (if sw then tcg_swap_cond (lo32 (oimm c 5)) else lo32 (oimm c 5))"
  define c2 where "c2 = (if sw then set_oarg 5 (Imm (zext32 k)) c1 else c1)"
  have p2: "pending \<sigma> c0 r ?oc c2" and k: "k = lo32 (oimm c2 5)"
    using swap2_pending [OF p sw refl k_def c2_def] by simp_all
  note core = pending_core [OF p2]
  let ?v = "in_val (op c2) \<sigma>"
  let ?G = "\<lambda>x. case x of (b, c') \<Rightarrow> if b then folded E \<sigma> c0 r c' else unfolded \<sigma> c0 r c'"
  have n: "nb_iargs ?oc = 4" by (simp add: nb_iargs_def)
  have w: "ctype c2 = I32" using coreD(7) [OF core] by simp
  obtain y where y: "op_value ?oc ?v (imm_val (op c2)) = Some y" "canon (ctype c2) y = r" by (rule core_value [OF core])
  have "imm_val (op c2) 0 = oimm c2 5" using core_imm_val [OF core, of 0] n by (simp add: eval_nat_numeral)
  then obtain b where b: "compare2_value (?v 0) (?v 1) (?v 2) (?v 3) k = Some b" and r: "canon I32 (of_bool b) = r"
    using y k w by auto
  note h = compare2_halves [OF b]
  have arg: "arg_ok c2 \<sigma> I32 (oarg c2 1) (?v 0)" "arg_ok c2 \<sigma> I32 (oarg c2 2) (?v 1)"
    "arg_ok c2 \<sigma> I32 (oarg c2 3) (?v 2)" "arg_ok c2 \<sigma> I32 (oarg c2 4) (?v 3)"
    using core_arg_ok [OF core, of _ I32] n by (simp_all add: eval_nat_numeral)
  note cs2 = constant_folding_cond2_sound [OF coreD(1) [OF core] arg b]
  have mv: "?G (gen_movi (oarg c2 0) (of_bool b) c2)" using gen_movi_ok [OF core, of "of_bool b" E] r w by simp
  have ms: "?G (setcond_masks c2)"
    using masks_unfolded [OF p2 _ setcond_zmask(2) [of I32 b, unfolded r], of 1] setcond_zmask(1) [of I32 b] r w
    by (simp add: setcond_masks_def)
  have hi: "?G (setcond2_high k c2)" if "compare_value I32 (?v 1) (?v 3) k = Some b"
    using setcond2_half_ok [OF p2 that r _ _ refl, of E]
    by (simp add: setcond2_high_def set_oarg_def set_opc_def oarg_def eval_nat_numeral tcgop_update_order)
  have lo: "?G (setcond2_low k c2)" if "compare_value I32 (?v 0) (?v 2) k = Some b"
    using setcond2_half_ok [OF p2 that r _ _ refl, of E]
    by (simp add: setcond2_low_def set_oarg_def set_opc_def oarg_def eval_nat_numeral tcgop_update_order)
  have z: "compare_value I32 (?v 1) (?v 3) k = Some b"
    if "k = TCG_COND_LT \<or> k = TCG_COND_GE" "oconst c2 3 \<and> oval c2 3 = 0 \<and> oconst c2 4 \<and> oval c2 4 = 0"
    using h(1) [OF that(1)] that(2) core_const [OF core, of 2] core_const [OF core, of 3] n
    by (simp add: eval_nat_numeral compare_value_def)
  define G where "G = ?G"
  note g = mv [folded G_def] ms [folded G_def] hi [folded G_def] lo [folded G_def]
  let ?k1 = "do_constant_folding_cond c2 I32 (oarg c2 1) (oarg c2 3) k"
    and ?k2 = "do_constant_folding_cond c2 I32 (oarg c2 2) (oarg c2 4) k"
  have s1: "cond_sound ?k1 x" if "compare_value I32 (?v 0) (?v 2) k = Some x" for x
    by (rule constant_folding_cond_sound [OF coreD(1) [OF core] arg(1,3) that])
  have s2: "cond_sound ?k2 x" if "compare_value I32 (?v 1) (?v 3) k = Some x" for x
    by (rule constant_folding_cond_sound [OF coreD(1) [OF core] arg(2,4) that])
  note lh = compare2_eq_halves [OF b _ s1, where ?x2.0 = "?v 1" and ?y2.0 = "?v 3", simplified]
    and hl = compare2_eq_halves [OF b _ s2, where ?x2.0 = "?v 0" and ?y2.0 = "?v 2", simplified]
  have eq2: "G (case ?k2 of Bad \<Rightarrow> assert_fails c2
      | Known b \<Rightarrow> if b = (k = TCG_COND_NE) then gen_movi (oarg c2 0) (of_bool b) c2 else setcond2_low k c2
      | Unknown \<Rightarrow> setcond_masks c2)" if "k = TCG_COND_NE \<or> k = TCG_COND_EQ"
    using hl [OF that] g by (cases ?k2) auto
  define X where "X = (case ?k1 of Bad \<Rightarrow> assert_fails c2
      | Known b \<Rightarrow> if b = (k = TCG_COND_NE) then gen_movi (oarg c2 0) (of_bool b) c2 else setcond2_high k c2
      | Unknown \<Rightarrow> (case ?k2 of Bad \<Rightarrow> assert_fails c2
          | Known b \<Rightarrow> if b = (k = TCG_COND_NE) then gen_movi (oarg c2 0) (of_bool b) c2 else setcond2_low k c2
          | Unknown \<Rightarrow> setcond_masks c2))"
  have eq1: "G X" if "k = TCG_COND_NE \<or> k = TCG_COND_EQ"
    using lh [OF that] g(1,3) eq2 [OF that] unfolding X_def by (cases ?k1) auto
  show "?G (fold_setcond2 c)"
    unfolding fold_setcond2_def Let_def sw prod.case k_def [symmetric] c2_def [symmetric] X_def [symmetric]
      G_def [symmetric]
    using cs2 g(1-3) eq1 z
    by (cases "do_constant_folding_cond2 c2 (oarg c2 1) (oarg c2 2) (oarg c2 3) (oarg c2 4) k") auto
qed

end
