(* ===== verification/Opt_Step.thy ===== *)
theory Opt_Step
  imports Opt_Cond
begin

text \<open>
  One turn of the optimizer's loop on an operation with one result.  \<open>wf_op\<close> is what the front end
  guarantees of an operation; \<open>init_arguments\<close> and \<open>copy_propagate\<close> make it an operation on temporaries in
  use with the same meaning; then the folder of its opcode is right.
\<close>

section \<open>Well-formed code\<close>

fun wf_in :: "(nat \<Rightarrow> temp_desc) \<Rightarrow> tcg_width option \<Rightarrow> tcgarg \<Rightarrow> bool" where
  "wf_in ds r (Arg t) \<longleftrightarrow> const_canon t \<and> type_fits r (desc_type ds t)"
| "wf_in ds r (Imm k) \<longleftrightarrow> False"

fun wf_out :: "(nat \<Rightarrow> temp_desc) \<Rightarrow> tcgtemp \<Rightarrow> tcg_width option \<Rightarrow> tcgarg \<Rightarrow> bool" where
  "wf_out ds env r (Arg (Tmp n)) \<longleftrightarrow> Tmp n \<noteq> env \<and> type_fits r (ttype (ds n))"
| "wf_out ds env r _ \<longleftrightarrow> False"

text \<open>The type of an output; discarding a variable and the results of a call may have either.\<close>

definition out_type :: "tcg_opc \<Rightarrow> tcg_width option" where
  "out_type oc = (if oc = Op_discard \<or> oc = Tcg Op_call then None else Some (op_type oc))"

definition op_outs :: "tcgop \<Rightarrow> nat" where
  "op_outs o1 = (if opc o1 = Tcg Op_call then callo o1 else nb_oargs (opc o1))"

definition op_ins :: "tcgop \<Rightarrow> nat" where
  "op_ins o1 = (if opc o1 = Tcg Op_call then calli o1 else nb_iargs (opc o1))"

definition arg_type :: "tcgop \<Rightarrow> nat \<Rightarrow> tcg_width option" where
  "arg_type o1 i = (if opc o1 = Tcg Op_call then None else in_type (opc o1) i)"

text \<open>The bytes an access to host memory touches: no field lies across the pointer to the CPU state.\<close>

fun host_bytes :: "tcg_host \<Rightarrow> u32" where
  "host_bytes (H_ld8u w) = 1"
| "host_bytes (H_ld8s w) = 1"
| "host_bytes (H_ld16u w) = 2"
| "host_bytes (H_ld16s w) = 2"
| "host_bytes (H_ld w) = tcg_type_size w"
| "host_bytes (H_st8 w) = 1"
| "host_bytes (H_st16 w) = 2"
| "host_bytes (H_st w) = tcg_type_size w"
| "host_bytes H_ld32u_i64 = 4"
| "host_bytes H_ld32s_i64 = 4"
| "host_bytes H_st32_i64 = 4"

definition host_span :: "tcgop \<Rightarrow> bool" where
  "host_span o1 \<longleftrightarrow>
     (case opc o1 of Tcg (Op_host h) \<Rightarrow> span_ok (lo32 (arg_imm (args o1 ! 2))) (host_bytes h) | _ \<Rightarrow> True)"

definition wf_op :: "(nat \<Rightarrow> temp_desc) \<Rightarrow> tcgtemp \<Rightarrow> tcgop \<Rightarrow> bool" where
  "wf_op ds env o1 \<longleftrightarrow>
     nb_args (opc o1) \<le> length (args o1) \<and> op_outs o1 + op_ins o1 \<le> length (args o1)
     \<and> distinct (take (op_outs o1) (args o1)) \<and> host_span o1
     \<and> list_all (\<lambda>i. wf_out ds env (out_type (opc o1)) (args o1 ! i)) [0..<op_outs o1]
     \<and> list_all (\<lambda>i. wf_in ds (arg_type o1 i) (args o1 ! (op_outs o1 + i))) [0..<op_ins o1]"

lemma temp_type_desc: "temp_type c t = desc_type (tdesc c) t"
  by (cases t) simp_all

lemma wf_inD: "wf_in ds r a \<Longrightarrow> \<exists>t. a = Arg t \<and> const_canon t \<and> type_fits r (desc_type ds t)"
  by (cases a) auto

lemma wf_outD: "wf_out ds env r a \<Longrightarrow> \<exists>n. a = Arg (Tmp n) \<and> Tmp n \<noteq> env \<and> type_fits r (ttype (ds n))"
  by (cases "(ds, env, r, a)" rule: wf_out.cases) auto

lemma wf_opD:
  assumes "wf_op ds env o1"
  shows "nb_args (opc o1) \<le> length (args o1)" "op_outs o1 + op_ins o1 \<le> length (args o1)"
    "i < op_outs o1 \<Longrightarrow> wf_out ds env (out_type (opc o1)) (args o1 ! i)"
    "i < op_ins o1 \<Longrightarrow> wf_in ds (arg_type o1 i) (args o1 ! (op_outs o1 + i))"
    "i < op_outs o1 + op_ins o1 \<Longrightarrow> \<exists>t. args o1 ! i = Arg t \<and> const_canon t"
    "distinct (take (op_outs o1) (args o1))" "host_span o1"
proof -
  show o: "i < op_outs o1 \<Longrightarrow> wf_out ds env (out_type (opc o1)) (args o1 ! i)" for i
    using assms by (simp add: wf_op_def list_all_iff)
  show n: "i < op_ins o1 \<Longrightarrow> wf_in ds (arg_type o1 i) (args o1 ! (op_outs o1 + i))" for i
    using assms by (simp add: wf_op_def list_all_iff)
  show "\<exists>t. args o1 ! i = Arg t \<and> const_canon t" if "i < op_outs o1 + op_ins o1"
  proof (cases "i < op_outs o1")
    case False
    with that have "i - op_outs o1 < op_ins o1" by simp
    from wf_inD [OF n [OF this]] False show ?thesis by auto
  qed (use wf_outD [OF o, of i] in auto)
qed (use assms in \<open>simp_all add: wf_op_def\<close>)

section \<open>Preparing an operation\<close>

lemma init_arguments_ok:
  assumes "opt_ok c \<sigma>" "\<forall>i<n. const_canon (arg_temp (args (op c) ! i))"
  shows "opt_ok (init_arguments n c) \<sigma> \<and> same_frame c (init_arguments n c)
    \<and> used (init_arguments n c) = used c \<union> (\<lambda>i. arg_temp (args (op c) ! i)) ` {..<n}"
  using assms(2)
proof (induction n)
  case (Suc n)
  let ?c = "init_arguments n c" and ?t = "arg_temp (args (op c) ! n)"
  have IH: "opt_ok ?c \<sigma>" "same_frame c ?c"
      "used ?c = used c \<union> (\<lambda>i. arg_temp (args (op c) ! i)) ` {..<n}" using Suc by auto
  have "op ?c = op c" using IH(2) by (simp add: same_frame_def)
  then have e: "init_arguments (Suc n) c = init_ts_info ?t ?c" by (simp add: init_arguments_def oarg_def)
  show ?case
    using init_ts_info_ok [OF IH(1), of ?t] Suc.prems same_frame_trans [OF IH(2) init_ts_info_frame, of ?t] IH(3)
    by (auto simp: e init_ts_info_used lessThan_Suc)
qed (use assms(1) in \<open>simp add: init_arguments_def\<close>)

text \<open>An argument replaced by a copy.\<close>

definition copied :: "opt_context \<Rightarrow> 'w ir \<Rightarrow> tcgarg \<Rightarrow> tcgarg \<Rightarrow> bool" where
  "copied c \<sigma> a b \<longleftrightarrow>
     (\<exists>t u. a = Arg t \<and> b = Arg u \<and> u \<in> used c \<and> tval \<sigma> u = tval \<sigma> t \<and> temp_type c u = temp_type c t)"

lemma copied_aval: "copied c \<sigma> a b \<Longrightarrow> aval \<sigma> b = aval \<sigma> a"
  by (auto simp: copied_def aval_def)

lemma copy_propagate_ok:
  assumes ok: "opt_ok c \<sigma>"
    and a: "\<forall>k. o1 \<le> k \<and> k < o1 + n \<longrightarrow> k < length (args (op c)) \<and> (\<exists>t. args (op c) ! k = Arg t \<and> t \<in> used c)"
  shows "\<exists>as. copy_propagate o1 n c = c\<lparr>op := (op c)\<lparr>args := as\<rparr>\<rparr> \<and> length as = length (args (op c))
    \<and> (\<forall>k < length as. if o1 \<le> k \<and> k < o1 + n then copied c \<sigma> (args (op c) ! k) (as ! k) else as ! k = args (op c) ! k)"
  using a
proof (induction n)
  case (Suc n)
  then obtain as where as: "copy_propagate o1 n c = c\<lparr>op := (op c)\<lparr>args := as\<rparr>\<rparr>" "length as = length (args (op c))"
    "\<forall>k < length as. if o1 \<le> k \<and> k < o1 + n then copied c \<sigma> (args (op c) ! k) (as ! k) else as ! k = args (op c) ! k"
    by (auto split del: if_split)
  let ?c = "c\<lparr>op := (op c)\<lparr>args := as\<rparr>\<rparr>" and ?i = "o1 + n"
  have i: "?i < length as" using Suc.prems as(2) by auto
  obtain t where t: "args (op c) ! ?i = Arg t" "t \<in> used c" using Suc.prems [rule_format, of ?i] by auto
  have ai: "as ! ?i = Arg t" using as(3) i t(1) by auto
  have e: "copy_propagate o1 (Suc n) c = copy_propagate_1 ?i ?c"
    using as(1) by (simp add: copy_propagate_def)
  define u where "u = (if ts_is_copy ?c t then find_better_copy ?c t else t)"
  have "opt_ok ?c \<sigma>" using ok by simp
  from find_better_copy_ok [OF this, of t] have u: "u \<in> used c" "tval \<sigma> u = tval \<sigma> t" "temp_type c u = temp_type c t"
    using t(2) temp_type_cong [of ?c c] by (auto simp: u_def)
  have "as[?i := Arg t] = as" using ai by (metis list_update_id)
  then have e': "copy_propagate_1 ?i ?c = c\<lparr>op := (op c)\<lparr>args := as[?i := Arg u]\<rparr>\<rparr>"
    using ai by (simp add: copy_propagate_1_def oarg_def set_oarg_def u_def)
  let ?new = "as[?i := Arg u]"
  have k: "if o1 \<le> k \<and> k < o1 + Suc n then copied c \<sigma> (args (op c) ! k) (?new ! k) else ?new ! k = args (op c) ! k"
    if "k < length ?new" for k
    using as(3) [rule_format, of k] that i u t by (cases "k = ?i") (auto simp: copied_def)
  show ?case by (rule exI [of _ ?new]) (use e e' as(2) k in simp)
next
  case 0
  show ?case by (rule exI [of _ "args (op c)"]) (auto simp: copy_propagate_def)
qed

text \<open>An operation with the same meaning in a state.\<close>

definition same_inputs :: "'w ir \<Rightarrow> tcgop \<Rightarrow> tcgop \<Rightarrow> bool" where
  "same_inputs \<sigma> o1 o2 \<longleftrightarrow>
     opc o2 = opc o1 \<and> callo o2 = callo o1 \<and> calli o2 = calli o1 \<and> call_flags o2 = call_flags o1
     \<and> length (args o2) = length (args o1)
     \<and> (\<forall>k < length (args o1).
          if op_outs o1 \<le> k \<and> k < op_outs o1 + op_ins o1 then aval \<sigma> (args o2 ! k) = aval \<sigma> (args o1 ! k)
          else args o2 ! k = args o1 ! k)"

text \<open>The context after the arguments have been activated and replaced by their best copies.\<close>

definition prepared :: "opt_context \<Rightarrow> opt_context" where
  "prepared c = copy_propagate (op_outs (op c)) (op_ins (op c)) (init_arguments (op_outs (op c) + op_ins (op c)) c)"

text \<open>What the frame of an operation keeps.\<close>

definition op_frame :: "opt_context \<Rightarrow> opt_context \<Rightarrow> bool" where
  "op_frame c c' \<longleftrightarrow>
     tdesc c' = tdesc c \<and> nb_globals c' = nb_globals c \<and> tcg_env c' = tcg_env c \<and> out_ops c' = out_ops c
     \<and> op2 c' = op2 c \<and> op_removed c' = op_removed c \<and> prev_mb c' = prev_mb c \<and> trap c' = trap c
     \<and> ctype c' = ctype c"

definition prep_ok :: "opt_context \<Rightarrow> 'w ir \<Rightarrow> opt_context \<Rightarrow> bool" where
  "prep_ok c \<sigma> c1 \<longleftrightarrow>
     opt_ok c1 \<sigma> \<and> op_frame c c1 \<and> same_inputs \<sigma> (op c) (op c1) \<and> mem_copy c1 = mem_copy c
     \<and> (\<forall>i < op_outs (op c). \<exists>n. args (op c1) ! i = Arg (Tmp n) \<and> writable c1 (Tmp n)
          \<and> type_fits (out_type (opc (op c))) (ttype (tdesc c n)))
     \<and> (\<forall>i < op_ins (op c). \<exists>t. args (op c1) ! (op_outs (op c) + i) = Arg t \<and> t \<in> used c1
          \<and> type_fits (arg_type (op c) i) (temp_type c1 t))"

lemma init_arguments_mem [simp]: "mem_copy (init_arguments n c) = mem_copy c"
  by (induction n) (simp_all add: init_arguments_def)

lemma prepared_ok:
  assumes ok: "opt_ok c \<sigma>" and wf: "wf_op (tdesc c) (tcg_env c) (op c)"
  shows "prep_ok c \<sigma> (prepared c)"
proof -
  let ?o = "op_outs (op c)" and ?i = "op_ins (op c)" and ?as0 = "args (op c)"
  let ?c = "init_arguments (?o + ?i) c"
  note w = wf_opD [OF wf]
  have "const_canon (arg_temp (?as0 ! k))" if "k < ?o + ?i" for k using w(5) [OF that] by auto
  from init_arguments_ok [OF ok, of "?o + ?i"] this
  have c: "opt_ok ?c \<sigma>" "same_frame c ?c" "used ?c = used c \<union> (\<lambda>i. arg_temp (?as0 ! i)) ` {..<?o + ?i}" by auto
  have op: "op ?c = op c" "tdesc ?c = tdesc c" "tcg_env ?c = tcg_env c" using c(2) by (simp_all add: same_frame_def)
  have u: "\<exists>t. ?as0 ! k = Arg t \<and> t \<in> used ?c" if "k < ?o + ?i" for k
    using w(5) [OF that] c(3) that by (force simp: image_iff)
  obtain as where as: "prepared c = ?c\<lparr>op := (op c)\<lparr>args := as\<rparr>\<rparr>" "length as = length ?as0"
    "\<forall>k < length as. if ?o \<le> k \<and> k < ?o + ?i then copied ?c \<sigma> (?as0 ! k) (as ! k) else as ! k = ?as0 ! k"
    using copy_propagate_ok [OF c(1), of ?o ?i] u w(2) unfolding op prepared_def by fastforce
  have ty: "temp_type (prepared c) t = temp_type ?c t" "temp_type ?c t = desc_type (tdesc c) t" for t
    using temp_type_cong [of "prepared c" ?c] as(1) by (auto simp: temp_type_desc op)
  have "same_inputs \<sigma> (op c) (op (prepared c))"
    using as copied_aval by (fastforce simp: same_inputs_def)
  moreover have "op_frame c (prepared c)" using c(2) as(1) by (simp add: op_frame_def same_frame_def)
  moreover have "opt_ok (prepared c) \<sigma>" using c(1) as(1) by simp
  moreover have "\<exists>n. args (op (prepared c)) ! k = Arg (Tmp n) \<and> writable (prepared c) (Tmp n)
      \<and> type_fits (out_type (opc (op c))) (ttype (tdesc c n))" if k: "k < ?o" for k
    using wf_outD [OF w(3) [OF k]] u [of k] as k w(2) op by (auto simp: writable_def)
  moreover have "\<exists>t. args (op (prepared c)) ! (?o + k) = Arg t \<and> t \<in> used (prepared c)
      \<and> type_fits (arg_type (op c) k) (temp_type (prepared c) t)" if k: "k < ?i" for k
  proof -
    have "copied ?c \<sigma> (?as0 ! (?o + k)) (as ! (?o + k))" using as(2,3) k w(2) by auto
    then show ?thesis using wf_inD [OF w(4) [OF k]] as(1) unfolding ty by (auto simp: copied_def ty(2))
  qed
  ultimately show ?thesis using as(1) by (simp add: prep_ok_def)
qed

section \<open>The meaning is kept\<close>

lemma same_inputs_vals:
  assumes "same_inputs \<sigma> o1 o2" "nb_args (opc o1) \<le> length (args o1)" "opc o1 \<noteq> Tcg Op_call"
  shows "i < nb_iargs (opc o1) \<Longrightarrow> in_val o2 \<sigma> i = in_val o1 \<sigma> i"
    "j < snd (snd (op_args (opc o1))) \<Longrightarrow> imm_val o2 j = imm_val o1 j"
    "k < nb_oargs (opc o1) \<Longrightarrow> args o2 ! k = args o1 ! k"
  using assms by (auto simp: same_inputs_def in_val_def imm_val_def nb_args_def nb_oargs_def nb_iargs_def
      op_outs_def op_ins_def split: if_splits)

lemma op_value2_cong:
  assumes "is_op2 oc" "\<And>i. i < nb_iargs oc \<Longrightarrow> v i = v' i"
  shows "op_value2 oc v = op_value2 oc v'"
  using assms(1) assms(2) [of 0] assms(2) [of 1] assms(2) [of 2] assms(2) [of 3]
  by (simp add: is_op2_def nb_iargs_def split: tcg_opc.splits tcg_op.splits)

lemma exec_host_cong:
  assumes "same_inputs \<sigma> o1 o2" "opc o1 = Tcg (Op_host h)" "nb_args (opc o1) \<le> length (args o1)"
  shows "exec_host h o2 \<sigma> = exec_host h o1 \<sigma>"
proof -
  have l: "2 < length (args o1)" using assms(2,3) by (cases h) (simp_all add: nb_args_def)
  have s: "if op_outs o1 \<le> k \<and> k < op_outs o1 + op_ins o1 then aval \<sigma> (args o2 ! k) = aval \<sigma> (args o1 ! k)
      else args o2 ! k = args o1 ! k" if "k < 3" for k
    using assms(1) l that by (simp add: same_inputs_def)
  note s3 = s [of 0] s [of 1] s [of 2]
  have 1: "aval \<sigma> (args o2 ! 1) = aval \<sigma> (args o1 ! 1)" "args o2 ! 2 = args o1 ! 2"
    "aval \<sigma> (args o2 ! 0) = aval \<sigma> (args o1 ! 0)"
    using s3 assms(2) by (cases h; simp add: op_outs_def op_ins_def nb_oargs_def nb_iargs_def)+
  have 2: "args o2 ! 0 = args o1 ! 0" if "host_load h m a = Some v" for m a v
    using s3(1) assms(2) that by (cases h) (simp_all add: op_outs_def op_ins_def nb_oargs_def nb_iargs_def)
  show ?thesis
    using 1 2 by (auto simp: exec_host_def ir_addr_def Let_def split: option.split)
qed

lemma exec_op_cong:
  assumes s: "same_inputs \<sigma> o1 o2" and l: "nb_args (opc o1) \<le> length (args o1)" and nc: "opc o1 \<noteq> Tcg Op_call"
  shows "exec_op E o2 \<sigma> = exec_op E o1 \<sigma>"
proof -
  have oc: "opc o2 = opc o1" using s by (simp add: same_inputs_def)
  note v = same_inputs_vals [OF s l nc]
  consider "is_op1 (opc o1)" | "is_op2 (opc o1)" "\<not> is_op1 (opc o1)" | "\<not> is_op1 (opc o1)" "\<not> is_op2 (opc o1)" by blast
  then show ?thesis
  proof cases
    case 1
    have "op_value (opc o1) (in_val o2 \<sigma>) (imm_val o2) = op_value (opc o1) (in_val o1 \<sigma>) (imm_val o1)"
      by (rule op_value_cong) (use v 1 in auto)
    then show ?thesis using 1 op1_shape [OF 1] v(3) [of 0] by (simp add: exec_op_def oc Let_def split: option.split)
  next
    case 2
    have "op_value2 (opc o1) (in_val o2 \<sigma>) = op_value2 (opc o1) (in_val o1 \<sigma>)"
      by (rule op_value2_cong) (use v 2 in auto)
    moreover have "nb_oargs (opc o1) = 2"
      using 2(1) by (auto simp: is_op2_def nb_oargs_def split: tcg_opc.splits tcg_op.splits)
    ultimately show ?thesis using 2 v(3) [of 0] v(3) [of 1] by (simp add: exec_op_def oc Let_def split: option.split)
  next
    case 3
    note vs = v(1) [of 0] v(1) [of 1] v(1) [of 2] v(1) [of 3] v(2) [of 0] v(2) [of 1] v(3) [of 0]
    have "exec_control E (opc o1) o2 \<sigma> = exec_control E (opc o1) o1 \<sigma>"
    proof (cases "opc o1")
      case (Tcg t)
      show ?thesis
        using vs exec_host_cong [OF s _ l] nc unfolding Tcg
        by (cases t) (simp_all add: exec_ld_def exec_st_def nb_iargs_def nb_oargs_def cong: option.case_cong)
    qed (use vs in \<open>simp_all add: nb_iargs_def nb_oargs_def\<close>)
    then show ?thesis using 3 by (simp add: exec_op_def oc Let_def)
  qed
qed

section \<open>Operations with one result\<close>

lemma rrr_folders: "rr \<noteq> R_shr \<Longrightarrow> op_folder_ok TYPE('w) (Tcg (Op_rrr rr w)) (fold_rrr rr)"
  by (cases rr) (simp_all add: fold_add_ok fold_and_ok fold_andc_ok fold_count_zeros_ok fold_divide_ok fold_eqv_ok
      fold_mul_ok fold_nand_ok fold_nor_ok fold_or_ok fold_orc_ok fold_remainder_ok fold_sub_ok fold_xor_ok
      fold_shift_ok is_shift_def)

lemma rr_folders: "op_folder_ok TYPE('w) (Tcg (Op_rr u w)) (fold_rr u)"
  by (cases u) (simp_all add: fold_bswap_ok [OF bswap16_shape] fold_bswap_ok [OF bswap32_shape] fold_ctpop_ok
      fold_exts_ok exts_bit_def fold_extu_ok is_extu_def fold_mov_ok fold_neg_ok fold_not_ok)

lemma rr64_folders: "op_folder_ok TYPE('w) (Tcg (Op_rr64 u)) (fold_rr64 u)"
  by (cases u) (simp_all add: fold_bswap_ok [OF bswap64_shape] fold_exts_ok exts_bit_def fold_extu_ok is_extu_def)

lemma op1_folders:
  assumes "is_op1 oc" "\<forall>w. oc \<noteq> Tcg (Op_rrr R_shr w)"
  shows "op_folder_ok TYPE('w) oc (fold_opc oc)"
proof (cases oc)
  case (Tcg t)
  with assms show ?thesis
    by (cases t) (auto simp: is_op1_def rrr_folders rr_folders rr64_folders fold_setcond_ok fold_movcond_ok
        fold_deposit_ok fold_extract_ok fold_sextract_ok)
qed (use assms in \<open>simp_all add: is_op1_def fold_negsetcond_ok fold_extract2_ok fold_extu_ok is_extu_def
    fold_mul_highpart_ok fold_setcond2_ok\<close>)

text \<open>
  The context the folder of an operation starts from, and what a turn of the loop achieves: no assertion
  fails, what is emitted has the effect of the operation, and the context is right for the next one.
\<close>

definition start_op :: "opt_context \<Rightarrow> opt_context" where
  "start_op c = (prepared c)\<lparr>ctype := op_type (opc (op c)), a_mask := - 1, z_mask := - 1, s_mask := 0\<rparr>"

definition step_ok :: "'w ir_env \<Rightarrow> tcgop \<Rightarrow> 'w ir \<Rightarrow> opt_context \<Rightarrow> bool" where
  "step_ok E o1 \<sigma> c \<longleftrightarrow>
     \<not> trap c \<and> exec_ops E (emitted c) \<sigma> = exec_op E o1 \<sigma>
     \<and> (\<forall>\<sigma>'. exec_op E o1 \<sigma> = Fall \<sigma>' \<longrightarrow> opt_ok c \<sigma>')"

definition fresh :: "opt_context \<Rightarrow> bool" where
  "fresh c \<longleftrightarrow> op2 c = [] \<and> \<not> op_removed c \<and> \<not> trap c"

lemma fold_op_start:
  assumes "opc (op c) \<noteq> Tcg Op_call"
  shows "fold_op c =
    (case fold_opc (opc (op c)) (start_op c) of (fin, c2) \<Rightarrow> if fin then c2 else finish_folding c2)"
  using assms by (simp add: fold_op_def start_op_def prepared_def op_outs_def op_ins_def Let_def)

lemma start_op_ok:
  assumes "opt_ok c \<sigma>" "wf_op (tdesc c) (tcg_env c) (op c)"
  shows "prep_ok c \<sigma> (prepared c)" "opt_ok (start_op c) \<sigma>" "op (start_op c) = op (prepared c)"
    "opc (op (prepared c)) = opc (op c)" "ctype (start_op c) = op_type (opc (op c))" "no_masks (start_op c)"
    "fresh c \<Longrightarrow> fresh (start_op c)" "used (start_op c) = used (prepared c)" "tdesc (start_op c) = tdesc c"
    "tcg_env (start_op c) = tcg_env c" "nb_globals (start_op c) = nb_globals c" "mem_copy (start_op c) = mem_copy c"
  using prepared_ok [OF assms]
  by (auto simp: start_op_def prep_ok_def no_masks_def fresh_def op_frame_def same_inputs_def)

lemma start_op_exec:
  assumes "opt_ok c \<sigma>" "wf_op (tdesc c) (tcg_env c) (op c)" "opc (op c) \<noteq> Tcg Op_call"
  shows "exec_op E (op (start_op c)) \<sigma> = exec_op E (op c) \<sigma>"
  by (rule exec_op_cong [OF _ wf_opD(1) [OF assms(2)] assms(3)])
    (use start_op_ok(1,3) [OF assms(1,2)] in \<open>simp add: prep_ok_def\<close>)

lemma start_op_op_ok:
  assumes "opt_ok c \<sigma>" "wf_op (tdesc c) (tcg_env c) (op c)" "opc (op c) \<noteq> Tcg Op_call" "opc (op c) \<noteq> Op_discard"
  shows "op_ok (start_op c) (op (start_op c))"
proof -
  note s = start_op_ok [OF assms(1,2)]
  have ty: "temp_type (prepared c) t = desc_type (tdesc c) t" "temp_type (start_op c) t = desc_type (tdesc c) t" for t
    using s(1,9) by (simp_all add: temp_type_desc prep_ok_def op_frame_def)
  have oc: "op_outs (op c) = nb_oargs (opc (op c))" "op_ins (op c) = nb_iargs (opc (op c))"
    "arg_type (op c) i = in_type (opc (op c)) i" "out_type (opc (op c)) = Some (op_type (opc (op c)))" for i
    using assms(3,4) by (simp_all add: op_outs_def op_ins_def arg_type_def out_type_def)
  have l: "length (args (op (prepared c))) = length (args (op c))"
    using s(1) by (simp add: prep_ok_def same_inputs_def)
  have "input_ok (start_op c) (op (prepared c)) i" if "i < nb_iargs (opc (op c))" for i
    using s(1,4,8) that by (auto simp: input_ok_def prep_ok_def oc ty)
  moreover have "output_ok (start_op c) (op (prepared c)) i" if "i < nb_oargs (opc (op c))" for i
    using s(1,4,8,9,10) that
    by (fastforce simp: output_ok_def prep_ok_def oc ty writable_def type_fits_def op_frame_def)
  ultimately show ?thesis using wf_opD(1) [OF assms(2)] l s(3,4) by (simp add: op_ok_def)
qed

definition low_clear :: "opt_context \<Rightarrow> bool" where
  "low_clear c \<longleftrightarrow> (\<forall>t. \<not> bit (ti_s_mask (info c t)) 0) \<and> \<not> bit (s_mask c) 0"

definition is_shr :: "tcg_opc \<Rightarrow> bool" where
  "is_shr oc \<longleftrightarrow> (case oc of Tcg (Op_rrr r w) \<Rightarrow> r = R_shr | _ \<Rightarrow> False)"

lemma folded_step:
  assumes "folded E \<sigma> c0 r c" "exec_op E o1 \<sigma> = Fall (set_temp (arg_temp (oarg c0 0)) r \<sigma>)"
  shows "step_ok E o1 \<sigma> c"
  using assms by (simp add: folded_def step_ok_def static_frame_def)

lemma op1_step:
  assumes ok: "opt_ok c \<sigma>" and wf: "wf_op (tdesc c) (tcg_env c) (op c)" and fr: "fresh c"
    and oc: "is_op1 (opc (op c))" and def: "exec_op E (op c) \<sigma> \<noteq> Undef"
    and shr: "is_shr (opc (op c)) \<longrightarrow> \<not> bit (os (start_op c) 1) 0"
  shows "step_ok E (op c) \<sigma> (fold_op c)"
proof -
  let ?c = "start_op c" and ?oc = "opc (op c)"
  have no: "?oc \<noteq> Tcg Op_call" "?oc \<noteq> Op_discard" using oc by (auto simp: is_op1_def)
  note s = start_op_ok [OF ok wf]
  note ex = start_op_exec [OF ok wf no(1), of E]
  have oc1: "opc (op ?c) = ?oc" using s(3,4) by simp
  obtain v where v: "op_value ?oc (in_val (op ?c) \<sigma>) (imm_val (op ?c)) = Some v"
    using def ex oc by (auto simp: exec_op_def oc1 Let_def split: option.splits)
  define r where "r = canon (ctype ?c) v"
  have p: "pending \<sigma> ?c r ?oc ?c"
    using s(2,5,6) s(7) [OF fr] oc start_op_op_ok [OF ok wf no] v
    by (simp add: pending_def core_def static_frame_def fresh_def oc1 r_def)
  have e: "exec_op E (op c) \<sigma> = Fall (set_temp (arg_temp (oarg ?c 0)) r \<sigma>)"
    using v oc s(5) ex [symmetric] by (simp add: exec_op_def oc1 Let_def r_def oarg_def)
  obtain b c2 where f: "fold_opc ?oc ?c = (b, c2)" by (rule prod.exhaust)
  have "if b then folded E \<sigma> ?c r c2 else unfolded \<sigma> ?c r c2"
  proof (cases "is_shr ?oc")
    case True
    then obtain w where w: "?oc = Tcg (Op_rrr R_shr w)" by (auto simp: is_shr_def split: tcg_opc.splits tcg_op.splits)
    show ?thesis
      using folder_okD [OF fold_shr_ok [of E \<sigma> ?c r w] _ f [unfolded w fold_opc.simps fold_rrr.simps]] p shr True
      by (simp add: w)
  next
    case False
    then have "op_folder_ok TYPE('a) ?oc (fold_opc ?oc)"
      by (intro op1_folders oc) (auto simp: is_shr_def)
    then have "folder_ok E \<sigma> ?c r (pending \<sigma> ?c r ?oc) (fold_opc ?oc) (unfolded \<sigma> ?c r)"
      by (simp add: op_folder_ok_def)
    from folder_okD [OF this p f] show ?thesis .
  qed
  then have "folded E \<sigma> ?c r (fold_op c)"
    using finish_folding_ok [of \<sigma> ?c r c2 E] unfolding fold_op_start [OF no(1)] f by (cases b) simp_all
  from folded_step [OF this e] show ?thesis .
qed

end
