(* ===== verification/Opt_Wide.thy ===== *)
theory Opt_Wide
  imports Opt_Step
begin

text \<open>
  One turn of the optimizer's loop on an operation with two results: double-width sums, differences and
  products.  With constant inputs it becomes two moves; a difference with a constant becomes a sum.
\<close>

section \<open>Two moves\<close>

definition wide :: "'w ir \<Rightarrow> tcgarg \<Rightarrow> tcgarg \<Rightarrow> u64 \<Rightarrow> u64 \<Rightarrow> opt_context \<Rightarrow> bool" where
  "wide \<sigma> d e lo hi c \<longleftrightarrow>
     opt_ok c \<sigma> \<and> fresh c \<and> no_masks c \<and> op_ok c (op c) \<and> is_op2 (opc (op c)) \<and> op_type (opc (op c)) = ctype c
     \<and> oarg c 0 = d \<and> oarg c 1 = e \<and> d \<noteq> e
     \<and> (\<exists>l h. op_value2 (opc (op c)) (in_val (op c) \<sigma>) = Some (l, h)
          \<and> canon (ctype c) l = lo \<and> canon (ctype c) h = hi)"

definition wide_done :: "'w ir_env \<Rightarrow> 'w ir \<Rightarrow> tcgarg \<Rightarrow> tcgarg \<Rightarrow> u64 \<Rightarrow> u64 \<Rightarrow> opt_context \<Rightarrow> bool" where
  "wide_done E \<sigma> d e lo hi c \<longleftrightarrow>
     \<not> trap c \<and> opt_ok c (set_temp (arg_temp d) lo (set_temp (arg_temp e) hi \<sigma>))
     \<and> exec_ops E (emitted c) \<sigma> = Fall (set_temp (arg_temp d) lo (set_temp (arg_temp e) hi \<sigma>))"

lemma op2_shape: "is_op2 oc \<Longrightarrow> nb_oargs oc = 2 \<and> \<not> is_op1 oc \<and> \<not> opf_bb_end oc \<and> 2 + nb_iargs oc \<le> nb_args oc \<and> 2 \<le> nb_iargs oc"
  by (auto simp: is_op2_def is_op1_def nb_oargs_def nb_iargs_def nb_args_def opf_bb_end_def
      split: tcg_opc.splits tcg_op.splits)

lemma wideD:
  assumes "wide \<sigma> d e lo hi c"
  shows "opt_ok c \<sigma>" "fresh c" "no_masks c" "op_ok c (op c)" "is_op2 (opc (op c))" "op_type (opc (op c)) = ctype c"
    "oarg c 0 = d" "oarg c 1 = e" "d \<noteq> e" "nb_oargs (opc (op c)) = 2"
    "\<exists>x. d = Arg x \<and> writable c x \<and> temp_type c x = ctype c"
    "\<exists>x. e = Arg x \<and> writable c x \<and> temp_type c x = ctype c"
proof -
  show w: "opt_ok c \<sigma>" "fresh c" "no_masks c" "op_ok c (op c)" "is_op2 (opc (op c))" "op_type (opc (op c)) = ctype c"
    "oarg c 0 = d" "oarg c 1 = e" "d \<noteq> e" using assms by (auto simp: wide_def)
  show n: "nb_oargs (opc (op c)) = 2" using op2_shape [OF w(5)] by simp
  have "output_ok c (op c) 0" "output_ok c (op c) 1" using w(4) n by (simp_all add: op_ok_def)
  then show "\<exists>x. d = Arg x \<and> writable c x \<and> temp_type c x = ctype c"
    "\<exists>x. e = Arg x \<and> writable c x \<and> temp_type c x = ctype c"
    using w(6-8) by (auto simp: output_ok_def oarg_def)
qed

lemma set_temp_swap: "t \<noteq> u \<Longrightarrow> set_temp t x (set_temp u y \<sigma>) = set_temp u y (set_temp t x \<sigma>)"
  by (cases t; cases u) (auto simp: set_temp.simps fun_upd_twist)

lemma set_temp_forget:
  assumes "t \<noteq> u" "set_temp u y (set_temp t x \<sigma>) = set_temp t x \<sigma>"
  shows "set_temp u y \<sigma> = \<sigma>"
proof (cases u)
  case (Tmp n)
  have "tval (set_temp u y (set_temp t x \<sigma>)) u = tval (set_temp t x \<sigma>) u" using assms(2) by simp
  then have "ivals \<sigma> n = y" using assms(1) Tmp by (cases t) (simp_all add: set_temp.simps)
  then show ?thesis by (auto simp: Tmp set_temp.simps)
qed (simp add: set_temp.simps)

lemma exec_ops_append:
  "exec_ops E (xs @ ys) \<sigma> = (case exec_ops E xs \<sigma> of Fall \<sigma>' \<Rightarrow> exec_ops E ys \<sigma>' | r \<Rightarrow> r)"
  by (induction xs arbitrary: \<sigma>) (auto split: ir_out.splits)

lemma gen_movi_any:
  assumes ok: "opt_ok c \<sigma>" and d: "writable c d" "temp_type c d = ctype c" and l: "1 < length (args o1)"
    and g: "tcg_opt_gen_movi o1 (Arg d) v c = (r, c')"
  shows "opt_ok c' (set_temp d (canon (ctype c) v) \<sigma>)" "same_frame c c'" "used c \<subseteq> used c'"
    "r = None \<Longrightarrow> set_temp d (canon (ctype c) v) \<sigma> = \<sigma>"
    "r = Some o2 \<Longrightarrow> exec_op E o2 \<tau> = Fall (set_temp d (canon (ctype c) v) \<tau>)"
proof -
  let ?t = "Const (ctype c) (canon (ctype c) v)"
  let ?c = "init_ts_info ?t c"
  have k: "arg_new_constant v c = (Arg ?t, ?c)"
    by (simp add: arg_new_constant_def Let_def canon_def split: tcg_width.split)
  have g': "tcg_opt_gen_mov o1 (Arg d) (Arg ?t) ?c = (r, c')"
    using g unfolding tcg_opt_gen_movi_def k by simp
  have ok1: "opt_ok ?c \<sigma>" by (rule init_ts_info_ok [OF ok]) simp
  have fr: "same_frame c ?c" by simp
  have us: "used ?c = insert ?t (used c)" by (rule init_ts_info_used)
  have ty: "temp_type ?c x = temp_type c x" for x by (rule same_frame_type [OF fr])
  have w: "writable ?c d" by (rule writable_frame [OF fr _ d(1)]) (use us in auto)
  note m = tcg_opt_gen_mov_ok [where dst = "Arg d" and src = "Arg ?t", simplified, OF ok1 w _ _ _ g',
      where w = "ctype c", unfolded ty, OF _ d(2)]
  show "opt_ok c' (set_temp d (canon (ctype c) v) \<sigma>)" using m(1) us by simp
  show "same_frame c c'" using same_frame_trans [OF fr m(2)] us by simp
  show "used c \<subseteq> used c'" using m(3) us by auto
  show "r = None \<Longrightarrow> set_temp d (canon (ctype c) v) \<sigma> = \<sigma>" using m(4) us by simp
  have "ctype ?c = ctype c" using fr by (simp add: same_frame_def)
  then show "r = Some o2 \<Longrightarrow> exec_op E o2 \<tau> = Fall (set_temp d (canon (ctype c) v) \<tau>)"
    using m(5) [of o2] us exec_mov_op [OF l, of E "ctype c" "Arg d" "Arg ?t" \<tau>] by (simp add: aval_def)
qed

lemma two_movis_ok:
  assumes w: "wide \<sigma> d e lo hi c" and v: "canon (ctype c) l = lo" "canon (ctype c) h = hi"
  shows "case two_movis l h c of (b, c') \<Rightarrow> b \<and> wide_done E \<sigma> d e lo hi c'"
proof -
  note W = wideD [OF w]
  obtain x y where x: "d = Arg x" "writable c x" "temp_type c x = ctype c"
    and y: "e = Arg y" "writable c y" "temp_type c y = ctype c" using W(11,12) by auto
  have xy: "x \<noteq> y" using W(9) x(1) y(1) by auto
  let ?o2 = "\<lparr>opc = Op_discard, args = replicate 2 (Imm 0), callo = 0, calli = 0, call_flags = 0\<rparr> :: tcgop"
  obtain r1 c1 where g1: "tcg_opt_gen_movi (op c) (Arg x) l c = (r1, c1)" by (rule prod.exhaust)
  obtain r2 c2 where g2: "tcg_opt_gen_movi ?o2 (Arg y) h c1 = (r2, c2)" by (rule prod.exhaust)
  have len: "1 < length (args (op c))" using W(4) op2_shape [OF W(5)] by (auto simp: op_ok_def)
  note m1 = gen_movi_any [OF W(1) x(2,3) len g1]
  have c1: "ctype c1 = ctype c" "temp_type c1 y = ctype c" "writable c1 y"
    using m1(2,3) y same_frame_type [OF m1(2)] writable_frame [OF m1(2,3)] by (auto simp: same_frame_def)
  note m2 = gen_movi_any [OF m1(1) c1(3) _ _ g2, unfolded c1(1), OF c1(2)]
  have fr: "same_frame c c2" using same_frame_trans [OF m1(2) m2(2)] by simp
  have t: "two_movis l h c = (True, set_op r1 (c2\<lparr>op2 := (case r2 of None \<Rightarrow> [] | Some x \<Rightarrow> [x])\<rparr>))"
    by (simp add: two_movis_def Let_def W(7,8) [unfolded One_nat_def] x(1) y(1) g1 g2)
  let ?\<tau> = "set_temp y hi \<sigma>" and ?m2 = "case r2 of None \<Rightarrow> [] | Some x \<Rightarrow> [x]"
  have 2: "exec_ops E ?m2 \<sigma> = Fall ?\<tau>"
    using m2(4) v set_temp_forget [OF xy, of hi lo \<sigma>] by (cases r2) (simp_all add: m2(5))
  have 1: "exec_ops E (case r1 of None \<Rightarrow> [] | Some x \<Rightarrow> [x]) ?\<tau> = Fall (set_temp x lo ?\<tau>)"
    using m1(4) v set_temp_swap [OF xy, of lo hi \<sigma>] by (cases r1) (simp_all add: m1(5))
  have "emitted (snd (two_movis l h c)) = ?m2 @ (case r1 of None \<Rightarrow> [] | Some x \<Rightarrow> [x])"
    using fr W(2) by (cases r1) (simp_all add: t emitted_def set_op_def fresh_def same_frame_def)
  then have "exec_ops E (emitted (snd (two_movis l h c))) \<sigma> = Fall (set_temp x lo ?\<tau>)"
    using 1 2 by (simp add: exec_ops_append)
  moreover have "opt_ok (snd (two_movis l h c)) (set_temp x lo ?\<tau>)"
    using m2(1) v set_temp_swap [OF xy, of lo hi \<sigma>] by (cases r1) (simp_all add: t set_op_def)
  moreover have "\<not> trap (snd (two_movis l h c))"
    using fr W(2) by (cases r1) (simp_all add: t set_op_def fresh_def same_frame_def)
  ultimately show ?thesis using x(1) y(1) by (simp add: t wide_done_def)
qed

section \<open>Finishing\<close>

lemma finish_out_ok:
  assumes ok: "opt_ok c \<sigma>" and d: "args (op c) ! i = Arg (Tmp n)" "writable c (Tmp n)"
    and v: "canon (ttype (tdesc c n)) v = v"
    and m: "zmask_ok (ttype (tdesc c n)) v (z_mask c)" "smask_ok v (s_mask c)"
  shows "opt_ok (finish_out i c) (set_temp (Tmp n) v \<sigma>)" "same_frame c (finish_out i c)"
    "used (finish_out i c) = used c"
proof -
  let ?c = "reset_ts (Tmp n) c" and ?f = "\<lambda>ti. ti\<lparr>ti_z_mask := z_mask c, ti_s_mask := s_mask c\<rparr>"
  have f: "finish_out i c = (if i = 0 then upd_info (Tmp n) ?f ?c else ?c)"
    using d(1) by (simp add: finish_out_def oarg_def Let_def)
  have n: "Tmp n \<in> used c" "tcg_env c \<noteq> Tmp n" using d(2) by (auto simp: writable_def)
  have ok1: "opt_ok ?c (set_temp (Tmp n) v \<sigma>)" by (rule reset_ts_ok [OF ok n v])
  have ty: "temp_type ?c (Tmp n) = ttype (tdesc c n)" using same_frame_type [OF reset_ts_frame [of c "Tmp n"], of "Tmp n"] by simp
  have "opt_ok (upd_info (Tmp n) ?f ?c) (set_temp (Tmp n) v \<sigma>)"
    by (rule set_masks_ok [OF ok1]) (use n m ty in \<open>simp_all add: reset_ts_info unlink_self\<close>)
  then show "opt_ok (finish_out i c) (set_temp (Tmp n) v \<sigma>)" using ok1 f by simp
  show "same_frame c (finish_out i c)"
    using same_frame_trans [OF reset_ts_frame same_frame_upd_info] f by simp
  show "used (finish_out i c) = used c" by (simp add: f)
qed

lemma no_masks_ok: "no_masks c \<Longrightarrow> zmask_ok w v (z_mask c) \<and> smask_ok v (s_mask c)"
  by (simp add: no_masks_def)

lemma wide_finish:
  assumes w: "wide \<sigma> d e lo hi c"
  shows "wide_done E \<sigma> d e lo hi (finish_folding c)"
proof -
  note W = wideD [OF w]
  obtain n m where x: "d = Arg (Tmp n)" "writable c (Tmp n)" "ttype (tdesc c n) = ctype c"
    and y: "e = Arg (Tmp m)" "writable c (Tmp m)" "ttype (tdesc c m) = ctype c"
    using W(11,12) by (auto simp: writable_def)
  have nm: "Tmp n \<noteq> Tmp m" using W(9) x(1) y(1) by auto
  obtain l h where v: "op_value2 (opc (op c)) (in_val (op c) \<sigma>) = Some (l, h)" "canon (ctype c) l = lo" "canon (ctype c) h = hi"
    using w by (auto simp: wide_def)
  have cv: "canon (ctype c) lo = lo" "canon (ctype c) hi = hi" using v by auto
  have a: "args (op c) ! 0 = Arg (Tmp n)" "args (op c) ! 1 = Arg (Tmp m)" using W(7,8) x(1) y(1) by (simp_all add: oarg_def)
  note s = op2_shape [OF W(5)]
  have f: "finish_folding c = finish_out 1 (finish_out 0 c)" using s by (simp add: finish_folding_def numeral_2_eq_2)
  note f0 = finish_out_ok [OF W(1) a(1) x(2), of lo]
  have z: "zmask_ok (ctype c) t (z_mask c)" "smask_ok t (s_mask c)" for t using no_masks_ok [OF W(3)] by simp_all
  note g0 = f0 [unfolded x(3), OF cv(1) z]
  have c1: "op (finish_out 0 c) = op c" "tdesc (finish_out 0 c) = tdesc c" "z_mask (finish_out 0 c) = z_mask c"
    "s_mask (finish_out 0 c) = s_mask c" "writable (finish_out 0 c) (Tmp m)"
    using g0(2) writable_frame [OF g0(2) _ y(2)] g0(3) by (simp_all add: same_frame_def)
  note g1 = finish_out_ok [OF g0(1), of 1 m hi, unfolded c1(1-4), OF a(2) c1(5), unfolded y(3), OF cv(2) z]
  have fr: "same_frame c (finish_folding c)" unfolding f by (rule same_frame_trans [OF g0(2) g1(2)])
  have "emitted (finish_folding c) = [op c]" using fr W(2) by (simp add: emitted_def same_frame_def fresh_def)
  moreover have "exec_op E (op c) \<sigma> = Fall (set_temp (Tmp n) lo (set_temp (Tmp m) hi \<sigma>))"
    using s W(5,6) v a by (simp add: exec_op_def Let_def)
  moreover have "\<not> trap (finish_folding c)" using fr W(2) by (simp add: same_frame_def fresh_def)
  moreover have "opt_ok (finish_folding c) (set_temp (Tmp n) lo (set_temp (Tmp m) hi \<sigma>))"
    using g1(1) set_temp_swap [OF nm, of lo hi \<sigma>] by (simp add: f)
  ultimately show ?thesis using x(1) y(1) by (simp add: wide_done_def)
qed

section \<open>Values of double width\<close>

lemma add_carry_swap: "(a + b < a) = (a + b < b)" for a b :: u64
  by (metis olen_add_eqv not_le add.commute)

lemma uint64_add_low: "tci_uint64 ah bl + tci_uint64 bh al = tci_uint64 ah al + tci_uint64 bh bl"
  "tci_uint64 bh al + tci_uint64 ah bl = tci_uint64 ah al + tci_uint64 bh bl"
  by (simp_all add: tci_uint64_def)

lemma add2_swap_low: "add2_value w True bl ah al bh = add2_value w True al ah bl bh"
  using add_carry_swap [of al bl]
  by (cases w) (simp_all add: add2_value_def Let_def uint64_add_low add.commute [of bl al])

lemma add2_swap_high: "add2_value w True al bh bl ah = add2_value w True al ah bl bh"
  by (cases w) (simp_all add: add2_value_def Let_def uint64_add_low ac_simps)

lemma uint_word_cat_64: "uint (word_cat h l :: 128 word) = uint h * 2 ^ 64 + uint l" for h l :: u64
proof -
  have l: "uint l < 2 ^ 64" "uint h < 2 ^ 64" "0 \<le> uint l" "0 \<le> uint h"
    using uint_lt2p [of l] uint_lt2p [of h] by simp_all
  have "uint (word_cat h l :: 128 word) = (uint h * 2 ^ 64 + uint l) mod 2 ^ 128"
    by (simp add: word_cat_eq push_bit_eq_mult uint_word_ariths unsigned_ucast_eq take_bit_eq_mod mod_simps)
  then show ?thesis using l by simp
qed

lemma halves_mod:
  fixes h l n :: int
  assumes "0 \<le> l" "l < n" "0 < n"
  shows "(h * n + l) mod (n * n) div n = h mod n" "(h * n + l) mod (n * n) mod n = l"
proof -
  have "(h * n + l) mod (n * n) = (h mod n) * n + l"
  proof -
    have "h * n + l = (h div n) * (n * n) + ((h mod n) * n + l)"
      using div_mult_mod_eq [of h n] by (metis (no_types, lifting) add.assoc distrib_right mult.assoc)
    moreover have "0 \<le> (h mod n) * n + l" using assms by simp
    moreover have "(h mod n) * n + l < n * n"
    proof -
      have "h mod n \<le> n - 1" using assms(3) by (simp add: pos_mod_bound)
      then have "(h mod n) * n \<le> (n - 1) * n" using assms(3) by (intro mult_right_mono) simp_all
      then show ?thesis using assms(2) by (simp add: left_diff_distrib)
    qed
    ultimately show ?thesis by (metis mod_mult_self3 mod_pos_pos_trivial)
  qed
  then show "(h * n + l) mod (n * n) div n = h mod n" "(h * n + l) mod (n * n) mod n = l"
    using assms by simp_all
qed

text \<open>Splitting a sum or difference into halves: the carry of the low one.\<close>

lemma carry_split:
  fixes al ah bl bh n :: int
  assumes "0 \<le> al" "al < n" "0 \<le> bl" "bl < n" "0 < n"
  shows "((ah * n + al) + (bh * n + bl)) mod (n * n) mod n = (al + bl) mod n"
    "((ah * n + al) + (bh * n + bl)) mod (n * n) div n = (ah + bh + of_bool (n \<le> al + bl)) mod n"
    "((ah * n + al) - (bh * n + bl)) mod (n * n) mod n = (al - bl) mod n"
    "((ah * n + al) - (bh * n + bl)) mod (n * n) div n = (ah - bh - of_bool (al < bl)) mod n"
proof -
  let ?k = "of_bool (n \<le> al + bl) :: int" and ?j = "of_bool (al < bl) :: int"
  have s: "(ah * n + al) + (bh * n + bl) = (ah + bh + ?k) * n + (al + bl - ?k * n)"
    "(ah * n + al) - (bh * n + bl) = (ah - bh - ?j) * n + (al - bl + ?j * n)" by (simp_all add: algebra_simps)
  have k: "0 \<le> al + bl - ?k * n" "al + bl - ?k * n < n" "0 \<le> al - bl + ?j * n" "al - bl + ?j * n < n"
    using assms by auto
  have e: "(al + bl - ?k * n) mod n = (al + bl) mod n"
    using mod_mult_self1 [of "al + bl" "- ?k" n] by (simp only: mult_minus_left add_uminus_conv_diff)
  note m = trans [OF mod_pos_pos_trivial [OF k(1,2), symmetric] e]
    trans [OF mod_pos_pos_trivial [OF k(3,4), symmetric] mod_mult_self1 [of "al - bl" ?j n]]
  show "((ah * n + al) + (bh * n + bl)) mod (n * n) mod n = (al + bl) mod n"
    "((ah * n + al) + (bh * n + bl)) mod (n * n) div n = (ah + bh + ?k) mod n"
    "((ah * n + al) - (bh * n + bl)) mod (n * n) mod n = (al - bl) mod n"
    "((ah * n + al) - (bh * n + bl)) mod (n * n) div n = (ah - bh - ?j) mod n"
    unfolding s using halves_mod [OF k(1,2) assms(5)] halves_mod [OF k(3,4) assms(5)] m by simp_all
qed

lemma uint_halves_128:
  fixes r :: "128 word"
  shows "uint (ucast r :: u64) = uint r mod 2 ^ 64" "uint (ucast (drop_bit 64 r) :: u64) = uint r div 2 ^ 64"
proof -
  let ?n = "2 ^ 64 :: int"
  have n: "0 < ?n" by simp
  have lt: "uint r < ?n * ?n" using uint_lt2p [of r] by simp
  have d: "uint (drop_bit 64 r) = drop_bit 64 (uint r)"
    using take_bit_int_eq_self [of "uint r" 128] lt by (simp add: unsigned_drop_bit_eq)
  have "\<not> ?n \<le> uint r div ?n"
  proof
    assume "?n \<le> uint r div ?n"
    then have "?n * ?n \<le> ?n * (uint r div ?n)" by (rule mult_left_mono) simp
    moreover have "?n * (uint r div ?n) \<le> uint r"
      using mult_div_mod_eq [of ?n "uint r"] pos_mod_sign [OF n, of "uint r"] by linarith
    ultimately show False using lt by linarith
  qed
  then have "uint r div ?n mod ?n = uint r div ?n"
    by (intro mod_pos_pos_trivial) (simp_all only: not_le pos_imp_zdiv_nonneg_iff [OF n] uint_ge_0)
  then show "uint (ucast r :: u64) = uint r mod 2 ^ 64" "uint (ucast (drop_bit 64 r) :: u64) = uint r div 2 ^ 64"
    by (simp_all add: unsigned_ucast_eq d) (simp_all add: take_bit_eq_mod drop_bit_eq_div)
qed

lemma word_cat_arith:
  fixes al ah bl bh :: u64
  defines "a \<equiv> word_cat ah al :: 128 word" and "b \<equiv> word_cat bh bl :: 128 word"
  shows "ucast (a + b) = al + bl" "ucast (drop_bit 64 (a + b)) = ah + bh + of_bool (al + bl < al)"
    "ucast (a - b) = al - bl" "ucast (drop_bit 64 (a - b)) = ah - bh - of_bool (al < bl)"
proof -
  let ?n = "2 ^ 64 :: int"
  have n: "0 \<le> uint al" "uint al < ?n" "0 \<le> uint bl" "uint bl < ?n" "0 < ?n"
    using uint_lt2p [of al] uint_lt2p [of bl] by simp_all
  have s: "uint (x + y) = (uint x + uint y) mod (?n * ?n)" "uint (x - y) = (uint x - uint y) mod (?n * ?n)"
    for x y :: "128 word" by (simp_all add: uint_word_ariths)
  have c: "al + bl < al \<longleftrightarrow> ?n \<le> uint al + uint bl" using n by (simp add: word_less_def uint_plus_if')
  have h: "uint (ah + bh + of_bool q) = (uint ah + uint bh + of_bool q) mod ?n"
    "uint (ah - bh - of_bool q) = (uint ah - uint bh - of_bool q) mod ?n"
    "uint (al + bl) = (uint al + uint bl) mod ?n" "uint (al - bl) = (uint al - uint bl) mod ?n" for q
    by (simp_all add: uint_word_ariths mod_simps)
  show "ucast (a + b) = al + bl" "ucast (drop_bit 64 (a + b)) = ah + bh + of_bool (al + bl < al)"
    "ucast (a - b) = al - bl" "ucast (drop_bit 64 (a - b)) = ah - bh - of_bool (al < bl)"
    unfolding word_uint_eq_iff uint_halves_128(2) c unfolding uint_halves_128(1) h s a_def b_def uint_word_cat_64
      carry_split [OF n, of "uint ah" "uint bh"] word_less_def by (rule refl)+
qed

lemma addsub2_canon:
  "canon w (fst (addsub2_value w add al ah bl bh)) = canon w (fst (add2_value w add al ah bl bh))"
  "canon w (snd (addsub2_value w add al ah bl bh)) = canon w (snd (add2_value w add al ah bl bh))"
proof -
  have "canon I32 (sextract64 r 0 32) = canon I32 r" "canon I32 (sextract64 r 32 32) = canon I32 (drop_bit 32 r)" for r
    by (rule canon_eqI; simp add: bit_sextract64 bitfield_ok_def bit_simps min_def)+
  then show "canon w (fst (addsub2_value w add al ah bl bh)) = canon w (fst (add2_value w add al ah bl bh))"
    "canon w (snd (addsub2_value w add al ah bl bh)) = canon w (snd (add2_value w add al ah bl bh))"
    using word_cat_arith [of ah al bh bl]
    by (cases w; cases add; simp add: addsub2_value_def add2_value_def Let_def deposit_uint64)+
qed

text \<open>The difference with a constant as a sum with its negation.\<close>

lemma uint64_minus: "tci_uint64 (NOT h + of_bool (l = 0)) (- l) = - tci_uint64 h l"
proof -
  have nn: "uint (- x) = (if x = 0 then 0 else 2 ^ 32 - uint x)" for x :: u32
    using uint_lt2p [of x] by (simp add: uint_word_arith_bintrs(4) take_bit_eq_mod zmod_zminus1_eq_if word_uint_eq_iff)
  have n64: "uint (- x) = (if x = 0 then 0 else 2 ^ 64 - uint x)" for x :: u64
    using uint_lt2p [of x] by (simp add: uint_word_arith_bintrs(4) take_bit_eq_mod zmod_zminus1_eq_if word_uint_eq_iff)
  have n: "uint (NOT h) = 2 ^ 32 - 1 - uint h"
    using uint_lt2p [of h] by (simp add: not_eq_complement uint_sub_if' nn)
  have n1: "NOT h + 1 = - h" by (simp add: not_eq_complement)
  have z: "tci_uint64 h l = 0 \<longleftrightarrow> h = 0 \<and> l = 0" for h l
    using uint64_inject [of h l 0 0] by (simp add: tci_uint64_def)
  have "uint (tci_uint64 (NOT h + of_bool (l = 0)) (- l)) = uint (- tci_uint64 h l)"
    by (cases "l = 0"; cases "h = 0") (simp_all add: uint_tci_uint64 n64 n nn n1 z)
  then show ?thesis by (simp add: word_uint_eq_iff)
qed

lemma sub2_as_add2:
  fixes al ah bl bh :: u64
  assumes "w = I32 \<Longrightarrow> sext32 (lo32 bl) = bl"
  defines "nl \<equiv> - bl" and "nh \<equiv> NOT bh + of_bool (- bl = 0)"
  shows "add2_value w True al ah (canon w nl) (canon w nh) = add2_value w False al ah bl bh"
proof (cases w)
  case I64
  have "al + - bl < al \<longleftrightarrow> bl \<noteq> 0 \<and> \<not> al < bl"
    using uint_lt2p [of al] uint_lt2p [of bl] word_gt_0 [of bl] by (auto simp: word_less_def uint_sub_if')
  then show ?thesis by (simp add: I64 add2_value_def nl_def nh_def not_eq_complement)
next
  case I32
  have z: "bl = 0 \<longleftrightarrow> lo32 bl = 0" using assms(1) [OF I32] by (metis signed_0 unsigned_0)
  have "lo32 (- bl) + lo32 bl = 0" by (simp flip: ucast_add_64_32)
  then have m: "lo32 (- bl) = - lo32 bl" by (simp add: eq_neg_iff_add_eq_0)
  have "lo32 (NOT bh) = NOT (lo32 bh)" by (rule bit_word_eqI) (simp add: bit_simps)
  then have "lo32 (NOT bh + of_bool (bl = 0)) = NOT (lo32 bh) + of_bool (lo32 bl = 0)"
    by (simp add: z ucast_add_64_32)
  with m show ?thesis using uint64_minus [of "lo32 bh" "lo32 bl"] by (simp add: I32 add2_value_def nl_def nh_def Let_def)
qed

section \<open>The folders\<close>

lemma wide_replace:
  assumes w: "wide \<sigma> d e lo hi c" and o1: "is_op2 (opc o1)" "op_type (opc o1) = ctype c" "op_ok c o1"
    "args o1 ! 0 = d" "args o1 ! 1 = e"
    and v: "op_value2 (opc o1) (in_val o1 \<sigma>) = Some (l, h)" "canon (ctype c) l = lo" "canon (ctype c) h = hi"
  shows "wide \<sigma> d e lo hi (c\<lparr>op := o1\<rparr>)"
proof -
  have "op_ok (c\<lparr>op := o1\<rparr>) o1" by (rule used_mono_op_ok [OF o1(3)]) simp_all
  then show ?thesis using w o1 v by (simp add: wide_def fresh_def oarg_def)
qed

lemma wide_swap:
  assumes w: "wide \<sigma> d e lo hi c" and ij: "i \<noteq> j" "i < nb_iargs (opc (op c))" "j < nb_iargs (opc (op c))"
    "in_type (opc (op c)) i = in_type (opc (op c)) j"
    and law: "\<And>v. op_value2 (opc (op c)) (v(i := v j, j := v i)) = op_value2 (opc (op c)) v"
  shows "wide \<sigma> d e lo hi (snd (swap_commutative dest (2 + i) (2 + j) c))"
proof -
  note W = wideD [OF w]
  let ?o = "swap_args (2 + i) (2 + j) (op c)"
  have len: "2 + nb_iargs (opc (op c)) \<le> length (args (op c))"
    using W(4) op2_shape [OF W(5)] by (auto simp: op_ok_def)
  have a: "opc ?o = opc (op c)" "length (args ?o) = length (args (op c))" "args ?o ! 0 = args (op c) ! 0" "args ?o ! Suc 0 = args (op c) ! Suc 0"
    "\<And>k. k < nb_iargs (opc (op c)) \<Longrightarrow> args ?o ! (2 + k) = args (op c) ! (2 + (if k = i then j else if k = j then i else k))"
    using ij len by (auto simp: swap_args_def nth_list_update)
  let ?v = "in_val (op c) \<sigma>"
  have iv: "in_val ?o \<sigma> k = (?v(i := ?v j, j := ?v i)) k" if "k < nb_iargs (opc (op c))" for k
    using a(1,5) that W(10) ij(1) by (simp add: in_val_def)
  have v: "op_value2 (opc (op c)) (in_val ?o \<sigma>) = op_value2 (opc (op c)) ?v"
    by (rule trans [OF op_value2_cong [OF W(5)] law]) (rule iv)
  have "input_ok c ?o k" if "k < nb_iargs (opc (op c))" for k
  proof -
    have "input_ok c (op c) i" "input_ok c (op c) j" "input_ok c (op c) k" using W(4) ij that by (simp_all add: op_ok_def)
    then show ?thesis using a(1,5) that W(10) ij by (auto simp: input_ok_def)
  qed
  moreover have "output_ok c ?o k" if "k < 2" for k
    using W(4,10) that a by (cases k) (auto simp: op_ok_def output_ok_def less_Suc_eq)
  ultimately have ok: "op_ok c ?o" using W(4,10) a(1,2) by (simp add: op_ok_def)
  obtain l h where lh: "op_value2 (opc (op c)) (in_val (op c) \<sigma>) = Some (l, h)" "canon (ctype c) l = lo" "canon (ctype c) h = hi"
    using w by (auto simp: wide_def)
  have "wide \<sigma> d e lo hi (c\<lparr>op := ?o\<rparr>)"
    by (rule wide_replace [OF w _ _ ok _ _ _ lh(2,3)]) (use a v lh W(5-8) in \<open>simp_all add: oarg_def\<close>)
  then show ?thesis using swap_commutative_cases [of dest "2 + i" "2 + j" c] w by auto
qed

lemma swap_commutative_opc [simp]: "opc (op (snd (swap_commutative dest p q c))) = opc (op c)"
  using swap_commutative_cases [of dest p q c] by (auto simp: swap_args_def)

lemma input2:
  assumes w: "wide \<sigma> d e lo hi c" and i: "i < nb_iargs (opc (op c))"
  shows "oconst c (2 + i) \<Longrightarrow> oval c (2 + i) = in_val (op c) \<sigma> i"
    "in_type (opc (op c)) i = Some t \<Longrightarrow> canon t (in_val (op c) \<sigma> i) = in_val (op c) \<sigma> i"
proof -
  note W = wideD [OF w]
  have "input_ok c (op c) i" using W(4) i by (simp add: op_ok_def)
  then obtain u where u: "oarg c (2 + i) = Arg u" "u \<in> used c" "type_fits (in_type (opc (op c)) i) (temp_type c u)"
    using W(10) by (auto simp: input_ok_def oarg_def)
  have v: "in_val (op c) \<sigma> i = tval \<sigma> u" using u(1) W(10) by (simp add: in_val_def oarg_def aval_def)
  show "oconst c (2 + i) \<Longrightarrow> oval c (2 + i) = in_val (op c) \<sigma> i"
    using const_val [OF W(1) u(2)] u(1) v
    by (simp add: oval_def oconst_def arg_is_const_def ts_is_const_def arg_info_def ts_info_def)
  show "in_type (opc (op c)) i = Some t \<Longrightarrow> canon t (in_val (op c) \<sigma> i) = in_val (op c) \<sigma> i"
    using tval_canon [OF W(1) u(2)] u(3) v by (auto simp: type_fits_def)
qed

definition wide_result :: "'w ir_env \<Rightarrow> 'w ir \<Rightarrow> tcgarg \<Rightarrow> tcgarg \<Rightarrow> u64 \<Rightarrow> u64 \<Rightarrow> bool \<times> opt_context \<Rightarrow> bool" where
  "wide_result E \<sigma> d e lo hi r \<longleftrightarrow>
     (case r of (b, c) \<Rightarrow> if b then wide_done E \<sigma> d e lo hi c else wide \<sigma> d e lo hi c)"

lemma two_movis_result:
  assumes "wide \<sigma> d e lo hi c" "canon (ctype c) l = lo" "canon (ctype c) h = hi"
  shows "wide_result E \<sigma> d e lo hi (two_movis l h c)"
  using two_movis_ok [OF assms, of E] by (auto simp: wide_result_def)

definition is_mul2 :: "tcg_opc \<Rightarrow> bool" where
  "is_mul2 oc \<longleftrightarrow> oc \<in> {Tcg Op_mulu2_i32, Tcg Op_muls2_i32, Op_mulu2_i64, Op_muls2_i64}"

lemma mul2_facts:
  assumes "is_mul2 oc"
  shows "nb_iargs oc = 2" "in_type oc 0 = in_type oc 1" "fold_opc oc = fold_multiply2"
    "op_value2 oc (v(0 := v 1, 1 := v 0)) = op_value2 oc v"
    "op_value2 oc v = Some (l, h) \<Longrightarrow>
       \<exists>l' h'. multiply2_value oc (v 0) (v 1) = Some (l', h') \<and> canon (op_type oc) l' = canon (op_type oc) l
         \<and> canon (op_type oc) h' = canon (op_type oc) h"
  using assms by (auto simp: is_mul2_def nb_iargs_def Let_def mulu64_def muls64_def mult.commute canon_I32)

lemma fold_multiply2_ok:
  assumes w: "wide \<sigma> d e lo hi c" and oc: "is_mul2 (opc (op c))"
  shows "wide_result E \<sigma> d e lo hi (fold_multiply2 c)"
proof -
  define c1 where "c1 = snd (swap_commutative (Some (oarg c 0)) 2 3 c)"
  note f = mul2_facts [OF oc]
  have w1: "wide \<sigma> d e lo hi c1" unfolding c1_def
    using wide_swap [OF w, of 0 1 "Some (oarg c 0)"] f(1,2,4) by (simp add: eval_nat_numeral)
  have o1: "opc (op c1) = opc (op c)" by (simp add: c1_def)
  obtain l h where v: "op_value2 (opc (op c)) (in_val (op c1) \<sigma>) = Some (l, h)" "canon (ctype c1) l = lo" "canon (ctype c1) h = hi"
    using w1 o1 by (auto simp: wide_def)
  obtain l' h' where m: "multiply2_value (opc (op c)) (in_val (op c1) \<sigma> 0) (in_val (op c1) \<sigma> 1) = Some (l', h')"
      "canon (ctype c1) l' = lo" "canon (ctype c1) h' = hi"
    using f(5) [OF v(1)] v(2,3) wideD(6) [OF w1] o1 by auto
  have k: "oval c1 2 = in_val (op c1) \<sigma> 0" "oval c1 3 = in_val (op c1) \<sigma> 1" if "oconst c1 2 \<and> oconst c1 3"
    using input2(1) [OF w1, of 0] input2(1) [OF w1, of 1] that o1 f(1) by (simp_all add: eval_nat_numeral)
  show ?thesis
    using two_movis_result [OF w1 m(2,3), of E] k m(1) w1 o1
    by (simp add: fold_multiply2_def Let_def c1_def [symmetric] wide_result_def)
qed

lemma wide_mono:
  assumes w: "wide \<sigma> d e lo hi c" and c1: "opt_ok c1 \<sigma>" "same_frame c c1" "used c \<subseteq> used c1"
  shows "wide \<sigma> d e lo hi c1"
proof -
  have "op_ok c1 (op c1)"
    using used_mono_op_ok [OF wideD(4) [OF w] c1(3)] c1(2) by (simp add: same_frame_def)
  then show ?thesis using w c1 by (auto simp: wide_def same_frame_def fresh_def no_masks_def oarg_def)
qed

lemma init_ts_info_op: "init_ts_info t (c\<lparr>op := o1\<rparr>) = (init_ts_info t c)\<lparr>op := o1\<rparr>"
  by (cases t) (simp_all add: init_ts_info_def upd_info_def)

lemma arg_new_constant_eq:
  "arg_new_constant v c = (Arg (Const (ctype c) (canon (ctype c) v)), init_ts_info (Const (ctype c) (canon (ctype c) v)) c)"
  by (simp add: arg_new_constant_def Let_def canon_def split: tcg_width.split)

text \<open>The difference with a constant: the operation and its two new constants.\<close>

lemma sub2_const_ok:
  assumes w: "wide \<sigma> d e lo hi c" and oc: "opc (op c) = Tcg (Op_sub2 w)"
    and bl: "in_val (op c) \<sigma> 2 = bl" and bh: "in_val (op c) \<sigma> 3 = bh"
  defines "t4 \<equiv> Const w (canon w (- bl))" and "t5 \<equiv> Const w (canon w (NOT bh + of_bool (- bl = 0)))"
  shows "wide \<sigma> d e lo hi ((init_ts_info t5 (init_ts_info t4 c))
    \<lparr>op := (op c)\<lparr>opc := Tcg (Op_add2 w), args := (args (op c))[4 := Arg t4, 5 := Arg t5]\<rparr>\<rparr>)"
proof -
  let ?c = "init_ts_info t5 (init_ts_info t4 c)"
  let ?o = "(op c)\<lparr>opc := Tcg (Op_add2 w), args := (args (op c))[4 := Arg t4, 5 := Arg t5]\<rparr>"
  note W = wideD [OF w]
  have n: "nb_iargs (Tcg (Op_sub2 w)) = 4" "nb_iargs (Tcg (Op_add2 w)) = 4" "nb_oargs (Tcg (Op_add2 w)) = 2"
      "nb_args (Tcg (Op_add2 w)) = 6" "nb_args (Tcg (Op_sub2 w)) = 6"
    by (simp_all add: nb_iargs_def nb_oargs_def nb_args_def)
  have cw: "ctype c = w" using W(6) oc by simp
  have len: "6 \<le> length (args (op c))" using W(4) oc n by (simp add: op_ok_def)
  have ok: "opt_ok ?c \<sigma>" by (intro init_ts_info_ok W(1)) (simp_all add: t4_def t5_def)
  have fr: "same_frame c ?c" by (rule same_frame_trans [OF init_ts_info_frame init_ts_info_frame])
  have us: "used ?c = insert t5 (insert t4 (used c))" by (simp add: init_ts_info_used)
  have w1: "wide \<sigma> d e lo hi ?c" by (rule wide_mono [OF w ok fr]) (use us in auto)
  have ty: "temp_type ?c x = temp_type c x" for x by (rule same_frame_type [OF fr])
  have op: "op ?c = op c" "ctype ?c = w" using fr cw by (simp_all add: same_frame_def)
  note W1 = wideD [OF w1]
  have a: "args ?o ! k = args (op c) ! k" if "k < 4" for k using that by simp
  have a45: "args ?o ! 4 = Arg t4" "args ?o ! 5 = Arg t5" using len by simp_all
  have "input_ok ?c ?o k" if k: "k < 4" for k
  proof -
    have "input_ok ?c (op c) k" using W1(4) op oc n k by (simp add: op_ok_def)
    moreover consider "k = 0" | "k = 1" | "k = 2" | "k = 3" using k by linarith
    ultimately show ?thesis
      using a45 us len W(10) by cases (auto simp: input_ok_def n oc ty t4_def t5_def type_fits_def nth_list_update)
  qed
  moreover have "output_ok ?c ?o k" if "k < 2" for k
    using W1(4) op oc that n(3) W(10) a by (auto simp: op_ok_def output_ok_def)
  ultimately have oko: "op_ok ?c ?o" using len by (simp add: op_ok_def n)
  obtain l h where v: "add2_value w False (in_val (op c) \<sigma> 0) (in_val (op c) \<sigma> 1) bl bh = (l, h)" "canon w l = lo" "canon w h = hi"
    using w oc bl bh cw by (auto simp: wide_def)
  have "w = I32 \<Longrightarrow> sext32 (lo32 bl) = bl"
    using input2(2) [OF w, of 2 w] bl oc n(1) by (simp add: canon_I32)
  from sub2_as_add2 [where al = "in_val (op c) \<sigma> 0" and ah = "in_val (op c) \<sigma> 1" and bh = bh, OF this] v(1)
  have "op_value2 (opc ?o) (in_val ?o \<sigma>) = Some (l, h)"
    using W(10) oc len by (simp add: in_val_def n nth_list_update t4_def t5_def aval_def)
  then show ?thesis
    by (intro wide_replace [OF w1 _ _ oko]) (use v a W(7,8) op in \<open>simp_all add: is_op2_def oarg_def\<close>)
qed

lemma fold_addsub2_ok:
  assumes w: "wide \<sigma> d e lo hi c" and oc: "opc (op c) = Tcg (if add then Op_add2 w else Op_sub2 w)"
  shows "wide_result E \<sigma> d e lo hi (fold_addsub2 add c)"
proof -
  note W = wideD [OF w]
  let ?v = "in_val (op c) \<sigma>"
  have n: "nb_iargs (opc (op c)) = 4" using oc by (cases add) (simp_all add: nb_iargs_def)
  have cw: "ctype c = w" using W(6) oc by (cases add) simp_all
  have k: "oconst c (2 + i) \<Longrightarrow> oval c (2 + i) = ?v i" if "i < 4" for i using input2(1) [OF w, of i] n that by simp
  obtain l h where v: "add2_value w add (?v 0) (?v 1) (?v 2) (?v 3) = (l, h)" "canon w l = lo" "canon w h = hi"
    using w oc cw by (cases add) (auto simp: wide_def)
  obtain l' h' where a: "addsub2_value w add (?v 0) (?v 1) (?v 2) (?v 3) = (l', h')" by (rule prod.exhaust)
  have both: "wide_result E \<sigma> d e lo hi (two_movis l' h' c)"
    by (rule two_movis_result [OF w]) (use addsub2_canon [of w add "?v 0" "?v 1" "?v 2" "?v 3"] v a cw in simp_all)
  show ?thesis
  proof (cases "\<not> add \<and> oconst c 4 \<and> oconst c 5 \<and> \<not> (oconst c 2 \<and> oconst c 3)")
    case True
    then have b: "oval c 4 = ?v 2" "oval c 5 = ?v 3" using k [of 2] k [of 3] by simp_all
    have nc: "\<not> ((oconst c 2 \<and> oconst c 3) \<and> oconst c 4 \<and> oconst c 5)" and bc: "\<not> add \<and> oconst c 4 \<and> oconst c 5"
      using True by auto
    let ?t4 = "Const w (canon w (- ?v 2))" and ?t5 = "Const w (canon w (NOT (?v 3) + of_bool (- ?v 2 = 0)))"
    have ct: "ctype (init_ts_info t c) = ctype c" for t using init_ts_info_frame [of c t] by (simp add: same_frame_def)
    have "fold_addsub2 add c = (False, (init_ts_info ?t5 (init_ts_info ?t4 c))
      \<lparr>op := (op c)\<lparr>opc := Tcg (Op_add2 w), args := (args (op c))[4 := Arg ?t4, 5 := Arg ?t5]\<rparr>\<rparr>)"
      unfolding fold_addsub2_def Let_def if_not_P [OF nc] if_P [OF bc] b cw
      by (simp add: set_opc_def arg_new_constant_eq init_ts_info_op set_oarg_def cw ct split del: if_split)
    then show ?thesis using sub2_const_ok [OF w _ refl refl, of w] True oc by (simp add: wide_result_def)
  next
    case False
    then show ?thesis
      using both a cw k [of 0] k [of 1] k [of 2] k [of 3] w
      by (auto simp: fold_addsub2_def Let_def wide_result_def)
  qed
qed

lemma fold_add2_ok:
  assumes w: "wide \<sigma> d e lo hi c" and oc: "opc (op c) = Tcg (Op_add2 w)"
  shows "wide_result E \<sigma> d e lo hi (fold_add2 c)"
proof -
  define c1 where "c1 = snd (swap_commutative (Some (oarg c 0)) 2 4 c)"
  define c2 where "c2 = snd (swap_commutative (Some (oarg c1 1)) 3 5 c1)"
  have o1: "opc (op c1) = Tcg (Op_add2 w)" and o2: "opc (op c2) = opc (op c1)"
    using oc by (simp_all add: c1_def c2_def)
  have n: "nb_iargs (Tcg (Op_add2 w)) = 4" by (simp add: nb_iargs_def)
  have w1: "wide \<sigma> d e lo hi c1" unfolding c1_def
    using wide_swap [OF w, of 0 2 "Some (oarg c 0)"] oc n add2_swap_low by simp
  have w2: "wide \<sigma> d e lo hi c2" unfolding c2_def
    using wide_swap [OF w1, of 1 3 "Some (oarg c1 1)"] o1 n add2_swap_high by (simp add: eval_nat_numeral)
  show ?thesis
    using fold_addsub2_ok [OF w2, of True w E] o1 o2 by (simp add: fold_add2_def Let_def c1_def c2_def)
qed

section \<open>The step\<close>

lemma op2_folders:
  assumes w: "wide \<sigma> d e lo hi c"
  shows "wide_result E \<sigma> d e lo hi (fold_opc (opc (op c)) c)"
proof -
  have "is_op2 (opc (op c))" by (rule wideD(5) [OF w])
  then consider x where "opc (op c) = Tcg (Op_add2 x)" | x where "opc (op c) = Tcg (Op_sub2 x)" | "is_mul2 (opc (op c))"
    by (auto simp: is_op2_def is_mul2_def split: tcg_opc.splits tcg_op.splits)
  then show ?thesis
  proof cases
    case (1 x)
    then show ?thesis using fold_add2_ok [OF w 1] by simp
  next
    case (2 x)
    then show ?thesis using fold_addsub2_ok [OF w, of False x E] by (simp add: fold_sub2_def)
  next
    case 3
    then show ?thesis using fold_multiply2_ok [OF w 3] mul2_facts(3) [OF 3] by simp
  qed
qed

lemma op2_step:
  assumes ok: "opt_ok c \<sigma>" and wf: "wf_op (tdesc c) (tcg_env c) (op c)" and fr: "fresh c"
    and oc: "is_op2 (opc (op c))" and def: "exec_op E (op c) \<sigma> \<noteq> Undef"
  shows "step_ok E (op c) \<sigma> (fold_op c)"
proof -
  let ?c = "start_op c" and ?oc = "opc (op c)"
  have no: "?oc \<noteq> Tcg Op_call" "?oc \<noteq> Op_discard" using oc by (auto simp: is_op2_def)
  note s = start_op_ok [OF ok wf] and sh = op2_shape [OF oc]
  note ex = start_op_exec [OF ok wf no(1), of E]
  have oc1: "opc (op ?c) = ?oc" using s(3,4) by simp
  have outs: "op_outs (op c) = 2" using sh no by (simp add: op_outs_def)
  have len: "2 \<le> length (args (op c))" using wf_opD(2) [OF wf] outs by simp
  have a: "oarg ?c i = args (op c) ! i" if "i < 2" for i
    using s(1,3) outs len that by (simp add: prep_ok_def same_inputs_def oarg_def)
  have de: "oarg ?c 0 \<noteq> oarg ?c 1"
    using wf_opD(6) [OF wf] len a [of 0] a [of 1] by (simp add: outs distinct_conv_nth)
  obtain l h where v: "op_value2 ?oc (in_val (op ?c) \<sigma>) = Some (l, h)"
    using def ex sh oc by (auto simp: exec_op_def oc1 Let_def split: option.splits)
  define lo hi where "lo = canon (ctype ?c) l" and "hi = canon (ctype ?c) h"
  have w: "wide \<sigma> (oarg ?c 0) (oarg ?c 1) lo hi ?c"
    using s(2,5,6) s(7) [OF fr] oc start_op_op_ok [OF ok wf no] v de by (simp add: wide_def oc1 lo_def hi_def)
  have e: "exec_op E (op c) \<sigma> = Fall (set_temp (arg_temp (oarg ?c 0)) lo (set_temp (arg_temp (oarg ?c 1)) hi \<sigma>))"
    using v oc sh s(5) ex [symmetric] by (simp add: exec_op_def oc1 Let_def lo_def hi_def oarg_def)
  have "wide_done E \<sigma> (oarg ?c 0) (oarg ?c 1) lo hi (fold_op c)"
    using op2_folders [OF w, of E] wide_finish [of \<sigma> "oarg ?c 0" "oarg ?c 1" lo hi _ E]
    unfolding fold_op_start [OF no(1)] oc1 wide_result_def by (auto split: prod.splits if_splits)
  then show ?thesis using e by (simp add: wide_done_def step_ok_def)
qed

end
