(* ===== verification/Opt_Branch.thy ===== *)
theory Opt_Branch
  imports Opt_Wide
begin

text \<open>
  One turn of the optimizer's loop on the operations that end a basic block, and on those without a
  value: branches are removed or become unconditional when their condition is known, and the knowledge is
  dropped where control flow joins.
\<close>

section \<open>Branches as executed\<close>

lemma exec_brcond:
  assumes "opc o1 = Tcg (Op_brcond w)"
  shows "exec_op E o1 \<sigma> = branch_out (compare_value w (aval \<sigma> (args o1 ! 0)) (aval \<sigma> (args o1 ! 1))
    (lo32 (arg_imm (args o1 ! 2)))) (arg_imm (args o1 ! 3)) \<sigma>"
  using assms by (simp add: exec_op_def is_op1_def is_op2_def in_val_def imm_val_def nb_oargs_def nb_iargs_def eval_nat_numeral)

lemma exec_brcond2:
  assumes "opc o1 = Op_brcond2_i32"
  shows "exec_op E o1 \<sigma> = branch_out (compare2_value (aval \<sigma> (args o1 ! 0)) (aval \<sigma> (args o1 ! 1))
    (aval \<sigma> (args o1 ! 2)) (aval \<sigma> (args o1 ! 3)) (lo32 (arg_imm (args o1 ! 4)))) (arg_imm (args o1 ! 5)) \<sigma>"
  using assms by (simp add: exec_op_def is_op1_def is_op2_def in_val_def imm_val_def nb_oargs_def nb_iargs_def eval_nat_numeral)

lemma exec_br: "opc o1 = Tcg Op_br \<Longrightarrow> exec_op E o1 \<sigma> = Goto (arg_imm (args o1 ! 0)) \<sigma>"
  by (simp add: exec_op_def is_op1_def is_op2_def imm_val_def nb_oargs_def nb_iargs_def)

lemma branch_out_simps [simp]:
  "branch_out (Some True) l \<sigma> = Goto l \<sigma>" "branch_out (Some False) l \<sigma> = Fall \<sigma>" "branch_out None l \<sigma> = Undef"
  by (simp_all add: branch_out_def)

text \<open>The inputs of an operation as arguments.\<close>

lemma input_arg_ok:
  assumes "op_ok c (op c)" "i < nb_iargs (opc (op c))" "in_type (opc (op c)) i = Some w"
  shows "arg_ok c \<sigma> w (oarg c (nb_oargs (opc (op c)) + i)) (in_val (op c) \<sigma> i)"
proof -
  have "input_ok c (op c) i" using assms(1,2) by (simp add: op_ok_def)
  then show ?thesis using assms(3) by (auto simp: input_ok_def arg_ok_def oarg_def in_val_def aval_def type_fits_def)
qed

section \<open>Forgetting everything\<close>

lemma remove_in_loop_mem:
  "mc \<in> set (remove_in_loop mcs s l) \<Longrightarrow> mc \<in> set mcs \<and> \<not> mc_overlaps s l mc"
proof (induction mcs s l rule: remove_in_loop.induct)
  case (1 mcs s l)
  show ?case
  proof (cases "mem_copy_first mcs s l")
    case None
    then have "remove_in_loop mcs s l = mcs" by (simp add: remove_in_loop.simps [of mcs])
    with None 1(2) show ?thesis by (auto simp: mem_copy_first_def find_None_iff)
  next
    case (Some m)
    then show ?thesis
      using 1 notin_set_remove1 by (fastforce simp: remove_in_loop.simps [of mcs])
  qed
qed

lemma remove_mem_copy_all_empty [simp]: "mem_copy (remove_mem_copy_all c) = []"
proof -
  have "mc \<notin> set (remove_in_loop (mem_copy c) 0 (- 1))" for mc
    using remove_in_loop_mem [of mc "mem_copy c" 0 "- 1"] by (auto simp: mc_overlaps_def)
  then have "remove_in_loop (mem_copy c) 0 (- 1) = []" by (metis last_in_set)
  then show ?thesis by (simp add: remove_mem_copy_all_def remove_mem_copy_in_def)
qed

lemma remove_mem_copy_in_ok: "opt_ok c \<sigma> \<Longrightarrow> opt_ok (remove_mem_copy_in s l c) \<sigma>"
proof -
  assume ok: "opt_ok c \<sigma>"
  let ?c = "remove_mem_copy_in s l c"
  have ty: "temp_type ?c t = temp_type c t" for t by (rule temp_type_cong) (simp add: remove_mem_copy_in_def)
  have "mc_ok ?c \<sigma> mc" if "mc \<in> set (mem_copy ?c)" for mc
    using opt_okD(4) [OF ok, of mc] remove_in_loop_mem [of mc "mem_copy c" s l] that
      mc_ok_frame [of c \<sigma> mc ?c] by (simp add: remove_mem_copy_in_def)
  then show ?thesis
    using ok by (auto simp: opt_ok_def ring_ok_def known_ok_def env_ok_def ty) (auto simp: remove_mem_copy_in_def)
qed

lemma opt_ok_empty:
  assumes "canon_state (tdesc c) \<sigma>" "env_ok c" "temps_used c = []" "mem_copy c = []"
  shows "opt_ok c \<sigma>"
  using assms by (simp add: opt_ok_def ring_ok_def ring_def)

section \<open>Conditional branches\<close>

definition branch_result :: "'w ir_env \<Rightarrow> 'w ir \<Rightarrow> 'w ir_out \<Rightarrow> bool \<times> opt_context \<Rightarrow> bool" where
  "branch_result E \<sigma> r x \<longleftrightarrow>
     (case x of (b, c) \<Rightarrow>
        opt_ok c \<sigma> \<and> \<not> trap c
        \<and> (if b then r = Fall \<sigma> \<and> emitted c = []
           else fresh c \<and> exec_op E (op c) \<sigma> = r \<and> (opf_cond_branch (opc (op c)) \<or> opc (op c) = Tcg Op_br)))"

lemma branch_finish:
  assumes "branch_result E \<sigma> r (False, c)" "exec_op E o1 \<sigma> = r" "r = Fall \<sigma> \<or> (\<exists>l. r = Goto l \<sigma>)"
  shows "step_ok E o1 \<sigma> (finish_folding c)"
proof -
  have c: "opt_ok c \<sigma>" "fresh c" "exec_op E (op c) \<sigma> = r" "opf_cond_branch (opc (op c)) \<or> opc (op c) = Tcg Op_br"
    using assms(1) by (simp_all add: branch_result_def)
  have bb: "opf_bb_end (opc (op c))" using c(4)
    by (auto simp: opf_bb_end_def opf_cond_branch_def split: tcg_opc.splits tcg_op.splits)
  have e: "emitted (finish_folding c) = [op c]" "\<not> trap (finish_folding c)"
    using bb c(2) by (auto simp: finish_folding_def Let_def emitted_def fresh_def remove_mem_copy_all_def remove_mem_copy_in_def)
  have "opt_ok (finish_folding c) \<sigma>" if "r = Fall \<sigma>"
  proof -
    have "opc (op c) \<noteq> Tcg Op_br" using that c(3) exec_br [of "op c" E \<sigma>] by auto
    then have "opf_cond_branch (opc (op c))" using c(4) by simp
    then show ?thesis using bb c(1) by (simp add: finish_folding_def Let_def)
  qed
  then show ?thesis using e c(3) assms(2,3) by (auto simp: step_ok_def)
qed

lemma branch_step:
  assumes "branch_result E \<sigma> r x" "exec_op E o1 \<sigma> = r" "r = Fall \<sigma> \<or> (\<exists>l. r = Goto l \<sigma>)"
  shows "step_ok E o1 \<sigma> (case x of (b, c) \<Rightarrow> if b then c else finish_folding c)"
proof (cases x)
  case (Pair b c)
  then show ?thesis
    using branch_finish [of E \<sigma> r c o1] assms by (cases b) (auto simp: branch_result_def step_ok_def)
qed

text \<open>A branch whose condition is known.\<close>

lemma branch_known:
  assumes "opt_ok c \<sigma>" "fresh c" "0 < length (args (op c))"
    and r: "branch_out (Some b) (arg_imm l) \<sigma> = r"
  shows "branch_result E \<sigma> r (brcond2_const b l c)"
  using assms
  by (cases b) (auto simp: brcond2_const_def branch_result_def emitted_def fresh_def set_oarg_def set_opc_def exec_br)

lemma branch_unfolded:
  assumes "opt_ok c \<sigma>" "fresh c" "exec_op E (op c) \<sigma> = r" "opf_cond_branch (opc (op c))"
  shows "branch_result E \<sigma> r (False, c)"
  using assms by (simp add: branch_result_def fresh_def)

lemma fold_brcond_ok:
  assumes ok: "opt_ok c \<sigma>" "fresh c" "op_ok c (op c)" and oc: "opc (op c) = Tcg (Op_brcond w)" "ctype c = w"
    and r: "exec_op E (op c) \<sigma> = r" "r \<noteq> Undef"
  shows "branch_result E \<sigma> r (fold_brcond c)"
proof -
  let ?as = "args (op c)"
  have len: "3 < length ?as" using ok(3) oc by (simp add: op_ok_def nb_args_def)
  then have l0: "0 < length ?as" by linarith
  obtain sw c1 where sw: "swap_commutative None 0 1 c = (sw, c1)" by (rule prod.exhaust)
  define k where "k = (if sw then tcg_swap_cond (lo32 (oimm c 2)) else lo32 (oimm c 2))"
  define c2 where "c2 = (if sw then set_oarg 2 (Imm (zext32 k)) c1 else c1)"
  define as where "as = (if sw then ?as[0 := ?as ! 1, 1 := ?as ! 0, 2 := Imm (zext32 k)] else ?as)"
  have c2: "c2 = c\<lparr>op := (op c)\<lparr>args := as\<rparr>\<rparr>"
    using sw swap_commutative_cases [of None 0 1 c] by (auto simp: c2_def as_def set_oarg_def swap_args_def)
  have a: "length as = length ?as" "as ! 3 = ?as ! 3" "lo32 (arg_imm (as ! 2)) = k"
    "as ! 0 = (if sw then ?as ! 1 else ?as ! 0)" "as ! 1 = (if sw then ?as ! 0 else ?as ! 1)"
    using len l0 by (auto simp: as_def k_def oimm_def oarg_def nth_list_update)
  obtain b where b: "compare_value w (aval \<sigma> (?as ! 0)) (aval \<sigma> (?as ! 1)) (lo32 (oimm c 2)) = Some b"
    and rb: "branch_out (Some b) (arg_imm (?as ! 3)) \<sigma> = r"
    using r exec_brcond [OF oc(1), of E \<sigma>]
    by (cases "compare_value w (aval \<sigma> (?as ! 0)) (aval \<sigma> (?as ! 1)) (lo32 (oimm c 2))") (auto simp: oimm_def oarg_def)
  have sym: "compare_value w y x (tcg_swap_cond q) = compare_value w x y q" for x y q
    by (cases w) (simp_all add: compare_value_def compare_swap32 compare_swap64)
  have b2: "compare_value w (aval \<sigma> (as ! 0)) (aval \<sigma> (as ! 1)) k = Some b"
    using b a(4,5) sym by (simp add: k_def)
  have ok2: "opt_ok c2 \<sigma>" "fresh c2" using ok(1,2) by (simp_all add: c2 fresh_def)
  have in0: "arg_ok c \<sigma> w (?as ! i) (aval \<sigma> (?as ! i))" if "i < 2" for i
    using input_arg_ok [OF ok(3), of i w \<sigma>] oc that by (simp add: nb_iargs_def nb_oargs_def oarg_def in_val_def)
  have "arg_ok c2 \<sigma> w (oarg c2 0) (aval \<sigma> (as ! 0))" "arg_ok c2 \<sigma> w (oarg c2 1) (aval \<sigma> (as ! 1))"
    using in0 [of 0] in0 [of 1] a(4,5) by (auto simp: c2 oarg_def arg_ok_def temp_type_desc)
  from constant_folding_cond_sound [OF ok2(1) this b2]
  have s: "cond_sound (do_constant_folding_cond c2 (ctype c2) (oarg c2 0) (oarg c2 1) k) b"
    using oc(2) by (simp add: c2)
  have un: "branch_result E \<sigma> r (False, c2)"
    by (rule branch_unfolded [OF ok2]) (use oc rb b2 a exec_brcond [of "op c2" w E \<sigma>] in \<open>simp_all add: c2 opf_cond_branch_def\<close>)
  have kn: "branch_result E \<sigma> r (brcond2_const b (oarg c2 3) c2)"
    by (rule branch_known [OF ok2]) (use l0 rb a in \<open>simp_all add: c2 oarg_def\<close>)
  have d: "fold_brcond c =
    (case do_constant_folding_cond c2 (ctype c2) (oarg c2 0) (oarg c2 1) k of
       Bad \<Rightarrow> assert_fails c2 | Unknown \<Rightarrow> (False, c2) | Known b \<Rightarrow> brcond2_const b (oarg c2 3) c2)"
    by (simp only: fold_brcond_def brcond2_const_def Let_def sw prod.case k_def [symmetric] c2_def [symmetric])
  show ?thesis unfolding d using s un kn
    by (cases "do_constant_folding_cond c2 (ctype c2) (oarg c2 0) (oarg c2 1) k") simp_all
qed

text \<open>The double-word branch, on its possibly exchanged arguments.\<close>

lemma brcond2_half:
  assumes ok: "opt_ok c \<sigma>" "fresh c" and len: "3 < length (args (op c))"
    and as: "as = (args (op c))[0 := args (op c) ! i, 1 := args (op c) ! j, 2 := Imm (zext32 k), 3 := l]"
    and b: "compare_value I32 (aval \<sigma> (args (op c) ! i)) (aval \<sigma> (args (op c) ! j)) k = Some b"
    and r: "branch_out (Some b) (arg_imm l) \<sigma> = r"
  shows "branch_result E \<sigma> r (False, c\<lparr>op := (op c)\<lparr>opc := Tcg (Op_brcond I32), args := as\<rparr>\<rparr>)"
proof -
  have l0: "0 < length (args (op c))" using len by linarith
  then show ?thesis
    by (intro branch_unfolded) (use ok len b r in \<open>simp_all add: fresh_def opf_cond_branch_def as
        exec_brcond [where w = I32] nth_list_update\<close>)
qed

definition brcond2_ready :: "'w ir \<Rightarrow> 'w ir_out \<Rightarrow> bool \<Rightarrow> u32 \<Rightarrow> tcgarg \<Rightarrow> opt_context \<Rightarrow> bool" where
  "brcond2_ready \<sigma> r b k l c \<longleftrightarrow>
     opt_ok c \<sigma> \<and> fresh c \<and> opc (op c) = Op_brcond2_i32 \<and> 5 < length (args (op c))
     \<and> (\<forall>i<4. arg_ok c \<sigma> I32 (oarg c i) (aval \<sigma> (oarg c i))) \<and> lo32 (oimm c 4) = k \<and> oarg c 5 = l
     \<and> compare2_value (aval \<sigma> (oarg c 0)) (aval \<sigma> (oarg c 1)) (aval \<sigma> (oarg c 2)) (aval \<sigma> (oarg c 3)) k = Some b
     \<and> branch_out (Some b) (arg_imm l) \<sigma> = r"

lemma brcond2_swap:
  assumes rd: "brcond2_ready \<sigma> r b k l c" and sw: "swap_commutative2 0 2 c = (sw, c1)"
    and k': "k' = (if sw then tcg_swap_cond k else k)"
    and c2: "c2 = (if sw then set_oarg 4 (Imm (zext32 k')) c1 else c1)"
  shows "brcond2_ready \<sigma> r b k' l c2"
proof (cases sw)
  case True
  let ?as = "args (op c)"
  define as where "as = ?as[0 := ?as ! 2, 2 := ?as ! 0, 1 := ?as ! 3, 3 := ?as ! 1, 4 := Imm (zext32 k')]"
  have c2': "c2 = c\<lparr>op := (op c)\<lparr>args := as\<rparr>\<rparr>"
    using True sw swap_commutative2_cases [of 0 2 c] by (auto simp: c2 set_oarg_def as_def)
  have len: "5 < length ?as" using rd by (simp add: brcond2_ready_def)
  then have "0 < length ?as" by linarith
  with len have a: "length as = length ?as" "as ! 5 = ?as ! 5" "lo32 (arg_imm (as ! 4)) = k'"
    "as ! 0 = ?as ! 2" "as ! 1 = ?as ! 3" "as ! 2 = ?as ! 0" "as ! 3 = ?as ! 1"
    by (simp_all add: as_def nth_list_update)
  have "compare2_value bl bh al ah (tcg_swap_cond k) = compare2_value al ah bl bh k" for al ah bl bh
    by (simp add: compare2_value_def compare_swap64)
  moreover have "arg_ok c2 \<sigma> I32 (oarg c2 i) (aval \<sigma> (oarg c2 i))" if i: "i < 4" for i
  proof -
    have "arg_ok c \<sigma> I32 (?as ! x) (aval \<sigma> (?as ! x))" if "x < 4" for x
      using rd that by (simp add: brcond2_ready_def oarg_def)
    note x = this [of 0] this [of 1] this [of 2] this [of 3]
    consider "i = 0" | "i = 1" | "i = 2" | "i = 3" using i by linarith
    then show ?thesis using a x by cases (auto simp: c2' oarg_def arg_ok_def temp_type_desc)
  qed
  ultimately show ?thesis
    using rd a True k' by (simp add: brcond2_ready_def c2' fresh_def oarg_def oimm_def)
next
  case False
  then have "c1 = c" using sw swap_commutative2_cases [of 0 2 c] by auto
  then show ?thesis using False rd k' c2 by simp
qed

lemma brcond2_ready_result:
  assumes rd: "brcond2_ready \<sigma> r b k l c"
  shows "branch_result E \<sigma> r
    (case do_constant_folding_cond2 c (oarg c 0) (oarg c 1) (oarg c 2) (oarg c 3) k of
       Bad \<Rightarrow> assert_fails c
     | Known b \<Rightarrow> brcond2_const b l c
     | Unknown \<Rightarrow>
         if k = TCG_COND_LT \<or> k = TCG_COND_GE then
           if oconst c 2 \<and> oval c 2 = 0 \<and> oconst c 3 \<and> oval c 3 = 0 then brcond2_high k l c else (False, c)
         else if k = TCG_COND_NE \<or> k = TCG_COND_EQ then
           case do_constant_folding_cond c I32 (oarg c 0) (oarg c 2) k of
             Bad \<Rightarrow> assert_fails c
           | Known b \<Rightarrow> if b = (k = TCG_COND_NE) then brcond2_const b l c else brcond2_high k l c
           | Unknown \<Rightarrow>
               (case do_constant_folding_cond c I32 (oarg c 1) (oarg c 3) k of
                  Bad \<Rightarrow> assert_fails c
                | Known b \<Rightarrow> if b = (k = TCG_COND_NE) then brcond2_const b l c else brcond2_low k l c
                | Unknown \<Rightarrow> (False, c))
         else (False, c))" (is "?G (case ?k0 of Bad \<Rightarrow> _ | Known b \<Rightarrow> _ | Unknown \<Rightarrow> if ?lt then _ else if ?eq then ?X else _)")
proof -
  let ?v = "\<lambda>i. aval \<sigma> (oarg c i)"
  let ?k1 = "do_constant_folding_cond c I32 (oarg c 0) (oarg c 2) k"
    and ?k2 = "do_constant_folding_cond c I32 (oarg c 1) (oarg c 3) k"
  have c: "opt_ok c \<sigma>" "fresh c" "opc (op c) = Op_brcond2_i32" "5 < length (args (op c))"
    "\<And>i. i < 4 \<Longrightarrow> arg_ok c \<sigma> I32 (oarg c i) (?v i)" "lo32 (oimm c 4) = k" "oarg c 5 = l"
    "compare2_value (?v 0) (?v 1) (?v 2) (?v 3) k = Some b" "branch_out (Some b) (arg_imm l) \<sigma> = r"
    using rd by (simp_all add: brcond2_ready_def)
  note h = compare2_halves [OF c(8)]
  have l0: "0 < length (args (op c))" "3 < length (args (op c))" using c(4) by linarith+
  have kn: "?G (brcond2_const b l c)" by (rule branch_known [OF c(1,2) l0(1) c(9)])
  have un: "?G (False, c)"
    by (rule branch_unfolded [OF c(1,2)])
      (use c(3-9) exec_brcond2 [OF c(3), of E \<sigma>] in \<open>simp_all add: opf_cond_branch_def oarg_def oimm_def\<close>)
  have hi: "?G (brcond2_high k l c)" if "compare_value I32 (?v 1) (?v 3) k = Some b"
    using brcond2_half [OF c(1,2) l0(2) refl _ c(9), of 1 3 k E] that
    by (simp add: brcond2_high_def set_oarg_def set_opc_def oarg_def tcgop_update_order nth_list_update)
  have lo: "?G (brcond2_low k l c)" if "compare_value I32 (?v 0) (?v 2) k = Some b"
    using brcond2_half [OF c(1,2) l0(2) refl _ c(9), of 0 2 k E] that
    by (simp add: brcond2_low_def set_oarg_def set_opc_def oarg_def tcgop_update_order nth_list_update)
  have s0: "cond_sound ?k0 b" by (rule constant_folding_cond2_sound [OF c(1) _ _ _ _ c(8)]) (simp_all add: c(5))
  have s1: "cond_sound ?k1 x" if "compare_value I32 (?v 0) (?v 2) k = Some x" for x
    by (rule constant_folding_cond_sound [OF c(1) c(5) c(5) that]) simp_all
  have s2: "cond_sound ?k2 x" if "compare_value I32 (?v 1) (?v 3) k = Some x" for x
    by (rule constant_folding_cond_sound [OF c(1) c(5) c(5) that]) simp_all
  note lh = compare2_eq_halves [OF c(8) _ s1, where ?x1.0 = "?v 0" and ?y1.0 = "?v 2" and ?x2.0 = "?v 1" and ?y2.0 = "?v 3", simplified]
    and hl = compare2_eq_halves [OF c(8) _ s2, where ?x1.0 = "?v 1" and ?y1.0 = "?v 3" and ?x2.0 = "?v 0" and ?y2.0 = "?v 2", simplified]
  have eq2: "?G (case ?k2 of Bad \<Rightarrow> assert_fails c
      | Known b \<Rightarrow> if b = (k = TCG_COND_NE) then brcond2_const b l c else brcond2_low k l c
      | Unknown \<Rightarrow> (False, c))" if ?eq
    using hl [OF that] kn lo un by (cases ?k2) auto
  have eq1: "?G ?X" if ?eq
    using lh [OF that] kn hi eq2 [OF that] by (cases ?k1) auto
  have z: "compare_value I32 (?v 1) (?v 3) k = Some b"
    if ?lt "oconst c 2 \<and> oval c 2 = 0 \<and> oconst c 3 \<and> oval c 3 = 0"
    using h(1) [OF that(1)] that(2) arg_ok_const [OF c(1) c(5) [of 2]] arg_ok_const [OF c(1) c(5) [of 3]]
    by (simp add: compare_value_def oconst_def oval_def)
  show ?thesis using s0 kn un hi eq1 z by (cases ?k0) auto
qed

lemma fold_brcond2_ok:
  assumes ok: "opt_ok c \<sigma>" "fresh c" "op_ok c (op c)" and oc: "opc (op c) = Op_brcond2_i32"
    and r: "exec_op E (op c) \<sigma> = r" "r \<noteq> Undef"
  shows "branch_result E \<sigma> r (fold_brcond2 c)"
proof -
  let ?as = "args (op c)"
  have len: "5 < length ?as" using ok(3) oc by (simp add: op_ok_def nb_args_def)
  define k0 where "k0 = lo32 (oimm c 4)"
  obtain b where b: "compare2_value (aval \<sigma> (?as ! 0)) (aval \<sigma> (?as ! 1)) (aval \<sigma> (?as ! 2)) (aval \<sigma> (?as ! 3)) k0 = Some b"
    and rb: "branch_out (Some b) (arg_imm (?as ! 5)) \<sigma> = r"
    using r exec_brcond2 [OF oc, of E \<sigma>]
    by (cases "compare2_value (aval \<sigma> (?as ! 0)) (aval \<sigma> (?as ! 1)) (aval \<sigma> (?as ! 2)) (aval \<sigma> (?as ! 3)) k0")
      (auto simp: k0_def oimm_def oarg_def)
  have "arg_ok c \<sigma> I32 (?as ! i) (aval \<sigma> (?as ! i))" if "i < 4" for i
    using input_arg_ok [OF ok(3), of i I32 \<sigma>] oc that by (simp add: nb_iargs_def nb_oargs_def oarg_def in_val_def)
  then have rd: "brcond2_ready \<sigma> r b k0 (oarg c 5) c"
    using ok(1,2) oc len b rb by (simp add: brcond2_ready_def k0_def oarg_def)
  obtain sw c1 where sw: "swap_commutative2 0 2 c = (sw, c1)" by (rule prod.exhaust)
  define k where "k = (if sw then tcg_swap_cond k0 else k0)"
  define c2 where "c2 = (if sw then set_oarg 4 (Imm (zext32 k)) c1 else c1)"
  note rd2 = brcond2_swap [OF rd sw k_def c2_def]
  show ?thesis
    using brcond2_ready_result [OF rd2, of E]
    by (simp only: fold_brcond2_def Let_def sw prod.case k0_def [symmetric] k_def [symmetric] c2_def [symmetric])
qed

section \<open>The steps\<close>

lemma cond_branch_step:
  assumes ok: "opt_ok c \<sigma>" and wf: "wf_op (tdesc c) (tcg_env c) (op c)" and fr: "fresh c"
    and oc: "opf_cond_branch (opc (op c))" and def: "exec_op E (op c) \<sigma> \<noteq> Undef"
  shows "step_ok E (op c) \<sigma> (fold_op c)"
proof -
  let ?c = "start_op c" and ?oc = "opc (op c)"
  consider w where "?oc = Tcg (Op_brcond w)" | "?oc = Op_brcond2_i32"
    using oc by (auto simp: opf_cond_branch_def split: tcg_opc.splits tcg_op.splits)
  note cs = this
  then have no: "?oc \<noteq> Tcg Op_call" "?oc \<noteq> Op_discard" by (cases; simp)+
  note s = start_op_ok [OF ok wf] and ex = start_op_exec [OF ok wf no(1), of E]
    and opk = start_op_op_ok [OF ok wf no]
  have oc1: "opc (op ?c) = ?oc" using s(3,4) by simp
  have out: "exec_op E (op c) \<sigma> = Fall \<sigma> \<or> (\<exists>l. exec_op E (op c) \<sigma> = Goto l \<sigma>)"
    using cs def exec_brcond exec_brcond2
    by cases (auto simp: branch_out_def exec_brcond exec_brcond2 split: option.splits if_splits)
  have "branch_result E \<sigma> (exec_op E (op c) \<sigma>) (fold_opc ?oc ?c)"
    using cs
  proof cases
    case (1 w)
    then show ?thesis using fold_brcond_ok [OF s(2) s(7) [OF fr] opk _ _ ex def, of w] oc1 s(5) by simp
  next
    case 2
    then show ?thesis using fold_brcond2_ok [OF s(2) s(7) [OF fr] opk _ ex def] oc1 by simp
  qed
  from branch_step [OF this refl out] show ?thesis unfolding fold_op_start [OF no(1)] .
qed

lemma fresh_emitted: "fresh c \<Longrightarrow> emitted c = [op c]"
  by (simp add: fresh_def emitted_def)

lemma exec_ops_single: "exec_ops E [o1] \<sigma> = exec_op E o1 \<sigma>"
  by (simp split: ir_out.split)

text \<open>An operation that is emitted as it is.\<close>

lemma kept_step:
  assumes ok: "opt_ok c \<sigma>" and wf: "wf_op (tdesc c) (tcg_env c) (op c)" and fr: "fresh c'"
    and nc: "opc (op c) \<noteq> Tcg Op_call" and op: "op c' = op (start_op c)"
    and k: "\<And>\<sigma>'. exec_op E (op c) \<sigma> = Fall \<sigma>' \<Longrightarrow> opt_ok c' \<sigma>'"
  shows "step_ok E (op c) \<sigma> c'"
  using k start_op_exec [OF ok wf nc, of E] op fr
  by (simp add: step_ok_def fresh_emitted exec_ops_single fresh_def del: exec_ops.simps(2))

lemma kept_step_fall:
  assumes "opt_ok c \<sigma>" "wf_op (tdesc c) (tcg_env c) (op c)" "fresh c'" "opc (op c) \<noteq> Tcg Op_call"
    "op c' = op (start_op c)" "exec_op E (op c) \<sigma> = Fall \<sigma>'" "opt_ok c' \<sigma>'"
  shows "step_ok E (op c) \<sigma> c'"
  by (rule kept_step [OF assms(1-5)]) (use assms(6,7) in simp)

definition is_end :: "tcg_opc \<Rightarrow> bool" where
  "is_end oc \<longleftrightarrow> oc \<in> {Tcg Op_br, Tcg Op_exit_tb, Tcg Op_goto_tb, Tcg Op_goto_ptr, Op_set_label}"

lemma end_facts:
  assumes "is_end oc"
  shows "fold_opc oc = not_folded" "opf_bb_end oc" "\<not> opf_cond_branch oc" "oc \<noteq> Tcg Op_call"
    "opc o1 = oc \<Longrightarrow> exec_op E o1 \<sigma> = Fall \<sigma>' \<Longrightarrow> \<sigma>' = \<sigma>"
  using assms
  by (auto simp: is_end_def opf_bb_end_def opf_cond_branch_def exec_op_def is_op1_def is_op2_def split: if_splits)

lemma end_step:
  assumes ok: "opt_ok c \<sigma>" and wf: "wf_op (tdesc c) (tcg_env c) (op c)" and fr: "fresh c" and oc: "is_end (opc (op c))"
  shows "step_ok E (op c) \<sigma> (fold_op c)" "temps_used (fold_op c) = []" "mem_copy (fold_op c) = []" "prev_mb (fold_op c) = None"
    "op_removed (fold_op c) = False \<and> op2 (fold_op c) = [] \<and> opc (op (fold_op c)) = opc (op c)"
proof -
  note f = end_facts [OF oc] and s = start_op_ok [OF ok wf]
  have oc1: "opc (op (start_op c)) = opc (op c)" using s(3,4) by simp
  have e: "fold_op c = remove_mem_copy_all ((start_op c)\<lparr>prev_mb := None, temps_used := []\<rparr>)"
    using f(1-3) by (simp add: fold_op_start [OF f(4)] not_folded_def finish_folding_def oc1)
  show 1: "temps_used (fold_op c) = []" "mem_copy (fold_op c) = []" "prev_mb (fold_op c) = None"
    by (simp_all add: e) (simp_all add: remove_mem_copy_all_def remove_mem_copy_in_def)
  have 2: "op (fold_op c) = op (start_op c)" "tdesc (fold_op c) = tdesc c" "tcg_env (fold_op c) = tcg_env c" "fresh (fold_op c)"
    using s(7) [OF fr] s(9,10) by (simp_all add: e remove_mem_copy_all_def remove_mem_copy_in_def fresh_def)
  have "opt_ok (fold_op c) \<sigma>"
    by (rule opt_ok_empty) (use ok 1 2 in \<open>simp_all add: opt_ok_def env_ok_def\<close>)
  then show "step_ok E (op c) \<sigma> (fold_op c)"
    using f(5) [OF refl] by (intro kept_step [OF ok wf 2(4) f(4) 2(1)]) blast
  show "op_removed (fold_op c) = False \<and> op2 (fold_op c) = [] \<and> opc (op (fold_op c)) = opc (op c)"
    using 2 oc1 by (simp add: fresh_def)
qed

lemma set_temp_id: "set_temp (Tmp n) (ivals \<sigma> n) \<sigma> = \<sigma>"
  by (simp add: set_temp.simps)

lemma plain_step:
  assumes ok: "opt_ok c \<sigma>" and wf: "wf_op (tdesc c) (tcg_env c) (op c)" and fr: "fresh c"
    and oc: "opc (op c) \<in> {Op_insn_start, Op_discard, Tcg Op_mb}"
  shows "step_ok E (op c) \<sigma> (fold_op c)"
proof -
  let ?c = "start_op c"
  note s = start_op_ok [OF ok wf]
  have nc: "opc (op c) \<noteq> Tcg Op_call" using oc by auto
  have oc1: "opc (op ?c) = opc (op c)" using s(3,4) by simp
  have ex: "exec_op E (op c) \<sigma> = Fall \<sigma>" using oc by (auto simp: exec_op_def is_op1_def is_op2_def)
  consider "opc (op c) = Op_insn_start" | "opc (op c) = Op_discard" | "opc (op c) = Tcg Op_mb" using oc by blast
  then show ?thesis
  proof cases
    case 1
    then have "fold_op c = ?c"
      by (simp add: fold_op_start not_folded_def finish_folding_def oc1 opf_bb_end_def nb_oargs_def)
    then show ?thesis using kept_step_fall [OF ok wf s(7) [OF fr] nc _ ex s(2)] by simp
  next
    case 2
    have "op_outs (op c) = 1" using 2 by (simp add: op_outs_def nb_oargs_def)
    then obtain n where n: "args (op ?c) ! 0 = Arg (Tmp n)" "writable ?c (Tmp n)"
      using s(1,3,8,10) by (auto simp: prep_ok_def writable_def op_frame_def)
    have f: "fold_op c = finish_out 0 ?c"
      using 2 by (simp add: fold_op_start not_folded_def finish_folding_def oc1 opf_bb_end_def nb_oargs_def)
    have cn: "canon (ttype (tdesc ?c n)) (ivals \<sigma> n) = ivals \<sigma> n"
      using opt_okD(5) [OF s(2)] by (simp add: canon_state_def)
    note fo = finish_out_ok [OF s(2) n cn] no_masks_ok [OF s(6)]
    have "fresh (fold_op c)" "op (fold_op c) = op ?c"
      using fo s(7) [OF fr] by (simp_all add: f fresh_def same_frame_def)
    then show ?thesis using kept_step_fall [OF ok wf _ nc _ ex] fo by (simp add: f set_temp_id)
  next
    case 3
    then have f: "fold_op c = snd (fold_mb ?c)"
      by (simp add: fold_op_start fold_mb_def Let_def split: option.split)
    show ?thesis
    proof (cases "prev_mb ?c")
      case None
      then have "fold_op c = ?c\<lparr>prev_mb := Some (length (out_ops ?c))\<rparr>" by (simp add: f fold_mb_def)
      then show ?thesis using kept_step_fall [OF ok wf _ nc _ ex] s(2) s(7) [OF fr] by (simp add: fresh_def)
    next
      case (Some k)
      then show ?thesis using s(2) s(7) [OF fr] ex by (simp add: f fold_mb_def step_ok_def emitted_def fresh_def Let_def)
    qed
  qed
qed

end
