(* ===== verification/Opt_Memory.thy ===== *)
theory Opt_Memory
  imports Opt_Branch
begin

text \<open>
  One turn of the optimizer's loop on accesses to memory: guest loads and stores, whose value is known to be
  extended from its width, and the fields of the CPU state, of which the optimizer records copies in
  temporaries.
\<close>

section \<open>Extended values\<close>

lemma zext_masks:
  assumes v: "\<forall>i\<ge>n. \<not> bit v i"
  shows "n \<le> 64 \<Longrightarrow> zmask_ok w (canon w v) (MAKE_64BIT_MASK 0 n)"
    "(\<And>i. bit s i \<Longrightarrow> n < i) \<Longrightarrow> smask_ok (canon w v) s"
proof -
  show "zmask_ok w (canon w v) (MAKE_64BIT_MASK 0 n)" if "n \<le> 64"
    unfolding zmask_ok_def
  proof (intro allI impI)
    fix i assume "i < width_bits w" "bit (canon w v) i"
    then have "bit v i" "i < 64" by (cases w; simp add: bit_canon min_def split: if_splits)+
    then show "bit (MAKE_64BIT_MASK 0 n) i" using v that by (simp add: bit_MAKE_64BIT_MASK) (meson not_le)
  qed
  show "smask_ok (canon w v) s" if s: "\<And>i. bit s i \<Longrightarrow> n < i"
  proof (rule smask_okI)
    fix i j :: nat assume a: "bit s i" "i < 64" "j < 64" "i \<le> Suc j"
    have "n \<le> j" using s [OF a(1)] a(4) by simp
    then show "bit (canon w v) j = bit (canon w v) 63"
      using v a by (cases w; cases "n \<le> 31") (auto simp: bit_canon min_def)
  qed
qed

lemma sext_masks:
  assumes v: "\<forall>i. n \<le> Suc i \<and> i < 64 \<longrightarrow> bit v i = bit v 63" and s: "\<And>i. bit s i \<Longrightarrow> n \<le> i"
  shows "smask_ok (canon w v) s"
proof (rule smask_okI)
  fix i j :: nat assume a: "bit s i" "i < 64" "j < 64" "i \<le> Suc j"
  have j: "n \<le> Suc j" using s [OF a(1)] a(4) by simp
  have "bit v (min j 31) = bit v 31"
  proof (cases "31 < j")
    case False
    then have "n \<le> Suc 31" using j by simp
    then have "bit v j = bit v 63" "bit v 31 = bit v 63" using v [rule_format, of j] v [rule_format, of 31] j a(3) by auto
    then show ?thesis using False by (simp add: min_def)
  qed (simp add: min_def)
  moreover have "bit v j = bit v 63" using v [rule_format, of j] j a(3) by blast
  ultimately show "bit (canon w v) j = bit (canon w v) 63" using a(3) by (cases w) (simp_all add: bit_canon)
qed

text \<open>What guest loads return: a value of the width of the access, extended as the access says.\<close>

definition mem_extended :: "u32 \<Rightarrow> u64 \<Rightarrow> bool" where
  "mem_extended mop v \<longleftrightarrow>
     (let n = 8 * memop_size mop
      in n < 64 \<longrightarrow> (if mop AND MO_SIGN = 0 then v = take_bit n v else v = signed_take_bit (n - 1) v))"

definition loads_extended :: "'w ir_env \<Rightarrow> bool" where
  "loads_extended E \<longleftrightarrow>
     (\<forall>oi a \<sigma>. case guest_ld E oi a \<sigma> of None \<Rightarrow> True | Some (v, w') \<Rightarrow> mem_extended (get_memop oi) v)"

lemma loads_extendedD:
  assumes "loads_extended E" "guest_ld E oi a \<sigma> = Some (v, x)"
  shows "mem_extended (get_memop oi) v"
  using assms(1) [unfolded loads_extended_def, rule_format, of oi a \<sigma>] assms(2) by simp

lemma opt_ok_world: "opt_ok c (\<sigma>\<lparr>iworld := x\<rparr>) = opt_ok c \<sigma>"
proof -
  have "tval (\<sigma>\<lparr>iworld := x\<rparr>) t = tval \<sigma> t" for t by (cases t) simp_all
  then show ?thesis by (simp add: opt_ok_def known_ok_def mc_ok_def canon_state_def)
qed

section \<open>Guest memory\<close>

lemma memop_bits: "8 \<le> 8 * memop_size mop"
  by (simp add: memop_size_def)

lemma qemu_ld_masks:
  assumes "mem_extended (get_memop (lo32 (oimm c (nb_oargs (opc (op c)) + nb_iargs (opc (op c)))))) v" "no_masks c"
  shows "\<exists>z s. fold_qemu_ld c = (False, c\<lparr>z_mask := z, s_mask := s, prev_mb := None\<rparr>)
    \<and> zmask_ok w (canon w v) z \<and> smask_ok (canon w v) s"
proof -
  define mop where "mop = get_memop (lo32 (oimm c (nb_oargs (opc (op c)) + nb_iargs (opc (op c)))))"
  define n where "n = 8 * memop_size mop"
  have n: "8 \<le> n" using memop_bits by (simp add: n_def)
  let ?s = "MAKE_64BIT_MASK n (64 - n)"
  have nm: "z_mask c = - 1" "s_mask c = 0" using assms(2) by (simp_all add: no_masks_def)
  have f: "fold_qemu_ld c = (False, (if n < 64 then if mop AND MO_SIGN = 0
      then c\<lparr>z_mask := MAKE_64BIT_MASK 0 n, s_mask := push_bit 1 ?s\<rparr> else c\<lparr>s_mask := ?s\<rparr> else c)\<lparr>prev_mb := None\<rparr>)"
    by (simp only: fold_qemu_ld_def Let_def n_def mop_def)
  have m: "n < 64 \<Longrightarrow> if mop AND MO_SIGN = 0 then v = take_bit n v else v = signed_take_bit (n - 1) v"
    using assms(1) unfolding mem_extended_def Let_def mop_def [symmetric] n_def [symmetric] by blast
  have bs: "bit ?s i \<longleftrightarrow> n \<le> i \<and> i < 64" if "n < 64" for i using that by (simp add: bit_MAKE_64BIT_MASK)
  consider (wide) "64 \<le> n" | (unsigned) "n < 64" "mop AND MO_SIGN = 0" | (signed) "n < 64" "mop AND MO_SIGN \<noteq> 0" by linarith
  then show ?thesis
  proof cases
    case wide
    then have "fold_qemu_ld c = (False, c\<lparr>z_mask := - 1, s_mask := 0, prev_mb := None\<rparr>)" using nm f by simp
    then show ?thesis by fastforce
  next
    case unsigned
    then have "v = take_bit n v" using m by simp
    then have "\<not> bit v i" if "n \<le> i" for i using that by (metis bit_take_bit_iff not_le)
    then have "\<forall>i\<ge>n. \<not> bit v i" by blast
    note m = zext_masks [OF this]
    have "n < i" if "bit (push_bit 1 ?s) i" for i
      using that bs [OF unsigned(1), of "i - 1"] unfolding bit_push_bit_iff by auto
    then have "smask_ok (canon w v) (push_bit 1 ?s)" by (rule m(2))
    moreover have "zmask_ok w (canon w v) (MAKE_64BIT_MASK 0 n)" by (rule m(1)) (use unsigned in simp)
    moreover have "fold_qemu_ld c = (False, c\<lparr>z_mask := MAKE_64BIT_MASK 0 n, s_mask := push_bit 1 ?s, prev_mb := None\<rparr>)"
      using f unsigned by (simp only: if_True simp_thms)
    ultimately show ?thesis by blast
  next
    case signed
    then have v: "v = signed_take_bit (n - 1) v" using m by simp
    have "bit v i = bit v (n - 1)" if "n \<le> Suc i" "i < 64" for i
    proof -
      have "min i (n - 1) = n - 1" using that by simp
      then show ?thesis using that(2) by (subst v) (simp add: bit_signed_take_bit_iff)
    qed
    note v1 = this
    have "bit v 63 = bit v (n - 1)" by (rule v1) (use signed(1) in simp_all)
    then have "\<forall>i. n \<le> Suc i \<and> i < 64 \<longrightarrow> bit v i = bit v 63" using v1 by blast
    then have "smask_ok (canon w v) ?s" by (rule sext_masks) (use bs [OF signed(1)] in simp)
    moreover have "fold_qemu_ld c = (False, c\<lparr>z_mask := - 1, s_mask := ?s, prev_mb := None\<rparr>)"
      using signed nm f by simp
    moreover have "zmask_ok w (canon w v) (- 1)" by simp
    ultimately show ?thesis by blast
  qed
qed

definition is_guest_ld :: "tcg_opc \<Rightarrow> bool" where
  "is_guest_ld oc \<longleftrightarrow> (\<exists>w. oc = Tcg (Op_qemu_ld_a32 w) \<or> oc = Tcg (Op_qemu_ld_a64 w))"

definition is_guest_st :: "tcg_opc \<Rightarrow> bool" where
  "is_guest_st oc \<longleftrightarrow> (\<exists>w. oc = Tcg (Op_qemu_st_a32 w) \<or> oc = Tcg (Op_qemu_st_a64 w))"

lemma guest_ld_facts:
  assumes "is_guest_ld oc"
  shows "oc \<noteq> Tcg Op_call" "oc \<noteq> Op_discard" "fold_opc oc = fold_qemu_ld" "nb_oargs oc = 1" "nb_iargs oc = 1" "\<not> opf_bb_end oc"
    "opc o1 = oc \<Longrightarrow> exec_op E o1 \<sigma> = Fall \<sigma>' \<Longrightarrow>
       \<exists>a v x. guest_ld E (lo32 (imm_val o1 0)) a \<sigma> = Some (v, x)
         \<and> \<sigma>' = set_temp (arg_temp (args o1 ! 0)) (canon (op_type oc) v) (\<sigma>\<lparr>iworld := x\<rparr>)"
  using assms
  by (auto simp: is_guest_ld_def nb_oargs_def nb_iargs_def opf_bb_end_def exec_op_def is_op1_def is_op2_def exec_ld_def
      Let_def split: option.splits if_splits prod.splits) blast+

text \<open>The output of a prepared operation with one result.\<close>

lemma start_op_dest:
  assumes "opt_ok c \<sigma>" "wf_op (tdesc c) (tcg_env c) (op c)" "opc (op c) \<noteq> Tcg Op_call" "opc (op c) \<noteq> Op_discard"
    "nb_oargs (opc (op c)) = 1"
  obtains n where "args (op (start_op c)) ! 0 = Arg (Tmp n)" "writable (start_op c) (Tmp n)"
    "ttype (tdesc c n) = op_type (opc (op c))"
proof -
  have "output_ok (start_op c) (op (start_op c)) 0"
    using start_op_op_ok [OF assms(1-4)] start_op_ok(3,4) [OF assms(1,2)] assms(5) by (simp add: op_ok_def)
  then obtain n where "args (op (start_op c)) ! 0 = Arg (Tmp n)" "writable (start_op c) (Tmp n)"
      "temp_type (start_op c) (Tmp n) = op_type (opc (op c))"
    using start_op_ok(3,4) [OF assms(1,2)] by (auto simp: output_ok_def writable_def)
  then show ?thesis using that start_op_ok(9) [OF assms(1,2)] by simp
qed

lemma finish_out_frame: "same_frame c (finish_out i c)"
  using same_frame_trans [OF reset_ts_frame same_frame_upd_info] by (simp add: finish_out_def Let_def)

lemma guest_ld_step:
  assumes ok: "opt_ok c \<sigma>" and wf: "wf_op (tdesc c) (tcg_env c) (op c)" and fr: "fresh c"
    and oc: "is_guest_ld (opc (op c))" and E: "loads_extended E"
  shows "step_ok E (op c) \<sigma> (fold_op c)"
proof -
  let ?c = "start_op c" and ?w = "op_type (opc (op c))"
  note f = guest_ld_facts [OF oc] and s = start_op_ok [OF ok wf]
  have oc1: "opc (op ?c) = opc (op c)" using s(3,4) by simp
  obtain n where n: "args (op ?c) ! 0 = Arg (Tmp n)" "writable ?c (Tmp n)" "ttype (tdesc c n) = ?w"
    by (rule start_op_dest [OF ok wf f(1,2,4)])
  obtain c2 where q: "fold_qemu_ld ?c = (False, c2)" by (simp add: fold_qemu_ld_def Let_def)
  have c2: "op c2 = op ?c" "fresh c2" "\<And>\<tau>. opt_ok c2 \<tau> = opt_ok ?c \<tau>" "used c2 = used ?c" "tdesc c2 = tdesc c" "tcg_env c2 = tcg_env c"
    using q s(7) [OF fr] s(9,10) by (auto simp: fold_qemu_ld_def Let_def fresh_def split: if_splits)
  have fo: "fold_op c = finish_out 0 c2"
    using f(3,4,6) q oc1 c2(1) by (simp add: fold_op_start [OF f(1)] finish_folding_def)
  have kept: "fresh (fold_op c)" "op (fold_op c) = op ?c"
    using c2(1,2) finish_out_frame [of c2 0] by (simp_all add: fo fresh_def same_frame_def)
  show ?thesis
  proof (rule kept_step [OF ok wf kept(1) f(1) kept(2)])
    fix \<sigma>' assume e: "exec_op E (op c) \<sigma> = Fall \<sigma>'"
    then obtain a v x where v: "guest_ld E (lo32 (imm_val (op ?c) 0)) a \<sigma> = Some (v, x)"
        "\<sigma>' = set_temp (Tmp n) (canon ?w v) (\<sigma>\<lparr>iworld := x\<rparr>)"
      using f(7) [OF oc1] start_op_exec [OF ok wf f(1), of E] n(1) by fastforce
    have "mem_extended (get_memop (lo32 (imm_val (op ?c) 0))) v" by (rule loads_extendedD [OF E v(1)])
    then have "\<exists>z m. c2 = ?c\<lparr>z_mask := z, s_mask := m, prev_mb := None\<rparr> \<and> zmask_ok ?w (canon ?w v) z \<and> smask_ok (canon ?w v) m"
      using qemu_ld_masks [of ?c v ?w] s(6) q by (simp add: imm_val_def oimm_def oarg_def)
    then have m: "zmask_ok ?w (canon ?w v) (z_mask c2)" "smask_ok (canon ?w v) (s_mask c2)" by auto
    show "opt_ok (fold_op c) \<sigma>'"
      unfolding fo v(2)
      by (rule finish_out_ok) (use c2 s(2) n m in \<open>auto simp: opt_ok_world writable_def s(10)\<close>)
  qed
qed

lemma guest_st_step:
  assumes ok: "opt_ok c \<sigma>" and wf: "wf_op (tdesc c) (tcg_env c) (op c)" and fr: "fresh c"
    and oc: "is_guest_st (opc (op c))"
  shows "step_ok E (op c) \<sigma> (fold_op c)"
proof -
  note s = start_op_ok [OF ok wf]
  have f: "opc (op c) \<noteq> Tcg Op_call" "fold_opc (opc (op c)) = fold_qemu_st" "nb_oargs (opc (op c)) = 0" "\<not> opf_bb_end (opc (op c))"
    using oc by (auto simp: is_guest_st_def nb_oargs_def opf_bb_end_def)
  have fo: "fold_op c = (start_op c)\<lparr>prev_mb := None\<rparr>"
    using f s(3,4) by (simp add: fold_op_start [OF f(1)] fold_qemu_st_def finish_folding_def)
  show ?thesis
  proof (rule kept_step [OF ok wf _ f(1)])
    fix \<sigma>' assume "exec_op E (op c) \<sigma> = Fall \<sigma>'"
    then obtain x where "\<sigma>' = \<sigma>\<lparr>iworld := x\<rparr>"
      using oc by (auto simp: is_guest_st_def exec_op_def is_op1_def is_op2_def exec_st_def Let_def split: option.splits)
    then show "opt_ok (fold_op c) \<sigma>'" using s(2) by (simp add: fo opt_ok_world)
  qed (use s(7) [OF fr] in \<open>simp_all add: fo fresh_def\<close>)
qed

section \<open>Fields of the CPU state\<close>

lemma s32_of_int: "- (2 ^ 31) \<le> z \<Longrightarrow> z < 2 ^ 31 \<Longrightarrow> s32 (of_int z) = z"
  by (simp add: signed_of_int signed_take_bit_int_eq_self)

lemma s32_add_nat:
  assumes "s32 x + int k < 2 ^ 31"
  shows "s32 (x + of_nat k) = s32 x + int k"
proof -
  have "x + of_nat k = of_int (s32 x + int k)" by simp
  moreover have "- (2 ^ 31) \<le> s32 x + int k" using sint_ge [of x] by simp
  ultimately show ?thesis using s32_of_int [OF _ assms] by metis
qed

lemma uint_sext32: "uint (sext32 x) = (if 0 \<le> s32 x then s32 x else 2 ^ 64 + s32 x)"
proof -
  have r: "- (2 ^ 31) \<le> s32 x" "s32 x < 2 ^ 31" using sint_ge [of x] sint_lt [of x] by simp_all
  have "uint (sext32 x) = s32 x mod 2 ^ 64" unfolding scast_eq unsigned_of_int take_bit_eq_mod by simp
  also have "\<dots> = (if 0 \<le> s32 x then s32 x else 2 ^ 64 + s32 x)"
  proof (cases "0 \<le> s32 x")
    case True
    then show ?thesis using r(2) mod_pos_pos_trivial [of "s32 x" "2 ^ 64"] by simp
  next
    case False
    then have "(2 ^ 64 + s32 x) mod 2 ^ 64 = 2 ^ 64 + s32 x" using r(1) by (intro mod_pos_pos_trivial) simp_all
    then show ?thesis using False mod_add_self1 [of "2 ^ 64" "s32 x"] by (simp only: if_False)
  qed
  finally show ?thesis .
qed

text \<open>The last byte of a field, and fields whose intervals do not overlap.\<close>

lemma span_last:
  assumes "span_ok x n" "0 < sint n"
  shows "s32 (x + n - 1) = s32 x + sint n - 1"
proof -
  have "x + n - 1 = of_int (s32 x + sint n - 1)" by simp
  moreover have "- (2 ^ 31) \<le> s32 x + sint n - 1" using assms(2) sint_ge [of x] by simp
  moreover have "s32 x + sint n - 1 < 2 ^ 31" using assms(1) unfolding span_ok_def by linarith
  ultimately show ?thesis using s32_of_int by metis
qed

lemma span_interval:
  assumes "span_ok x n" "0 < sint n"
  obtains (pos) "0 \<le> s32 x" "uint (sext32 x) = s32 x" "uint (sext32 (x + n - 1)) = s32 x + sint n - 1"
  | (neg) "s32 x + sint n \<le> 0" "uint (sext32 x) = 2 ^ 64 + s32 x" "uint (sext32 (x + n - 1)) = 2 ^ 64 + (s32 x + sint n - 1)"
proof (cases "0 \<le> s32 x")
  case True
  then show ?thesis using assms by (intro pos) (simp_all only: uint_sext32 span_last, simp_all)
next
  case False
  then have "s32 x + sint n \<le> 0" using assms(1) by (simp add: span_ok_def)
  moreover from this have "\<not> 0 \<le> s32 x + sint n - 1" by linarith
  ultimately show ?thesis using False assms by (intro neg) (simp_all only: uint_sext32 span_last if_False)
qed

lemma spans_disjoint:
  assumes s: "span_ok x n" "span_ok y m" and nm: "0 < sint n" "0 < sint m"
    and d: "\<not> (sext32 y \<le> sext32 (x + n - 1) \<and> sext32 x \<le> sext32 (y + m - 1))"
  shows "disjoint_span (a + y) (nat (sint m)) (a + x) (nat (sint n))"
  unfolding disjoint_span_def
proof (intro allI impI notI)
  fix i j assume ij: "i < nat (sint m)" "j < nat (sint n)" and e: "a + y + of_nat i = a + x + of_nat j"
  have ij': "int i < sint m" "int j < sint n" using ij nm by linarith+
  have "s32 y + int i < 2 ^ 31" "s32 x + int j < 2 ^ 31" using s ij' unfolding span_ok_def by linarith+
  note sa = this [THEN s32_add_nat]
  have "y + of_nat i = x + of_nat j" using e by (simp only: add.assoc add_left_cancel)
  then have eq: "s32 y + int i = s32 x + int j" using sa by simp
  have d': "\<not> (uint (sext32 y) \<le> uint (sext32 (x + n - 1)) \<and> uint (sext32 x) \<le> uint (sext32 (y + m - 1)))"
    using d unfolding word_le_def .
  show False
    by (cases rule: span_interval [OF s(1) nm(1)]; cases rule: span_interval [OF s(2) nm(2)])
      (use d' eq ij' in linarith)+
qed

section \<open>Copies after a store\<close>

definition is_store :: "tcg_host \<Rightarrow> bool" where
  "is_store h \<longleftrightarrow> st_lm1 h \<noteq> None"

lemma store_facts:
  assumes "is_store h"
  shows "st_lm1 h = Some (host_bytes h - 1)" "host_load h m a = None" "nb_oargs (Tcg (Op_host h)) = 0"
    "nb_iargs (Tcg (Op_host h)) = 2"
  using assms by (cases h rule: st_lm1.cases; simp add: is_store_def nb_oargs_def nb_iargs_def tcg_type_size_def)+

lemma type_bytes: "0 < sint (tcg_type_size w)" "nat (sint (tcg_type_size w)) = (case w of I32 \<Rightarrow> 4 | I64 \<Rightarrow> 8)"
  by (cases w; simp add: tcg_type_size_def)+

lemma host_bytes_pos: "0 < sint (host_bytes h)"
  by (cases h rule: host_bytes.cases) (simp_all add: type_bytes)

lemma host_store_other:
  assumes "is_store h" "disjoint_span b (nat (sint (tcg_type_size w))) a (nat (sint (host_bytes h)))"
  shows "load_type w (host_store h m a v) b = load_type w m b"
proof -
  have one: "store8 m a x = store_nat m a (Suc 0) (unat x)" for x by (simp add: store8_def)
  have "\<exists>x. host_store h m a v = store_nat m a (nat (sint (host_bytes h))) x"
    using assms(1) by (cases "(h, m, a, v)" rule: host_store.cases)
      (auto simp: is_store_def one store16_def store32_def store64_def tcg_type_size_def simp del: store_nat.simps)
  then show ?thesis
    using assms(2) type_bytes(2) [of w]
    by (cases w) (auto simp: load_type_def load32_def load64_def load_nat_store_nat_disjoint)
qed

lemma opt_ok_imem:
  assumes "opt_ok c \<sigma>" "\<And>mc. mc \<in> set (mem_copy c) \<Longrightarrow> mc_ok c \<sigma> mc \<Longrightarrow> mc_ok c (\<sigma>\<lparr>imem := m\<rparr>) mc"
  shows "opt_ok c (\<sigma>\<lparr>imem := m\<rparr>)"
proof -
  have "tval (\<sigma>\<lparr>imem := m\<rparr>) t = tval \<sigma> t" for t by (cases t) simp_all
  then show ?thesis using assms by (simp add: opt_ok_def known_ok_def canon_state_def)
qed

lemma tval_imem [simp]: "tval (\<sigma>\<lparr>imem := m\<rparr>) t = tval \<sigma> t"
  by (cases t) simp_all

lemma store_keeps_copies:
  assumes ok: "opt_ok c \<sigma>" and h: "is_store h" and sp: "span_ok ofs (host_bytes h)"
    and a: "a = lo32 (tval \<sigma> (tcg_env c)) + ofs"
  shows "opt_ok (remove_mem_copy_in (sext32 ofs) (sext32 (ofs + (host_bytes h - 1))) c) (\<sigma>\<lparr>imem := host_store h (imem \<sigma>) a v\<rparr>)"
proof (rule opt_ok_imem [OF remove_mem_copy_in_ok [OF ok]])
  let ?c = "remove_mem_copy_in (sext32 ofs) (sext32 (ofs + (host_bytes h - 1))) c"
  fix mc assume mc: "mc \<in> set (mem_copy ?c)" and k: "mc_ok ?c \<sigma> mc"
  have no: "\<not> mc_overlaps (sext32 ofs) (sext32 (ofs + host_bytes h - 1)) mc"
    using mc remove_in_loop_mem [of mc "mem_copy c"] by (simp add: remove_mem_copy_in_def add_diff_eq)
  have e: "tcg_env ?c = tcg_env c" by (simp add: remove_mem_copy_in_def)
  obtain y where y: "mc_span mc y" "mc_ts mc \<in> used ?c" "temp_type ?c (mc_ts mc) = mc_type mc"
      "tval \<sigma> (mc_ts mc) = load_type (mc_type mc) (imem \<sigma>) (lo32 (tval \<sigma> (tcg_env c)) + y)"
    using k by (auto simp: mc_ok_def e)
  have "disjoint_span (lo32 (tval \<sigma> (tcg_env c)) + y) (nat (sint (tcg_type_size (mc_type mc)))) a (nat (sint (host_bytes h)))"
    unfolding a by (rule spans_disjoint) (use sp y(1) no host_bytes_pos type_bytes(1) in \<open>auto simp: mc_span_def mc_overlaps_def\<close>)
  from host_store_other [OF h this] y show "mc_ok ?c (\<sigma>\<lparr>imem := host_store h (imem \<sigma>) a v\<rparr>) mc"
    by (auto simp: mc_ok_def e)
qed

lemma store_nat_same: "load_nat m a n = v mod 256 ^ n \<Longrightarrow> store_nat m a n v = m"
proof (induction n arbitrary: m a v)
  case (Suc n)
  have v: "v mod 256 ^ Suc n = v mod 256 + 256 * (v div 256 mod 256 ^ n)" by (simp add: mod_mult2_eq)
  have u: "unat (m a) < 256" using unat_less_2p [of "m a"] by simp
  have e: "unat (m a) + 256 * load_nat m (a + 1) n = v mod 256 + 256 * (v div 256 mod 256 ^ n)"
    using Suc.prems v by simp
  then have "(unat (m a) + 256 * load_nat m (a + 1) n) mod 256 = (v mod 256 + 256 * (v div 256 mod 256 ^ n)) mod 256" by simp
  then have b: "unat (m a) = v mod 256" using u by simp
  with e have "load_nat m (a + 1) n = v div 256 mod 256 ^ n" by simp
  moreover have "(of_nat v :: u8) = m a"
  proof -
    have "unat (of_nat v :: u8) = unat (m a)" using b by (simp add: unat_of_nat)
    then show ?thesis by (simp add: word_unat_eq_iff)
  qed
  then have "m(a := of_nat v) = m" by auto
  ultimately show ?case using Suc.IH by simp
qed simp

lemma load_type_store: "load_type w (host_store (H_st w) m a v) a = canon w v"
  by (cases w) (simp_all add: load_type_def load32_store32 load64_store64 canon_I32)

lemma store_same:
  assumes "load_type w m a = canon w v"
  shows "host_store (H_st w) m a v = m"
proof (cases w)
  case I32
  have "sext32 (load32 m a) = sext32 (lo32 v)" using assms I32 by (simp add: load_type_def canon_I32)
  then have "load32 m a = lo32 v" by (metis lo32_canon_I32 canon_I32 lo32_zext32)
  then have "unat (load32 m a) = unat (lo32 v)" by simp
  then have "load_nat m a 4 = unat (lo32 v) mod 256 ^ 4"
    using load_nat_bound [of m a 4] unat_less_2p [of "lo32 v"] by (simp add: load32_def unat_of_nat)
  then show ?thesis using store_nat_same I32 by (simp add: store32_def)
next
  case I64
  then have "unat (load64 m a) = unat v" using assms by (simp add: load_type_def)
  then have "load_nat m a 8 = unat v mod 256 ^ 8"
    using load_nat_bound [of m a 8] unat_less_2p [of v] by (simp add: load64_def unat_of_nat)
  then show ?thesis using store_nat_same I64 by (simp add: store64_def)
qed

lemma interval_tree_insert_set: "set (interval_tree_insert mc mcs) = insert mc (set mcs)"
  unfolding interval_tree_insert_def
  by (metis (no_types, lifting) Un_insert_right append_Cons append_Nil list.simps(15) set_append takeWhile_dropWhile_id)

lemma record_mem_copy_ok:
  assumes ok: "opt_ok c \<sigma>" and t: "t \<in> used c" "temp_type c t = w" and sp: "span_ok ofs (tcg_type_size w)"
    and v: "tval \<sigma> t = load_type w (imem \<sigma>) (lo32 (tval \<sigma> (tcg_env c)) + ofs)"
  shows "opt_ok (record_mem_copy w t (sext32 ofs) (sext32 (ofs + tcg_type_size w - 1)) c) \<sigma>"
proof -
  let ?c = "record_mem_copy w t (sext32 ofs) (sext32 (ofs + tcg_type_size w - 1)) c"
  let ?mc = "\<lparr>mc_start = sext32 ofs, mc_last = sext32 (ofs + tcg_type_size w - 1), mc_ts = find_better_copy c t, mc_type = w\<rparr>"
  have ty: "temp_type ?c x = temp_type c x" for x by (rule temp_type_cong) (simp add: record_mem_copy_def)
  have c: "info ?c = info c" "temps_used ?c = temps_used c" "tdesc ?c = tdesc c" "tcg_env ?c = tcg_env c"
    "mem_copy ?c = interval_tree_insert ?mc (mem_copy c)" by (simp_all add: record_mem_copy_def)
  have new: "mc_ok ?c \<sigma> ?mc"
    using find_better_copy_ok [OF ok t(1)] t(2) sp v by (auto simp: mc_ok_def mc_span_def c ty)
  have "mc_ok ?c \<sigma> mc" if "mc \<in> set (mem_copy ?c)" for mc
    using that new mc_ok_frame [of c \<sigma> mc ?c] opt_okD(4) [OF ok, of mc] by (auto simp: c interval_tree_insert_set)
  then show ?thesis using ok by (auto simp: opt_ok_def ring_ok_def known_ok_def env_ok_def c(1-4) ty)
qed

section \<open>Stores\<close>

lemma exec_store:
  assumes "opc o1 = Tcg (Op_host h)" "is_store h"
  shows "exec_op E o1 \<sigma> = Fall (\<sigma>\<lparr>imem := host_store h (imem \<sigma>) (ir_addr \<sigma> (args o1 ! 1) (args o1 ! 2)) (aval \<sigma> (args o1 ! 0))\<rparr>)"
  using assms store_facts(2) [OF assms(2)] by (simp add: exec_op_def is_op1_def is_op2_def exec_host_def Let_def)

lemma fold_tcg_st_ok:
  assumes ok: "opt_ok c \<sigma>" and h: "is_store h" and sp: "span_ok (lo32 (oimm c 2)) (host_bytes h)"
  shows "fst (fold_tcg_st h c) = False" "op (snd (fold_tcg_st h c)) = op c" "fresh (snd (fold_tcg_st h c)) = fresh c"
    "opt_ok (snd (fold_tcg_st h c)) (\<sigma>\<lparr>imem := host_store h (imem \<sigma>) (ir_addr \<sigma> (oarg c 1) (oarg c 2)) v\<rparr>)"
proof -
  show "fst (fold_tcg_st h c) = False" "op (snd (fold_tcg_st h c)) = op c" "fresh (snd (fold_tcg_st h c)) = fresh c"
    using store_facts(1) [OF h]
    by (simp_all add: fold_tcg_st_def Let_def remove_mem_copy_all_def remove_mem_copy_in_def fresh_def)
  show "opt_ok (snd (fold_tcg_st h c)) (\<sigma>\<lparr>imem := host_store h (imem \<sigma>) (ir_addr \<sigma> (oarg c 1) (oarg c 2)) v\<rparr>)"
  proof (cases "oarg c 1 = Arg (tcg_env c)")
    case True
    then have "ir_addr \<sigma> (oarg c 1) (oarg c 2) = lo32 (tval \<sigma> (tcg_env c)) + lo32 (oimm c 2)"
      by (simp add: ir_addr_def aval_def oimm_def)
    from store_keeps_copies [OF ok h sp this] True show ?thesis
      by (simp add: fold_tcg_st_def Let_def store_facts(1) [OF h])
  next
    case False
    have "opt_ok (remove_mem_copy_all c) \<sigma>" unfolding remove_mem_copy_all_def by (rule remove_mem_copy_in_ok [OF ok])
    then have "opt_ok (remove_mem_copy_all c) (\<sigma>\<lparr>imem := m\<rparr>)" for m by (rule opt_ok_imem) simp
    then show ?thesis using False by (simp add: fold_tcg_st_def Let_def)
  qed
qed

lemma find_mem_copy_ok:
  assumes ok: "opt_ok c \<sigma>" and f: "find_mem_copy_for c w (sext32 ofs) = Some t"
  shows "t \<in> used c" "temp_type c t = w"
    "tval \<sigma> t = load_type w (imem \<sigma>) (lo32 (tval \<sigma> (tcg_env c)) + ofs)"
proof -
  obtain mc where mc: "mc \<in> set (mem_copy c)" "mc_start mc = sext32 ofs" "mc_type mc = w" "t = find_better_copy c (mc_ts mc)"
    using f by (auto simp: find_mem_copy_for_def find_Some_iff split: option.splits) (metis nth_mem)
  then obtain y where y: "mc_span mc y" "mc_ts mc \<in> used c" "temp_type c (mc_ts mc) = w"
      "tval \<sigma> (mc_ts mc) = load_type w (imem \<sigma>) (lo32 (tval \<sigma> (tcg_env c)) + y)"
    using opt_okD(4) [OF ok mc(1)] by (auto simp: mc_ok_def)
  have "y = ofs" using y(1) mc(2) by (metis mc_span_def lo32_canon_I32 canon_I32 lo32_zext32)
  then show "t \<in> used c" "temp_type c t = w" "tval \<sigma> t = load_type w (imem \<sigma>) (lo32 (tval \<sigma> (tcg_env c)) + ofs)"
    using find_better_copy_ok [OF ok y(2)] y mc(4) by auto
qed

lemma start_op_host:
  assumes ok: "opt_ok c \<sigma>" and wf: "wf_op (tdesc c) (tcg_env c) (op c)" and oc: "opc (op c) = Tcg (Op_host h)"
  shows "span_ok (lo32 (oimm (start_op c) 2)) (host_bytes h)"
proof -
  have "host_span (op c)" by (rule wf_opD(7) [OF wf])
  moreover have "args (op (start_op c)) ! 2 = args (op c) ! 2"
  proof -
    have "2 < length (args (op c))" using wf_opD(1) [OF wf] oc by (cases h) (simp_all add: nb_args_def)
    moreover have "\<not> 2 < op_outs (op c) + op_ins (op c)"
      using oc by (cases h) (simp_all add: op_outs_def op_ins_def nb_oargs_def nb_iargs_def)
    ultimately show ?thesis
      using start_op_ok(1,3) [OF ok wf] by (simp add: prep_ok_def same_inputs_def)
  qed
  ultimately show ?thesis using oc by (simp add: host_span_def oimm_def oarg_def)
qed

lemma store_start:
  assumes ok: "opt_ok c \<sigma>" and wf: "wf_op (tdesc c) (tcg_env c) (op c)"
    and oc: "opc (op c) = Tcg (Op_host h)" and h: "is_store h"
  shows "opc (op (start_op c)) = Tcg (Op_host h)"
    "exec_op E (op c) \<sigma> = Fall (\<sigma>\<lparr>imem := host_store h (imem \<sigma>) (ir_addr \<sigma> (oarg (start_op c) 1) (oarg (start_op c) 2))
       (aval \<sigma> (oarg (start_op c) 0))\<rparr>)"
    "op c' = op (start_op c) \<Longrightarrow> finish_folding c' = c'"
proof -
  show oc1: "opc (op (start_op c)) = Tcg (Op_host h)" using start_op_ok(3,4) [OF ok wf] oc by simp
  show "op c' = op (start_op c) \<Longrightarrow> finish_folding c' = c'"
    using oc1 store_facts(3) [OF h] by (simp add: finish_folding_def opf_bb_end_def)
qed (use exec_store [OF _ h, of "op (start_op c)" E \<sigma>] start_op_exec [OF ok wf, of E] start_op_ok(3,4) [OF ok wf] oc
    in \<open>simp add: oarg_def\<close>)

text \<open>A store to a field of the CPU state: what it stores becomes the copy of the field.\<close>

lemma store_copy_step:
  assumes ok: "opt_ok c \<sigma>" and wf: "wf_op (tdesc c) (tcg_env c) (op c)" and fr: "fresh c"
    and oc: "opc (op c) = Tcg (Op_host (H_st w))" and env: "oarg (start_op c) 1 = Arg (tcg_env (start_op c))"
  shows "step_ok E (op c) \<sigma> (fold_op c)"
proof -
  let ?c = "start_op c" and ?h = "H_st w" and ?o = "lo32 (oimm (start_op c) 2)"
  let ?a = "lo32 (tval \<sigma> (tcg_env ?c)) + ?o" and ?s = "sext32 ?o" and ?l = "sext32 (?o + tcg_type_size w - 1)"
  note s = start_op_ok [OF ok wf]
  have h: "is_store ?h" by (cases w) (simp_all add: is_store_def)
  have nc: "opc (op c) \<noteq> Tcg Op_call" "opc (op c) \<noteq> Op_discard" and ct: "ctype ?c = w" using oc s(5) by simp_all
  note st = store_start [OF ok wf oc h] and sp = start_op_host [OF ok wf oc, simplified]
  have "input_ok ?c (op ?c) 0"
    using start_op_op_ok [OF ok wf nc] st(1) store_facts(4) [OF h] by (simp add: op_ok_def)
  then obtain t where t: "oarg ?c 0 = Arg t" "t \<in> used ?c" "temp_type ?c t = w"
    using st(1) store_facts(3) [OF h] by (auto simp: input_ok_def oarg_def in_type_def type_fits_def)
  let ?v = "tval \<sigma> t"
  have cv: "canon w ?v = ?v" using tval_canon [OF s(2) t(2)] t(3) by simp
  have ex: "exec_op E (op c) \<sigma> = Fall (\<sigma>\<lparr>imem := host_store ?h (imem \<sigma>) ?a ?v\<rparr>)"
    using st(2) [of E] env t(1) by (simp add: ir_addr_def aval_def oimm_def)
  show ?thesis
  proof (cases "ts_is_const ?c t \<and> find_mem_copy_for ?c w ?s = Some t")
    case True
    then have "load_type w (imem \<sigma>) ?a = canon w ?v" using find_mem_copy_ok(3) [OF s(2), of w ?o t] cv by simp
    then have "exec_op E (op c) \<sigma> = Fall \<sigma>" using ex store_same [of w "imem \<sigma>" ?a ?v] by simp
    moreover have "fold_op c = ?c\<lparr>op_removed := True\<rparr>"
      using True env t(1) ct oc by (simp add: fold_op_start fold_tcg_st_memcopy_def)
    ultimately show ?thesis using s(2) s(7) [OF fr] by (simp add: step_ok_def emitted_def fresh_def)
  next
    case False
    let ?r = "record_mem_copy w t ?s ?l (remove_mem_copy_in ?s ?l ?c)"
    have "fold_op c = finish_folding ?r"
      using False env t(1) ct oc by (auto simp: fold_op_start fold_tcg_st_memcopy_def Let_def)
    also have "\<dots> = ?r" by (rule st(3)) (simp add: record_mem_copy_def remove_mem_copy_in_def)
    finally have fo: "fold_op c = ?r" .
    have rm: "opt_ok (remove_mem_copy_in ?s ?l ?c) (\<sigma>\<lparr>imem := host_store ?h (imem \<sigma>) ?a ?v\<rparr>)"
      using store_keeps_copies [OF s(2) h, of ?o ?a ?v] sp by (simp add: add_diff_eq)
    have "opt_ok ?r (\<sigma>\<lparr>imem := host_store ?h (imem \<sigma>) ?a ?v\<rparr>)"
      by (rule record_mem_copy_ok [OF rm])
        (use t sp cv load_type_store [of w "imem \<sigma>" ?a ?v] in \<open>simp_all add: remove_mem_copy_in_def temp_type_desc\<close>)
    then show ?thesis
      by (intro kept_step_fall [OF ok wf _ nc(1) _ ex])
        (use s(7) [OF fr] in \<open>simp_all add: fo record_mem_copy_def remove_mem_copy_in_def fresh_def\<close>)
  qed
qed

lemma store_step:
  assumes ok: "opt_ok c \<sigma>" and wf: "wf_op (tdesc c) (tcg_env c) (op c)" and fr: "fresh c"
    and oc: "opc (op c) = Tcg (Op_host h)" and h: "is_store h"
  shows "step_ok E (op c) \<sigma> (fold_op c)"
proof (cases "(\<exists>w. h = H_st w) \<and> oarg (start_op c) 1 = Arg (tcg_env (start_op c))")
  case True
  then show ?thesis using store_copy_step [OF ok wf fr] oc by auto
next
  case False
  have nc: "opc (op c) \<noteq> Tcg Op_call" using oc by simp
  note s = start_op_ok [OF ok wf] and st = store_start [OF ok wf oc h]
    and f = fold_tcg_st_ok [OF start_op_ok(2) [OF ok wf] h start_op_host [OF ok wf oc]]
  have fo: "fold_op c = snd (fold_tcg_st h (start_op c))"
    using False h f(1,2) st(3) oc unfolding fold_op_start [OF nc]
    by (cases h) (auto simp: is_store_def fold_tcg_st_memcopy_def split: prod.splits if_splits)
  show ?thesis
    unfolding fo by (rule kept_step_fall [OF ok wf _ nc _ st(2)]) (use f s(7) [OF fr] in simp_all)
qed

end
