(* ===== verification/Opt_Load.thy ===== *)
theory Opt_Load
  imports Opt_Memory
begin

text \<open>
  One turn of the optimizer's loop on loads from host memory and on calls of helpers: a load from a field of
  the CPU state of which a copy is known becomes a move, and a call drops what the helper may change.
\<close>

section \<open>Loads\<close>

lemma is_store_simps [simp]:
  "is_store (H_st w)" "is_store (H_st8 w)" "is_store (H_st16 w)" "is_store H_st32_i64" "\<not> is_store (H_ld w)"
  "\<not> is_store (H_ld8u w)" "\<not> is_store (H_ld8s w)" "\<not> is_store (H_ld16u w)" "\<not> is_store (H_ld16s w)"
  "\<not> is_store H_ld32u_i64" "\<not> is_store H_ld32s_i64"
  by (cases w; simp add: is_store_def)+

lemma load_facts:
  assumes "\<not> is_store h"
  shows "\<exists>v. host_load h m a = Some v" "nb_oargs (Tcg (Op_host h)) = 1" "nb_iargs (Tcg (Op_host h)) = 1"
proof -
  show "\<exists>v. host_load h m a = Some v"
    using assms by (cases "(h, m, a)" rule: host_load.cases) simp_all
  show "nb_oargs (Tcg (Op_host h)) = 1" "nb_iargs (Tcg (Op_host h)) = 1"
    using assms by (cases h; simp add: nb_oargs_def nb_iargs_def)+
qed

lemma load_start:
  assumes ok: "opt_ok c \<sigma>" and wf: "wf_op (tdesc c) (tcg_env c) (op c)"
    and oc: "opc (op c) = Tcg (Op_host h)" and h: "\<not> is_store h"
  obtains n v where "args (op (start_op c)) ! 0 = Arg (Tmp n)" "writable (start_op c) (Tmp n)" "ttype (tdesc c n) = host_width h"
    "host_load h (imem \<sigma>) (ir_addr \<sigma> (oarg (start_op c) 1) (oarg (start_op c) 2)) = Some v"
    "exec_op E (op c) \<sigma> = Fall (set_temp (Tmp n) (canon (host_width h) v) \<sigma>)"
proof -
  note lf = load_facts [OF h]
  have nc: "opc (op c) \<noteq> Tcg Op_call" "opc (op c) \<noteq> Op_discard" "nb_oargs (opc (op c)) = 1" using oc lf by simp_all
  have oc1: "opc (op (start_op c)) = Tcg (Op_host h)" using start_op_ok(3,4) [OF ok wf] oc by simp
  obtain n where n: "args (op (start_op c)) ! 0 = Arg (Tmp n)" "writable (start_op c) (Tmp n)" "ttype (tdesc c n) = host_width h"
    by (rule start_op_dest [OF ok wf nc]) (use oc in simp)
  obtain v where v: "host_load h (imem \<sigma>) (ir_addr \<sigma> (oarg (start_op c) 1) (oarg (start_op c) 2)) = Some v"
    using lf(1) by blast
  have "exec_op E (op (start_op c)) \<sigma> = Fall (set_temp (Tmp n) (canon (host_width h) v) \<sigma>)"
    using v n(1) oc1 by (simp add: exec_op_def is_op1_def is_op2_def exec_host_def oarg_def)
  then show ?thesis using that [OF n v] start_op_exec [OF ok wf nc(1), of E] by simp
qed

text \<open>The masks of a narrow load.\<close>

lemma ld_masks_ok:
  assumes "host_load h m a = Some v" "ld_masks h (- 1) = Some (z, s)"
  shows "zmask_ok w (canon w v) z \<and> smask_ok (canon w v) s"
proof -
  have u: "\<forall>i\<ge>8. \<not> bit (ucast x :: u64) i" "\<forall>i\<ge>16. \<not> bit (ucast y :: u64) i" "\<forall>i\<ge>32. \<not> bit (ucast q :: u64) i"
    for x :: u8 and y :: u16 and q :: u32
    using bit_imp_le_length [of x] bit_imp_le_length [of y] bit_imp_le_length [of q]
    by (auto simp: bit_unsigned_iff not_le [symmetric])
  have s: "\<forall>i. 8 \<le> Suc i \<and> i < 64 \<longrightarrow> bit (scast x :: u64) i = bit (scast x :: u64) 63"
    "\<forall>i. 16 \<le> Suc i \<and> i < 64 \<longrightarrow> bit (scast y :: u64) i = bit (scast y :: u64) 63"
    "\<forall>i. 32 \<le> Suc i \<and> i < 64 \<longrightarrow> bit (scast q :: u64) i = bit (scast q :: u64) 63"
    for x :: u8 and y :: u16 and q :: u32
    by (auto simp: bit_signed_iff min_def not_le le_antisym)
  note um = u [THEN zext_masks(1)] u [THEN zext_masks(2)] s [THEN sext_masks]
  show ?thesis
    using assms by (cases "(h, m, a)" rule: host_load.cases) (auto simp: bit_MAKE_64BIT_MASK intro!: um)
qed

lemma narrow_load_step:
  assumes ok: "opt_ok c \<sigma>" and wf: "wf_op (tdesc c) (tcg_env c) (op c)" and fr: "fresh c"
    and oc: "opc (op c) = Tcg (Op_host h)" and h: "\<not> is_store h"
    and f: "fold_host h (start_op c) = (False, (start_op c)\<lparr>z_mask := z, s_mask := s\<rparr>)"
    and m: "\<And>m a v w. host_load h m a = Some v \<Longrightarrow> zmask_ok w (canon w v) z \<and> smask_ok (canon w v) s"
  shows "step_ok E (op c) \<sigma> (fold_op c)"
proof -
  let ?c = "start_op c" and ?c2 = "(start_op c)\<lparr>z_mask := z, s_mask := s\<rparr>"
  obtain n v where n: "args (op ?c) ! 0 = Arg (Tmp n)" "writable ?c (Tmp n)" "ttype (tdesc c n) = host_width h"
    "host_load h (imem \<sigma>) (ir_addr \<sigma> (oarg ?c 1) (oarg ?c 2)) = Some v"
    "exec_op E (op c) \<sigma> = Fall (set_temp (Tmp n) (canon (host_width h) v) \<sigma>)"
    by (rule load_start [OF ok wf oc h])
  note st = start_op_ok [OF ok wf]
  have nc: "opc (op c) \<noteq> Tcg Op_call" using oc by simp
  have "opc (op ?c) = Tcg (Op_host h)" using st(3,4) oc by simp
  then have fo: "fold_op c = finish_out 0 ?c2"
    using f oc load_facts(2) [OF h] by (simp add: fold_op_start finish_folding_def opf_bb_end_def)
  have fr2: "same_frame ?c2 (fold_op c)" unfolding fo by (rule finish_out_frame)
  have "opt_ok (fold_op c) (set_temp (Tmp n) (canon (host_width h) v) \<sigma>)"
    unfolding fo by (rule finish_out_ok) (use st(2,9,10) n m [OF n(4)] in \<open>simp_all add: writable_def\<close>)
  then show ?thesis
    by (intro kept_step_fall [OF ok wf _ nc _ n(5)]) (use fr2 st(7) [OF fr] in \<open>simp_all add: same_frame_def fresh_def\<close>)
qed

lemma load_type_host: "host_load (H_ld w) m a = Some v \<Longrightarrow> canon w v = load_type w m a"
  by (cases w) (auto simp: load_type_def canon_I32)

lemma canon_load_type [simp]: "canon w (load_type w m a) = load_type w m a"
  by (cases w) (simp_all add: load_type_def canon_I32)

text \<open>A load from a field of which a temporary holds a copy, and of which none does.\<close>

lemma copy_load_step:
  assumes c: "opt_ok c \<sigma>" "fresh c" "1 < length (args (op c))"
    and n: "writable c (Tmp n)" "ttype (tdesc c n) = w" and ct: "ctype c = w"
    and t: "t \<in> used c" "temp_type c t = w" "tval \<sigma> t = v"
    and ex: "exec_op E o1 \<sigma> = Fall (set_temp (Tmp n) v \<sigma>)" and cv: "canon w v = v"
  shows "step_ok E o1 \<sigma> (snd (gen_mov (Arg (Tmp n)) (Arg t) c))"
proof -
  obtain x c2 where g: "tcg_opt_gen_mov (op c) (Arg (Tmp n)) (Arg t) c = (x, c2)" by (rule prod.exhaust)
  note m = tcg_opt_gen_mov_ok [where dst = "Arg (Tmp n)" and src = "Arg t" and w = w, simplified, OF c(1) n(1) t(1) n(2) _ g]
  have s: "set_temp (Tmp n) (canon w (tval \<sigma> t)) \<sigma> = set_temp (Tmp n) v \<sigma>" using t(3) cv by simp
  have e: "snd (gen_mov (Arg (Tmp n)) (Arg t) c) = set_op x c2" by (simp add: gen_mov_def g)
  have fr: "fresh c2" "op c2 = op c" using m(2) c(2) t(2) by (simp_all add: same_frame_def fresh_def)
  show ?thesis
  proof (cases x)
    case None
    then have "set_temp (Tmp n) v \<sigma> = \<sigma>" using m(4) s t(2) by simp
    then show ?thesis using None m(1) s t(2) fr ex by (simp add: e step_ok_def set_op_def emitted_def fresh_def)
  next
    case (Some o2)
    then have "o2 = mov_op w (Arg (Tmp n)) (Arg t) (op c)" using m(5) t(2) ct by simp
    then have "exec_op E o2 \<sigma> = Fall (set_temp (Tmp n) v \<sigma>)"
      using exec_mov_op [OF c(3), of E w "Arg (Tmp n)" "Arg t" \<sigma>] t(3) cv by (simp add: aval_def)
    then show ?thesis using Some m(1) s t(2) fr ex by (simp add: e step_ok_def set_op_def emitted_def fresh_def)
  qed
qed

lemma new_copy_ok:
  assumes ok: "opt_ok c \<sigma>" and n: "writable c (Tmp n)" "ttype (tdesc c n) = w" and sp: "span_ok ofs (tcg_type_size w)"
    and v: "v = load_type w (imem \<sigma>) (lo32 (tval \<sigma> (tcg_env c)) + ofs)" and cv: "canon w v = v"
  shows "opt_ok (record_mem_copy w (Tmp n) (sext32 ofs) (sext32 (ofs + tcg_type_size w - 1)) (reset_ts (Tmp n) c))
    (set_temp (Tmp n) v \<sigma>)"
proof -
  have u: "Tmp n \<in> used c" "tcg_env c \<noteq> Tmp n" using n(1) by (auto simp: writable_def)
  have e: "tcg_env (reset_ts (Tmp n) c) = tcg_env c" "tdesc (reset_ts (Tmp n) c) = tdesc c"
    using reset_ts_frame [of c "Tmp n"] by (simp_all add: same_frame_def)
  show ?thesis
    by (rule record_mem_copy_ok [OF reset_ts_ok [OF ok u]])
      (use n(2) cv sp v u in \<open>simp_all add: e temp_type_desc\<close>)
qed

lemma field_load_step:
  assumes ok: "opt_ok c \<sigma>" and wf: "wf_op (tdesc c) (tcg_env c) (op c)" and fr: "fresh c"
    and oc: "opc (op c) = Tcg (Op_host (H_ld w))"
  shows "step_ok E (op c) \<sigma> (fold_op c)"
proof -
  let ?c = "start_op c" and ?o = "lo32 (oimm (start_op c) 2)"
  let ?a = "lo32 (tval \<sigma> (tcg_env ?c)) + ?o"
  note s = start_op_ok [OF ok wf]
  have nc: "opc (op c) \<noteq> Tcg Op_call" using oc by simp
  have ct: "ctype ?c = w" using s(5) oc by simp
  have len: "1 < length (args (op ?c))"
    using wf_opD(1) [OF wf] oc s(1,3) by (simp add: nb_args_def prep_ok_def same_inputs_def)
  obtain n v where n: "args (op ?c) ! 0 = Arg (Tmp n)" "writable ?c (Tmp n)" "ttype (tdesc c n) = w"
    "host_load (H_ld w) (imem \<sigma>) (ir_addr \<sigma> (oarg ?c 1) (oarg ?c 2)) = Some v"
    "exec_op E (op c) \<sigma> = Fall (set_temp (Tmp n) (canon w v) \<sigma>)"
    by (rule load_start [OF ok wf oc, of E]) simp_all
  let ?v = "canon w v"
  have n': "writable ?c (Tmp n)" "ttype (tdesc ?c n) = w" using n(2,3) s(9) by simp_all
  show ?thesis
  proof (cases "oarg ?c 1 = Arg (tcg_env ?c)")
    case False
    have "?c\<lparr>z_mask := - 1, s_mask := 0\<rparr> = ?c" using s(6) by (simp add: no_masks_def)
    then show ?thesis
      using False narrow_load_step [OF ok wf fr oc, where z = "- 1" and s = 0] by (simp add: fold_tcg_ld_memcopy_def)
  next
    case True
    then have "?v = load_type w (imem \<sigma>) ?a"
      using load_type_host [OF n(4)] by (simp add: ir_addr_def aval_def oimm_def)
    note v = this
    let ?f = "find_mem_copy_for ?c w (sext32 ?o)"
    show ?thesis
    proof (cases "\<exists>t. ?f = Some t \<and> temp_base_type ?c t = Some w")
      case f: True
      then obtain t where t: "?f = Some t" "temp_base_type ?c t = Some w" by blast
      have "fold_op c = snd (gen_mov (Arg (Tmp n)) (Arg t) ?c)"
        using True t ct n(1) oc gen_mov_done [of "Arg (Tmp n)" "Arg t" ?c]
        by (simp add: fold_op_start fold_tcg_ld_memcopy_def Let_def oarg_def split_beta)
      moreover note find_mem_copy_ok [OF s(2) t(1), folded v]
      ultimately show ?thesis using copy_load_step [OF s(2) s(7) [OF fr] len n' ct _ _ _ n(5)] by simp
    next
      case f: False
      let ?r = "record_mem_copy w (Tmp n) (sext32 ?o) (sext32 (?o + tcg_type_size w - 1)) (reset_ts (Tmp n) ?c)"
      have fo: "fold_op c = ?r"
        using True f ct n(1) oc
        by (auto simp: fold_op_start fold_tcg_ld_memcopy_def Let_def oarg_def split: option.split)
      have "opt_ok ?r (set_temp (Tmp n) ?v \<sigma>)"
        by (rule new_copy_ok [OF s(2) n']) (use start_op_host [OF ok wf oc] v in simp_all)
      moreover have "op ?r = op ?c" "fresh ?r"
        using reset_ts_frame [of ?c "Tmp n"] s(7) [OF fr] by (simp_all add: record_mem_copy_def same_frame_def fresh_def)
      ultimately show ?thesis unfolding fo by (intro kept_step_fall [OF ok wf _ nc _ n(5)])
    qed
  qed
qed

lemma load_step:
  assumes ok: "opt_ok c \<sigma>" and wf: "wf_op (tdesc c) (tcg_env c) (op c)" and fr: "fresh c"
    and oc: "opc (op c) = Tcg (Op_host h)" and h: "\<not> is_store h"
  shows "step_ok E (op c) \<sigma> (fold_op c)"
proof (cases "\<exists>w. h = H_ld w")
  case True
  then show ?thesis using field_load_step [OF ok wf fr] oc by auto
next
  case False
  have z: "z_mask (start_op c) = - 1" using start_op_ok(6) [OF ok wf] by (simp add: no_masks_def)
  obtain z s where m: "ld_masks h (- 1) = Some (z, s)" using False h by (cases h) simp_all
  then have "fold_host h (start_op c) = (False, (start_op c)\<lparr>z_mask := z, s_mask := s\<rparr>)"
    using False h z by (cases h) (simp_all add: fold_tcg_ld_def)
  then show ?thesis using narrow_load_step [OF ok wf fr oc h] ld_masks_ok [OF _ m] by blast
qed

section \<open>Calls\<close>

text \<open>A variable not in use may change.\<close>

lemma opt_ok_unused:
  assumes ok: "opt_ok c \<sigma>" and t: "Tmp n \<notin> used c" and e: "tcg_env c = Tmp n \<longrightarrow> v = ivals \<sigma> n"
    and v: "canon (ttype (tdesc c n)) v = v"
  shows "opt_ok c (set_temp (Tmp n) v \<sigma>)"
proof -
  have u: "tval (set_temp (Tmp n) v \<sigma>) x = tval \<sigma> x" if "x \<in> used c" for x using that t by auto
  have env: "tval (set_temp (Tmp n) v \<sigma>) (tcg_env c) = tval \<sigma> (tcg_env c)" using e by auto
  have "known_ok c (set_temp (Tmp n) v \<sigma>) x" if "x \<in> used c" for x
    using opt_okD(2) [OF ok that] u [OF that] u [OF nxt_used [OF ok that]] by (simp add: known_ok_def)
  moreover have "mc_ok c (set_temp (Tmp n) v \<sigma>) mc" if "mc \<in> set (mem_copy c)" for mc
    using opt_okD(4) [OF ok that] u by (auto simp: mc_ok_def env simp del: tval_set_temp)
  ultimately show ?thesis
    using ok canon_state_set_temp [OF opt_okD(5) [OF ok] v] by (simp add: opt_ok_def)
qed

definition set_upto :: "nat \<Rightarrow> (nat \<Rightarrow> u64) \<Rightarrow> 'w ir \<Rightarrow> 'w ir" where
  "set_upto k f \<sigma> = \<sigma>\<lparr>ivals := (\<lambda>n. if n < k then f n else ivals \<sigma> n)\<rparr>"

lemma set_upto_Suc: "set_upto (Suc k) f \<sigma> = set_temp (Tmp k) (f k) (set_upto k f \<sigma>)"
  by (auto simp: set_upto_def set_temp.simps fun_eq_iff less_Suc_eq)

definition reset_upto :: "nat \<Rightarrow> opt_context \<Rightarrow> opt_context" where
  "reset_upto k c = fold (\<lambda>i c. if Tmp i \<in> set (temps_used c) then reset_ts (Tmp i) c else c) [0..<k] c"

lemma reset_upto_ok:
  assumes ok: "opt_ok c \<sigma>" and f: "\<And>n. canon (ttype (tdesc c n)) (f n) = f n"
    "\<And>n. tcg_env c = Tmp n \<Longrightarrow> f n = ivals \<sigma> n"
  shows "opt_ok (reset_upto k c) (set_upto k f \<sigma>) \<and> same_frame c (reset_upto k c) \<and> temps_used (reset_upto k c) = temps_used c"
proof (induction k)
  case (Suc k)
  let ?c = "reset_upto k c" and ?s = "set_upto k f \<sigma>"
  have IH: "opt_ok ?c ?s" "same_frame c ?c" "temps_used ?c = temps_used c" using Suc by simp_all
  have e: "reset_upto (Suc k) c = (if Tmp k \<in> used ?c then reset_ts (Tmp k) ?c else ?c)" by (simp add: reset_upto_def)
  have fr: "tdesc ?c = tdesc c" "tcg_env ?c = tcg_env c" using IH(2) by (simp_all add: same_frame_def)
  have "tcg_env ?c = Tmp k \<longrightarrow> f k = ivals ?s k" using f(2) by (simp add: fr set_upto_def)
  then have "opt_ok (reset_upto (Suc k) c) (set_temp (Tmp k) (f k) ?s)"
    using reset_ts_gen [OF IH(1), of k "f k"] opt_ok_unused [OF IH(1), of k "f k"] f(1) by (simp add: e fr)
  then show ?case
    using IH(2,3) same_frame_trans [OF IH(2) reset_ts_frame] by (auto simp: set_upto_Suc e)
qed (use ok in \<open>simp add: reset_upto_def set_upto_def\<close>)

lemma set_outs_snoc:
  "length as = length vs \<Longrightarrow> set_outs ds (as @ [a]) (vs @ [v]) \<sigma> =
    set_temp (arg_temp a) (canon (desc_type ds (arg_temp a)) v) (set_outs ds as vs \<sigma>)"
  by (induction as vs arbitrary: \<sigma> rule: list_induct2) simp_all

definition reset_outs :: "nat \<Rightarrow> opt_context \<Rightarrow> opt_context" where
  "reset_outs k c = fold (\<lambda>i c. reset_ts (arg_temp (oarg c i)) c) [0..<k] c"

lemma reset_outs_ok:
  assumes ok: "opt_ok c \<sigma>" and k: "k \<le> length vs" "k \<le> length (args (op c))"
    and o: "\<And>i. i < k \<Longrightarrow> \<exists>n. args (op c) ! i = Arg (Tmp n) \<and> writable c (Tmp n)"
  shows "opt_ok (reset_outs k c) (set_outs (tdesc c) (take k (args (op c))) (take k vs) \<sigma>)
    \<and> same_frame c (reset_outs k c) \<and> temps_used (reset_outs k c) = temps_used c"
  using k o
proof (induction k)
  case (Suc k)
  let ?c = "reset_outs k c" and ?s = "set_outs (tdesc c) (take k (args (op c))) (take k vs) \<sigma>"
  have IH: "opt_ok ?c ?s" "same_frame c ?c" "temps_used ?c = temps_used c" using Suc by simp_all
  obtain n where n: "args (op c) ! k = Arg (Tmp n)" "writable c (Tmp n)" using Suc.prems(3) [of k] by auto
  have op: "op ?c = op c" "tcg_env ?c = tcg_env c" "tdesc ?c = tdesc c" using IH(2) by (simp_all add: same_frame_def)
  have e: "reset_outs (Suc k) c = reset_ts (Tmp n) ?c" using n(1) op by (simp add: reset_outs_def oarg_def)
  let ?v = "canon (ttype (tdesc c n)) (vs ! k)"
  have "opt_ok (reset_ts (Tmp n) ?c) (set_temp (Tmp n) ?v ?s)"
    by (rule reset_ts_ok [OF IH(1)]) (use n(2) IH(3) op in \<open>auto simp: writable_def\<close>)
  moreover have "set_outs (tdesc c) (take (Suc k) (args (op c))) (take (Suc k) vs) \<sigma> = set_temp (Tmp n) ?v ?s"
    using Suc.prems(1,2) n(1) by (simp add: take_Suc_conv_app_nth set_outs_snoc)
  ultimately show ?case using IH(2,3) same_frame_trans [OF IH(2) reset_ts_frame] by (simp add: e)
qed (use ok in \<open>simp add: reset_outs_def\<close>)

lemma exec_call_cong:
  assumes "same_inputs \<sigma> o1 o2" "opc o1 = Tcg Op_call" "callo o1 + calli o1 \<le> length (args o1)"
  shows "exec_op E o2 \<sigma> = exec_op E o1 \<sigma>"
proof -
  have s: "opc o2 = opc o1" "callo o2 = callo o1" "calli o2 = calli o1" "call_flags o2 = call_flags o1"
    "length (args o2) = length (args o1)"
    and k: "\<And>k. k < length (args o1) \<Longrightarrow> if callo o1 \<le> k \<and> k < callo o1 + calli o1
      then aval \<sigma> (args o2 ! k) = aval \<sigma> (args o1 ! k) else args o2 ! k = args o1 ! k"
    using assms(1,2) by (simp_all add: same_inputs_def op_outs_def op_ins_def)
  have "drop (callo o1 + calli o1) (args o2) = drop (callo o1 + calli o1) (args o1)"
    by (rule nth_equalityI) (use s(5) k in auto)
  moreover have "take (callo o1) (args o2) = take (callo o1) (args o1)"
    by (rule nth_equalityI) (use s(5) k assms(3) in auto)
  moreover have "map (aval \<sigma>) (take (calli o1) (drop (callo o1) (args o2))) = map (aval \<sigma>) (take (calli o1) (drop (callo o1) (args o1)))"
    by (rule nth_equalityI) (use s(5) k assms(3) in \<open>auto simp: nth_take\<close>)
  ultimately show ?thesis
    using assms(2) s by (simp add: exec_op_def is_op1_def is_op2_def exec_call_def split: option.split)
qed

lemma fold_call_alt:
  assumes "opc (op c) = Tcg Op_call"
  shows "snd (fold_call c) =
    (let c1 = prepared c; fl = call_flags (op c);
         c2 = (if fl AND (TCG_CALL_NO_READ_GLOBALS OR TCG_CALL_NO_WRITE_GLOBALS) = 0 then reset_upto (nb_globals c1) c1 else c1);
         c3 = (if fl AND TCG_CALL_NO_SIDE_EFFECTS = 0 then remove_mem_copy_all c2 else c2)
     in (reset_outs (op_outs (op c)) c3)\<lparr>prev_mb := None\<rparr>)"
  using assms by (simp add: fold_call_def prepared_def op_outs_def op_ins_def Let_def reset_upto_def reset_outs_def)

definition env_matches :: "'w ir_env \<Rightarrow> opt_context \<Rightarrow> bool" where
  "env_matches E c \<longleftrightarrow> descs E = tdesc c \<and> globals E = nb_globals c"

text \<open>What the helper may have changed is forgotten.\<close>

lemma call_globals_ok:
  fixes fl :: "32 word"
  assumes ok: "opt_ok c \<sigma>" and E: "env_matches E c"
  defines "c2 \<equiv> (if fl AND (TCG_CALL_NO_READ_GLOBALS OR TCG_CALL_NO_WRITE_GLOBALS) = 0 then reset_upto (nb_globals c) c else c)"
  defines "c3 \<equiv> (if fl AND TCG_CALL_NO_SIDE_EFFECTS = 0 then remove_mem_copy_all c2 else c2)"
  shows "opt_ok c3 (call_frame E fl \<sigma> \<sigma>')" "temps_used c3 = temps_used c" "op c3 = op c" "tdesc c3 = tdesc c"
    "tcg_env c3 = tcg_env c" "fresh c3 = fresh c"
proof -
  let ?flag = "fl AND (TCG_CALL_NO_READ_GLOBALS OR TCG_CALL_NO_WRITE_GLOBALS) = 0"
  define f where "f n = (if \<not> fixed_temp (tdesc c n) then canon (ttype (tdesc c n)) (ivals \<sigma>' n) else ivals \<sigma> n)" for n
  have f: "canon (ttype (tdesc c n)) (f n) = f n" "tcg_env c = Tmp n \<Longrightarrow> f n = ivals \<sigma> n" for n
    using opt_okD(5,6) [OF ok] by (auto simp: f_def canon_state_def env_ok_def)
  note r = reset_upto_ok [OF ok f, of "nb_globals c"]
  let ?s2 = "if ?flag then set_upto (nb_globals c) f \<sigma> else \<sigma>"
  have c2: "opt_ok c2 ?s2" "same_frame c c2" "temps_used c2 = temps_used c" using r ok by (simp_all add: c2_def)
  have "opt_ok (remove_mem_copy_all c2) ?s2" unfolding remove_mem_copy_all_def by (rule remove_mem_copy_in_ok [OF c2(1)])
  then have "opt_ok (remove_mem_copy_all c2) (?s2\<lparr>imem := m\<rparr>)" for m by (rule opt_ok_imem) simp
  then have "opt_ok c3 (?s2\<lparr>imem := (if fl AND TCG_CALL_NO_SIDE_EFFECTS = 0 then imem \<sigma>' else imem \<sigma>)\<rparr>)"
    using c2(1) by (auto simp: c3_def set_upto_def)
  moreover have "call_frame E fl \<sigma> \<sigma>' =
      ?s2\<lparr>imem := (if fl AND TCG_CALL_NO_SIDE_EFFECTS = 0 then imem \<sigma>' else imem \<sigma>)\<rparr>\<lparr>iworld := iworld \<sigma>'\<rparr>"
    using E by (auto simp: call_frame_def set_upto_def f_def env_matches_def fun_eq_iff)
  ultimately show "opt_ok c3 (call_frame E fl \<sigma> \<sigma>')" by (simp only: opt_ok_world)
  show "temps_used c3 = temps_used c" "op c3 = op c" "tdesc c3 = tdesc c" "tcg_env c3 = tcg_env c" "fresh c3 = fresh c"
    using c2(2,3) by (simp_all add: c3_def remove_mem_copy_all_def remove_mem_copy_in_def same_frame_def fresh_def)
qed

lemma call_step:
  assumes ok: "opt_ok c \<sigma>" and wf: "wf_op (tdesc c) (tcg_env c) (op c)" and fr: "fresh c"
    and oc: "opc (op c) = Tcg Op_call" and E: "env_matches E c"
  shows "step_ok E (op c) \<sigma> (snd (fold_call c))"
proof -
  let ?c1 = "prepared c" and ?o = "op c" and ?fl = "call_flags (op c)"
  have p: "opt_ok ?c1 \<sigma>" "op_frame c ?c1" "same_inputs \<sigma> ?o (op ?c1)"
    and o: "\<And>i. i < op_outs ?o \<Longrightarrow> \<exists>n. args (op ?c1) ! i = Arg (Tmp n) \<and> writable ?c1 (Tmp n)"
    using prepared_ok [OF ok wf] by (auto simp: prep_ok_def)
  have E1: "env_matches E ?c1" and fr1: "fresh ?c1" using E p(2) fr by (simp_all add: env_matches_def op_frame_def fresh_def)
  have cs: "op_outs ?o = callo ?o" "op_ins ?o = calli ?o" using oc by (simp_all add: op_outs_def op_ins_def)
  note w = wf_opD(2) [OF wf, unfolded cs]
  have ex: "exec_op E (op ?c1) \<sigma> = exec_op E ?o \<sigma>" by (rule exec_call_cong [OF p(3) oc w])
  have same: "opc (op ?c1) = Tcg Op_call" "callo (op ?c1) = callo ?o" "call_flags (op ?c1) = ?fl" "length (args (op ?c1)) = length (args ?o)"
    using p(3) oc by (simp_all add: same_inputs_def)
  define c2 where "c2 = (if ?fl AND (TCG_CALL_NO_READ_GLOBALS OR TCG_CALL_NO_WRITE_GLOBALS) = 0
    then reset_upto (nb_globals ?c1) ?c1 else ?c1)"
  define c3 where "c3 = (if ?fl AND TCG_CALL_NO_SIDE_EFFECTS = 0 then remove_mem_copy_all c2 else c2)"
  note g = call_globals_ok [OF p(1) E1, of ?fl, folded c2_def, folded c3_def]
  let ?c4 = "reset_outs (callo ?o) c3"
  have e: "snd (fold_call c) = ?c4\<lparr>prev_mb := None\<rparr>"
    using fold_call_alt [OF oc] cs by (simp only: Let_def c3_def c2_def)
  have o3: "\<exists>n. args (op c3) ! i = Arg (Tmp n) \<and> writable c3 (Tmp n)" if "i < callo ?o" for i
    using o [of i] that g(2,3,5) cs by (simp add: writable_def)
  have r: "opt_ok ?c4 (set_outs (tdesc c3) (take (callo ?o) (args (op c3))) (take (callo ?o) vs) (call_frame E ?fl \<sigma> \<sigma>')) \<and> same_frame c3 ?c4"
    if "length vs = callo ?o" for vs \<sigma>'
    using reset_outs_ok [OF g(1), of "callo ?o" vs] that w o3 same(4) g(3) by simp
  have fr4: "fresh ?c4 \<and> op ?c4 = op ?c1" using r [of "replicate (callo ?o) 0"] g(3,6) fr1 by (simp add: same_frame_def fresh_def)
  have "opt_ok (snd (fold_call c)) \<sigma>'" if "exec_op E ?o \<sigma> = Fall \<sigma>'" for \<sigma>'
    using that [folded ex] r E1 g(3,4)
    by (auto simp: e exec_op_def same is_op1_def is_op2_def exec_call_def env_matches_def split: option.splits if_splits)
  then show ?thesis
    using fr4 ex by (simp add: step_ok_def e fresh_emitted exec_ops_single fresh_def emitted_def del: exec_ops.simps(2))
qed

end
