(* ===== verification/Opt_Frame.thy ===== *)
theory Opt_Frame
  imports Opt_Load
begin

text \<open>
  What every folder keeps, whatever the values: the description of the temporaries, the operations already
  emitted, that no label, barrier or access comes from an operation that is none, and, for code without \<open>negsetcond\<close> whose \<open>sextract\<close>s start at bit 0, that no sign mask has
  its bit 0 set.  The last is what the folding of \<open>shr\<close> needs (\<open>op1_step\<close>).
\<close>

section \<open>Masks without bit 0\<close>

lemma smask_value_low: "\<not> bit (smask_from_value v) 0"
proof -
  have "clrsb64 v \<le> 63" using clz_word_le [of "v XOR signed_drop_bit 1 v"] by (simp add: clrsb64_def)
  then show ?thesis using bit_left_mask [of "clrsb64 v" 0] unfolding smask_from_value_def by linarith
qed

lemma smask_zmask_low: "\<not> bit (smask_from_zmask z) 0"
  using clz_word_le [of z] by (auto simp: bit_smask_from_zmask)

lemma smask_smask_low: "\<not> bit (smask_from_smask s) 0"
  by (simp add: smask_from_smask_def smask_zmask_low)

lemma push_bit_low: "\<not> bit (push_bit 1 (s :: u64)) 0" "\<not> bit (s * 2 :: u64) 0"
  by (simp_all add: bit_0)

lemmas low_masks = smask_value_low smask_zmask_low smask_smask_low push_bit_low

section \<open>The frame of a folder\<close>

text \<open>The opcodes that are neither labels nor barriers nor accesses to the guest's memory.\<close>

fun plain_opc :: "tcg_opc \<Rightarrow> bool" where
  "plain_opc Op_set_label = False"
| "plain_opc (Tcg Op_mb) = False"
| "plain_opc (Tcg Op_call) = False"
| "plain_opc (Tcg (Op_qemu_ld_a32 w)) = False"
| "plain_opc (Tcg (Op_qemu_ld_a64 w)) = False"
| "plain_opc (Tcg (Op_qemu_st_a32 w)) = False"
| "plain_opc (Tcg (Op_qemu_st_a64 w)) = False"
| "plain_opc _ = True"

definition keeps :: "bool \<Rightarrow> opt_context \<Rightarrow> opt_context \<Rightarrow> bool" where
  "keeps b c0 c \<longleftrightarrow>
     tdesc c = tdesc c0 \<and> nb_globals c = nb_globals c0 \<and> tcg_env c = tcg_env c0 \<and> out_ops c = out_ops c0
     \<and> (prev_mb c = prev_mb c0 \<or> prev_mb c = None) \<and> (b \<longrightarrow> low_clear c)
     \<and> (plain_opc (opc (op c0)) \<longrightarrow> plain_opc (opc (op c)))
     \<and> list_all (\<lambda>o1. plain_opc (opc o1)) (op2 c) \<and> (trap c0 \<longrightarrow> trap c)"

definition keeper :: "bool \<Rightarrow> folder \<Rightarrow> bool" where
  "keeper b f \<longleftrightarrow> (\<forall>c0 c. keeps b c0 c \<longrightarrow> keeps b c0 (snd (f c)))"

lemma keeperI: "(\<And>c0 c. keeps b c0 c \<Longrightarrow> keeps b c0 (snd (f c))) \<Longrightarrow> keeper b f"
  by (simp add: keeper_def)

lemma keeperD: "keeper b f \<Longrightarrow> keeps b c0 c \<Longrightarrow> keeps b c0 (snd (f c))"
  by (simp add: keeper_def)

lemma keeperD2: "keeper b f \<Longrightarrow> f c = (r, c') \<Longrightarrow> keeps b c0 c \<Longrightarrow> keeps b c0 c'"
  using keeperD [of b f c0 c] by simp

lemma keeps_refl: "(b \<longrightarrow> low_clear c) \<Longrightarrow> op2 c = [] \<Longrightarrow> keeps b c c"
  by (simp add: keeps_def)

lemma keeps_upd [simp]:
  "keeps b c0 (c\<lparr>op_removed := x3\<rparr>) = keeps b c0 c" 
  "keeps b c0 (c\<lparr>z_mask := x5\<rparr>) = keeps b c0 c" "keeps b c0 (c\<lparr>a_mask := x6\<rparr>) = keeps b c0 c"
  "keeps b c0 (c\<lparr>mem_copy := x7\<rparr>) = keeps b c0 c" "keeps b c0 (c\<lparr>temps_used := x8\<rparr>) = keeps b c0 c"
  "keeps b c0 (c\<lparr>ctype := x9\<rparr>) = keeps b c0 c" "keeps b c0 (set_oarg i a c) = keeps b c0 c"
  "keeps b c0 (remove_mem_copy_in s l c) = keeps b c0 c" "keeps b c0 (remove_mem_copy_all c) = keeps b c0 c"
  "keeps b c0 (move_mem_copies d t c) = keeps b c0 c" "keeps b c0 (record_mem_copy w t s l c) = keeps b c0 c"
  by (simp_all add: keeps_def low_clear_def set_oarg_def remove_mem_copy_all_def
      remove_mem_copy_in_def move_mem_copies_def record_mem_copy_def)

lemma keeps_set_opc [simp]: "keeps b c0 c \<Longrightarrow> plain_opc oc \<Longrightarrow> keeps b c0 (set_opc oc c)"
  by (simp add: keeps_def low_clear_def set_opc_def)

lemma keeps_set_op: "keeps b c0 c \<Longrightarrow> (\<And>o1. r = Some o1 \<Longrightarrow> plain_opc (opc o1)) \<Longrightarrow> keeps b c0 (set_op r c)"
  by (simp add: keeps_def low_clear_def set_op_def split: option.split)

lemma keeps_op2: "keeps b c0 c \<Longrightarrow> list_all (\<lambda>o1. plain_opc (opc o1)) l \<Longrightarrow> keeps b c0 (c\<lparr>op2 := l\<rparr>)"
  by (simp add: keeps_def low_clear_def)

lemma keeps_no_mb [simp]: "keeps b c0 c \<Longrightarrow> keeps b c0 (c\<lparr>prev_mb := None\<rparr>)"
  by (simp add: keeps_def low_clear_def)

lemma keeps_s_mask: "keeps b c0 c \<Longrightarrow> (b \<Longrightarrow> keeps True c0 c \<Longrightarrow> \<not> bit s 0) \<Longrightarrow> keeps b c0 (c\<lparr>s_mask := s\<rparr>)"
  by (auto simp: keeps_def low_clear_def)

lemma keeps_info: "keeps b c0 c \<Longrightarrow> (b \<Longrightarrow> keeps True c0 c \<Longrightarrow> \<not> bit (ti_s_mask (f (info c t))) 0) \<Longrightarrow> keeps b c0 (upd_info t f c)"
  by (auto simp: keeps_def low_clear_def upd_info_def)

lemma keeps_low:
  assumes "keeps True c0 c"
  shows "\<not> bit (ti_s_mask (info c t)) 0" "\<not> bit (s_mask c) 0" "\<not> bit (os c i) 0" "\<not> bit (ti_s_mask (arg_info c a)) 0"
    "\<not> bit (ti_s_mask (ts_info c t)) 0"
  using assms by (simp_all add: keeps_def low_clear_def os_def arg_info_def ts_info_def)

lemma keeps_link: "keeps b c0 c \<Longrightarrow> keeps b c0 (upd_info t (\<lambda>x. x\<lparr>prev_copy := p\<rparr>) c)"
  "keeps b c0 c \<Longrightarrow> keeps b c0 (upd_info t (\<lambda>x. x\<lparr>next_copy := p\<rparr>) c)"
  "keeps b c0 c \<Longrightarrow> keeps b c0 (upd_info t (\<lambda>x. x\<lparr>next_copy := p, prev_copy := q\<rparr>) c)"
  "keeps b c0 c \<Longrightarrow> keeps b c0 (upd_info t (\<lambda>x. x\<lparr>is_const := k, ti_val := v\<rparr>) c)"
  by (rule keeps_info; simp add: keeps_low)+

lemma keeps_init [simp]: "keeps b c0 c \<Longrightarrow> keeps b c0 (init_ts_info t c)"
  by (auto simp: init_ts_info_def Let_def low_masks intro!: keeps_info keeps_link split: tcgtemp.split)

lemma keeps_reset [simp]: "keeps b c0 c \<Longrightarrow> keeps b c0 (reset_ts t c)"
  by (auto simp: reset_ts_def Let_def intro!: keeps_info keeps_link)

lemma keeps_new_constant [simp]: "keeps b c0 c \<Longrightarrow> keeps b c0 (snd (arg_new_constant v c))"
  by (simp add: arg_new_constant_def Let_def)

lemma keeps_masks_of:
  "keeps b c0 c \<Longrightarrow> keeps b c0 c' \<Longrightarrow>
    keeps b c0 (upd_info t (\<lambda>x. x\<lparr>ti_z_mask := z, ti_s_mask := ti_s_mask (ts_info c' u)\<rparr>) c)"
  by (rule keeps_info) (simp_all add: keeps_low)

lemma keeps_opt_mov [simp]: "keeps b c0 c \<Longrightarrow> keeps b c0 (snd (tcg_opt_gen_mov o1 d s c))"
  by (auto simp: tcg_opt_gen_mov_def Let_def intro!: keeps_masks_of keeps_link)

lemma keeps_opt_movi [simp]: "keeps b c0 c \<Longrightarrow> keeps b c0 (snd (tcg_opt_gen_movi o1 d v c))"
  by (simp add: tcg_opt_gen_movi_def split_beta)

lemma opt_mov_opc: "fst (tcg_opt_gen_mov o1 d s c) = Some o2 \<Longrightarrow> plain_opc (opc o2)"
  by (auto simp: tcg_opt_gen_mov_def Let_def split: if_splits)

lemma opt_movi_opc: "fst (tcg_opt_gen_movi o1 d v c) = Some o2 \<Longrightarrow> plain_opc (opc o2)"
  by (simp add: tcg_opt_gen_movi_def split_beta opt_mov_opc)

lemma keeps_mov [simp]: "keeps b c0 c \<Longrightarrow> keeps b c0 (snd (gen_mov d s c))"
  by (simp add: gen_mov_def split_beta opt_mov_opc keeps_set_op)

lemma keeps_movi [simp]: "keeps b c0 c \<Longrightarrow> keeps b c0 (snd (gen_movi d v c))"
  by (simp add: gen_movi_def split_beta opt_movi_opc keeps_set_op)

lemma keeps_swap [simp]:
  "keeps b c0 (snd (swap_commutative d i j c)) = keeps b c0 c" "keeps b c0 (snd (swap_commutative2 i j c)) = keeps b c0 c"
  by (simp_all add: swap_commutative_def swap_commutative2_def Let_def)

lemma keeps_fold: "keeps b c0 c \<Longrightarrow> (\<And>i c. keeps b c0 c \<Longrightarrow> keeps b c0 (f i c)) \<Longrightarrow> keeps b c0 (fold f xs c)"
  by (induction xs arbitrary: c) auto

lemma keeps_prepared [simp]: "keeps b c0 c \<Longrightarrow> keeps b c0 (init_arguments n c)"
  "keeps b c0 c \<Longrightarrow> keeps b c0 (copy_propagate n k c)"
  by (auto simp: init_arguments_def copy_propagate_def copy_propagate_1_def Let_def intro!: keeps_fold)

lemma keeps_finish_out: "keeps b c0 c \<Longrightarrow> keeps b c0 (finish_out i c)"
  by (auto simp: finish_out_def Let_def keeps_low intro!: keeps_info)

lemma keeps_finish [simp]: "keeps b c0 c \<Longrightarrow> keeps b c0 (finish_folding c)"
  by (auto simp: finish_folding_def Let_def intro!: keeps_fold keeps_finish_out)

lemma keeps_assert [simp]: "keeps b c0 c \<Longrightarrow> keeps b c0 (snd (assert_fails c))"
  by (simp add: assert_fails_def keeps_def low_clear_def)

lemma keeps_movi_result [simp]: "keeps b c0 c \<Longrightarrow> keeps b c0 (snd (movi_result r c))"
  by (simp add: movi_result_def split: option.split)

section \<open>The folders\<close>

lemma keeper_or_else: "keeper b f \<Longrightarrow> keeper b g \<Longrightarrow> keeper b (or_else f g)"
  by (auto simp: keeper_def or_else_def split_beta)

lemma keeper_basic:
  "keeper b fold_const1" "keeper b fold_const2" "keeper b fold_const2_commutative"
  "keeper b (fold_ix_to_i i)" "keeper b (fold_xi_to_i i)" "keeper b (fold_xi_to_x i)" "keeper b (fold_xx_to_i i)"
  "keeper b fold_xx_to_x" "keeper b fold_mov" "keeper b not_folded"
  by (simp_all add: keeper_def fold_const1_def fold_const2_def fold_const2_commutative_def fold_ix_to_i_def
      fold_xi_to_i_def fold_xi_to_x_def fold_xx_to_i_def fold_xx_to_x_def fold_mov_def not_folded_def)

lemma keeps_const1 [simp]: "keeps b c0 c \<Longrightarrow> keeps b c0 (snd (fold_const1 c))"
  by (rule keeperD [OF keeper_basic(1)])

lemma keeper_not: "keeper b fold_not"
  by (rule keeperI) (auto simp: fold_not_def split_beta Let_def keeps_low(4) [OF keeps_const1] intro!: keeps_finish keeps_s_mask)

lemma keeps_not [simp]: "keeps b c0 c \<Longrightarrow> keeps b c0 (snd (fold_not c))"
  by (rule keeperD [OF keeper_not])

lemma keeper_to_not: "keeper b (fold_ix_to_not i)" "keeper b (fold_xi_to_not i)"
  by (simp_all add: keeper_def fold_ix_to_not_def fold_xi_to_not_def fold_to_not_def)

lemma keeps_fold_masks [simp]: "keeps b c0 c \<Longrightarrow> keeps b c0 (snd (fold_masks c))"
  by (auto simp: fold_masks_def Let_def keeps_low bit_MAKE_64BIT_MASK bit_or_iff intro!: keeps_movi keeps_mov keeps_s_mask)

lemma keeper_masks:
  "keeper b and_masks" "keeper b andc_masks" "keeper b or_masks" "keeper b xor_masks" "keeper b both_smasks"
  by (rule keeperI, auto simp: and_masks_def andc_masks_def or_masks_def xor_masks_def both_smasks_def Let_def
      keeps_low bit_and_iff intro!: keeps_fold_masks keeps_s_mask)+

lemma keeper_logic:
  "keeper b fold_add" "keeper b fold_and" "keeper b fold_andc" "keeper b fold_divide" "keeper b fold_eqv"
  "keeper b fold_mul" "keeper b fold_mul_highpart" "keeper b fold_nand" "keeper b fold_nor" "keeper b fold_or"
  "keeper b fold_orc" "keeper b fold_remainder" "keeper b fold_xor"
  by (simp_all add: fold_add_def fold_and_def fold_andc_def fold_divide_def fold_eqv_def fold_mul_def
      fold_mul_highpart_def fold_nand_def fold_nor_def fold_or_def fold_orc_def fold_remainder_def fold_xor_def
      keeper_or_else keeper_basic keeper_to_not keeper_masks)

lemma keeper_neg: "keeper b fold_neg"
  by (rule keeperI) (simp add: fold_neg_def split_beta Let_def)

lemma keeper_sub: "keeper b fold_sub"
proof -
  have "keeper b fold_sub_to_neg" "keeper b sub_to_add"
    using keeperD [OF keeper_neg] by (auto simp: keeper_def fold_sub_to_neg_def sub_to_add_def Let_def split_beta)
  then show ?thesis by (simp add: fold_sub_def fold_sub_vec_def keeper_or_else keeper_basic)
qed

lemma keeper_fields: "keeper b fold_deposit" "keeper b fold_extract" "keeper b fold_extract2" "keeper b fold_count_zeros"
  "keeper b fold_ctpop"
  by (rule keeperI, auto simp: fold_deposit_def fold_extract_def fold_extract2_def fold_count_zeros_def fold_ctpop_def
      or_else_def ctpop_masks_def Let_def split_beta keeps_s_mask low_masks)+

lemma keeper_extensions: "keeper b fold_bswap" "keeper b fold_exts" "keeper b fold_extu"
proof -
  have "keeper b exts_step" "keeper b extu_step"
    by (rule keeperI, auto simp: exts_step_def extu_step_def Let_def keeps_low low_masks bit_or_iff intro!: keeps_fold_masks keeps_s_mask split: option.split)+
  then show "keeper b fold_exts" "keeper b fold_extu"
    by (simp_all add: fold_exts_def fold_extu_def keeper_or_else keeper_basic)
  show "keeper b fold_bswap"
    by (rule keeperI) (auto simp: fold_bswap_def Let_def keeps_s_mask low_masks split_beta split: option.split)
qed

lemma keeper_shift: "keeper b fold_shift"
proof -
  have "keeper b shift_masks"
    by (rule keeperI) (auto simp: shift_masks_def Let_def keeps_low low_masks intro!: keeps_fold_masks keeps_s_mask
        split: option.split tcg_opc.split tcg_op.split tcg_rrr.split)
  then show ?thesis by (simp add: fold_shift_def keeper_or_else keeper_basic)
qed

lemma keeps_sextract:
  assumes k: "keeps b c0 c" and p: "b \<Longrightarrow> oimm c 2 = 0"
  shows "keeps b c0 (snd (fold_sextract c))"
proof -
  have "\<not> bit (sextract64 (os c 1) 0 l OR MAKE_64BIT_MASK l (64 - l)) 0" if b "bitfield_ok 64 0 l" for l
    using that keeps_low(3) [of c0 c 1] k by (auto simp: bit_or_iff bit_MAKE_64BIT_MASK bit_sextract64 bitfield_ok_def)
  with k p show ?thesis by (auto simp: fold_sextract_def Let_def intro!: keeps_fold_masks keeps_s_mask)
qed

lemma keeps_case:
  "keeps b c0 (snd x) \<Longrightarrow> (\<And>v. keeps b c0 (snd (y v))) \<Longrightarrow> keeps b c0 (snd z) \<Longrightarrow>
    keeps b c0 (snd (case r of Bad \<Rightarrow> x | Known v \<Rightarrow> y v | Unknown \<Rightarrow> z))"
  by (cases r) auto

lemma keeps_if: "keeps b c0 (snd x) \<Longrightarrow> keeps b c0 (snd y) \<Longrightarrow> keeps b c0 (snd (if p then x else y))"
  by simp

lemma keeper_conditions: "keeper b fold_setcond" "keeper b fold_brcond" "keeper b fold_movcond"
proof -
  show "keeper b fold_setcond"
    by (rule keeperI) (auto simp: fold_setcond_def setcond_const_def setcond_masks_def Let_def split_beta low_masks
        intro!: keeps_s_mask split: cond_fold.split)
  show "keeper b fold_brcond"
    by (rule keeperI) (auto simp: fold_brcond_def Let_def split_beta split: cond_fold.split)
  have mc: "keeps b c0 c \<Longrightarrow> keeps b c0 (snd (movcond_consts k c))" for c0 k c
    by (simp add: movcond_consts_def Let_def)
  show "keeper b fold_movcond"
  proof (rule keeperI)
    fix c0 c assume k: "keeps b c0 c"
    obtain sw c1 where s: "swap_commutative None 1 2 c = (sw, c1)" by (rule prod.exhaust)
    define k1 where "k1 = (if sw then tcg_swap_cond (lo32 (oimm c 5)) else lo32 (oimm c 5))"
    define c2 where "c2 = (if sw then set_oarg 5 (Imm (zext32 k1)) c1 else c1)"
    obtain sw2 c3 where s2: "swap_commutative (Some (oarg c2 0)) 4 3 c2 = (sw2, c3)" by (rule prod.exhaust)
    define k2 where "k2 = (if sw2 then tcg_invert_cond k1 else k1)"
    define c4 where "c4 = (if sw2 then set_oarg 5 (Imm (zext32 k2)) c3 else c3)"
    have "keeps b c0 c1" using k keeps_swap(1) [of b c0 None 1 2 c] unfolding s by simp
    then have "keeps b c0 c2" by (simp add: c2_def)
    then have "keeps b c0 c3" using keeps_swap(1) [of b c0 "Some (oarg c2 0)" 4 3 c2] unfolding s2 by simp
    then have "keeps b c0 c4" by (simp add: c4_def)
    then show "keeps b c0 (snd (fold_movcond c))"
      unfolding fold_movcond_def Let_def s s2 prod.case k1_def [symmetric] c2_def [symmetric] k2_def [symmetric] c4_def [symmetric]
      by (auto simp: bit_and_iff keeps_low(3) [of c0] intro!: mc keeps_mov keeps_s_mask split: cond_fold.split)
  qed
qed

lemma keeps_setcond2_tail [simp]:
  assumes "keeps b c0 c"
  shows "keeps b c0 (snd (setcond_masks c))" "keeps b c0 (snd (setcond2_high k c))" "keeps b c0 (snd (setcond2_low k c))"
  using assms by (auto simp: setcond_masks_def setcond2_high_def setcond2_low_def Let_def low_masks intro!: keeps_s_mask)

lemma keeps_brcond2_tail [simp]:
  assumes "keeps b c0 c"
  shows "keeps b c0 (snd (brcond2_const v l c))" "keeps b c0 (snd (brcond2_high k l c))" "keeps b c0 (snd (brcond2_low k l c))"
  using assms by (simp_all add: brcond2_const_def brcond2_high_def brcond2_low_def Let_def)

lemma keeper_conditions2: "keeper b fold_setcond2" "keeper b fold_brcond2"
proof -
  show "keeper b fold_setcond2"
  proof (rule keeperI)
    fix c0 c assume k: "keeps b c0 c"
    obtain sw c1 where s: "swap_commutative2 1 3 c = (sw, c1)" by (rule prod.exhaust)
    define cond where "cond = (if sw then tcg_swap_cond (lo32 (oimm c 5)) else lo32 (oimm c 5))"
    define c2 where "c2 = (if sw then set_oarg 5 (Imm (zext32 cond)) c1 else c1)"
    have "keeps b c0 c1" using k keeps_swap(2) [of b c0 1 3 c] unfolding s by simp
    then have "keeps b c0 c2" by (simp add: c2_def)
    then show "keeps b c0 (snd (fold_setcond2 c))"
      unfolding fold_setcond2_def Let_def s prod.case cond_def [symmetric] c2_def [symmetric]
      by (intro keeps_case keeps_if) simp_all
  qed
  show "keeper b fold_brcond2"
  proof (rule keeperI)
    fix c0 c assume k: "keeps b c0 c"
    obtain sw c1 where s: "swap_commutative2 0 2 c = (sw, c1)" by (rule prod.exhaust)
    define cond where "cond = (if sw then tcg_swap_cond (lo32 (oimm c 4)) else lo32 (oimm c 4))"
    define c2 where "c2 = (if sw then set_oarg 4 (Imm (zext32 cond)) c1 else c1)"
    have "keeps b c0 c2" using k keeps_swap(2) [of b c0 0 2 c] by (simp add: s c2_def)
    then show "keeps b c0 (snd (fold_brcond2 c))"
      unfolding fold_brcond2_def Let_def s prod.case cond_def [symmetric] c2_def [symmetric]
      by (intro keeps_case keeps_if) simp_all
  qed
qed

lemma keeper_wide: "keeper b fold_add2" "keeper b fold_sub2" "keeper b fold_multiply2"
proof -
  have t: "keeper b (two_movis lo hi)" for lo hi
    by (rule keeperI) (auto simp: two_movis_def Let_def split_beta opt_movi_opc intro!: keeps_set_op keeps_op2 split: option.split)
  have a: "keeper b (fold_addsub2 x)" for x
    by (rule keeperI) (simp add: fold_addsub2_def Let_def split_beta keeperD [OF t])
  then show "keeper b fold_add2" "keeper b fold_sub2"
    by (simp_all add: keeper_def fold_add2_def fold_sub2_def Let_def)
  show "keeper b fold_multiply2"
    by (rule keeperI) (simp add: fold_multiply2_def Let_def split_beta keeperD [OF t] split: option.split)
qed

lemma keeper_host: "keeper b (fold_host h)"
proof -
  have "\<not> bit s 0" if "ld_masks h z = Some (z', s)" for h z z' s
    using that by (cases "(h, z)" rule: ld_masks.cases) (auto simp: bit_MAKE_64BIT_MASK)
  then have ld: "keeper b (fold_tcg_ld h)" for h
    by (intro keeperI) (auto simp: fold_tcg_ld_def intro!: keeps_s_mask split: option.split)
  have st: "keeper b (fold_tcg_st h)" for h
    by (rule keeperI) (auto simp: fold_tcg_st_def Let_def split: option.split)
  have "keeper b fold_tcg_ld_memcopy" "keeper b (fold_tcg_st_memcopy h)" for h
    by (rule keeperI, auto simp: fold_tcg_ld_memcopy_def fold_tcg_st_memcopy_def Let_def keeperD [OF st] split: option.split)+
  then show ?thesis using ld st by (cases h) simp_all
qed

lemma keeper_guest: "keeper b fold_qemu_ld" "keeper b fold_qemu_st"
proof -
  show "keeper b fold_qemu_ld"
    by (rule keeperI) (auto simp: fold_qemu_ld_def Let_def memop_size_def bit_MAKE_64BIT_MASK low_masks intro!: keeps_no_mb keeps_s_mask)
qed (simp add: keeper_def fold_qemu_st_def)

section \<open>One turn of the loop\<close>

text \<open>Operations after which no sign mask can have its bit 0 set.\<close>

definition calm :: "tcgop \<Rightarrow> bool" where
  "calm o1 \<longleftrightarrow> (case opc o1 of Op_negsetcond w \<Rightarrow> False | Tcg (Op_sextract w) \<Rightarrow> arg_imm (args o1 ! 2) = 0 | _ \<Rightarrow> True)"

lemma keeper_negsetcond: "keeper False fold_negsetcond"
  by (rule keeperI) (auto simp: fold_negsetcond_def setcond_const_def Let_def split_beta intro!: keeps_s_mask split: cond_fold.split)

lemma keeper_rrr: "keeper b (fold_rrr r)" "keeper b (fold_rr u)" "keeper b (fold_rr64 x)"
proof -
  show "keeper b (fold_rrr r)" by (cases r) (simp_all add: keeper_logic keeper_fields keeper_shift keeper_sub)
  show "keeper b (fold_rr u)" by (cases u) (simp_all add: keeper_extensions keeper_fields keeper_basic keeper_not keeper_neg)
  show "keeper b (fold_rr64 x)" by (cases x) (simp_all add: keeper_extensions)
qed

lemma keeps_opc:
  assumes k: "keeps b c0 c" and calm: "b \<longrightarrow> calm (op c)" and nm: "opc (op c) \<noteq> Tcg Op_mb"
  shows "keeps b c0 (snd (fold_opc (opc (op c)) c))"
proof -
  note rules = keeper_rrr keeper_host keeper_wide keeper_conditions keeper_conditions2 keeper_fields keeper_extensions
    keeper_guest keeper_logic keeper_basic
  consider w where "opc (op c) = Tcg (Op_sextract w)" | w where "opc (op c) = Op_negsetcond w"
    | "keeper b (fold_opc (opc (op c)))"
  proof (cases "opc (op c)")
    case (Tcg x)
    then show ?thesis using that nm by (cases x) (auto simp: rules)
  qed (use that in \<open>auto simp: rules\<close>)
  then show ?thesis
  proof cases
    case 1
    then show ?thesis using k calm by (auto simp: calm_def oimm_def oarg_def intro!: keeps_sextract)
  next
    case 2
    then have "\<not> b" using calm by (simp add: calm_def)
    then show ?thesis using k 2 keeperD [OF keeper_negsetcond] by simp
  qed (use k keeperD in blast)
qed

lemma init_ts_op [simp]: "op (init_ts_info t c) = op c" "op2 (init_ts_info t c) = op2 c"
  by (simp_all add: init_ts_info_def Let_def upd_info_def split: tcgtemp.split)

lemma init_arguments_op: "op (init_arguments n c) = op c"
  unfolding init_arguments_def by (induction n) simp_all

lemma copy_propagate_op: "opc (op (copy_propagate o1 i c)) = opc (op c)
    \<and> (\<forall>k. k < o1 \<or> o1 + i \<le> k \<longrightarrow> args (op (copy_propagate o1 i c)) ! k = args (op c) ! k)"
  unfolding copy_propagate_def
  by (induction i) (auto simp: copy_propagate_1_def Let_def set_oarg_def)

lemma calm_start: "calm (op c) \<Longrightarrow> opc (op c) \<noteq> Tcg Op_call \<Longrightarrow> calm (op (start_op c))"
  using copy_propagate_op [of "op_outs (op c)" "op_ins (op c)" "init_arguments (op_outs (op c) + op_ins (op c)) c"]
  by (auto simp: calm_def start_op_def prepared_def init_arguments_op op_outs_def op_ins_def nb_oargs_def nb_iargs_def
      split: tcg_opc.splits tcg_op.splits)

lemma start_op_opc: "opc (op (start_op c)) = opc (op c)"
  by (simp add: start_op_def prepared_def copy_propagate_op init_arguments_op)

lemma keeps_start: "keeps b c0 c \<Longrightarrow> keeps b c0 (start_op c)"
  by (auto simp: start_op_def prepared_def intro!: keeps_s_mask)

lemma keeps_fold_op:
  assumes "keeps b c0 c" "b \<longrightarrow> calm (op c)" "opc (op c) \<noteq> Tcg Op_mb" "opc (op c) \<noteq> Tcg Op_call"
  shows "keeps b c0 (fold_op c)"
  using keeps_opc [OF keeps_start [OF assms(1)]] calm_start [OF _ assms(4)] assms
  by (simp add: fold_op_start split_beta start_op_opc)

lemma keeps_fold_call: "keeps b c0 c \<Longrightarrow> keeps b c0 (snd (fold_call c))"
  by (auto simp: fold_call_def Let_def intro!: keeps_no_mb keeps_fold)

text \<open>The context in which the turn of an operation ends, before the operation is put behind.\<close>

definition turn :: "tcgop \<Rightarrow> opt_context \<Rightarrow> opt_context" where
  "turn o1 c = (if opc o1 = Tcg Op_call then snd (fold_call (begin_op o1 c)) else fold_op (begin_op o1 c))"

lemma optimize_op_turn: "optimize_op o1 c = end_op (turn o1 c)"
  by (simp add: optimize_op_def turn_def Let_def)

text \<open>
  \<open>fold_mb\<close> merges a barrier into an earlier one, whose operand it changes.  Up to the operands of
  barriers, which have no effect here, the emitted operations only grow.
\<close>

definition strip_mb :: "tcgop \<Rightarrow> tcgop" where
  "strip_mb o1 = (if opc o1 = Tcg Op_mb then o1\<lparr>args := []\<rparr> else o1)"

definition mb_valid :: "opt_context \<Rightarrow> bool" where
  "mb_valid c \<longleftrightarrow> (case prev_mb c of None \<Rightarrow> True | Some k \<Rightarrow> k < length (out_ops c) \<and> opc (out_ops c ! k) = Tcg Op_mb)"

definition turn_frame :: "bool \<Rightarrow> opt_context \<Rightarrow> tcgop \<Rightarrow> opt_context \<Rightarrow> bool" where
  "turn_frame b c o1 c' \<longleftrightarrow>
     tdesc c' = tdesc c \<and> nb_globals c' = nb_globals c \<and> tcg_env c' = tcg_env c \<and> mb_valid (end_op c')
     \<and> map strip_mb (out_ops c') = map strip_mb (out_ops c) \<and> (b \<longrightarrow> low_clear c') \<and> (trap c \<longrightarrow> trap c')
     \<and> (plain_opc (opc o1) \<longrightarrow> list_all (\<lambda>o2. plain_opc (opc o2)) (emitted c'))"

lemma start_op_mb: "opc (op c) = Tcg Op_mb \<Longrightarrow> start_op c = c\<lparr>ctype := I32, a_mask := - 1, z_mask := - 1, s_mask := 0\<rparr>"
  by (simp add: start_op_def prepared_def op_outs_def op_ins_def nb_oargs_def nb_iargs_def init_arguments_def copy_propagate_def)

lemma turn_is_mb:
  assumes "opc o1 = Tcg Op_mb"
  shows "turn o1 c = snd (fold_mb (start_op (begin_op o1 c)))"
  using assms by (simp add: turn_def begin_op_def fold_op_start fold_mb_def Let_def split: option.split)

lemma emitted_mb:
  assumes "opc o1 = Tcg Op_mb"
  shows "emitted (turn o1 c) = (if prev_mb c = None then [o1] else [])"
  using assms by (simp add: turn_is_mb start_op_mb begin_op_def fold_mb_def Let_def emitted_def split: option.split)

lemma turn_mb:
  assumes "opc o1 = Tcg Op_mb" "mb_valid c" "b \<longrightarrow> low_clear c"
  shows "turn_frame b c o1 (turn o1 c)"
proof -
  note t = turn_is_mb [OF assms(1)]
  have m: "map strip_mb ((out_ops c)[k := x]) = map strip_mb (out_ops c)"
    if "k < length (out_ops c)" "strip_mb x = strip_mb (out_ops c ! k)" for k x
    using that by (metis length_map list_update_id map_update nth_map)
  show ?thesis
    using assms unfolding t
    by (auto simp: start_op_mb begin_op_def fold_mb_def Let_def turn_frame_def mb_valid_def end_op_def low_clear_def
        emitted_def nth_append strip_mb_def intro!: m split: option.split)
qed

lemma turn_frame_ok:
  assumes v: "mb_valid c" and b: "b \<longrightarrow> low_clear c \<and> calm o1"
  shows "turn_frame b c o1 (turn o1 c)"
proof (cases "opc o1 = Tcg Op_mb")
  case False
  let ?c = "begin_op o1 c"
  have "keeps b ?c ?c" using b by (intro keeps_refl) (auto simp: begin_op_def low_clear_def)
  then have "keeps b ?c (turn o1 c)"
    using keeps_fold_op [of b ?c ?c] keeps_fold_call [of b ?c ?c] b False
    by (simp add: turn_def begin_op_def)
  then show ?thesis
    using v by (auto simp: keeps_def turn_frame_def begin_op_def mb_valid_def end_op_def emitted_def nth_append
        list_all_iff split: option.splits)
qed (use assms turn_mb in blast)

section \<open>Accesses\<close>

text \<open>An access to the guest's memory or a call stays where it is.\<close>

definition kept_as :: "tcg_opc \<Rightarrow> opt_context \<Rightarrow> bool" where
  "kept_as oc c \<longleftrightarrow> op2 c = [] \<and> \<not> op_removed c \<and> opc (op c) = oc"

lemma kept_as_frame: "same_frame c c' \<Longrightarrow> kept_as oc c' = kept_as oc c"
  by (simp add: same_frame_def kept_as_def)

lemma kept_as_fold: "kept_as oc c \<Longrightarrow> (\<And>i c. kept_as oc c \<Longrightarrow> kept_as oc (f i c)) \<Longrightarrow> kept_as oc (fold f xs c)"
  by (induction xs arbitrary: c) auto

lemma kept_as_upd [simp]:
  "kept_as oc (c\<lparr>prev_mb := x1\<rparr>) = kept_as oc c" "kept_as oc (c\<lparr>z_mask := x2\<rparr>) = kept_as oc c"
  "kept_as oc (c\<lparr>a_mask := x3\<rparr>) = kept_as oc c" "kept_as oc (c\<lparr>s_mask := x4\<rparr>) = kept_as oc c"
  "kept_as oc (c\<lparr>ctype := x5\<rparr>) = kept_as oc c" "kept_as oc (upd_info t f c) = kept_as oc c"
  "kept_as oc (set_oarg i a c) = kept_as oc c" "kept_as oc (remove_mem_copy_all c) = kept_as oc c"
  "kept_as oc (reset_ts t c) = kept_as oc c" "kept_as oc (init_ts_info t c) = kept_as oc c"
  using kept_as_frame [OF reset_ts_frame]
  by (auto simp: kept_as_def upd_info_def set_oarg_def remove_mem_copy_all_def remove_mem_copy_in_def
      init_ts_info_def Let_def split: tcgtemp.split)

lemma kept_as_prepared [simp]: "kept_as oc c \<Longrightarrow> kept_as oc (init_arguments n c)"
  "kept_as oc c \<Longrightarrow> kept_as oc (copy_propagate n k c)"
  by (auto simp: init_arguments_def copy_propagate_def copy_propagate_1_def Let_def intro!: kept_as_fold)

lemma reset_ts_mb [simp]: "prev_mb (reset_ts t c) = prev_mb c"
  using reset_ts_frame [of c t] unfolding same_frame_def by blast

lemma finish_out_mb [simp]: "prev_mb (finish_out i c) = prev_mb c"
  by (simp add: finish_out_def Let_def upd_info_def)

lemma finish_outs_kept:
  "kept_as oc c \<Longrightarrow> kept_as oc (fold finish_out xs c)" "prev_mb (fold finish_out xs c) = prev_mb c"
  by (auto simp: finish_out_def Let_def intro!: kept_as_fold) (induction xs arbitrary: c; simp)

lemma turn_access:
  assumes "\<not> plain_opc (opc o1)" "opc o1 \<noteq> Op_set_label" "opc o1 \<noteq> Tcg Op_mb"
  shows "kept_as (opc o1) (turn o1 c)" "prev_mb (turn o1 c) = None"
proof -
  have b: "kept_as (opc o1) (begin_op o1 c)" by (simp add: kept_as_def begin_op_def)
  then have s: "kept_as (opc o1) (start_op (begin_op o1 c))" by (simp add: start_op_def prepared_def)
  have op: "opc (op (begin_op o1 c)) = opc o1" by (simp add: begin_op_def)
  have "kept_as (opc o1) (turn o1 c) \<and> prev_mb (turn o1 c) = None"
  proof (cases "opc o1 = Tcg Op_call")
    case True
    then show ?thesis using b by (auto simp: turn_def fold_call_def Let_def intro!: kept_as_fold)
  next
    case False
    then consider "is_guest_ld (opc o1)" | "is_guest_st (opc o1)"
      using assms by (cases "opc o1" rule: plain_opc.cases) (auto simp: is_guest_ld_def is_guest_st_def)
    then show ?thesis
    proof cases
      case 1
      note f = guest_ld_facts [OF 1]
      define d where "d = snd (fold_qemu_ld (start_op (begin_op o1 c)))"
      have d: "kept_as (opc o1) d" "prev_mb d = None" using s by (simp_all add: d_def fold_qemu_ld_def Let_def)
      have "turn o1 c = finish_folding d"
        using False f(3) op by (simp add: turn_def fold_op_start d_def fold_qemu_ld_def Let_def)
      then show ?thesis using f(6) d by (simp add: finish_folding_def finish_outs_kept kept_as_def [of _ d])
    next
      case 2
      then have f: "fold_opc (opc o1) = fold_qemu_st" "\<not> opf_bb_end (opc o1)" by (auto simp: is_guest_st_def opf_bb_end_def)
      then show ?thesis
        using s False op
        by (simp add: turn_def fold_op_start fold_qemu_st_def finish_folding_def start_op_opc finish_outs_kept)
    qed
  qed
  then show "kept_as (opc o1) (turn o1 c)" "prev_mb (turn o1 c) = None" by simp_all
qed

lemma emitted_no_label:
  assumes "turn_frame b c o1 (turn o1 c)" "opc o1 \<noteq> Op_set_label"
  shows "list_all (\<lambda>o2. opc o2 \<noteq> Op_set_label) (emitted (turn o1 c))"
proof -
  consider "plain_opc (opc o1)" | "opc o1 = Tcg Op_mb" | "\<not> plain_opc (opc o1)" "opc o1 \<noteq> Tcg Op_mb" by blast
  then show ?thesis
  proof cases
    case 1
    then show ?thesis using assms(1) by (auto simp: turn_frame_def list_all_iff)
  next
    case 2
    then show ?thesis by (simp add: emitted_mb)
  next
    case 3
    then show ?thesis using turn_access(1) [OF 3(1) assms(2) 3(2), of c] assms(2) by (simp add: kept_as_def emitted_def)
  qed
qed

end
