(* ===== verification/Opt_Pass.thy ===== *)
theory Opt_Pass
  imports Opt_Frame
begin

text \<open>
  The optimizer's pass over the operations of a translation block: every operation's turn is right
  (\<open>turn_step\<close>), so the operations that come out compute what the operations that went in computed, for
  straight-line execution (\<open>pass_ok\<close>) and for whole runs with branches, backward ones included (\<open>run_pass\<close>).
\<close>

section \<open>One operation\<close>

text \<open>What the pass relies on: the operations' types and operands, and the environment of the code.\<close>

definition pass_env :: "'w ir_env \<Rightarrow> opt_context \<Rightarrow> bool" where
  "pass_env E c \<longleftrightarrow> env_matches E c \<and> loads_extended E"

lemma exec_op_cases:
  assumes "exec_op E o1 \<sigma> \<noteq> Undef"
  obtains "is_op1 (opc o1)" | "is_op2 (opc o1)" | "opf_cond_branch (opc o1)" | "is_end (opc o1)"
    | "opc o1 \<in> {Op_insn_start, Op_discard, Tcg Op_mb}" | "is_guest_ld (opc o1)" | "is_guest_st (opc o1)"
    | h where "opc o1 = Tcg (Op_host h)" | "opc o1 = Tcg Op_call"
  using assms
  by (cases "opc o1"; (cases "case opc o1 of Tcg x \<Rightarrow> x | _ \<Rightarrow> Op_br")?)
    (auto simp: exec_op_def is_op1_def is_op2_def opf_cond_branch_def is_end_def is_guest_ld_def is_guest_st_def)

lemma turn_step:
  assumes ok: "opt_ok c \<sigma>" and wf: "wf_op (tdesc c) (tcg_env c) o1" and tr: "\<not> trap c" and E: "pass_env E c"
    and def: "exec_op E o1 \<sigma> \<noteq> Undef" and shr: "is_shr (opc o1) \<longrightarrow> low_clear c"
  shows "step_ok E o1 \<sigma> (turn o1 c)"
proof -
  let ?c = "begin_op o1 c"
  have op: "op ?c = o1" "tdesc ?c = tdesc c" "tcg_env ?c = tcg_env c" by (simp_all add: begin_op_def)
  have ok': "opt_ok ?c \<sigma>" using ok by (simp add: begin_op_def)
  have wf': "wf_op (tdesc ?c) (tcg_env ?c) (op ?c)" using wf op by simp
  have fr: "fresh ?c" using tr by (simp add: begin_op_def fresh_def)
  have E': "env_matches E ?c" "loads_extended E" using E by (simp_all add: pass_env_def env_matches_def begin_op_def)
  have shr': "\<not> bit (os (start_op ?c) 1) 0" if "is_shr (opc o1)"
    by (rule keeps_low(3) [OF keeps_start [OF keeps_refl [of True ?c]]])
      (use shr that in \<open>simp_all add: begin_op_def low_clear_def\<close>)
  show ?thesis
  proof (cases "opc o1 = Tcg Op_call")
    case True
    then show ?thesis using call_step [OF ok' wf' fr _ E'(1)] op by (simp add: turn_def)
  next
    case False
    note steps = op1_step [OF ok' wf' fr] op2_step [OF ok' wf' fr] cond_branch_step [OF ok' wf' fr] end_step(1) [OF ok' wf' fr]
      plain_step [OF ok' wf' fr] guest_ld_step [OF ok' wf' fr _ E'(2)] guest_st_step [OF ok' wf' fr]
      load_step [OF ok' wf' fr] store_step [OF ok' wf' fr]
    have "step_ok E o1 \<sigma> (fold_op ?c)"
      using exec_op_cases [OF def] steps [unfolded op] def shr' False by metis
    then show ?thesis using False by (simp add: turn_def)
  qed
qed

section \<open>The pass\<close>

fun emits :: "tcgop list \<Rightarrow> opt_context \<Rightarrow> tcgop list" where
  "emits [] c = []"
| "emits (o1 # ops) c = emitted (turn o1 c) @ emits ops (optimize_op o1 c)"

definition ready :: "bool \<Rightarrow> opt_context \<Rightarrow> bool" where
  "ready b c \<longleftrightarrow> mb_valid c \<and> (b \<longrightarrow> low_clear c)"

definition same_descs :: "opt_context \<Rightarrow> opt_context \<Rightarrow> bool" where
  "same_descs c c' \<longleftrightarrow> tdesc c' = tdesc c \<and> nb_globals c' = nb_globals c \<and> tcg_env c' = tcg_env c"

text \<open>A variable \<open>shr\<close> is folded right if no sign mask has its bit 0 set.\<close>

definition shr_safe :: "bool \<Rightarrow> tcgop \<Rightarrow> bool" where
  "shr_safe b o1 \<longleftrightarrow> (if b then calm o1 else \<not> is_shr (opc o1))"

lemma optimize_ops_simps [simp]: "optimize_ops [] c = c" "optimize_ops (o1 # ops) c = optimize_ops ops (optimize_op o1 c)"
  by (simp_all add: optimize_ops_def)

lemma optimize_op_ready:
  assumes "ready b c" "shr_safe b o1"
  shows "ready b (optimize_op o1 c)" "same_descs c (optimize_op o1 c)" "trap c \<longrightarrow> trap (optimize_op o1 c)"
    "map strip_mb (out_ops (optimize_op o1 c)) = map strip_mb (out_ops c @ emitted (turn o1 c))"
    "opc o1 \<noteq> Op_set_label \<longrightarrow> list_all (\<lambda>o2. opc o2 \<noteq> Op_set_label) (emitted (turn o1 c))"
proof -
  have f: "turn_frame b c o1 (turn o1 c)"
    using assms by (intro turn_frame_ok) (auto simp: ready_def shr_safe_def)
  then show "ready b (optimize_op o1 c)" "same_descs c (optimize_op o1 c)" "trap c \<longrightarrow> trap (optimize_op o1 c)"
    "map strip_mb (out_ops (optimize_op o1 c)) = map strip_mb (out_ops c @ emitted (turn o1 c))"
    by (simp_all add: turn_frame_def ready_def optimize_op_turn end_op_def low_clear_def same_descs_def emitted_def)
  show "opc o1 \<noteq> Op_set_label \<longrightarrow> list_all (\<lambda>o2. opc o2 \<noteq> Op_set_label) (emitted (turn o1 c))"
    using emitted_no_label [OF f] by blast
qed

lemma same_descs_trans: "same_descs c c1 \<Longrightarrow> same_descs c1 c2 \<Longrightarrow> same_descs c c2"
  by (simp add: same_descs_def)

lemma optimize_ops_ready:
  assumes "ready b c" "list_all (shr_safe b) ops"
  shows "ready b (optimize_ops ops c) \<and> same_descs c (optimize_ops ops c) \<and> (trap c \<longrightarrow> trap (optimize_ops ops c))
    \<and> map strip_mb (out_ops (optimize_ops ops c)) = map strip_mb (out_ops c @ emits ops c)"
  using assms
proof (induction ops arbitrary: c)
  case (Cons o1 ops)
  have s: "shr_safe b o1" "list_all (shr_safe b) ops" using Cons.prems(2) by simp_all
  note r = optimize_op_ready [OF Cons.prems(1) s(1)]
  show ?case using Cons.IH [OF r(1) s(2)] same_descs_trans [OF r(2)] r(3,4) by simp
qed (simp add: same_descs_def)

text \<open>A barrier's operand has no effect.\<close>

lemma exec_op_strip: "exec_op E (strip_mb o1) \<sigma> = exec_op E o1 \<sigma>"
  by (simp add: strip_mb_def exec_op_def is_op1_def is_op2_def)

lemma exec_ops_strip: "exec_ops E (map strip_mb ops) \<sigma> = exec_ops E ops \<sigma>"
  by (induction ops arbitrary: \<sigma>) (auto simp: exec_op_strip split: ir_out.split)

fun out_state :: "'w ir_out \<Rightarrow> 'w ir option" where
  "out_state (Fall \<sigma>) = Some \<sigma>"
| "out_state (Goto l \<sigma>) = Some \<sigma>"
| "out_state (Exit oc vs \<sigma>) = Some \<sigma>"
| "out_state (Fault \<sigma>) = Some \<sigma>"
| "out_state Undef = None"

text \<open>An operation that leaves the straight line does not change the state.\<close>

lemma exec_op_stop: "out_state (exec_op E o1 \<sigma>) = Some \<sigma>' \<Longrightarrow> \<nexists>\<sigma>1. exec_op E o1 \<sigma> = Fall \<sigma>1 \<Longrightarrow> \<sigma>' = \<sigma>"
  by (cases "(E, opc o1, o1, \<sigma>)" rule: exec_control.cases)
    (auto simp: exec_op_def Let_def branch_out_def exec_ld_def exec_st_def exec_call_def exec_host_def split: if_splits option.splits prod.splits)

definition pass_result :: "'w ir_env \<Rightarrow> tcgop list \<Rightarrow> 'w ir \<Rightarrow> opt_context \<Rightarrow> bool" where
  "pass_result E ops \<sigma> c \<longleftrightarrow>
     exec_ops E (emits ops c) \<sigma> = exec_ops E ops \<sigma>
     \<and> (\<forall>\<sigma>'. exec_ops E ops \<sigma> = Fall \<sigma>' \<longrightarrow> opt_ok (optimize_ops ops c) \<sigma>' \<and> \<not> trap (optimize_ops ops c))
     \<and> (\<forall>\<sigma>'. out_state (exec_ops E ops \<sigma>) = Some \<sigma>' \<longrightarrow> canon_state (tdesc c) \<sigma>')"

lemma pass_ok:
  assumes "opt_ok c \<sigma>" "list_all (wf_op (tdesc c) (tcg_env c)) ops" "\<not> trap c" "pass_env E c" "ready b c"
    "list_all (shr_safe b) ops" "exec_ops E ops \<sigma> \<noteq> Undef"
  shows "pass_result E ops \<sigma> c"
  using assms
proof (induction ops arbitrary: c \<sigma>)
  case (Cons o1 ops)
  let ?t = "turn o1 c" and ?c = "optimize_op o1 c"
  have def: "exec_op E o1 \<sigma> \<noteq> Undef" using Cons.prems(7) by (auto split: ir_out.splits)
  have shr: "is_shr (opc o1) \<longrightarrow> low_clear c"
    using Cons.prems(5,6) by (auto simp: ready_def shr_safe_def split: if_splits)
  have st: "step_ok E o1 \<sigma> ?t" by (rule turn_step) (use Cons.prems shr def in auto)
  note r = optimize_op_ready [OF Cons.prems(5), of o1]
  show ?case
  proof (cases "exec_op E o1 \<sigma>")
    case (Fall \<sigma>')
    have "opt_ok ?c \<sigma>'" "\<not> trap ?c" using st Fall by (simp_all add: step_ok_def optimize_op_turn end_op_def)
    then have "pass_result E ops \<sigma>' ?c"
      by (intro Cons.IH) (use Cons.prems r Fall in \<open>auto simp: same_descs_def pass_env_def env_matches_def\<close>)
    then show ?thesis using st Fall r Cons.prems(6) by (auto simp: pass_result_def step_ok_def exec_ops_append same_descs_def)
  qed (use st def Cons.prems(1) exec_op_stop [of E o1 \<sigma>] opt_okD(5)
      in \<open>auto simp: pass_result_def step_ok_def exec_ops_append\<close>)
qed (simp add: pass_result_def opt_okD(5))

section \<open>Runs with branches\<close>

definition is_label :: "u64 \<Rightarrow> tcgop \<Rightarrow> bool" where
  "is_label l o1 \<longleftrightarrow> opc o1 = Op_set_label \<and> arg_imm (args o1 ! 0) = l"

fun after_label :: "u64 \<Rightarrow> tcgop list \<Rightarrow> tcgop list option" where
  "after_label l [] = None"
| "after_label l (o1 # ops) = (if is_label l o1 then Some ops else after_label l ops)"

text \<open>
  A run of a block from a point in it.  The fuel bounds the branches taken; \<^const>\<open>None\<close> is a run that takes
  more.
\<close>

fun run_tb :: "'w ir_env \<Rightarrow> tcgop list \<Rightarrow> nat \<Rightarrow> tcgop list \<Rightarrow> 'w ir \<Rightarrow> 'w ir_out option" where
  "run_tb E block 0 ops \<sigma> = (case exec_ops E ops \<sigma> of Goto l \<sigma>' \<Rightarrow> None | r \<Rightarrow> Some r)"
| "run_tb E block (Suc n) ops \<sigma> =
     (case exec_ops E ops \<sigma> of
        Goto l \<sigma>' \<Rightarrow> (case after_label l block of None \<Rightarrow> Some Undef | Some rest \<Rightarrow> run_tb E block n rest \<sigma>')
      | r \<Rightarrow> Some r)"

lemma after_label_append:
  "after_label l (xs @ ys) = (case after_label l xs of None \<Rightarrow> after_label l ys | Some r \<Rightarrow> Some (r @ ys))"
  by (induction xs) auto

lemma after_label_none: "list_all (\<lambda>o2. opc o2 \<noteq> Op_set_label) xs \<Longrightarrow> after_label l xs = None"
  by (induction xs) (auto simp: is_label_def)

lemma after_label_strip: "after_label l (map strip_mb ops) = map_option (map strip_mb) (after_label l ops)"
  by (induction ops) (auto simp: is_label_def strip_mb_def)

lemma run_tb_strip: "run_tb E (map strip_mb block) n (map strip_mb ops) \<sigma> = run_tb E block n ops \<sigma>"
  by (induction n arbitrary: ops \<sigma>)
    (auto simp: exec_ops_strip after_label_strip split: ir_out.split option.split)

lemma turn_label:
  assumes "opc o1 = Op_set_label"
  shows "emitted (turn o1 c) = [o1]" "temps_used (turn o1 c) = []" "mem_copy (turn o1 c) = []" "prev_mb (turn o1 c) = None"
proof -
  let ?c = "(begin_op o1 c)\<lparr>ctype := I32, a_mask := - 1, z_mask := - 1, s_mask := 0\<rparr>"
  have "start_op (begin_op o1 c) = ?c"
    using assms by (simp add: start_op_def begin_op_def prepared_def op_outs_def op_ins_def nb_oargs_def nb_iargs_def
        init_arguments_def copy_propagate_def)
  then have "turn o1 c = remove_mem_copy_all (?c\<lparr>prev_mb := None, temps_used := []\<rparr>)"
    using assms by (simp add: turn_def fold_op_start begin_op_def not_folded_def finish_folding_def opf_bb_end_def opf_cond_branch_def)
  then show "emitted (turn o1 c) = [o1]" "temps_used (turn o1 c) = []" "mem_copy (turn o1 c) = []" "prev_mb (turn o1 c) = None"
    by (simp_all add: emitted_def begin_op_def) (simp_all add: remove_mem_copy_all_def remove_mem_copy_in_def begin_op_def)
qed

text \<open>The contexts in which the pass goes through a label: nothing is known there.\<close>

definition at_label :: "bool \<Rightarrow> opt_context \<Rightarrow> opt_context \<Rightarrow> bool" where
  "at_label b c c1 \<longleftrightarrow> temps_used c1 = [] \<and> mem_copy c1 = [] \<and> ready b c1 \<and> same_descs c c1"

lemma emits_label:
  assumes "ready b c" "list_all (shr_safe b) ops"
  shows "case after_label l ops of None \<Rightarrow> after_label l (emits ops c) = None
    | Some rest \<Rightarrow> \<exists>c1. after_label l (emits ops c) = Some (emits rest c1) \<and> at_label b c c1
        \<and> (trap c1 \<longrightarrow> trap (optimize_ops ops c)) \<and> (\<exists>pre. ops = pre @ rest)"
  using assms
proof (induction ops arbitrary: c)
  case (Cons o1 ops)
  have s: "shr_safe b o1" "list_all (shr_safe b) ops" using Cons.prems(2) by simp_all
  let ?c = "optimize_op o1 c"
  note r = optimize_op_ready [OF Cons.prems(1) s(1)] and IH = Cons.IH [OF optimize_op_ready(1) [OF Cons.prems(1) s(1)] s(2)]
  have at: "at_label b c c1" if "at_label b ?c c1" for c1 using that same_descs_trans [OF r(2)] by (simp add: at_label_def)
  show ?case
  proof (cases "is_label l o1")
    case True
    then have oc: "opc o1 = Op_set_label" by (simp add: is_label_def)
    note t = turn_label [OF oc, of c]
    have "at_label b c ?c" using t(2,3) r(1,2) by (simp add: at_label_def optimize_op_turn end_op_def)
    moreover have "trap ?c \<longrightarrow> trap (optimize_ops ops ?c)" using optimize_ops_ready [OF r(1) s(2)] by blast
    ultimately show ?thesis using True t(1) by (auto intro: exI [of _ "[o1]"])
  next
    case False
    have "after_label l (emitted (turn o1 c)) = None"
      using False r(5) turn_label(1) [of o1 c] by (cases "opc o1 = Op_set_label") (auto intro: after_label_none)
    then show ?thesis
      using IH False at by (auto simp: after_label_append split: option.splits)
  qed
qed simp

lemma pass_env_same: "same_descs c c1 \<Longrightarrow> pass_env E c \<Longrightarrow> pass_env E c1"
  by (simp add: same_descs_def pass_env_def env_matches_def)

lemma at_label_ok:
  assumes "at_label b c c1" "env_ok c" "canon_state (tdesc c) \<sigma>"
  shows "opt_ok c1 \<sigma>"
  by (rule opt_ok_empty) (use assms in \<open>simp_all add: at_label_def same_descs_def env_ok_def\<close>)

lemma run_pass:
  assumes blk: "ready b c0" "list_all (shr_safe b) block" "list_all (wf_op (tdesc c0) (tcg_env c0)) block"
      "\<not> trap (optimize_ops block c0)" "pass_env E c0" "env_ok c0"
    and pt: "opt_ok c \<sigma>" "ready b c" "same_descs c0 c" "\<not> trap c" "block = pre @ ops"
    and def: "run_tb E block n ops \<sigma> \<noteq> Some Undef"
  shows "run_tb E (emits block c0) n (emits ops c) \<sigma> = run_tb E block n ops \<sigma>
    \<and> (\<forall>\<sigma>'. Option.bind (run_tb E block n ops \<sigma>) out_state = Some \<sigma>' \<longrightarrow> canon_state (tdesc c0) \<sigma>')"
  using pt def
proof (induction n arbitrary: c \<sigma> ops pre)
  case 0
  have "exec_ops E ops \<sigma> \<noteq> Undef" using 0(6) by auto
  then have "pass_result E ops \<sigma> c"
    by (intro pass_ok [OF 0(1) _ 0(4) pass_env_same [OF 0(3) blk(5)] 0(2)])
      (use blk 0 in \<open>simp_all add: same_descs_def\<close>)
  then show ?case using 0(3) by (auto simp: pass_result_def same_descs_def split: ir_out.split)
next
  case (Suc n)
  have "exec_ops E ops \<sigma> \<noteq> Undef" using Suc.prems(6) by auto
  then have r: "pass_result E ops \<sigma> c"
    by (intro pass_ok [OF Suc.prems(1) _ Suc.prems(4) pass_env_same [OF Suc.prems(3) blk(5)] Suc.prems(2)])
      (use blk Suc.prems in \<open>simp_all add: same_descs_def\<close>)
  show ?case
  proof (cases "\<exists>l \<sigma>'. exec_ops E ops \<sigma> = Goto l \<sigma>'")
    case True
    then obtain l \<sigma>' where g: "exec_ops E ops \<sigma> = Goto l \<sigma>'" by blast
    have cs: "canon_state (tdesc c0) \<sigma>'" using r g Suc.prems(3) by (simp add: pass_result_def same_descs_def)
    show ?thesis
    proof (cases "after_label l block")
      case None
      then show ?thesis using Suc.prems(6) g by simp
    next
      case (Some rest)
      then obtain c1 pre1 where c1: "after_label l (emits block c0) = Some (emits rest c1)" "at_label b c0 c1"
        "trap c1 \<longrightarrow> trap (optimize_ops block c0)" "block = pre1 @ rest"
        using emits_label [OF blk(1,2), of l] by auto
      have "run_tb E (emits block c0) n (emits rest c1) \<sigma>' = run_tb E block n rest \<sigma>'
          \<and> (\<forall>\<sigma>2. Option.bind (run_tb E block n rest \<sigma>') out_state = Some \<sigma>2 \<longrightarrow> canon_state (tdesc c0) \<sigma>2)"
        by (rule Suc.IH [OF at_label_ok [OF c1(2) blk(6) cs] _ _ _ c1(4)])
          (use c1 blk(4) Suc.prems(6) g Some in \<open>simp_all add: at_label_def\<close>)
      then show ?thesis using r g Some c1(1) by (simp add: pass_result_def)
    qed
  next
    case False
    then show ?thesis using r Suc.prems(3) by (auto simp: pass_result_def same_descs_def split: ir_out.split)
  qed
qed

end
