(* ===== verification/Opt_Barrier.thy ===== *)
theory Opt_Barrier
  imports Opt_Pass
begin

text \<open>
  Memory barriers.  \<open>fold_mb\<close> merges a barrier into an earlier one and forgets that one at every access
  to the guest's memory.  The order the barriers ask for is kept: between two consecutive accesses the
  output asks for exactly the kinds of barrier the input asked for.
\<close>

section \<open>The order barriers ask for\<close>

text \<open>
  The events of a list of operations (accesses, calls, labels), each with the barriers since the event
  before it, and the barriers after the last event.
\<close>

type_synonym fence_trace = "(u64 \<times> tcg_opc) list \<times> u64"

definition fence_step :: "tcgop \<Rightarrow> fence_trace \<Rightarrow> fence_trace" where
  "fence_step o1 s =
     (if opc o1 = Tcg Op_mb then (fst s, snd s OR arg_imm (args o1 ! 0))
      else if plain_opc (opc o1) then s
      else (fst s @ [(snd s, opc o1)], 0))"

definition fences :: "tcgop list \<Rightarrow> fence_trace" where
  "fences ops = fold fence_step ops ([], 0)"

definition eventless :: "tcgop \<Rightarrow> bool" where
  "eventless o1 \<longleftrightarrow> opc o1 = Tcg Op_mb \<or> plain_opc (opc o1)"

lemma fences_plain: "list_all (\<lambda>o1. plain_opc (opc o1)) xs \<Longrightarrow> fold fence_step xs s = s"
  by (induction xs arbitrary: s) (auto simp: fence_step_def)

lemma fences_eventless:
  "list_all eventless ys \<Longrightarrow>
    fold fence_step ys (t, a OR m) = (fst (fold fence_step ys (t, a)), snd (fold fence_step ys (t, a)) OR m)"
proof (induction ys arbitrary: a)
  case (Cons y ys)
  have "(a OR m) OR x = (a OR x) OR m" for x by (simp add: ac_simps)
  then show ?case using Cons by (auto simp: eventless_def fence_step_def)
qed simp

lemma fences_merge:
  fixes m :: u64
  assumes k: "k < length xs" "opc (xs ! k) = Tcg Op_mb" "args (xs ! k) \<noteq> []" and ys: "list_all eventless (drop (Suc k) xs)"
  defines "o1 \<equiv> (xs ! k)\<lparr>args := (args (xs ! k))[0 := Imm (arg_imm (args (xs ! k) ! 0) OR m)]\<rparr>"
  shows "fold fence_step (xs[k := o1]) s = (fst (fold fence_step xs s), snd (fold fence_step xs s) OR m)"
proof -
  obtain t a where ta: "fold fence_step (take k xs) s = (t, a)" by (rule prod.exhaust)
  define b where "b = arg_imm (args (xs ! k) ! 0)"
  have "fold fence_step xs s = fold fence_step (drop (Suc k) xs) (t, a OR b)"
    unfolding b_def by (subst id_take_nth_drop [OF k(1)]) (simp add: ta fence_step_def k(2))
  moreover have "fold fence_step (xs[k := o1]) s = fold fence_step (drop (Suc k) xs) (t, (a OR b) OR m)"
    using k(2,3) by (simp add: upd_conv_take_nth_drop [OF k(1)] ta fence_step_def o1_def b_def ac_simps)
  ultimately show ?thesis using fences_eventless [OF ys] by simp
qed

section \<open>The pass keeps it\<close>

definition last_mb_ok :: "opt_context \<Rightarrow> bool" where
  "last_mb_ok c \<longleftrightarrow>
     (case prev_mb c of None \<Rightarrow> True
      | Some k \<Rightarrow> k < length (out_ops c) \<and> opc (out_ops c ! k) = Tcg Op_mb \<and> args (out_ops c ! k) \<noteq> []
          \<and> list_all eventless (drop (Suc k) (out_ops c)))"

definition fences_step_ok :: "opt_context \<Rightarrow> tcgop \<Rightarrow> opt_context \<Rightarrow> bool" where
  "fences_step_ok c o1 c' \<longleftrightarrow>
     last_mb_ok c' \<and> fold fence_step (out_ops c') ([], 0) = fence_step o1 (fold fence_step (out_ops c) ([], 0))"

lemma turn_keeps:
  assumes "opc o1 \<noteq> Tcg Op_mb"
  shows "keeps False (begin_op o1 c) (turn o1 c)"
proof -
  let ?c = "begin_op o1 c"
  have "keeps False ?c ?c" by (rule keeps_refl) (simp_all add: begin_op_def)
  then show ?thesis using keeps_fold_op [of False ?c ?c] keeps_fold_call [of False ?c ?c] assms
    by (simp add: turn_def begin_op_def)
qed

lemma fences_plain_op:
  assumes v: "last_mb_ok c" and p: "plain_opc (opc o1)"
  shows "fences_step_ok c o1 (optimize_op o1 c)"
proof -
  have "opc o1 \<noteq> Tcg Op_mb" using p by auto
  note k = turn_keeps [OF this, of c]
  have e: "out_ops (optimize_op o1 c) = out_ops c @ emitted (turn o1 c)" "prev_mb (optimize_op o1 c) = prev_mb (turn o1 c)"
    "prev_mb (turn o1 c) = prev_mb c \<or> prev_mb (turn o1 c) = None" "list_all (\<lambda>o2. plain_opc (opc o2)) (emitted (turn o1 c))"
    using k p by (simp_all add: optimize_op_turn end_op_def keeps_def begin_op_def emitted_def)
  have "list_all eventless (emitted (turn o1 c))" using e(4) by (auto simp: list_all_iff eventless_def)
  then have "last_mb_ok (optimize_op o1 c)"
    using v e(1-3) by (auto simp: last_mb_ok_def nth_append split: option.splits)
  then show ?thesis
    using e(1,4) p by (auto simp: fences_step_ok_def fences_plain fence_step_def)
qed

lemma fences_event_op:
  assumes "\<not> plain_opc (opc o1)" "opc o1 \<noteq> Tcg Op_mb"
  shows "fences_step_ok c o1 (optimize_op o1 c)"
proof -
  have "\<exists>o2. emitted (turn o1 c) = [o2] \<and> opc o2 = opc o1 \<and> prev_mb (turn o1 c) = None"
  proof (cases "opc o1 = Op_set_label")
    case True
    then show ?thesis using turn_label [OF True, of c] by simp
  next
    case False
    then show ?thesis using turn_access [OF assms(1) False assms(2), of c] by (simp add: kept_as_def emitted_def)
  qed
  then obtain o2 where o2: "emitted (turn o1 c) = [o2]" "opc o2 = opc o1" "prev_mb (turn o1 c) = None" by blast
  have "out_ops (optimize_op o1 c) = out_ops c @ [o2]" "prev_mb (optimize_op o1 c) = None"
    using turn_keeps [OF assms(2), of c] o2 by (simp_all add: optimize_op_turn end_op_def keeps_def begin_op_def emitted_def)
  then show ?thesis using assms o2(2) by (simp add: fences_step_ok_def last_mb_ok_def fence_step_def)
qed

lemma fences_mb_op:
  assumes v: "last_mb_ok c" and oc: "opc o1 = Tcg Op_mb" and a: "args o1 \<noteq> []"
  shows "fences_step_ok c o1 (optimize_op o1 c)"
proof (cases "prev_mb c")
  case None
  then have "out_ops (optimize_op o1 c) = out_ops c @ [o1]" "prev_mb (optimize_op o1 c) = Some (length (out_ops c))"
    using oc by (simp_all add: optimize_op_turn turn_is_mb start_op_mb begin_op_def fold_mb_def end_op_def)
  then show ?thesis using oc a by (simp add: fences_step_ok_def last_mb_ok_def)
next
  case (Some k)
  let ?o = "out_ops c ! k"
  have k: "k < length (out_ops c)" "opc ?o = Tcg Op_mb" "args ?o \<noteq> []" "list_all eventless (drop (Suc k) (out_ops c))"
    using v Some by (simp_all add: last_mb_ok_def)
  have "out_ops (optimize_op o1 c) = (out_ops c)[k := ?o\<lparr>args := (args ?o)[0 := Imm (arg_imm (args ?o ! 0) OR arg_imm (args o1 ! 0))]\<rparr>]"
    "prev_mb (optimize_op o1 c) = Some k"
    using oc Some by (simp_all add: optimize_op_turn turn_is_mb start_op_mb begin_op_def fold_mb_def end_op_def oimm_def oarg_def Let_def)
  then show ?thesis using k oc fences_merge [OF k] by (simp add: fences_step_ok_def last_mb_ok_def fence_step_def)
qed

lemma fences_step:
  assumes "last_mb_ok c" "opc o1 = Tcg Op_mb \<longrightarrow> args o1 \<noteq> []"
  shows "fences_step_ok c o1 (optimize_op o1 c)"
  using assms fences_plain_op fences_event_op fences_mb_op by blast

lemma fences_pass:
  assumes "last_mb_ok c" "list_all (\<lambda>o1. opc o1 = Tcg Op_mb \<longrightarrow> args o1 \<noteq> []) ops"
  shows "fold fence_step (out_ops (optimize_ops ops c)) ([], 0) = fold fence_step (out_ops c @ ops) ([], 0)"
  using assms
proof (induction ops arbitrary: c)
  case (Cons o1 ops)
  then show ?case using fences_step [of c o1] by (simp add: fences_step_ok_def)
qed simp

end
