(* ===== verification/Opt_Correct.thy ===== *)
theory Opt_Correct
  imports Opt_Barrier
begin

text \<open>
  What the TCG optimizer promises for a translation block: the code it returns runs like the code it was
  given, none of its assertions fails, its knowledge of the variables and of the CPU state in memory is
  true, its walks over the rings of copies end, and barriers keep their place.
\<close>

section \<open>Blocks the front end builds\<close>

text \<open>
  Well-formed operations, the environment of the code (loads extend their result as their \<open>MemOp\<close>
  says), and one of the two conditions under which a \<open>shr\<close> by a variable is folded right: no sign
  mask ever has its bit 0 set, or there is no \<open>shr\<close>.
\<close>

definition optimizable :: "'w ir_env \<Rightarrow> tcgtemp \<Rightarrow> tcgop list \<Rightarrow> bool" where
  "optimizable E env ops \<longleftrightarrow>
     list_all (wf_op (descs E) env) ops
     \<and> (list_all calm ops \<or> list_all (\<lambda>o1. \<not> is_shr (opc o1)) ops)
     \<and> loads_extended E \<and> (case env of Tmp n \<Rightarrow> fixed_temp (descs E n) | Const w v \<Rightarrow> False)"

abbreviation start_context :: "'w ir_env \<Rightarrow> tcgtemp \<Rightarrow> opt_context" where
  "start_context E env \<equiv> opt_init (descs E) (globals E) env"

lemma optimizableD:
  assumes "optimizable E env ops"
  obtains b where "ready b (start_context E env)" "list_all (shr_safe b) ops" "list_all (wf_op (descs E) env) ops"
    "pass_env E (start_context E env)" "env_ok (start_context E env)"
proof -
  let ?c = "start_context E env"
  have "list_all (shr_safe True) ops \<or> list_all (shr_safe False) ops"
    using assms by (simp add: optimizable_def shr_safe_def list_all_iff)
  then obtain b where b: "list_all (shr_safe b) ops" by blast
  obtain n where n: "env = Tmp n" "fixed_temp (descs E n)" using assms by (cases env) (simp_all add: optimizable_def)
  have "ready b ?c" by (simp add: ready_def mb_valid_def low_clear_def opt_init_def)
  moreover have "pass_env E ?c" using assms by (simp add: optimizable_def pass_env_def env_matches_def opt_init_def)
  moreover have "env_ok ?c" using n by (simp add: env_ok_def opt_init_def)
  ultimately show ?thesis using that b assms by (simp add: optimizable_def)
qed

lemma start_context_simps [simp]:
  "tdesc (opt_init ds g env) = ds" "tcg_env (opt_init ds g env) = env" "\<not> trap (opt_init ds g env)"
  "temps_used (opt_init ds g env) = []" "mem_copy (opt_init ds g env) = []" "out_ops (opt_init ds g env) = []"
  by (simp_all add: opt_init_def)

lemma start_ok: "env_ok (opt_init ds g env) \<Longrightarrow> canon_state ds \<sigma> \<Longrightarrow> opt_ok (opt_init ds g env) \<sigma>"
  by (rule opt_ok_empty) simp_all

lemma prefix_ok:
  assumes "optimizable E env ops" "canon_state (descs E) \<sigma>" "exec_ops E ops \<sigma> \<noteq> Undef"
  shows "pass_result E ops \<sigma> (start_context E env)"
  using assms(1)
proof (rule optimizableD)
  fix b
  assume b: "ready b (start_context E env)" "list_all (shr_safe b) ops" "list_all (wf_op (descs E) env) ops"
    "pass_env E (start_context E env)" "env_ok (start_context E env)"
  show ?thesis by (rule pass_ok [OF start_ok [OF b(5) assms(2)]]) (use b assms(3) in simp_all)
qed

lemma prefix_env:
  assumes "optimizable E env ops"
  shows "tcg_env (optimize_ops ops (start_context E env)) = env"
  using assms
proof (rule optimizableD)
  fix b
  assume "ready b (start_context E env)" "list_all (shr_safe b) ops"
  from optimize_ops_ready [OF this] show ?thesis by (simp add: same_descs_def)
qed

lemma tcg_optimize_Some:
  "tcg_optimize ds g env ops = Some out \<longleftrightarrow>
    \<not> trap (optimize_ops ops (opt_init ds g env)) \<and> out = out_ops (optimize_ops ops (opt_init ds g env))"
  by (auto simp: tcg_optimize_def Let_def)

lemma optimized_run:
  assumes o: "optimizable E env ops" and t: "tcg_optimize (descs E) (globals E) env ops = Some out"
    and s: "canon_state (descs E) \<sigma>" and d: "run_tb E ops n ops \<sigma> \<noteq> Some Undef"
  shows "run_tb E out n out \<sigma> = run_tb E ops n ops \<sigma>
    \<and> (\<forall>\<sigma>'. Option.bind (run_tb E ops n ops \<sigma>) out_state = Some \<sigma>' \<longrightarrow> canon_state (descs E) \<sigma>')"
  using o
proof (rule optimizableD)
  let ?c = "start_context E env"
  fix b
  assume b: "ready b ?c" "list_all (shr_safe b) ops" "list_all (wf_op (descs E) env) ops" "pass_env E ?c" "env_ok ?c"
  have "map strip_mb out = map strip_mb (emits ops ?c)"
    using optimize_ops_ready [OF b(1,2)] t by (simp add: tcg_optimize_Some)
  then have "run_tb E out n out \<sigma> = run_tb E (emits ops ?c) n (emits ops ?c) \<sigma>"
    by (metis run_tb_strip)
  moreover have "run_tb E (emits ops ?c) n (emits ops ?c) \<sigma> = run_tb E ops n ops \<sigma>
      \<and> (\<forall>\<sigma>'. Option.bind (run_tb E ops n ops \<sigma>) out_state = Some \<sigma>' \<longrightarrow> canon_state (tdesc ?c) \<sigma>')"
    by (rule run_pass [where pre = "[]" and b = b])
      (use b t d start_ok [OF b(5) s] in \<open>simp_all add: tcg_optimize_Some same_descs_def\<close>)
  ultimately show ?thesis by simp
qed

section \<open>Assertions\<close>

text \<open>
  A segment of a block: operations up to one that ends a basic block, which some execution goes through.
\<close>

definition live_segment :: "'w ir_env \<Rightarrow> tcgop list \<Rightarrow> bool" where
  "live_segment E ops \<longleftrightarrow>
     ops \<noteq> [] \<and> is_end (opc (last ops))
     \<and> (\<exists>\<sigma> \<sigma>'. canon_state (descs E) \<sigma> \<and> exec_ops E (butlast ops) \<sigma> = Fall \<sigma>' \<and> exec_op E (last ops) \<sigma>' \<noteq> Undef)"

definition clean :: "bool \<Rightarrow> 'w ir_env \<Rightarrow> tcgtemp \<Rightarrow> opt_context \<Rightarrow> bool" where
  "clean b E env c \<longleftrightarrow> temps_used c = [] \<and> mem_copy c = [] \<and> \<not> trap c \<and> ready b c \<and> same_descs (start_context E env) c"

lemma optimize_ops_append: "optimize_ops (xs @ ys) c = optimize_ops ys (optimize_ops xs c)"
  by (simp add: optimize_ops_def)

lemma end_turn:
  assumes ok: "opt_ok c \<sigma>" and wf: "wf_op (tdesc c) (tcg_env c) o1" and tr: "\<not> trap c" and oc: "is_end (opc o1)"
  shows "temps_used (optimize_op o1 c) = []" "mem_copy (optimize_op o1 c) = []" "\<not> trap (optimize_op o1 c)"
proof -
  let ?c = "begin_op o1 c"
  have b: "opt_ok ?c \<sigma>" "wf_op (tdesc ?c) (tcg_env ?c) (op ?c)" "fresh ?c" "is_end (opc (op ?c))"
    using ok wf tr oc by (simp_all add: begin_op_def fresh_def)
  note e = end_step [OF b]
  have t: "turn o1 c = fold_op ?c" using oc by (auto simp: turn_def is_end_def)
  show "temps_used (optimize_op o1 c) = []" "mem_copy (optimize_op o1 c) = []" "\<not> trap (optimize_op o1 c)"
    using e(1-3) by (simp_all add: optimize_op_turn t end_op_def step_ok_def)
qed

lemma segment_clean:
  assumes c: "clean b E env c" and seg: "live_segment E ops" and safe: "list_all (shr_safe b) ops"
    and wf: "list_all (wf_op (descs E) env) ops" and E: "pass_env E (start_context E env)" "env_ok (start_context E env)"
  shows "clean b E env (optimize_ops ops c)"
proof -
  obtain \<sigma> \<sigma>' where x: "canon_state (descs E) \<sigma>" "exec_ops E (butlast ops) \<sigma> = Fall \<sigma>'" and l: "is_end (opc (last ops))"
    and ne: "ops \<noteq> []" using seg by (auto simp: live_segment_def)
  let ?c = "optimize_ops (butlast ops) c" and ?o = "last ops"
  have ops: "ops = butlast ops @ [?o]" using ne by simp
  have d: "tdesc c = descs E" "tcg_env c = env" "same_descs (start_context E env) c" "ready b c" "\<not> trap c"
    using c by (simp_all add: clean_def same_descs_def)
  have sf: "list_all (shr_safe b) (butlast ops)" "shr_safe b ?o" "list_all (wf_op (descs E) env) (butlast ops)" "wf_op (descs E) env ?o"
    using safe wf ne by (auto simp: list_all_iff dest: in_set_butlastD)
  have "opt_ok c \<sigma>" using c x(1) E(2) d(1-3) by (intro opt_ok_empty) (simp_all add: clean_def env_ok_def)
  then have "pass_result E (butlast ops) \<sigma> c"
    by (rule pass_ok) (use d x sf pass_env_same [OF d(3) E(1)] in simp_all)
  then have p: "opt_ok ?c \<sigma>'" "\<not> trap ?c" using x(2) by (simp_all add: pass_result_def)
  have r: "ready b ?c" "same_descs c ?c" using optimize_ops_ready [OF d(4) sf(1)] by simp_all
  note r2 = optimize_op_ready(1,2) [OF r(1) sf(2)]
  have "wf_op (tdesc ?c) (tcg_env ?c) ?o" using sf(4) r(2) d(1,2) by (simp add: same_descs_def)
  note e = end_turn [OF p(1) this p(2) l]
  have "optimize_ops ops c = optimize_op ?o ?c" by (subst ops) (simp add: optimize_ops_append)
  then show ?thesis
    using e r2 same_descs_trans [OF same_descs_trans [OF d(3) r(2)] r2(2)] by (simp add: clean_def)
qed

lemma segments_clean:
  assumes "clean b E env c" "list_all (live_segment E) segs" "list_all (shr_safe b) (concat segs)"
    "list_all (wf_op (descs E) env) (concat segs)" "pass_env E (start_context E env)" "env_ok (start_context E env)"
  shows "clean b E env (optimize_ops (concat segs) c)"
  using assms
proof (induction segs arbitrary: c)
  case (Cons seg segs)
  have "clean b E env (optimize_ops seg c)" by (rule segment_clean) (use Cons.prems in simp_all)
  then show ?case using Cons by (simp add: optimize_ops_append)
qed simp

section \<open>A block\<close>

text \<open>
  A small block, to show the properties at work: a sum of constants, a store and a load of a field of the CPU
  state, two barriers, and a branch to a label.
\<close>

definition demo_env :: "unit ir_env" where
  "demo_env =
     \<lparr>descs = (\<lambda>n. if n = 0 then \<lparr>tkind = TEMP_FIXED, tbase_type = Some I64, ttype = I64\<rparr>
                   else \<lparr>tkind = TEMP_EBB, tbase_type = Some I64, ttype = I64\<rparr>),
      globals = 1, guest_ld = (\<lambda>oi a \<sigma>. None), guest_st = (\<lambda>oi a v \<sigma>. None), helper = (\<lambda>h vs \<sigma>. None),
      linked = (\<lambda>k \<sigma>. False)\<rparr>"

definition demo_op :: "tcg_opc \<Rightarrow> tcgarg list \<Rightarrow> tcgop" where
  "demo_op oc as = \<lparr>opc = oc, args = as, callo = 0, calli = 0, call_flags = 0\<rparr>"

definition demo_prefix :: "tcgop list" where
  "demo_prefix =
     [demo_op (Tcg (Op_rrr R_add I64)) [Arg (Tmp 1), Arg (Const I64 2), Arg (Const I64 3)],
      demo_op (Tcg (Op_host (H_st I64))) [Arg (Tmp 1), Arg (Tmp 0), Imm 16]]"

definition demo_block :: "tcgop list" where
  "demo_block = demo_prefix @
     [demo_op (Tcg Op_mb) [Imm 1],
      demo_op (Tcg (Op_host (H_ld I64))) [Arg (Tmp 2), Arg (Tmp 0), Imm 16],
      demo_op (Tcg Op_mb) [Imm 2],
      demo_op (Tcg (Op_brcond I64)) [Arg (Tmp 2), Arg (Const I64 5), Imm (zext32 TCG_COND_EQ), Imm 7],
      demo_op (Tcg Op_exit_tb) [Imm 1],
      demo_op Op_set_label [Imm 7],
      demo_op (Tcg Op_exit_tb) [Imm 0]]"

text \<open>What becomes of it: the load is a move, the branch is taken, the barriers are one.\<close>

definition demo_out :: "tcgop list" where
  "demo_out =
     [demo_op (Tcg (Op_rr U_mov I64)) [Arg (Tmp 1), Arg (Const I64 5), Arg (Const I64 3)],
      demo_op (Tcg (Op_host (H_st I64))) [Arg (Const I64 5), Arg (Tmp 0), Imm 16],
      demo_op (Tcg Op_mb) [Imm 3],
      demo_op (Tcg (Op_rr U_mov I64)) [Arg (Tmp 2), Arg (Const I64 5), Imm 16],
      demo_op (Tcg Op_br) [Imm 7, Arg (Const I64 5), Imm 8, Imm 7],
      demo_op (Tcg Op_exit_tb) [Imm 1],
      demo_op Op_set_label [Imm 7],
      demo_op (Tcg Op_exit_tb) [Imm 0]]"

definition demo_state :: "unit ir" where
  "demo_state = \<lparr>ivals = (\<lambda>n. 0), imem = (\<lambda>a. 0), iworld = ()\<rparr>"

definition is_exit :: "u64 \<Rightarrow> 'w ir_out option \<Rightarrow> bool" where
  "is_exit k r \<longleftrightarrow> (case r of Some (Exit oc vs \<sigma>) \<Rightarrow> oc = Tcg Op_exit_tb \<and> vs = [k] | _ \<Rightarrow> False)"

definition falls :: "'w ir_out \<Rightarrow> bool" where
  "falls r \<longleftrightarrow> (case r of Fall \<sigma> \<Rightarrow> True | _ \<Rightarrow> False)"

definition demo_after :: "unit ir" where
  "demo_after = the (out_state (exec_ops demo_env demo_prefix demo_state))"

lemma demo_optimized: "tcg_optimize (descs demo_env) (globals demo_env) (Tmp 0) demo_block = Some demo_out"
  by code_simp

lemma demo_loads: "loads_extended demo_env"
  by (simp add: loads_extended_def demo_env_def)

lemma demo_optimizable: "optimizable demo_env (Tmp 0) demo_block" "optimizable demo_env (Tmp 0) demo_prefix"
proof -
  have "list_all (wf_op (descs demo_env) (Tmp 0)) demo_block \<and> list_all calm demo_block" by code_simp
  moreover have "fixed_temp (descs demo_env 0)" by code_simp
  ultimately show "optimizable demo_env (Tmp 0) demo_block" "optimizable demo_env (Tmp 0) demo_prefix"
    using demo_loads by (simp_all add: optimizable_def demo_block_def)
qed

lemma demo_canon: "canon_state (descs demo_env) demo_state"
  by (simp add: canon_state_def demo_state_def)

lemma demo_exits: "is_exit 0 (run_tb demo_env demo_block 1 demo_block demo_state)"
  by code_simp

lemma demo_defined: "run_tb demo_env demo_block 1 demo_block demo_state \<noteq> Some Undef"
  using demo_exits by (auto simp: is_exit_def)

lemma demo_falls: "exec_ops demo_env demo_prefix demo_state = Fall demo_after"
proof -
  have "falls (exec_ops demo_env demo_prefix demo_state)" by code_simp
  then show ?thesis unfolding demo_after_def by (auto simp: falls_def split: ir_out.splits)
qed

section \<open>The properties\<close>

text \<open>
  C2.  The optimizer is right.  The code it returns for a block behaves like the block, from every state
  whose 32-bit variables are sign-extended: straight lines, taken branches (backward ones too) and the way
  out are the same, with the same final variables, memory and world; a run that takes more than \<open>n\<close>
  branches in one takes more than \<open>n\<close> in the other.  Excluded are runs of undefined meaning (a
  division by zero, a condition that is none).
\<close>

theorem tcg_optimize_sound:
  assumes "optimizable E env ops" "tcg_optimize (descs E) (globals E) env ops = Some out" "canon_state (descs E) \<sigma>"
    "run_tb E ops n ops \<sigma> \<noteq> Some Undef"
  shows "run_tb E out n out \<sigma> = run_tb E ops n ops \<sigma>"
  using optimized_run [OF assms] by blast

theorem tcg_optimize_sound_witness:
  "run_tb demo_env demo_out 1 demo_out demo_state = run_tb demo_env demo_block 1 demo_block demo_state
   \<and> is_exit 0 (run_tb demo_env demo_out 1 demo_out demo_state)"
  using tcg_optimize_sound [OF demo_optimizable(1) demo_optimized demo_canon demo_defined] demo_exits by simp



text \<open>
  C7.  No assertion of the optimizer fails on a block each of whose segments, up to the operation that
  ends a basic block, is gone through by some execution: the pass returns code.
\<close>

theorem tcg_optimize_asserts:
  assumes "optimizable E env (concat segs)" "list_all (live_segment E) segs"
  shows "\<exists>out. tcg_optimize (descs E) (globals E) env (concat segs) = Some out"
  using assms(1)
proof (rule optimizableD)
  fix b
  assume b: "ready b (start_context E env)" "list_all (shr_safe b) (concat segs)" "list_all (wf_op (descs E) env) (concat segs)"
    "pass_env E (start_context E env)" "env_ok (start_context E env)"
  have "clean b E env (start_context E env)" using b(1) by (simp add: clean_def same_descs_def)
  from segments_clean [OF this assms(2) b(2-5)] show ?thesis by (auto simp: clean_def tcg_optimize_Some)
qed

definition demo_segments :: "tcgop list list" where
  "demo_segments =
     [[demo_op (Tcg (Op_brcond I64)) [Arg (Tmp 1), Arg (Const I64 5), Imm (zext32 TCG_COND_EQ), Imm 7],
       demo_op (Tcg Op_exit_tb) [Imm 1]],
      [demo_op Op_set_label [Imm 7]],
      [demo_op (Tcg Op_exit_tb) [Imm 0]]]"

lemma demo_segments_live: "list_all (live_segment demo_env) demo_segments"
proof -
  let ?b = "demo_op (Tcg (Op_brcond I64)) [Arg (Tmp 1), Arg (Const I64 5), Imm (zext32 TCG_COND_EQ), Imm 7]"
  have "falls (exec_op demo_env ?b demo_state)" by code_simp
  then obtain \<sigma> where "exec_op demo_env ?b demo_state = Fall \<sigma>" by (auto simp: falls_def split: ir_out.splits)
  moreover have "exec_op demo_env (demo_op (Tcg Op_exit_tb) [Imm k]) \<sigma> \<noteq> Undef"
    "exec_op demo_env (demo_op Op_set_label [Imm k]) \<sigma> \<noteq> Undef" for k \<sigma>
    by (simp_all add: exec_op_def demo_op_def is_op1_def is_op2_def)
  moreover have "is_end (Tcg Op_exit_tb)" "is_end Op_set_label" by (simp_all add: is_end_def)
  ultimately show ?thesis
    using demo_canon by (auto simp: demo_segments_def live_segment_def demo_op_def)
qed

theorem tcg_optimize_asserts_witness:
  "\<exists>out. tcg_optimize (descs demo_env) (globals demo_env) (Tmp 0) (concat demo_segments) = Some out"
proof -
  have "list_all (wf_op (descs demo_env) (Tmp 0)) (concat demo_segments) \<and> list_all calm (concat demo_segments)
      \<and> fixed_temp (descs demo_env 0)" by code_simp
  then have "optimizable demo_env (Tmp 0) (concat demo_segments)" using demo_loads by (simp add: optimizable_def)
  from tcg_optimize_asserts [OF this demo_segments_live] show ?thesis .
qed

text \<open>
  C8.  Barriers keep their place.  The optimized code has the same accesses to the guest's memory, calls and
  labels in the same order, and between two of them it asks for the same kinds of memory barrier.
\<close>

theorem tcg_optimize_barriers:
  assumes "tcg_optimize ds g env ops = Some out" "list_all (\<lambda>o1. opc o1 = Tcg Op_mb \<longrightarrow> args o1 \<noteq> []) ops"
  shows "fences out = fences ops"
  using fences_pass [OF _ assms(2), of "opt_init ds g env"] assms(1)
  by (simp add: tcg_optimize_Some fences_def last_mb_ok_def opt_init_def)

theorem tcg_optimize_barriers_witness: "fences demo_out = fences demo_block \<and> fences demo_out = ([(3, Op_set_label)], 0)"
proof -
  have "list_all (\<lambda>o1. opc o1 = Tcg Op_mb \<longrightarrow> args o1 \<noteq> []) demo_block" by code_simp
  moreover have "fences demo_out = ([(3, Op_set_label)], 0)" by code_simp
  ultimately show ?thesis using tcg_optimize_barriers [OF demo_optimized] by simp
qed

text \<open>
  C9.  What the optimizer knows is true.  After the operations \<open>ops\<close>, in the state an execution
  reaches there: a variable recorded as constant has the recorded value, no bit outside the mask of possibly
  non-zero bits is set, the bits the sign mask claims to repeat the sign do, and the next variable in the
  ring of copies has the same type and value.
\<close>

theorem optimizer_facts_hold:
  assumes "optimizable E env ops" "canon_state (descs E) \<sigma>" "exec_ops E ops \<sigma> = Fall \<sigma>'"
    "c = optimize_ops ops (opt_init (descs E) (globals E) env)" "t \<in> set (temps_used c)"
  shows "(is_const (info c t) \<longrightarrow> tval \<sigma>' t = ti_val (info c t))
    \<and> (\<forall>i < width_bits (temp_type c t). bit (tval \<sigma>' t) i \<longrightarrow> bit (ti_z_mask (info c t)) i)
    \<and> (\<forall>i < 64. \<forall>j < 64. bit (ti_s_mask (info c t)) i \<and> i \<le> Suc j \<longrightarrow> bit (tval \<sigma>' t) j = bit (tval \<sigma>' t) 63)
    \<and> temp_type c (next_copy (info c t)) = temp_type c t \<and> tval \<sigma>' (next_copy (info c t)) = tval \<sigma>' t"
proof -
  have "opt_ok c \<sigma>'" using prefix_ok [OF assms(1,2)] assms(3,4) by (simp add: pass_result_def)
  then have "known_ok c \<sigma>' t" using opt_okD(2) assms(5) by blast
  then show ?thesis unfolding known_ok_def zmask_ok_def smask_ok_def by blast
qed

theorem optimizer_facts_hold_witness: "tval demo_after (Tmp 1) = 5"
proof -
  let ?c = "optimize_ops demo_prefix (opt_init (descs demo_env) (globals demo_env) (Tmp 0))"
  have "Tmp 1 \<in> set (temps_used ?c) \<and> is_const (info ?c (Tmp 1)) \<and> ti_val (info ?c (Tmp 1)) = 5" by code_simp
  then show ?thesis
    using optimizer_facts_hold [OF demo_optimizable(2) demo_canon demo_falls refl, of "Tmp 1"] by simp
qed

text \<open>
  C10.  Copies in memory are true.  A recorded copy of a field of the CPU state is what a load of its type
  from that field gives, whatever was stored before, by the operations or by helpers.
\<close>

theorem optimizer_memory_copies:
  assumes "optimizable E env ops" "canon_state (descs E) \<sigma>" "exec_ops E ops \<sigma> = Fall \<sigma>'"
    "c = optimize_ops ops (opt_init (descs E) (globals E) env)" "mc \<in> set (mem_copy c)"
  shows "tval \<sigma>' (mc_ts mc) = load_type (mc_type mc) (imem \<sigma>') (lo32 (tval \<sigma>' env) + lo32 (mc_start mc))"
proof -
  have ok: "opt_ok c \<sigma>'" using prefix_ok [OF assms(1,2)] assms(3,4) by (simp add: pass_result_def)
  have "tcg_env c = env" using prefix_env [OF assms(1)] assms(4) by simp
  then show ?thesis using opt_okD(4) [OF ok assms(5)] by (auto simp: mc_ok_def mc_span_def)
qed

theorem optimizer_memory_copies_witness:
  "tval demo_after (Const I64 5) = load_type I64 (imem demo_after) (lo32 (tval demo_after (Tmp 0)) + 16)"
proof -
  let ?c = "optimize_ops demo_prefix (opt_init (descs demo_env) (globals demo_env) (Tmp 0))"
  let ?mc = "\<lparr>mc_start = 16, mc_last = 23, mc_ts = Const I64 5, mc_type = I64\<rparr>"
  have "?mc \<in> set (mem_copy ?c)" by code_simp
  from optimizer_memory_copies [OF demo_optimizable(2) demo_canon demo_falls refl this] show ?thesis by simp
qed

text \<open>
  C14.  The optimizer's loops over a ring of copies end: from any variable in use, the walk that looks for the
  best copy and the walk that compares two variables come back to their start, after at most as many steps
  as there are variables in use.
\<close>

theorem ring_walks_end:
  assumes "optimizable E env ops" "canon_state (descs E) \<sigma>" "exec_ops E ops \<sigma> = Fall \<sigma>'"
    "c = optimize_ops ops (opt_init (descs E) (globals E) env)" "t \<in> set (temps_used c)"
  shows "\<exists>r r'. better_loop c (length (temps_used c)) t (next_copy (ts_info c t)) t = Some r
    \<and> copies_loop c (length (temps_used c)) t t' (next_copy (ts_info c t)) = Some r'"
proof -
  have "opt_ok c \<sigma>'" using prefix_ok [OF assms(1,2)] assms(3,4) by (simp add: pass_result_def)
  then obtain k where "k \<le> length (temps_used c)" "(nxt c ^^ k) (nxt c t) = t"
    using ring_walk_length [OF opt_okD(1)] assms(5) by blast
  then show ?thesis
    using better_loop_returns [of k c "nxt c t" t] copies_loop_returns [of k c "nxt c t" t] by (simp add: ts_info_def)
qed

theorem ring_walks_end_witness:
  "let c = optimize_ops demo_prefix (opt_init (descs demo_env) (globals demo_env) (Tmp 0))
   in \<exists>r. better_loop c (length (temps_used c)) (Tmp 1) (next_copy (ts_info c (Tmp 1))) (Tmp 1) = Some r"
proof -
  let ?c = "optimize_ops demo_prefix (opt_init (descs demo_env) (globals demo_env) (Tmp 0))"
  have "Tmp 1 \<in> set (temps_used ?c)" by code_simp
  then show ?thesis
    using ring_walks_end [OF demo_optimizable(2) demo_canon demo_falls refl, of "Tmp 1" "Tmp 0"] by (auto simp: Let_def)
qed

text \<open>
  C16.  Folding a comparison is right.  Where \<open>do_constant_folding_cond\<close> decides a comparison of two
  variables in use, from constants, from their being copies, or as an unsigned comparison with zero, the
  interpreter's comparison of their values has that result; and a comparison the interpreter accepts never
  runs into the folder's assertion.
\<close>

theorem comparison_folding_sound:
  assumes "optimizable E env ops" "canon_state (descs E) \<sigma>" "exec_ops E ops \<sigma> = Fall \<sigma>'"
    "c = optimize_ops ops (opt_init (descs E) (globals E) env)"
    "x \<in> set (temps_used c)" "temp_type c x = w" "y \<in> set (temps_used c)" "temp_type c y = w"
    "compare_value w (tval \<sigma>' x) (tval \<sigma>' y) k = Some b"
  shows "do_constant_folding_cond c w (Arg x) (Arg y) k \<in> {Unknown, Known b}"
proof -
  have "opt_ok c \<sigma>'" using prefix_ok [OF assms(1,2)] assms(3,4) by (simp add: pass_result_def)
  from constant_folding_cond_sound [OF this, of w "Arg x" "tval \<sigma>' x" "Arg y" "tval \<sigma>' y" k b] assms(5-9)
  have "cond_sound (do_constant_folding_cond c w (Arg x) (Arg y) k) b" by (simp add: arg_ok_def)
  then show ?thesis by (cases "do_constant_folding_cond c w (Arg x) (Arg y) k") simp_all
qed

theorem comparison_folding_sound_witness:
  "do_constant_folding_cond (optimize_ops demo_prefix (opt_init (descs demo_env) (globals demo_env) (Tmp 0))) I64
     (Arg (Tmp 1)) (Arg (Const I64 2)) TCG_COND_GT \<in> {Unknown, Known True}"
proof -
  let ?c = "optimize_ops demo_prefix (opt_init (descs demo_env) (globals demo_env) (Tmp 0))"
  have u: "Tmp 1 \<in> set (temps_used ?c)" "Const I64 2 \<in> set (temps_used ?c)" "temp_type ?c (Tmp 1) = I64"
    "temp_type ?c (Const I64 2) = I64" by code_simp+
  have "compare_value I64 (tval demo_after (Tmp 1)) (tval demo_after (Const I64 2)) TCG_COND_GT = Some True" by code_simp
  from comparison_folding_sound [OF demo_optimizable(2) demo_canon demo_falls refl u(1,3,2,4) this] show ?thesis .
qed

text \<open>
  C17.  Constant folding computes what the interpreter computes: for every binary operation whose result the
  interpreter defines, and for every unary one but the move, folding the operands gives that result, at 32
  bits in sign-extended form.
\<close>

theorem constant_folding_agrees:
  "(alu_rrr r w a b = Some v \<longrightarrow> do_constant_folding (Tcg (Op_rrr r w)) w a b = Some (canon w v))
   \<and> (u \<noteq> U_mov \<longrightarrow> do_constant_folding (Tcg (Op_rr u w)) w a 0 = Some (canon w (alu_rr u w a)))
   \<and> do_constant_folding (Tcg (Op_rr64 x)) I64 a 0 = Some (alu_rr64 x a)"
proof -
  have "u \<noteq> U_mov \<Longrightarrow> do_constant_folding (Tcg (Op_rr u w)) w a 0 = Some (canon w (alu_rr u w a))"
    by (cases u; cases w; simp add: do_constant_folding_canon Let_def)
  moreover have "do_constant_folding (Tcg (Op_rr64 x)) I64 a 0 = Some (alu_rr64 x a)"
    by (cases x) (simp_all add: do_constant_folding_canon)
  ultimately show ?thesis by (auto simp: do_constant_folding_canon dest: fold2_rrr_alu)
qed

theorem constant_folding_agrees_witness:
  "do_constant_folding (Tcg (Op_rrr R_divu I32)) I32 100 7 = Some 14
   \<and> do_constant_folding (Tcg (Op_rr U_ext8s I32)) I32 200 0 = Some (- 56)"
proof -
  have "alu_rrr R_divu I32 100 7 = Some 14" "canon I32 14 = 14" "canon I32 (alu_rr U_ext8s I32 200) = - 56" by code_simp+
  then show ?thesis using constant_folding_agrees [of R_divu I32 100 7 14 U_ext8s] constant_folding_agrees [of R_divu I32 200 7 14 U_ext8s]
    by simp
qed

end
