(* ===== verification/Opt_Flaw.thy ===== *)
theory Opt_Flaw
  imports Opt_Correct
begin

text \<open>
  Why the optimizer's theorems ask for no \<open>shr\<close> or for sign masks without bit 0.  \<open>fold_shift\<close> keeps the
  sign mask \<open>s\<close> of the operand of a \<open>shr\<close> by a variable when the operand's sign bit is known to be
  zero; it tests the bit below the lowest bit of \<open>s\<close>.  If that lowest bit is bit 0 there is no bit below
  it, the test asks nothing, and the mask is kept for an operand whose sign bit may be set.  A mask with bit
  0 arises when \<open>sextract\<close> takes a field out of the repeated sign bits.
\<close>

definition shr_block :: "tcgop list" where
  "shr_block =
     [demo_op (Tcg (Op_rr64 W_ext32s_i64)) [Arg (Tmp 1), Arg (Tmp 5)],
      demo_op (Tcg (Op_sextract I64)) [Arg (Tmp 2), Arg (Tmp 1), Imm 40, Imm 8],
      demo_op (Tcg (Op_rrr R_shr I64)) [Arg (Tmp 3), Arg (Tmp 2), Arg (Tmp 6)],
      demo_op (Tcg (Op_rr U_ext8s I64)) [Arg (Tmp 4), Arg (Tmp 3)]]"

text \<open>The sign extension of the result is optimized to a move.\<close>

definition shr_out :: "tcgop list" where
  "shr_out = take 3 shr_block @ [demo_op (Tcg (Op_rr U_mov I64)) [Arg (Tmp 4), Arg (Tmp 3)]]"

definition shr_state :: "unit ir" where
  "shr_state = \<lparr>ivals = (\<lambda>n. if n = 5 then - 1 else if n = 6 then 56 else 0), imem = (\<lambda>a. 0), iworld = ()\<rparr>"

definition result_var :: "nat \<Rightarrow> 'w ir_out \<Rightarrow> u64 option" where
  "result_var n r = map_option (\<lambda>\<sigma>. ivals \<sigma> n) (out_state r)"


end
