(* ===== verification/Spec2Isabelle.thy ===== *)
theory Spec2Isabelle
  imports IO_Guard Dispatcher Jit_Threads Opt_Flaw
begin

text \<open>
  \<^bold>\<open>Bootbox: the emulation engine\<close>

  Bootbox runs an x86-64 PC inside a browser view: QEMU 8.2 compiled to WebAssembly, with its
  own back end (\<open>src/engine/qemu-wasm/tcg/wasm32.c\<close> and \<open>tcg/wasm32/tcg-target.c.inc\<close>).
  QEMU translates a guest block to TCG code; the back end emits it twice, as words of an
  interpreted byte code (TCI) and as a wasm module. A block starts in the interpreter, is
  compiled once it is hot, and is evicted when too many modules are live.

  \<^bold>\<open>Theories\<close>

  \<^item> \<open>Prelude\<close>: words, byte memory and its loads and stores.
  \<^item> \<open>Bitops\<close>: \<open>include/qemu/bitops.h\<close>, \<open>host-utils.h\<close>, \<open>bswap.h\<close>.
  \<^item> \<open>TCI_Code\<close>: opcode numbers (\<open>include/tcg/tcg-opc.h\<close>).
  \<^item> \<open>TCI_Args\<close>: operand words, as emitted (\<open>tcg_tci_out_op_*\<close>, \<open>patch_reloc\<close>) and as decoded
    (\<open>tci_args_*\<close>), with the round trips.
  \<^item> \<open>TCG_Cond\<close>: conditions (\<open>include/tcg/tcg-cond.h\<close>) and the interpreter's comparisons.
  \<^item> \<open>TCI_Machine\<close>: registers, memory and globals the interpreters share, the TLB fast path,
    and the hooks (record \<open>tci_env\<close>) that stand for code the interpreters call.
  \<^item> \<open>TCI_Full\<close>: \<open>tcg_qemu_tb_exec_tci_full\<close>, opcode by opcode.
  \<^item> \<open>TCI_Hot\<close>: \<open>tci_hot_loop\<close>, \<open>tci_hot_call\<close>, \<open>tci_exec\<close>.
  \<^item> \<open>TCI_Equiv\<close>: the fast interpreter refines the full one.
  \<^item> \<open>IO_Guard\<close>: the guards that make a device access of the fast interpreter restart in the full
    one (\<open>accel/tcg/cputlb.c\<close>, \<open>target/i386/tcg/sysemu/misc_helper.c\<close>).
  \<^item> \<open>Tune\<close>: \<open>bootbox_tune_init\<close>.
  \<^item> \<open>Jit_Policy\<close>: per-core slots and the decision to compile.
  \<^item> \<open>Instance_Cache\<close>, \<open>Instance_Table\<close>: the table of compiled blocks of a thread: slots, clock eviction,
    the table as a map from blocks to functions (contract: locale \<open>code_cache\<close>).
  \<^item> \<open>Jit_Threads\<close>: the threads compiling side by side, as interleaved steps on the shared counters.
  \<^item> \<open>Dispatcher\<close>: \<open>tcg_qemu_tb_exec\<close> and \<open>trysleep\<close>.

  \<^bold>\<open>Theories of the optimizer\<close>

  Before the back end sees a block, \<open>tcg_optimize\<close> (\<open>tcg/optimize.c\<close>) rewrites its operations.

  \<^item> \<open>Opt_Masks\<close>, \<open>Opt_State\<close>, \<open>Opt_Fold\<close>: the pass.  Constant folding and masks; the context
    (\<open>OptContext\<close>, \<open>TempOptInfo\<close>, rings of copies, \<open>MemCopyInfo\<close>); every folding function and the
    loop.  A failed assertion sets \<open>trap\<close>.  Operations are lists of arguments; the list of operations
    being rewritten is split into the part behind (\<open>out_ops\<close>), the current operation and the rest.
  \<^item> \<open>Opt_Sem\<close>: the meaning of operations, with the interpreter's value functions; guest accesses,
    helpers and linked jumps are parameters (record \<open>ir_env\<close>).
  \<^item> \<open>Opt_Inv\<close>: what the context claims of a state (\<open>opt_ok\<close>), kept by the functions on rings.
  \<^item> \<open>Opt_Sound\<close>, \<open>Opt_Rules\<close>: the contract of a folder (\<open>folder_ok\<close>) and the rules shared by the
    folders; \<open>Opt_Ops\<close>, \<open>Opt_Bits\<close>, \<open>Opt_Fields\<close>, \<open>Opt_Shift\<close>, \<open>Opt_Cond\<close>: the folders of
    operations with one result; \<open>Opt_Wide\<close>: with two; \<open>Opt_Branch\<close>: branches and labels;
    \<open>Opt_Memory\<close>, \<open>Opt_Load\<close>: guest accesses, the CPU state in memory, calls; \<open>Opt_Step\<close>: well-formed
    operations and the turn of one operation.
  \<^item> \<open>Opt_Frame\<close>: what every folder keeps whatever the values; \<open>Opt_Pass\<close>: the loop, and runs of
    a block with branches; \<open>Opt_Barrier\<close>: the order memory barriers ask for.
  \<^item> \<open>Opt_Correct\<close>: the properties of the pass; \<open>Opt_Flaw\<close>: a block for which it is wrong, which is
    why the properties exclude some uses of \<open>shr\<close>.

  \<^bold>\<open>What the theorems show\<close>

  Encoding: operands and branch targets survive the interpreter's instruction words.  Execution: the fast
  interpreter computes what the full one computes, defers device accesses and performs them on the way
  back; a TLB hit is a mapped page.  Compilation: compiled code that is run is the current code of the
  block, hot blocks are compiled, eviction frees what it promises, the number of live modules is bounded in
  every interleaving of the threads.  Optimization: optimized blocks run like the original ones, knowledge
  recorded is true, walks over rings end, assertions hold, barriers keep their place.

  \<^bold>\<open>Fuel\<close>

  A block may loop for ever, so the interpreter loops take fuel and return \<open>None\<close> when it runs
  out. Theorems that a run returns say so: enough fuel gives \<open>Some\<close>.  The fuel of \<open>run_tb\<close> counts
  taken branches; the theorem on the optimizer is an equation for every amount.  The walks over rings have
  the number of temporaries in use as fuel, and are proved to need no more.

  \<^bold>\<open>Not modelled\<close>

  \<^item> The vector cases of the optimizer: the target has no vector registers.
  \<^item> The front end (\<open>target/i386/tcg/translate.c\<close>), liveness and register allocation (\<open>tcg/tcg.c\<close>):
    the optimizer's theorems assume what the front end builds (\<open>wf_op\<close>), the interpreter's start
    from encoded instructions.
  \<^item> The wasm modules themselves and the JavaScript in \<open>EM_JS\<close> bodies: their meaning is that of the
    browser engine; what the dispatcher relies on is a named hypothesis.
  \<^item> The slow path of guest accesses beyond the guards, helpers, devices, block layer and network:
    upstream code behind the hooks of \<open>tci_env\<close> and \<open>ir_env\<close>.
  \<^item> The Swift application and its web pages: user interface and I/O.
\<close>

end
